(* ===== verification/Prelude.thy ===== *)
theory Prelude
  imports Main "HOL-Library.Word" "HOL-Library.Multiset" "HOL-Library.Monad_Syntax"
begin

section \<open>Prelude: Rust integers, results and the lemmas the components share\<close>

text \<open>
  The types and operations of Rust that every component uses, and the generic facts about
  them.

  \<^item> Machine integers are words of the source's width. Plain \<open>+\<close>, \<open>-\<close> and \<open>*\<close> wrap, as they
    do in the release profile of the workspace (no \<open>overflow-checks\<close> in \<open>src/Cargo.toml\<close>);
    \<open>checked_*\<close>, \<open>saturating_*\<close> and \<open>wrapping_*\<close> follow the standard library.
  \<^item> A public key or a hash is an array of 32 bytes. Its derived order is the lexicographic
    order of the bytes, that is, the order of the 256-bit number they spell, so both are
    \<open>256 word\<close>.
  \<^item> A call that may panic returns an \<open>option\<close>, with \<open>None\<close> for the panic; a \<open>Result\<close> is a sum
    with the error on the left.
\<close>

type_synonym u8 = "8 word"
type_synonym u16 = "16 word"
type_synonym u32 = "32 word"
type_synonym u64 = "64 word"
type_synonym u128 = "128 word"

type_synonym pubkey = "256 word"
type_synonym hash = "256 word"
type_synonym slot = u64
type_synonym epoch = u64

named_theorems unat_ops \<open>the Rust integer operations, read as natural numbers\<close>
named_theorems panic_free \<open>operations that return a value on the states that satisfy their invariant\<close>

subsection \<open>Integer operations of the standard library\<close>

definition checked_add :: "'a::len word \<Rightarrow> 'a word \<Rightarrow> 'a word option" where
  "checked_add a b = (if unat a + unat b < 2 ^ LENGTH('a) then Some (a + b) else None)"

definition checked_sub :: "'a::len word \<Rightarrow> 'a word \<Rightarrow> 'a word option" where
  "checked_sub a b = (if b \<le> a then Some (a - b) else None)"

definition checked_mul :: "'a::len word \<Rightarrow> 'a word \<Rightarrow> 'a word option" where
  "checked_mul a b = (if unat a * unat b < 2 ^ LENGTH('a) then Some (a * b) else None)"

definition saturating_add :: "'a::len word \<Rightarrow> 'a word \<Rightarrow> 'a word" where
  "saturating_add a b = (if unat a + unat b < 2 ^ LENGTH('a) then a + b else - 1)"

definition saturating_sub :: "'a::len word \<Rightarrow> 'a word \<Rightarrow> 'a word" where
  "saturating_sub a b = (if b \<le> a then a - b else 0)"

definition saturating_mul :: "'a::len word \<Rightarrow> 'a word \<Rightarrow> 'a word" where
  "saturating_mul a b = (if unat a * unat b < 2 ^ LENGTH('a) then a * b else - 1)"

lemma unat_max_word: "unat (- 1 :: 'a::len word) = 2 ^ LENGTH('a) - 1"
  by (simp add: unsigned_minus_1_eq_mask mask_eq_exp_minus_1)

lemma unat_le_max: "unat (a :: 'a::len word) \<le> 2 ^ LENGTH('a) - 1"
proof -
  have "unat a < 2 ^ LENGTH('a)"
    by (rule unsigned_less)
  then show ?thesis
    by linarith
qed

lemma unat_add_no_overflow:
  "unat a + unat b < 2 ^ LENGTH('a) \<Longrightarrow> unat (a + b) = unat a + unat (b :: 'a::len word)"
  by (simp add: unat_word_ariths)

lemma unat_sub_no_underflow:
  "b \<le> a \<Longrightarrow> unat (a - b) = unat a - unat (b :: 'a::len word)"
  by (rule unat_sub)

lemma unat_mul_no_overflow:
  "unat a * unat b < 2 ^ LENGTH('a) \<Longrightarrow> unat (a * b) = unat a * unat (b :: 'a::len word)"
  by (simp add: unat_word_ariths)

lemma unat_saturating_add [unat_ops]:
  "unat (saturating_add a b) = min (unat a + unat b) (2 ^ LENGTH('a) - 1)"
  for a b :: "'a::len word"
  by (auto simp: saturating_add_def unat_add_no_overflow unat_max_word)

lemma unat_saturating_sub [unat_ops]:
  "unat (saturating_sub a b) = unat a - unat b" for a b :: "'a::len word"
  by (auto simp: saturating_sub_def unat_sub_no_underflow word_le_nat_alt)

lemma unat_saturating_mul [unat_ops]:
  "unat (saturating_mul a b) = min (unat a * unat b) (2 ^ LENGTH('a) - 1)"
  for a b :: "'a::len word"
  by (auto simp: saturating_mul_def unat_mul_no_overflow unat_max_word)

lemma checked_add_Some [unat_ops]:
  "checked_add a b = Some c \<longleftrightarrow>
     unat a + unat b < 2 ^ LENGTH('a) \<and> unat c = unat a + unat b" for a b c :: "'a::len word"
  by (auto simp: checked_add_def word_unat_eq_iff unat_add_no_overflow)

lemma checked_sub_Some [unat_ops]:
  "checked_sub a b = Some c \<longleftrightarrow> unat b \<le> unat a \<and> unat c = unat a - unat b"
  for a b c :: "'a::len word"
  by (auto simp: checked_sub_def word_unat_eq_iff unat_sub_no_underflow word_le_nat_alt)

lemma checked_add_None [unat_ops]:
  "checked_add a b = None \<longleftrightarrow> 2 ^ LENGTH('a) \<le> unat a + unat b" for a b :: "'a::len word"
  by (auto simp: checked_add_def)

lemma checked_sub_None [unat_ops]:
  "checked_sub a b = None \<longleftrightarrow> unat a < unat b" for a b :: "'a::len word"
  by (auto simp: checked_sub_def word_le_nat_alt)

lemma saturating_add_mono: "a \<le> a' \<Longrightarrow> saturating_add a b \<le> saturating_add a' b"
  by (auto simp: word_le_nat_alt unat_saturating_add)

lemma saturating_add_mono_right: "b \<le> b' \<Longrightarrow> saturating_add a b \<le> saturating_add a b'"
  by (auto simp: word_le_nat_alt unat_saturating_add)

lemma saturating_add_ge: "a \<le> saturating_add a b"
  using unat_le_max [of a] by (auto simp: word_le_nat_alt unat_saturating_add)

lemma saturating_sub_le: "saturating_sub a b \<le> a"
  by (auto simp: word_le_nat_alt unat_saturating_sub)

subsection \<open>Loops that may panic\<close>

text \<open>A \<open>for\<close> loop over a list whose body changes a state and may panic.\<close>

primrec foldM :: "('x \<Rightarrow> 's \<Rightarrow> 's option) \<Rightarrow> 'x list \<Rightarrow> 's \<Rightarrow> 's option" where
  "foldM f [] s = Some s"
| "foldM f (x # xs) s = Option.bind (f x s) (foldM f xs)"

lemma foldM_append: "foldM f (xs @ ys) s = Option.bind (foldM f xs s) (foldM f ys)"
  by (induction xs arbitrary: s) (auto split: bind_splits)

lemma foldM_Some: "foldM (\<lambda>x s. Some (f x s)) xs s = Some (fold f xs s)"
  by (induction xs arbitrary: s) auto

lemma foldM_map: "foldM f (map g xs) = foldM (\<lambda>x. f (g x)) xs"
proof
  show "foldM f (map g xs) s = foldM (\<lambda>x. f (g x)) xs s" for s
    by (induction xs arbitrary: s) (auto split: bind_splits)
qed

lemma foldM_cong [fundef_cong]:
  "xs = ys \<Longrightarrow> s = t \<Longrightarrow> (\<And>x s. x \<in> set ys \<Longrightarrow> f x s = g x s) \<Longrightarrow> foldM f xs s = foldM g ys t"
  by (induction xs arbitrary: ys s t) (auto intro!: Option.bind_cong)

text \<open>The invariant rule of such a loop: a step that cannot panic and keeps the invariant.\<close>

lemma foldM_invariant:
  assumes "P xs s"
    and "\<And>x xs s. P (x # xs) s \<Longrightarrow> \<exists>s'. f x s = Some s' \<and> P xs s'"
  shows "\<exists>s'. foldM f xs s = Some s' \<and> P [] s'"
  using assms(1)
proof (induction xs arbitrary: s)
  case Nil
  then show ?case by simp
next
  case (Cons x xs)
  then obtain s' where "f x s = Some s'" and "P xs s'"
    using assms(2) by blast
  then show ?case
    using Cons.IH by simp
qed

lemma foldM_preserves:
  assumes "foldM f xs s = Some s'" and "I s"
    and "\<And>x s s'. x \<in> set xs \<Longrightarrow> I s \<Longrightarrow> f x s = Some s' \<Longrightarrow> I s'"
  shows "I s'"
  using assms
proof (induction xs arbitrary: s)
  case Nil
  then show ?case by simp
next
  case (Cons x xs)
  then obtain t where "f x s = Some t" and "foldM f xs t = Some s'"
    by (auto simp: bind_eq_Some_conv)
  with Cons show ?case
    by (metis list.set_intros)
qed

subsection \<open>Errors\<close>

text \<open>The errors of the crates \<open>solana-instruction-error\<close> and \<open>solana-transaction-error\<close> that the modelled code returns.\<close>

datatype instruction_error =
    GenericError
  | InvalidArgument
  | InvalidInstructionData
  | InvalidAccountData
  | AccountDataTooSmall
  | InsufficientFunds
  | MissingRequiredSignature
  | AccountAlreadyInitialized
  | UninitializedAccount
  | UnbalancedInstruction
  | ModifiedProgramId
  | ExternalAccountLamportSpend
  | ExternalAccountDataModified
  | ReadonlyLamportChange
  | ReadonlyDataModified
  | ExecutableModified
  | ExecutableAccountNotRentExempt
  | AccountBorrowFailed
  | AccountBorrowOutstanding
  | MissingAccount
  | CallDepth
  | InvalidRealloc
  | MaxAccountsDataAllocationsExceeded
  | MaxInstructionTraceLengthExceeded
  | ArithmeticOverflow
  | InvalidAccountOwner
  | UnsupportedSysvar
  | AccountNotRentExempt
  | ComputationalBudgetExceeded
  | PrivilegeEscalation
  | ReentrancyNotAllowed
  | UnsupportedProgramId
  | BuiltinProgramsMustConsumeComputeUnits
  | Custom u32

datatype transaction_error =
    AccountInUse
  | AccountLoadedTwice
  | TooManyAccountLocks
  | AccountNotFound
  | ProgramAccountNotFound
  | InvalidAccountForFee
  | InsufficientFundsForFee
  | BlockhashNotFound
  | InvalidProgramForExecution
  | MaxLoadedAccountsDataSizeExceeded
  | InsufficientFundsForRent u8
  | InstructionError u8 instruction_error
  | UnbalancedTransaction
  | ProgramCacheHitMaxLimit
  | CommitCancelled

text \<open>The rent of the crate \<open>solana-rent\<close>.\<close>

record rent =
  rent_is_exempt :: "u64 \<Rightarrow> nat \<Rightarrow> bool"
  rent_min_balance :: "nat \<Rightarrow> u64"

subsection \<open>Results\<close>

lemma map_sum_Inr_iff: "map_sum f g x = Inr y \<longleftrightarrow> (\<exists>z. x = Inr z \<and> y = g z)"
  by (cases x) auto

text \<open>A field of an updated list.\<close>

lemma nth_update_field:
  "f (xs[i := x] ! j) = (if i = j \<and> i < length xs then f x else f (xs ! j))"
  by (cases "i < length xs") (auto simp: list_update_beyond not_less)

end
