(* ===== verification/Lock_Table.thy ===== *)
theory Lock_Table
  imports Prelude
begin

section \<open>The interface of a counted lock table\<close>

text \<open>
  Two components keep counted account locks: the accounts database
  (\<open>src/accounts-db/src/account_locks.rs\<close>) and the banking-stage schedulers
  (\<open>src/scheduling-utils/src/thread_aware_account_locks.rs\<close>). Each of them represents the
  multiset of the locks that are held at the moment: the locale fixes the operation that
  takes one lock, the one that releases it, the relation between a table and the multiset it
  represents, and when a lock may be taken; what a client may conclude about the loops over
  all the accounts of a transaction is proved once here.
\<close>

locale counted_locks =
  fixes take1 :: "'x \<Rightarrow> 's \<Rightarrow> 's option"
    and release1 :: "'x \<Rightarrow> 's \<Rightarrow> 's option"
    and rep :: "'s \<Rightarrow> 'x multiset \<Rightarrow> bool"
    and grantable :: "'x \<Rightarrow> 'x multiset \<Rightarrow> bool"
  assumes take1_rep:
      "rep s H \<Longrightarrow> grantable x H \<Longrightarrow> \<exists>s'. take1 x s = Some s' \<and> rep s' (add_mset x H)"
    and release1_rep:
      "rep s (add_mset x H) \<Longrightarrow> \<exists>s'. release1 x s = Some s' \<and> rep s' H"
    and rep_unique: "rep s H \<Longrightarrow> rep s' H \<Longrightarrow> s = s'"
begin

primrec grantable_all :: "'x list \<Rightarrow> 'x multiset \<Rightarrow> bool" where
  "grantable_all [] H = True"
| "grantable_all (x # xs) H = (grantable x H \<and> grantable_all xs (add_mset x H))"

lemma take_all_rep:
  assumes "rep s H" and "grantable_all xs H"
  shows "\<exists>s'. foldM take1 xs s = Some s' \<and> rep s' (mset xs + H)"
  using assms
proof (induction xs arbitrary: s H)
  case Nil
  then show ?case by simp
next
  case (Cons x xs)
  then obtain t where "take1 x s = Some t" and "rep t (add_mset x H)"
    using take1_rep by force
  then show ?case
    using Cons.IH [of t "add_mset x H"] Cons.prems(2) by auto
qed

lemma release_all_rep:
  assumes "rep s (mset xs + H)"
  shows "\<exists>s'. foldM release1 xs s = Some s' \<and> rep s' H"
  using assms
proof (induction xs arbitrary: s)
  case Nil
  then show ?case by simp
next
  case (Cons x xs)
  then obtain t where "release1 x s = Some t" and "rep t (mset xs + H)"
    using release1_rep [of s x "mset xs + H"] by auto
  then show ?case
    using Cons.IH by simp
qed

text \<open>
  Releasing the locks a transaction took, in any order, gives back the very table it started
  from.
\<close>

lemma take_release_roundtrip:
  assumes "rep s H" and "grantable_all xs H" and "mset ys = mset xs"
  shows "Option.bind (foldM take1 xs s) (foldM release1 ys) = Some s"
proof -
  obtain t where t: "foldM take1 xs s = Some t" "rep t (mset ys + H)"
    using take_all_rep [OF assms(1,2)] assms(3) by auto
  obtain u where "foldM release1 ys t = Some u" "rep u H"
    using release_all_rep [OF t(2)] by auto
  with t assms(1) show ?thesis
    using rep_unique by auto
qed

end

end
