(* ===== verification/Account_Locks.thy ===== *)
theory Account_Locks
  imports Lock_Table
begin

section \<open>Account locks of the accounts database\<close>

text \<open>
  The lock table of \<open>src/accounts-db/src/account_locks.rs\<close>: for each account the number of
  read locks and the number of write locks, taken for the transactions of a batch and
  released after they have been committed. The two hash maps are maps from keys to \<open>u64\<close>
  counts; the increments and decrements wrap. A key of a transaction is a pair of the
  account's key and whether the transaction writes it.
\<close>

type_synonym lock_key = "pubkey \<times> bool"

record account_locks =
  write_locks :: "pubkey \<rightharpoonup> u64"
  readonly_locks :: "pubkey \<rightharpoonup> u64"

definition default_account_locks :: account_locks where
  "default_account_locks = \<lparr>write_locks = Map.empty, readonly_locks = Map.empty\<rparr>"

definition is_locked_readonly :: "account_locks \<Rightarrow> pubkey \<Rightarrow> bool" where
  "is_locked_readonly self key =
     (case readonly_locks self key of None \<Rightarrow> False | Some cnt \<Rightarrow> cnt > 0)"

definition is_locked_write :: "account_locks \<Rightarrow> pubkey \<Rightarrow> bool" where
  "is_locked_write self key =
     (case write_locks self key of None \<Rightarrow> False | Some cnt \<Rightarrow> cnt > 0)"

definition can_read_lock :: "account_locks \<Rightarrow> pubkey \<Rightarrow> bool" where
  "can_read_lock self key \<longleftrightarrow> \<not> is_locked_write self key"

definition can_write_lock :: "account_locks \<Rightarrow> pubkey \<Rightarrow> bool" where
  "can_write_lock self key \<longleftrightarrow> \<not> is_locked_readonly self key \<and> \<not> is_locked_write self key"

definition or_default :: "u64 option \<Rightarrow> u64" where
  "or_default entry = (case entry of None \<Rightarrow> 0 | Some cnt \<Rightarrow> cnt)"

definition lock_readonly :: "pubkey \<Rightarrow> account_locks \<Rightarrow> account_locks" where
  "lock_readonly key self =
     self\<lparr>readonly_locks := (readonly_locks self)(key \<mapsto> or_default (readonly_locks self key) + 1)\<rparr>"

definition lock_write :: "pubkey \<Rightarrow> account_locks \<Rightarrow> account_locks" where
  "lock_write key self =
     self\<lparr>write_locks := (write_locks self)(key \<mapsto> or_default (write_locks self key) + 1)\<rparr>"

text \<open>
  Releasing a lock that is not held trips a \<open>debug_assert\<close> in a debug build; a release build
  leaves the table as it is.
\<close>

definition unlock_readonly :: "pubkey \<Rightarrow> account_locks \<Rightarrow> account_locks" where
  "unlock_readonly key self =
     (case readonly_locks self key of
        Some cnt \<Rightarrow>
          (if cnt - 1 = 0 then self\<lparr>readonly_locks := (readonly_locks self)(key := None)\<rparr>
           else self\<lparr>readonly_locks := (readonly_locks self)(key \<mapsto> cnt - 1)\<rparr>)
      | None \<Rightarrow> self)"

definition unlock_write :: "pubkey \<Rightarrow> account_locks \<Rightarrow> account_locks" where
  "unlock_write key self =
     (case write_locks self key of
        Some cnt \<Rightarrow>
          (if cnt - 1 = 0 then self\<lparr>write_locks := (write_locks self)(key := None)\<rparr>
           else self\<lparr>write_locks := (write_locks self)(key \<mapsto> cnt - 1)\<rparr>)
      | None \<Rightarrow> self)"

definition lock_account :: "lock_key \<Rightarrow> account_locks \<Rightarrow> account_locks" where
  "lock_account = (\<lambda>(key, writable) self.
     if writable then lock_write key self else lock_readonly key self)"

definition unlock_account :: "lock_key \<Rightarrow> account_locks \<Rightarrow> account_locks" where
  "unlock_account = (\<lambda>(key, writable) self.
     if writable then unlock_write key self else unlock_readonly key self)"

fun can_lock_accounts :: "account_locks \<Rightarrow> lock_key list \<Rightarrow> transaction_error + unit" where
  "can_lock_accounts self [] = Inr ()"
| "can_lock_accounts self ((key, writable) # keys) =
     (if writable then
        (if \<not> can_write_lock self key then Inl AccountInUse else can_lock_accounts self keys)
      else if \<not> can_read_lock self key then Inl AccountInUse
      else can_lock_accounts self keys)"

definition lock_accounts :: "lock_key list \<Rightarrow> account_locks \<Rightarrow> account_locks" where
  "lock_accounts keys self = fold lock_account keys self"

definition unlock_accounts :: "lock_key list \<Rightarrow> account_locks \<Rightarrow> account_locks" where
  "unlock_accounts keys self = fold unlock_account keys self"

text \<open>
  A batch is checked as a whole against the locks held before it, then the transactions that
  passed are locked in order.
\<close>

type_synonym batch = "(transaction_error + lock_key list) list"

definition check_batch :: "account_locks \<Rightarrow> batch \<Rightarrow> batch" where
  "check_batch self = map (\<lambda>validated_keys.
     case validated_keys of
       Inl e \<Rightarrow> Inl e
     | Inr keys \<Rightarrow> (case can_lock_accounts self keys of Inl e \<Rightarrow> Inl e | Inr _ \<Rightarrow> Inr keys))"

fun lock_batch :: "batch \<Rightarrow> account_locks \<Rightarrow> (transaction_error + unit) list \<times> account_locks" where
  "lock_batch [] self = ([], self)"
| "lock_batch (Inl e # rest) self = (let (results, self') = lock_batch rest self in (Inl e # results, self'))"
| "lock_batch (Inr keys # rest) self =
     (let (results, self') = lock_batch rest (lock_accounts keys self) in (Inr () # results, self'))"

definition try_lock_transaction_batch ::
  "batch \<Rightarrow> account_locks \<Rightarrow> (transaction_error + unit) list \<times> account_locks" where
  "try_lock_transaction_batch validated_batch_keys self =
     lock_batch (check_batch self validated_batch_keys) self"

subsection \<open>Validation of the keys of one transaction\<close>

definition USE_ACCOUNT_LOCK_SET_SIZE :: nat where
  "USE_ACCOUNT_LOCK_SET_SIZE = 32"

text \<open>
  \<open>HAS_DUPLICATES_SET\<close>, the set that a thread keeps between calls, is passed in and out: \<open>any\<close> over the
  keys inserts each of them into it and stops at the first that was already there.
\<close>

fun any_already_in_set :: "pubkey list \<Rightarrow> pubkey set \<Rightarrow> bool \<times> pubkey set" where
  "any_already_in_set [] s = (False, s)"
| "any_already_in_set (key # keys) s = (if key \<in> s then (True, s) else any_already_in_set keys (insert key s))"

text \<open>The check with the set, which is cleared at the end.\<close>

definition has_duplicates_by_set :: "pubkey list \<Rightarrow> pubkey set \<Rightarrow> bool \<times> pubkey set" where
  "has_duplicates_by_set account_keys s =
     (let (found, s) = any_already_in_set account_keys s; s = {} in (found, s))"

definition any_equal_pair :: "pubkey list \<Rightarrow> bool" where
  "any_equal_pair keys =
     list_ex (\<lambda>idx. list_ex (\<lambda>jdx. keys ! idx = keys ! jdx) [idx + 1..<length keys]) [0..<length keys]"

definition has_duplicates :: "pubkey list \<Rightarrow> pubkey set \<Rightarrow> bool \<times> pubkey set" where
  "has_duplicates account_keys s =
     (if length account_keys \<ge> USE_ACCOUNT_LOCK_SET_SIZE then has_duplicates_by_set account_keys s
      else (any_equal_pair account_keys, s))"

definition validate_account_locks :: "pubkey list \<Rightarrow> nat \<Rightarrow> pubkey set \<Rightarrow> (transaction_error + unit) \<times> pubkey set" where
  "validate_account_locks account_keys tx_account_lock_limit s =
     (if length account_keys > tx_account_lock_limit then (Inl TooManyAccountLocks, s)
      else case has_duplicates account_keys s of
             (found, s) \<Rightarrow> (if found then Inl AccountLoadedTwice else Inr (), s))"

subsection \<open>What a table represents\<close>

definition entry_of :: "nat \<Rightarrow> u64 option" where
  "entry_of n = (if n = 0 then None else Some (of_nat n))"

definition represents_locks :: "account_locks \<Rightarrow> lock_key multiset \<Rightarrow> bool" where
  "represents_locks self H \<longleftrightarrow>
     write_locks self = (\<lambda>k. entry_of (count H (k, True))) \<and>
     readonly_locks self = (\<lambda>k. entry_of (count H (k, False))) \<and>
     (\<forall>k w. count H (k, w) < 2 ^ 64)"

definition countable_lock :: "lock_key \<Rightarrow> lock_key multiset \<Rightarrow> bool" where
  "countable_lock x H \<longleftrightarrow> Suc (count H x) < 2 ^ 64"

text \<open>The specification: a lock conflicts when one side of it writes.\<close>

definition conflicts :: "lock_key \<Rightarrow> lock_key multiset \<Rightarrow> bool" where
  "conflicts = (\<lambda>(k, w) H. (k, True) \<in># H \<or> w \<and> (k, False) \<in># H)"

definition spec_check :: "lock_key multiset \<Rightarrow> transaction_error + lock_key list \<Rightarrow> transaction_error + unit" where
  "spec_check H tx =
     (case tx of
        Inl e \<Rightarrow> Inl e
      | Inr keys \<Rightarrow> (if list_ex (\<lambda>x. conflicts x H) keys then Inl AccountInUse else Inr ()))"

definition granted :: "lock_key multiset \<Rightarrow> batch \<Rightarrow> lock_key list" where
  "granted H batch =
     concat (map (\<lambda>tx. case tx of Inl e \<Rightarrow> [] | Inr keys \<Rightarrow> if spec_check H tx = Inr () then keys else []) batch)"

lemma entry_of_0 [simp]: "entry_of 0 = None"
  by (simp add: entry_of_def)

lemma of_nat_u64_eq_0: "n < 2 ^ 64 \<Longrightarrow> (of_nat n :: u64) = 0 \<longleftrightarrow> n = 0"
  by (auto simp: word_of_nat_eq_0_iff dest: nat_dvd_not_less)

lemma entry_of_Suc [simp]: "entry_of (Suc n) = Some (of_nat (Suc n))"
  by (simp add: entry_of_def)

lemma or_default_add1 [simp]: "or_default (entry_of n) + 1 = of_nat (Suc n)"
  by (auto simp: entry_of_def or_default_def)

lemma entry_of_nonzero: "n \<noteq> 0 \<Longrightarrow> entry_of n = Some (of_nat n)"
  by (simp add: entry_of_def)

lemma entry_of_positive:
  "n < 2 ^ 64 \<Longrightarrow> (case entry_of n of None \<Rightarrow> False | Some c \<Rightarrow> c > 0) \<longleftrightarrow> 0 < n"
  by (auto simp: entry_of_def word_neq_0_conv [symmetric] of_nat_u64_eq_0)

lemma represents_locksD:
  assumes "represents_locks s H"
  shows "write_locks s k = entry_of (count H (k, True))"
    and "readonly_locks s k = entry_of (count H (k, False))"
    and "count H (k, w) < 2 ^ 64"
  using assms by (auto simp: represents_locks_def)

lemma lock_account_represents:
  assumes "represents_locks s H" and "countable_lock x H"
  shows "represents_locks (lock_account x s) (add_mset x H)"
  using assms
  by (cases x) (auto simp: represents_locks_def countable_lock_def lock_account_def lock_write_def
      lock_readonly_def fun_eq_iff simp del: of_nat_Suc split: if_splits)

lemma unlock_account_represents:
  assumes "represents_locks s (add_mset x H)"
  shows "represents_locks (unlock_account x s) H"
proof -
  obtain k w where x: "x = (k, w)"
    by (cases x)
  have bound: "count H (j, v) < 2 ^ 64" for j v
    using represents_locksD(3) [OF assms, of j v] by (simp split: if_splits)
  have zero: "(of_nat (count H (j, v)) :: u64) = 0 \<longleftrightarrow> count H (j, v) = 0" for j v
    using bound by (rule of_nat_u64_eq_0)
  show ?thesis
    using assms bound unfolding x
    by (cases w) (auto simp: represents_locks_def unlock_account_def unlock_write_def
        unlock_readonly_def fun_eq_iff zero entry_of_nonzero)
qed

lemma represents_locks_unique: "represents_locks s H \<Longrightarrow> represents_locks s' H \<Longrightarrow> s = s'"
  by (simp add: represents_locks_def)

interpretation al: counted_locks
  "\<lambda>x s. Some (lock_account x s)" "\<lambda>x s. Some (unlock_account x s)" represents_locks countable_lock
  by unfold_locales
    (auto simp: lock_account_represents unlock_account_represents intro: represents_locks_unique)

subsection \<open>Locking a batch refines the specification\<close>

lemma grantable_allI:
  assumes "\<And>x. count H x + count (mset xs) x < 2 ^ 64"
  shows "al.grantable_all xs H"
  using assms
proof (induction xs arbitrary: H)
  case Nil
  then show ?case by simp
next
  case (Cons x xs)
  have "countable_lock x H"
    using Cons.prems [of x] by (simp add: countable_lock_def)
  moreover have "count (add_mset x H) y + count (mset xs) y < 2 ^ 64" for y
    using Cons.prems [of y] by (simp split: if_splits)
  ultimately show ?case
    using Cons.IH by simp
qed

lemma lock_accounts_represents:
  assumes "represents_locks s H" and "\<And>x. count H x + count (mset keys) x < 2 ^ 64"
  shows "represents_locks (lock_accounts keys s) (mset keys + H)"
  using al.take_all_rep [OF assms(1) grantable_allI [OF assms(2)]]
  by (simp add: foldM_Some lock_accounts_def)

lemma is_locked_iff:
  assumes "represents_locks s H"
  shows "is_locked_write s k \<longleftrightarrow> (k, True) \<in># H"
    and "is_locked_readonly s k \<longleftrightarrow> (k, False) \<in># H"
  using represents_locksD [OF assms]
  by (simp_all add: is_locked_write_def is_locked_readonly_def entry_of_positive)

lemma can_lock_accounts_spec:
  assumes "represents_locks s H"
  shows "can_lock_accounts s keys =
    (if list_ex (\<lambda>x. conflicts x H) keys then Inl AccountInUse else Inr ())"
  using is_locked_iff [OF assms]
  by (induction keys) (auto simp: can_write_lock_def can_read_lock_def conflicts_def split: if_splits)

lemma lock_batch_eq:
  "lock_batch b s =
     (map (\<lambda>tx. case tx of Inl e \<Rightarrow> Inl e | Inr _ \<Rightarrow> Inr ()) b,
      lock_accounts (concat (map (\<lambda>tx. case tx of Inl e \<Rightarrow> [] | Inr keys \<Rightarrow> keys) b)) s)"
  by (induction b s rule: lock_batch.induct) (auto simp: lock_accounts_def)

text \<open>
  C20. Locking a batch against a table that represents the held locks \<open>H\<close> answers for each
  transaction what the specification says (an earlier validation error is passed on, a key
  that conflicts with a lock held before the batch gives \<open>AccountInUse\<close>), and leaves a table
  that represents \<open>H\<close> together with the locks of exactly the transactions that were granted.
\<close>

theorem try_lock_transaction_batch_refines:
  assumes "represents_locks s H"
    and "\<And>x. count H x + count (mset (granted H batch)) x < 2 ^ 64"
  shows "fst (try_lock_transaction_batch batch s) = map (spec_check H) batch \<and>
    represents_locks (snd (try_lock_transaction_batch batch s)) (mset (granted H batch) + H)"
proof (rule conjI)
  have check: "check_batch s batch = map (\<lambda>tx. case tx of Inl e \<Rightarrow> Inl e
      | Inr keys \<Rightarrow> if list_ex (\<lambda>x. conflicts x H) keys then Inl AccountInUse else Inr keys) batch"
    by (auto simp: check_batch_def can_lock_accounts_spec [OF assms(1)] split: sum.splits)
  then show "fst (try_lock_transaction_batch batch s) = map (spec_check H) batch"
    by (auto simp: try_lock_transaction_batch_def lock_batch_eq spec_check_def split: sum.splits)
  have "concat (map (\<lambda>tx. case tx of Inl e \<Rightarrow> [] | Inr keys \<Rightarrow> keys) (check_batch s batch)) =
      granted H batch"
    unfolding check granted_def
    by (auto simp: spec_check_def comp_def intro!: arg_cong [where f = concat] split: sum.splits)
  then show "represents_locks (snd (try_lock_transaction_batch batch s))
      (mset (granted H batch) + H)"
    using lock_accounts_represents [OF assms]
    by (simp add: try_lock_transaction_batch_def lock_batch_eq)
qed

theorem try_lock_transaction_batch_refines_witness:
  "fst (try_lock_transaction_batch [Inr [(1, True)], Inl AccountLoadedTwice, Inr [(1, False), (2, True)]]
      \<lparr>write_locks = Map.empty, readonly_locks = [1 \<mapsto> 1]\<rparr>) =
    [Inl AccountInUse, Inl AccountLoadedTwice, Inr ()]"
proof -
  let ?s = "\<lparr>write_locks = Map.empty, readonly_locks = [1 \<mapsto> 1]\<rparr>"
  let ?H = "{#(1, False)#} :: lock_key multiset"
  let ?b = "[Inr [(1, True)], Inl AccountLoadedTwice, Inr [(1, False), (2, True)]] :: batch"
  have rep: "represents_locks ?s ?H"
    by (auto simp: represents_locks_def fun_eq_iff entry_of_def)
  have granted: "granted ?H ?b = [(1, False), (2, True)]"
    by (simp add: granted_def spec_check_def conflicts_def)
  have "count ?H x + count (mset (granted ?H ?b)) x < 2 ^ 64" for x
    unfolding granted by simp
  from try_lock_transaction_batch_refines [OF rep this]
  show ?thesis
    by (simp add: spec_check_def conflicts_def)
qed

text \<open>
  C31. Unlocking the keys of a transaction, in any order, after locking them gives back the
  same table, whatever locks were held before.
\<close>

theorem lock_unlock_roundtrip:
  assumes "represents_locks s H" and "mset keys' = mset keys"
    and "\<And>x. count H x + count (mset keys) x < 2 ^ 64"
  shows "unlock_accounts keys' (lock_accounts keys s) = s"
  using al.take_release_roundtrip [OF assms(1) grantable_allI [OF assms(3)] assms(2)]
  by (simp add: foldM_Some lock_accounts_def unlock_accounts_def)

theorem lock_unlock_roundtrip_witness:
  "unlock_accounts [(2, True), (1, False)]
     (lock_accounts [(1, False), (2, True)] default_account_locks) = default_account_locks"
proof -
  have "represents_locks default_account_locks {#}"
    by (simp add: represents_locks_def default_account_locks_def)
  moreover have "mset [(2, True), (1, False)] = mset [(1, False), (2 :: pubkey, True)]"
    by simp
  moreover have "count {#} x + count (mset [(1, False), (2 :: pubkey, True)]) x < 2 ^ 64" for x
    by simp
  ultimately show ?thesis
    by (rule lock_unlock_roundtrip)
qed

subsection \<open>Duplicate keys\<close>

lemma any_already_in_set_iff:
  "fst (any_already_in_set keys s) \<longleftrightarrow> \<not> (distinct keys \<and> set keys \<inter> s = {})"
  by (induction keys s rule: any_already_in_set.induct) auto

lemma any_equal_pair_iff: "any_equal_pair keys \<longleftrightarrow> \<not> distinct keys"
proof
  assume "any_equal_pair keys"
  then show "\<not> distinct keys"
    by (fastforce simp: any_equal_pair_def list_ex_iff distinct_conv_nth)
next
  assume "\<not> distinct keys"
  then obtain i j where "i < j" "j < length keys" "keys ! i = keys ! j"
    by (metis distinct_conv_nth linorder_neqE_nat)
  then have "i \<in> {0..<length keys}" "j \<in> {i + 1..<length keys}" "keys ! i = keys ! j"
    by auto
  then show "any_equal_pair keys"
    unfolding any_equal_pair_def list_ex_iff set_upt by blast
qed

text \<open>The calls that a thread makes one after the other, each with its keys and its limit.\<close>

fun validate_calls :: "(pubkey list \<times> nat) list \<Rightarrow> pubkey set \<Rightarrow> (transaction_error + unit) list \<times> pubkey set" where
  "validate_calls [] s = ([], s)"
| "validate_calls ((keys, limit) # calls) s =
     (case validate_account_locks keys limit s of
        (r, s) \<Rightarrow> (case validate_calls calls s of (rs, s) \<Rightarrow> (r # rs, s)))"

definition locks_verdict :: "pubkey list \<times> nat \<Rightarrow> transaction_error + unit" where
  "locks_verdict call =
     (case call of (keys, limit) \<Rightarrow>
        if length keys > limit then Inl TooManyAccountLocks
        else if \<not> distinct keys then Inl AccountLoadedTwice else Inr ())"

lemma validate_account_locks_verdict: "validate_account_locks keys limit {} = (locks_verdict (keys, limit), {})"
  using any_already_in_set_iff [of keys "{}"]
  by (auto simp: validate_account_locks_def has_duplicates_def has_duplicates_by_set_def any_equal_pair_iff
      locks_verdict_def split: prod.splits)

text \<open>
  C32. Whatever a thread has validated before, each validation accepts exactly the key lists within the
  limit and without a duplicate, reports a list over the limit as such even when it has duplicates,
  and leaves the set that the thread keeps empty: the two strategies for finding a duplicate
  agree, and nothing of one call is left for the next.
\<close>

theorem validate_account_locks_spec:
  "validate_calls calls {} = (map locks_verdict calls, {})"
  by (induction calls) (auto simp: validate_account_locks_verdict split: prod.splits)

end
