(* ===== verification/Thread_Set.thy ===== *)
theory Thread_Set
  imports Prelude
begin

section \<open>Bit sets of threads\<close>

text \<open>
  \<open>ThreadSet\<close> of \<open>src/scheduling-utils/src/thread_aware_account_locks.rs\<close>: the set of worker
  threads an account is scheduled on, as the bits of a \<open>u64\<close>. A thread identifier is a
  \<open>usize\<close>, here a natural number; shifting \<open>1\<close> by it uses the low six bits of the amount, as
  the release build does. The abstraction is the set of the bits that are set, and every
  operation is shown to be the set operation it stands for.
\<close>

unbundle bit_operations_syntax

type_synonym thread_id = nat
type_synonym thread_set = u64

definition MAX_THREADS :: nat where
  "MAX_THREADS = 64"

definition as_flag :: "thread_id \<Rightarrow> thread_set" where
  "as_flag thread_id = push_bit (thread_id mod 64) 1"

definition ts_none :: thread_set where
  "ts_none = 0"

definition ts_any :: "nat \<Rightarrow> thread_set" where
  "ts_any num_threads = (if num_threads = MAX_THREADS then - 1 else as_flag num_threads - 1)"

definition ts_only :: "thread_id \<Rightarrow> thread_set" where
  "ts_only thread_id = as_flag thread_id"

definition bit_positions :: "nat list" where
  "bit_positions = [0..<64]"

definition count_ones :: "u64 \<Rightarrow> nat" where
  "count_ones w = length (filter (bit w) bit_positions)"

definition trailing_zeros :: "u64 \<Rightarrow> nat" where
  "trailing_zeros w = length (takeWhile (\<lambda>i. \<not> bit w i) bit_positions)"

definition only_one_contained :: "thread_set \<Rightarrow> thread_id option" where
  "only_one_contained self = (if count_ones self = 1 then Some (trailing_zeros self) else None)"

definition ts_is_empty :: "thread_set \<Rightarrow> bool" where
  "ts_is_empty self \<longleftrightarrow> self = ts_none"

definition ts_contains :: "thread_set \<Rightarrow> thread_id \<Rightarrow> bool" where
  "ts_contains self thread_id \<longleftrightarrow> self AND as_flag thread_id \<noteq> 0"

definition ts_insert :: "thread_set \<Rightarrow> thread_id \<Rightarrow> thread_set" where
  "ts_insert self thread_id = self OR as_flag thread_id"

definition ts_remove :: "thread_set \<Rightarrow> thread_id \<Rightarrow> thread_set" where
  "ts_remove self thread_id = self AND NOT (as_flag thread_id)"

definition ts_bitand :: "thread_set \<Rightarrow> thread_set \<Rightarrow> thread_set" where
  "ts_bitand self rhs = self AND rhs"

definition ts_sub :: "thread_set \<Rightarrow> thread_set \<Rightarrow> thread_set" where
  "ts_sub self rhs = self AND NOT rhs"

text \<open>The iterator yields the lowest thread and clears its bit with \<open>w & (w - 1)\<close>.\<close>

definition ts_iter_next :: "u64 \<Rightarrow> (thread_id \<times> u64) option" where
  "ts_iter_next w = (if w = 0 then None else Some (trailing_zeros w, w AND (w - 1)))"

subsection \<open>The set a bit set stands for\<close>

definition threads_of :: "thread_set \<Rightarrow> thread_id set" where
  "threads_of w = {i. bit w i}"

lemma set_bit_positions [simp]: "set bit_positions = {..<64}"
  unfolding bit_positions_def set_upt by auto

lemma length_bit_positions [simp]: "length bit_positions = 64"
  unfolding bit_positions_def length_upt by simp

lemma distinct_bit_positions [simp]: "distinct bit_positions"
  unfolding bit_positions_def by (rule distinct_upt)

lemma nth_bit_positions [simp]: "i < 64 \<Longrightarrow> bit_positions ! i = i"
  unfolding bit_positions_def by (subst nth_upt) simp_all

lemma threads_of_less: "t \<in> threads_of w \<Longrightarrow> t < 64"
  using bit_imp_le_length [of w t] by (simp add: threads_of_def)

lemma finite_threads_of [simp]: "finite (threads_of w)"
  by (rule finite_subset [of _ "{..<64}"]) (auto dest: threads_of_less)

lemma threads_of_inject: "threads_of v = threads_of w \<longleftrightarrow> v = w"
proof
  assume "threads_of v = threads_of w"
  then have "bit v n = bit w n" for n
    by (auto simp: threads_of_def)
  then show "v = w"
    by (simp add: bit_eq_iff)
qed simp

lemma bit_as_flag: "t < 64 \<Longrightarrow> bit (as_flag t) i \<longleftrightarrow> i = t"
  by (auto simp: as_flag_def bit_exp_iff)

lemma threads_of_none [simp]: "threads_of ts_none = {}"
  by (simp add: threads_of_def ts_none_def)

lemma threads_of_0 [simp]: "threads_of 0 = {}"
  by (simp add: threads_of_def)

lemma threads_of_eq_empty: "threads_of w = {} \<longleftrightarrow> w = 0"
  using threads_of_inject [of w 0] by simp

lemma threads_of_only [simp]: "t < 64 \<Longrightarrow> threads_of (ts_only t) = {t}"
  by (simp add: threads_of_def ts_only_def bit_as_flag)

lemma threads_of_any [simp]: "n \<le> 64 \<Longrightarrow> threads_of (ts_any n) = {..<n}"
proof (cases "n = 64")
  case True
  then show ?thesis
    by (auto simp: threads_of_def ts_any_def MAX_THREADS_def)
next
  case False
  moreover assume "n \<le> 64"
  ultimately have "ts_any n = mask n"
    by (simp add: ts_any_def MAX_THREADS_def as_flag_def mask_eq_exp_minus_1 push_bit_eq_mult)
  with \<open>n \<le> 64\<close> show ?thesis
    by (auto simp: threads_of_def bit_mask_iff)
qed

lemma threads_of_bitand [simp]: "threads_of (ts_bitand v w) = threads_of v \<inter> threads_of w"
  by (auto simp: threads_of_def ts_bitand_def bit_and_iff)

lemma threads_of_sub [simp]: "threads_of (ts_sub v w) = threads_of v - threads_of w"
  by (auto simp: threads_of_def ts_sub_def bit_and_iff bit_not_iff dest: bit_imp_le_length)

lemma threads_of_insert [simp]: "t < 64 \<Longrightarrow> threads_of (ts_insert w t) = insert t (threads_of w)"
  by (auto simp: threads_of_def ts_insert_def bit_or_iff bit_as_flag)

lemma threads_of_remove [simp]: "t < 64 \<Longrightarrow> threads_of (ts_remove w t) = threads_of w - {t}"
  by (auto simp: threads_of_def ts_remove_def bit_and_iff bit_not_iff bit_as_flag
      dest: bit_imp_le_length)

lemma ts_is_empty_iff: "ts_is_empty w \<longleftrightarrow> threads_of w = {}"
  by (simp add: ts_is_empty_def ts_none_def threads_of_eq_empty)

lemma ts_contains_iff [simp]: "t < 64 \<Longrightarrow> ts_contains w t \<longleftrightarrow> t \<in> threads_of w"
  using threads_of_inject [of "w AND as_flag t" ts_none]
  by (auto simp: ts_contains_def threads_of_def ts_none_def bit_and_iff bit_as_flag)

lemma count_ones_card: "count_ones w = card (threads_of w)"
proof -
  have "threads_of w = set (filter (bit w) bit_positions)"
    by (auto simp: threads_of_def dest: bit_imp_le_length)
  then have "card (threads_of w) = length (filter (bit w) bit_positions)"
    by (metis distinct_bit_positions distinct_card distinct_filter)
  then show ?thesis
    by (simp add: count_ones_def)
qed

lemma trailing_zeros_least:
  assumes "threads_of w \<noteq> {}"
  shows "trailing_zeros w \<in> threads_of w \<and> (\<forall>t \<in> threads_of w. trailing_zeros w \<le> t)"
proof -
  let ?tw = "takeWhile (\<lambda>i. \<not> bit w i) bit_positions"
  obtain t where t: "bit w t" "t < 64"
    using assms threads_of_less by (auto simp: threads_of_def)
  have below: "\<not> bit w i" if i: "i < trailing_zeros w" for i
  proof -
    have "trailing_zeros w \<le> 64"
      using length_takeWhile_le [of "\<lambda>i. \<not> bit w i" bit_positions] by (simp add: trailing_zeros_def)
    moreover have "?tw ! i \<in> set ?tw"
      using i by (intro nth_mem) (simp add: trailing_zeros_def)
    ultimately show ?thesis
      using i by (auto dest!: set_takeWhileD simp: takeWhile_nth trailing_zeros_def)
  qed
  have lt: "trailing_zeros w \<le> u" if "bit w u" for u
    using below that not_le by blast
  then have "trailing_zeros w < 64"
    using t by (meson le_less_trans)
  then have "bit w (trailing_zeros w)"
    using nth_length_takeWhile [of "\<lambda>i. \<not> bit w i" bit_positions] by (simp add: trailing_zeros_def)
  with lt show ?thesis
    by (simp add: threads_of_def)
qed

lemma only_one_contained_iff: "only_one_contained w = Some t \<longleftrightarrow> threads_of w = {t}"
proof
  assume "only_one_contained w = Some t"
  then have "card (threads_of w) = 1" "trailing_zeros w = t"
    by (auto simp: only_one_contained_def count_ones_card split: if_splits)
  then show "threads_of w = {t}"
    using trailing_zeros_least [of w] by (auto simp: card_1_singleton_iff)
next
  assume "threads_of w = {t}"
  then show "only_one_contained w = Some t"
    using trailing_zeros_least [of w] by (simp add: only_one_contained_def count_ones_card)
qed

subsection \<open>The iterator\<close>

lemma clear_lowest_bit:
  assumes "w \<noteq> 0"
  shows "w AND (w - 1) = ts_remove w (trailing_zeros w)"
proof -
  define t where "t = trailing_zeros w"
  define v where "v = ts_remove w t"
  have ne: "threads_of w \<noteq> {}"
    using assms by (simp add: threads_of_eq_empty)
  then have t: "t \<in> threads_of w" "\<And>u. u \<in> threads_of w \<Longrightarrow> t \<le> u"
    using trailing_zeros_least by (auto simp: t_def)
  then have "t < 64"
    by (blast dest: threads_of_less)
  then have bv: "bit v i \<longleftrightarrow> bit w i \<and> i \<noteq> t" for i
    using threads_of_remove [of t w] by (auto simp: v_def threads_of_def)
  have "w = v OR 2 ^ t"
    using t(1) by (intro bit_word_eqI) (auto simp: bit_or_iff bv bit_exp_iff threads_of_def)
  also have "\<dots> = v + 2 ^ t"
    by (rule disjunctive_add_eq_or [symmetric], rule bit_word_eqI)
      (auto simp: bit_and_iff bv bit_exp_iff)
  finally have "w - 1 = v + mask t"
    by (simp add: mask_eq_exp_minus_1)
  also have "\<dots> = v OR mask t"
    using t(2) by (intro disjunctive_add_eq_or bit_word_eqI)
      (auto simp: bit_and_iff bv bit_mask_iff threads_of_def not_less)
  finally have "w AND (w - 1) = v"
    using t(2) by (intro bit_word_eqI)
      (auto simp: bit_and_iff bit_or_iff bv bit_mask_iff threads_of_def not_less)
  then show ?thesis
    by (simp add: v_def t_def)
qed

lemma card_clear_lowest_bit:
  assumes "w \<noteq> 0"
  shows "card (threads_of (w AND (w - 1))) < card (threads_of w)"
proof -
  have "trailing_zeros w \<in> threads_of w"
    using trailing_zeros_least [of w] assms by (simp add: threads_of_eq_empty)
  then show ?thesis
    using card_Diff1_less [of "threads_of w" "trailing_zeros w"] threads_of_less
    by (simp add: clear_lowest_bit [OF assms] del: card_Diff_insert)
qed

text \<open>What a \<open>for\<close> loop over the iterator sees.\<close>

function contained_threads_iter :: "u64 \<Rightarrow> thread_id list" where
  "contained_threads_iter w =
     (case ts_iter_next w of None \<Rightarrow> [] | Some (thread_id, w') \<Rightarrow> thread_id # contained_threads_iter w')"
  by pat_completeness auto
termination
  by (relation "measure (\<lambda>w. card (threads_of w))")
    (auto simp: ts_iter_next_def card_clear_lowest_bit split: if_splits)

declare contained_threads_iter.simps [simp del]

text \<open>
  Iterating over a thread set yields exactly the threads whose bit is set, each once, in
  increasing order.
\<close>

lemma contained_threads_iter_sorted:
  "contained_threads_iter w = sorted_list_of_set (threads_of w)"
proof (induction w rule: contained_threads_iter.induct)
  case (1 w)
  show ?case
  proof (cases "w = 0")
    case True
    then show ?thesis
      by (simp add: contained_threads_iter.simps ts_iter_next_def)
  next
    case False
    define t where "t = trailing_zeros w"
    have least: "t \<in> threads_of w" "\<And>u. u \<in> threads_of w \<Longrightarrow> t \<le> u"
      using trailing_zeros_least [of w] False by (auto simp: t_def threads_of_eq_empty)
    then have "threads_of (w AND (w - 1)) = threads_of w - {t}"
      using threads_of_less by (simp add: clear_lowest_bit [OF False] t_def)
    moreover have "Min (threads_of w) = t"
      using least by (intro Min_eqI) auto
    ultimately show ?thesis
      using False 1 sorted_list_of_set_nonempty [of "threads_of w"]
      by (simp add: threads_of_eq_empty contained_threads_iter.simps [of w] ts_iter_next_def t_def)
  qed
qed

end
