(* ===== verification/Thread_Locks.thy ===== *)
theory Thread_Locks
  imports Lock_Table Thread_Set
begin

section \<open>Thread-aware account locks\<close>

text \<open>
  \<open>ThreadAwareAccountLocks\<close> of \<open>src/scheduling-utils/src/thread_aware_account_locks.rs\<close>, the
  lock table of the banking-stage schedulers. An account may be locked several times by the
  transactions queued on one worker thread; across threads only read locks may coexist. Every
  assertion, \<open>unreachable!\<close> and out-of-range index of the source is the value \<open>None\<close>.
\<close>

record account_write_locks =
  aw_thread_id :: thread_id
  aw_lock_count :: u32

record account_read_locks =
  ar_thread_set :: thread_set
  ar_lock_counts :: "u32 list"

record ta_account_locks =
  ta_write_locks :: "account_write_locks option"
  ta_read_locks :: "account_read_locks option"

datatype try_lock_error = MultipleConflicts | ThreadNotAllowed

record thread_aware_account_locks =
  ta_num_threads :: nat
  ta_locks :: "pubkey \<rightharpoonup> ta_account_locks"

definition ta_default :: ta_account_locks where
  "ta_default = \<lparr>ta_write_locks = None, ta_read_locks = None\<rparr>"

definition ta_new :: "nat \<Rightarrow> thread_aware_account_locks option" where
  "ta_new num_threads =
     (if 0 < num_threads \<and> num_threads \<le> MAX_THREADS
      then Some \<lparr>ta_num_threads = num_threads, ta_locks = Map.empty\<rparr> else None)"

definition ta_entry_or_default :: "ta_account_locks option \<Rightarrow> ta_account_locks" where
  "ta_entry_or_default entry = (case entry of None \<Rightarrow> ta_default | Some e \<Rightarrow> e)"

text \<open>The entry \<open>None\<close> is a vacant entry of the hash map.\<close>

definition write_lock_entry :: "thread_id \<Rightarrow> ta_account_locks option \<Rightarrow> ta_account_locks option option" where
  "write_lock_entry thread_id maybe_entry =
     (let entry = ta_entry_or_default maybe_entry in
      if (case ta_read_locks entry of
            None \<Rightarrow> False
          | Some read_locks \<Rightarrow> only_one_contained (ar_thread_set read_locks) \<noteq> Some thread_id)
      then None
      else case ta_write_locks entry of
        Some write_locks \<Rightarrow>
          (if aw_thread_id write_locks \<noteq> thread_id then None
           else Some (Some (entry\<lparr>ta_write_locks :=
             Some (write_locks\<lparr>aw_lock_count := aw_lock_count write_locks + 1\<rparr>)\<rparr>)))
      | None \<Rightarrow>
          Some (Some (entry\<lparr>ta_write_locks := Some \<lparr>aw_thread_id = thread_id, aw_lock_count = 1\<rparr>\<rparr>)))"

definition write_unlock_entry :: "thread_id \<Rightarrow> ta_account_locks option \<Rightarrow> ta_account_locks option option" where
  "write_unlock_entry thread_id maybe_entry =
     (case maybe_entry of
        None \<Rightarrow> None
      | Some entry \<Rightarrow>
          (case ta_write_locks entry of
             None \<Rightarrow> None
           | Some write_locks \<Rightarrow>
               (if aw_thread_id write_locks \<noteq> thread_id then None
                else let lock_count = aw_lock_count write_locks - 1 in
                  if lock_count = 0 then
                    (if ta_read_locks entry = None then Some None
                     else Some (Some (entry\<lparr>ta_write_locks := None\<rparr>)))
                  else Some (Some (entry\<lparr>ta_write_locks :=
                    Some (write_locks\<lparr>aw_lock_count := lock_count\<rparr>)\<rparr>)))))"

definition read_lock_entry :: "thread_id \<Rightarrow> ta_account_locks option \<Rightarrow> ta_account_locks option option" where
  "read_lock_entry thread_id maybe_entry =
     (let entry = ta_entry_or_default maybe_entry in
      if (case ta_write_locks entry of
            None \<Rightarrow> False | Some write_locks \<Rightarrow> aw_thread_id write_locks \<noteq> thread_id)
      then None
      else if \<not> thread_id < MAX_THREADS then None
      else case ta_read_locks entry of
        Some read_locks \<Rightarrow>
          Some (Some (entry\<lparr>ta_read_locks := Some
            \<lparr>ar_thread_set = ts_insert (ar_thread_set read_locks) thread_id,
             ar_lock_counts = (ar_lock_counts read_locks)
               [thread_id := ar_lock_counts read_locks ! thread_id + 1]\<rparr>\<rparr>))
      | None \<Rightarrow>
          Some (Some (entry\<lparr>ta_read_locks := Some
            \<lparr>ar_thread_set = ts_only thread_id,
             ar_lock_counts = (replicate MAX_THREADS 0)[thread_id := 1]\<rparr>\<rparr>)))"

definition read_unlock_entry :: "thread_id \<Rightarrow> ta_account_locks option \<Rightarrow> ta_account_locks option option" where
  "read_unlock_entry thread_id maybe_entry =
     (case maybe_entry of
        None \<Rightarrow> None
      | Some entry \<Rightarrow>
          (case ta_read_locks entry of
             None \<Rightarrow> None
           | Some read_locks \<Rightarrow>
               (if \<not> ts_contains (ar_thread_set read_locks) thread_id then None
                else if \<not> thread_id < MAX_THREADS then None
                else let lock_counts = (ar_lock_counts read_locks)
                       [thread_id := ar_lock_counts read_locks ! thread_id - 1] in
                  if lock_counts ! thread_id = 0 then
                    let threads = ts_remove (ar_thread_set read_locks) thread_id in
                    (if ts_is_empty threads then
                       (if ta_write_locks entry = None then Some None
                        else Some (Some (entry\<lparr>ta_read_locks := None\<rparr>)))
                     else Some (Some (entry\<lparr>ta_read_locks :=
                       Some \<lparr>ar_thread_set = threads, ar_lock_counts = lock_counts\<rparr>\<rparr>)))
                  else Some (Some (entry\<lparr>ta_read_locks :=
                    Some (read_locks\<lparr>ar_lock_counts := lock_counts\<rparr>)\<rparr>)))))"

definition on_entry ::
  "(ta_account_locks option \<Rightarrow> ta_account_locks option option) \<Rightarrow> pubkey \<Rightarrow>
     thread_aware_account_locks \<Rightarrow> thread_aware_account_locks option" where
  "on_entry f account self =
     map_option (\<lambda>entry. self\<lparr>ta_locks := (ta_locks self)(account := entry)\<rparr>)
       (f (ta_locks self account))"

definition write_lock_account where
  "write_lock_account account thread_id = on_entry (write_lock_entry thread_id) account"

definition write_unlock_account where
  "write_unlock_account account thread_id = on_entry (write_unlock_entry thread_id) account"

definition read_lock_account where
  "read_lock_account account thread_id = on_entry (read_lock_entry thread_id) account"

definition read_unlock_account where
  "read_unlock_account account thread_id = on_entry (read_unlock_entry thread_id) account"

definition ta_lock_accounts ::
  "pubkey list \<Rightarrow> pubkey list \<Rightarrow> thread_id \<Rightarrow> thread_aware_account_locks \<Rightarrow> thread_aware_account_locks option" where
  "ta_lock_accounts write_account_locks read_account_locks thread_id self =
     (if \<not> thread_id < ta_num_threads self then None
      else Option.bind (foldM (\<lambda>account. write_lock_account account thread_id) write_account_locks self)
        (foldM (\<lambda>account. read_lock_account account thread_id) read_account_locks))"

definition ta_unlock_accounts ::
  "pubkey list \<Rightarrow> pubkey list \<Rightarrow> thread_id \<Rightarrow> thread_aware_account_locks \<Rightarrow> thread_aware_account_locks option" where
  "ta_unlock_accounts write_account_locks read_account_locks thread_id self =
     Option.bind (foldM (\<lambda>account. write_unlock_account account thread_id) write_account_locks self)
       (foldM (\<lambda>account. read_unlock_account account thread_id) read_account_locks)"

definition schedulable_threads ::
  "bool \<Rightarrow> thread_aware_account_locks \<Rightarrow> pubkey \<Rightarrow> thread_set option" where
  "schedulable_threads is_write self account =
     (case ta_locks self account of
        None \<Rightarrow> Some (ts_any (ta_num_threads self))
      | Some entry \<Rightarrow>
          (case (ta_write_locks entry, ta_read_locks entry) of
             (None, Some read_locks) \<Rightarrow>
               (if is_write then
                  Some (case only_one_contained (ar_thread_set read_locks) of
                    Some t \<Rightarrow> ts_only t | None \<Rightarrow> ts_none)
                else Some (ts_any (ta_num_threads self)))
           | (Some write_locks, None) \<Rightarrow> Some (ts_only (aw_thread_id write_locks))
           | (Some write_locks, Some read_locks) \<Rightarrow>
               (if only_one_contained (ar_thread_set read_locks) = Some (aw_thread_id write_locks)
                then Some (ar_thread_set read_locks) else None)
           | (None, None) \<Rightarrow> None))"

text \<open>
  One of the two loops of \<open>accounts_schedulable_threads\<close>: \<open>Some None\<close> is its early return of
  \<open>None\<close>.
\<close>

fun restrict_threads ::
  "(pubkey \<Rightarrow> thread_set option) \<Rightarrow> pubkey list \<Rightarrow> thread_set \<Rightarrow> thread_set option option" where
  "restrict_threads f [] threads = Some (Some threads)"
| "restrict_threads f (account # accounts) threads =
     Option.bind (f account) (\<lambda>s.
       let threads = ts_bitand threads s in
       if ts_is_empty threads then Some None else restrict_threads f accounts threads)"

definition accounts_schedulable_threads ::
  "pubkey list \<Rightarrow> pubkey list \<Rightarrow> thread_aware_account_locks \<Rightarrow> thread_set option option" where
  "accounts_schedulable_threads write_account_locks read_account_locks self =
     Option.bind (restrict_threads (schedulable_threads True self) write_account_locks
         (ts_any (ta_num_threads self)))
       (\<lambda>r. case r of
          None \<Rightarrow> Some None
        | Some threads \<Rightarrow> restrict_threads (schedulable_threads False self) read_account_locks threads)"

definition try_lock_accounts ::
  "pubkey list \<Rightarrow> pubkey list \<Rightarrow> thread_set \<Rightarrow> (thread_set \<Rightarrow> thread_id) \<Rightarrow>
     thread_aware_account_locks \<Rightarrow> ((try_lock_error + thread_id) \<times> thread_aware_account_locks) option" where
  "try_lock_accounts write_account_locks read_account_locks allowed_threads thread_selector self =
     Option.bind (accounts_schedulable_threads write_account_locks read_account_locks self)
       (\<lambda>r. case r of
          None \<Rightarrow> Some (Inl MultipleConflicts, self)
        | Some schedulable \<Rightarrow>
            let schedulable = ts_bitand schedulable allowed_threads in
            if ts_is_empty schedulable then Some (Inl ThreadNotAllowed, self)
            else let thread_id = thread_selector schedulable in
              map_option (\<lambda>self'. (Inr thread_id, self'))
                (ta_lock_accounts write_account_locks read_account_locks thread_id self))"

subsection \<open>What an entry represents\<close>

text \<open>
  \<open>wr t\<close> and \<open>rd t\<close> are the numbers of write and read locks that thread \<open>t\<close> holds on the
  account of the entry.
\<close>

definition write_rep :: "account_write_locks option \<Rightarrow> (thread_id \<Rightarrow> nat) \<Rightarrow> bool" where
  "write_rep wl wr =
     (case wl of
        None \<Rightarrow> \<forall>t. wr t = 0
      | Some w \<Rightarrow> 0 < wr (aw_thread_id w) \<and> aw_lock_count w = of_nat (wr (aw_thread_id w)) \<and>
          (\<forall>t. t \<noteq> aw_thread_id w \<longrightarrow> wr t = 0))"

definition read_rep :: "account_read_locks option \<Rightarrow> (thread_id \<Rightarrow> nat) \<Rightarrow> bool" where
  "read_rep rl rd =
     (case rl of
        None \<Rightarrow> \<forall>t. rd t = 0
      | Some r \<Rightarrow> (\<exists>t. 0 < rd t) \<and> threads_of (ar_thread_set r) = {t. 0 < rd t} \<and>
          length (ar_lock_counts r) = 64 \<and> (\<forall>t < 64. ar_lock_counts r ! t = of_nat (rd t)))"

definition entry_rep :: "ta_account_locks option \<Rightarrow> (thread_id \<Rightarrow> nat) \<Rightarrow> (thread_id \<Rightarrow> nat) \<Rightarrow> bool" where
  "entry_rep e wr rd =
     (case e of
        None \<Rightarrow> (\<forall>t. wr t = 0) \<and> (\<forall>t. rd t = 0)
      | Some e \<Rightarrow> write_rep (ta_write_locks e) wr \<and> read_rep (ta_read_locks e) rd \<and>
          (ta_write_locks e \<noteq> None \<or> ta_read_locks e \<noteq> None))"

lemma entry_rep_default:
  assumes "entry_rep e wr rd"
  shows "write_rep (ta_write_locks (ta_entry_or_default e)) wr"
    and "read_rep (ta_read_locks (ta_entry_or_default e)) rd"
  using assms
  by (auto simp: entry_rep_def ta_entry_or_default_def ta_default_def write_rep_def read_rep_def
      split: option.splits)

lemma of_nat_u32_eq_0: "n < 2 ^ 32 \<Longrightarrow> (of_nat n :: u32) = 0 \<longleftrightarrow> n = 0"
  by (auto simp: word_of_nat_eq_0_iff dest: nat_dvd_not_less)

lemma write_rep_unique: "write_rep a wr \<Longrightarrow> write_rep b wr \<Longrightarrow> a = b"
  by (cases a; cases b) (auto simp: write_rep_def, metis less_irrefl account_write_locks.equality old.unit.exhaust)

lemma read_rep_unique: "read_rep a rd \<Longrightarrow> read_rep b rd \<Longrightarrow> a = b"
  by (cases a; cases b)
    (auto simp: read_rep_def simp flip: threads_of_inject
      intro!: account_read_locks.equality nth_equalityI)

lemma entry_rep_unique: "entry_rep a wr rd \<Longrightarrow> entry_rep b wr rd \<Longrightarrow> a = b"
proof (cases a; cases b)
  fix x y
  assume "entry_rep a wr rd" "entry_rep b wr rd" "a = Some x" "b = Some y"
  then have "ta_write_locks x = ta_write_locks y" "ta_read_locks x = ta_read_locks y"
    by (auto simp: entry_rep_def intro: write_rep_unique read_rep_unique)
  with \<open>a = Some x\<close> \<open>b = Some y\<close> show "a = b"
    by (auto intro: ta_account_locks.equality)
qed (auto simp: entry_rep_def write_rep_def read_rep_def split: option.splits)

text \<open>The four entry operations count what they should and do not panic.\<close>

lemma write_lock_entry_rep:
  assumes "entry_rep e wr rd" and "\<And>u. 0 < wr u \<or> 0 < rd u \<Longrightarrow> u = t"
  shows "\<exists>e'. write_lock_entry t e = Some (Some e') \<and>
    entry_rep (Some e') (wr(t := Suc (wr t))) rd"
proof -
  note rep = entry_rep_default [OF assms(1)]
  have readers: "only_one_contained (ar_thread_set r) = Some t"
    if "ta_read_locks (ta_entry_or_default e) = Some r" for r
    using that rep(2) assms(2) by (auto simp: read_rep_def only_one_contained_iff)
  show ?thesis
  proof (cases "ta_write_locks (ta_entry_or_default e)")
    case None
    with rep readers show ?thesis
      by (auto simp: write_lock_entry_def Let_def entry_rep_def write_rep_def split: option.splits)
  next
    case (Some w)
    with rep(1) assms(2) have "aw_thread_id w = t"
      by (auto simp: write_rep_def)
    with Some rep readers show ?thesis
      by (auto simp: write_lock_entry_def Let_def entry_rep_def write_rep_def split: option.splits)
  qed
qed

lemma less_MAX_THREADS: "t < MAX_THREADS \<longleftrightarrow> t < 64"
  by (simp add: MAX_THREADS_def)

lemma read_lock_entry_rep:
  assumes "entry_rep e wr rd" and "\<And>u. 0 < wr u \<Longrightarrow> u = t" and "t < 64"
  shows "\<exists>e'. read_lock_entry t e = Some (Some e') \<and>
    entry_rep (Some e') wr (rd(t := Suc (rd t)))"
proof -
  note rep = entry_rep_default [OF assms(1)]
  have writer: "aw_thread_id w = t" if "ta_write_locks (ta_entry_or_default e) = Some w" for w
    using that rep(1) assms(2) by (auto simp: write_rep_def)
  show ?thesis
  proof (cases "ta_read_locks (ta_entry_or_default e)")
    case None
    with rep writer assms(3) show ?thesis
      by (auto simp: read_lock_entry_def Let_def entry_rep_def read_rep_def MAX_THREADS_def
          nth_list_update split: option.splits)
  next
    case (Some r)
    with rep writer assms(3) show ?thesis
      by (auto simp: read_lock_entry_def Let_def entry_rep_def read_rep_def less_MAX_THREADS
          nth_list_update split: option.splits)
  qed
qed

lemma write_unlock_entry_rep:
  assumes "entry_rep e (wr(t := Suc (wr t))) rd" and "\<And>u. wr u < 2 ^ 32"
  shows "\<exists>e'. write_unlock_entry t e = Some e' \<and> entry_rep e' wr rd"
proof -
  have zero: "(of_nat (wr t) :: u32) = 0 \<longleftrightarrow> wr t = 0"
    using assms(2) by (rule of_nat_u32_eq_0)
  have "\<exists>u. (wr(t := Suc (wr t))) u \<noteq> 0"
    by (rule exI [of _ t]) simp
  with assms(1) obtain x w where e: "e = Some x" and w: "ta_write_locks x = Some w"
    by (auto simp: entry_rep_def write_rep_def simp del: fun_upd_apply split: option.splits)
  with assms(1) have "aw_thread_id w = t" "aw_lock_count w = of_nat (Suc (wr t))"
    and others: "\<And>u. u \<noteq> t \<Longrightarrow> wr u = 0" and rd: "read_rep (ta_read_locks x) rd"
    by (auto simp: entry_rep_def write_rep_def split: if_splits)
  then have unlock: "write_unlock_entry t e =
    (if wr t = 0 then
       (if ta_read_locks x = None then Some None else Some (Some (x\<lparr>ta_write_locks := None\<rparr>)))
     else Some (Some (x\<lparr>ta_write_locks := Some (w\<lparr>aw_lock_count := of_nat (wr t)\<rparr>)\<rparr>)))"
    using e w zero by (simp add: write_unlock_entry_def Let_def)
  show ?thesis
  proof (cases "wr t = 0")
    case True
    with others have "\<And>u. wr u = 0"
      by metis
    with True unlock rd show ?thesis
      by (auto simp: entry_rep_def write_rep_def read_rep_def)
  next
    case False
    with unlock rd others \<open>aw_thread_id w = t\<close> show ?thesis
      by (auto simp: entry_rep_def write_rep_def)
  qed
qed

lemma read_unlock_entry_rep:
  assumes "entry_rep e wr (rd(t := Suc (rd t)))" and "\<And>u. rd u < 2 ^ 32"
  shows "\<exists>e'. read_unlock_entry t e = Some e' \<and> entry_rep e' wr rd"
proof -
  have zero: "(of_nat (rd t) :: u32) = 0 \<longleftrightarrow> rd t = 0"
    using assms(2) by (rule of_nat_u32_eq_0)
  have "\<exists>u. (rd(t := Suc (rd t))) u \<noteq> 0"
    by (rule exI [of _ t]) simp
  with assms(1) obtain x r where e: "e = Some x" and r: "ta_read_locks x = Some r"
    by (auto simp: entry_rep_def read_rep_def simp del: fun_upd_apply split: option.splits)
  define ts where "ts = ar_thread_set r"
  define cs where "cs = ar_lock_counts r"
  from assms(1) e r have wr: "write_rep (ta_write_locks x) wr"
    and ts: "threads_of ts = {u. 0 < (rd(t := Suc (rd t))) u}"
    and cs: "length cs = 64" "\<And>u. u < 64 \<Longrightarrow> cs ! u = of_nat ((rd(t := Suc (rd t))) u)"
    by (auto simp: entry_rep_def read_rep_def ts_def cs_def)
  have t: "t \<in> threads_of ts"
    by (simp add: ts)
  then have t64: "t < 64"
    by (rule threads_of_less)
  have removed: "threads_of (ts_remove ts t) = {u. u \<noteq> t \<and> 0 < rd u}"
    using t64 by (auto simp: ts)
  have counts: "cs[t := cs ! t - 1] ! u = of_nat (rd u)" if "u < 64" for u
    using that t64 cs by (simp add: nth_list_update)
  have unlock: "read_unlock_entry t e =
    (if rd t = 0 then
       if {u. u \<noteq> t \<and> 0 < rd u} = {} then
         (if ta_write_locks x = None then Some None else Some (Some (x\<lparr>ta_read_locks := None\<rparr>)))
       else Some (Some (x\<lparr>ta_read_locks :=
         Some \<lparr>ar_thread_set = ts_remove ts t, ar_lock_counts = cs[t := cs ! t - 1]\<rparr>\<rparr>))
     else Some (Some (x\<lparr>ta_read_locks := Some (r\<lparr>ar_lock_counts := cs[t := cs ! t - 1]\<rparr>)\<rparr>)))"
    using t t64 counts [of t] zero removed
    by (simp add: read_unlock_entry_def e r Let_def less_MAX_THREADS ts_is_empty_iff
        flip: ts_def cs_def)
  show ?thesis
  proof (cases "rd t = 0")
    case True
    then have others: "{u. u \<noteq> t \<and> 0 < rd u} = {u. 0 < rd u}"
      by auto
    show ?thesis
    proof (cases "{u. 0 < rd u} = {}")
      case empty: True
      then have "\<And>u. rd u = 0"
        by auto
      then show ?thesis
        using True unlock wr unfolding others empty
        by (cases "ta_write_locks x") (simp_all add: entry_rep_def read_rep_def write_rep_def)
    next
      case False
      have "read_unlock_entry t e = Some (Some (x\<lparr>ta_read_locks :=
          Some \<lparr>ar_thread_set = ts_remove ts t, ar_lock_counts = cs[t := cs ! t - 1]\<rparr>\<rparr>))"
        unfolding unlock others if_P [OF True] if_not_P [OF False] by (rule refl)
      moreover have "\<exists>u. 0 < rd u"
        using False by auto
      ultimately show ?thesis
        using wr removed counts cs(1) unfolding others
        by (simp add: entry_rep_def read_rep_def)
    qed
  next
    case False
    then have "{u. 0 < (rd(t := Suc (rd t))) u} = {u. 0 < rd u}"
      by auto
    then show ?thesis
      using False unlock wr ts counts cs(1)
      by (auto simp: entry_rep_def read_rep_def simp del: fun_upd_apply simp flip: ts_def)
  qed
qed

subsection \<open>What a table represents\<close>

type_synonym thread_lock = "thread_id \<times> pubkey \<times> bool"

text \<open>Thread \<open>t\<close> may take the lock: every conflicting lock is its own.\<close>

definition thread_may_lock :: "thread_id \<Rightarrow> pubkey \<Rightarrow> bool \<Rightarrow> thread_lock multiset \<Rightarrow> bool" where
  "thread_may_lock t k w H \<longleftrightarrow> (\<forall>u v. (u, k, v) \<in># H \<and> (w \<or> v) \<longrightarrow> u = t)"

definition exclusive_locks :: "thread_lock multiset \<Rightarrow> bool" where
  "exclusive_locks H \<longleftrightarrow> (\<forall>t k w. (t, k, w) \<in># H \<longrightarrow> thread_may_lock t k w H)"

definition ta_rep :: "nat \<Rightarrow> thread_aware_account_locks \<Rightarrow> thread_lock multiset \<Rightarrow> bool" where
  "ta_rep n self H \<longleftrightarrow>
     ta_num_threads self = n \<and> 0 < n \<and> n \<le> 64 \<and>
     (\<forall>k. entry_rep (ta_locks self k) (\<lambda>t. count H (t, k, True)) (\<lambda>t. count H (t, k, False))) \<and>
     (\<forall>t k w. (t, k, w) \<in># H \<longrightarrow> t < n) \<and> exclusive_locks H \<and>
     (\<forall>t k w. count H (t, k, w) < 2 ^ 32)"

definition ta_grantable :: "nat \<Rightarrow> thread_lock \<Rightarrow> thread_lock multiset \<Rightarrow> bool" where
  "ta_grantable n = (\<lambda>(t, k, w) H.
     t < n \<and> thread_may_lock t k w H \<and> Suc (count H (t, k, w)) < 2 ^ 32)"

definition ta_take1 :: "thread_lock \<Rightarrow> thread_aware_account_locks \<Rightarrow> thread_aware_account_locks option" where
  "ta_take1 = (\<lambda>(t, k, w). if w then write_lock_account k t else read_lock_account k t)"

definition ta_release1 :: "thread_lock \<Rightarrow> thread_aware_account_locks \<Rightarrow> thread_aware_account_locks option" where
  "ta_release1 = (\<lambda>(t, k, w). if w then write_unlock_account k t else read_unlock_account k t)"

lemma ta_repD:
  assumes "ta_rep n s H"
  shows "ta_num_threads s = n" "0 < n" "n \<le> 64"
    and "entry_rep (ta_locks s k) (\<lambda>t. count H (t, k, True)) (\<lambda>t. count H (t, k, False))"
    and "(t, k, w) \<in># H \<Longrightarrow> t < n" and "exclusive_locks H" and "count H (t, k, w) < 2 ^ 32"
  using assms by (auto simp: ta_rep_def)

lemma exclusive_locks_add:
  "exclusive_locks H \<Longrightarrow> thread_may_lock t k w H \<Longrightarrow> exclusive_locks (add_mset (t, k, w) H)"
  unfolding exclusive_locks_def thread_may_lock_def set_mset_add_mset_insert by blast

lemma exclusive_locks_add_mset: "exclusive_locks (add_mset x H) \<Longrightarrow> exclusive_locks H"
  unfolding exclusive_locks_def thread_may_lock_def set_mset_add_mset_insert by blast

lemma count_add_lock:
  "(\<lambda>u. count (add_mset (t, k, w) H) (u, j, v)) =
     (if j = k \<and> v = w then (\<lambda>u. count H (u, j, v))(t := Suc (count H (t, j, v)))
      else (\<lambda>u. count H (u, j, v)))"
  by (auto simp: fun_eq_iff)

lemma on_entry_rep:
  assumes "ta_num_threads s = n"
    and "\<And>j. j \<noteq> k \<Longrightarrow> Q j (ta_locks s j)"
    and "\<exists>e. f (ta_locks s k) = Some e \<and> Q k e"
  shows "\<exists>s'. on_entry f k s = Some s' \<and> ta_num_threads s' = n \<and> (\<forall>j. Q j (ta_locks s' j))"
  using assms by (auto simp: on_entry_def)

lemma ta_take1_rep:
  assumes rep: "ta_rep n s H" and grant: "ta_grantable n x H"
  shows "\<exists>s'. ta_take1 x s = Some s' \<and> ta_rep n s' (add_mset x H)"
proof -
  obtain t k w where x: "x = (t, k, w)"
    by (cases x)
  note D = ta_repD [OF rep]
  from grant have t: "t < n" and may: "thread_may_lock t k w H" and cnt: "Suc (count H (t, k, w)) < 2 ^ 32"
    by (auto simp: ta_grantable_def x)
  let ?Q = "\<lambda>j e. entry_rep e (\<lambda>u. count (add_mset x H) (u, j, True)) (\<lambda>u. count (add_mset x H) (u, j, False))"
  have frame: "?Q j (ta_locks s j)" if "j \<noteq> k" for j
    using D(4) [of j] that by (simp add: x)
  have own: "\<And>u v. 0 < count H (u, k, v) \<Longrightarrow> w \<or> v \<Longrightarrow> u = t"
    using may by (auto simp: thread_may_lock_def)
  have "\<exists>s'. ta_take1 x s = Some s' \<and> ta_num_threads s' = n \<and> (\<forall>j. ?Q j (ta_locks s' j))"
  proof (cases w)
    case True
    then have "\<exists>e. write_lock_entry t (ta_locks s k) = Some e \<and> ?Q k e"
      using write_lock_entry_rep [OF D(4), of k t] own
      by (auto simp: x count_add_lock simp del: count_add_mset fun_upd_apply)
    from on_entry_rep [where Q = ?Q and f = "write_lock_entry t" and k = k, OF D(1) frame this] True show ?thesis
      by (simp add: x ta_take1_def write_lock_account_def)
  next
    case False
    then have "\<exists>e. read_lock_entry t (ta_locks s k) = Some e \<and> ?Q k e"
      using read_lock_entry_rep [OF D(4), of k t] own t D(3)
      by (auto simp: x count_add_lock simp del: count_add_mset fun_upd_apply)
    from on_entry_rep [where Q = ?Q and f = "read_lock_entry t" and k = k, OF D(1) frame this] False show ?thesis
      by (simp add: x ta_take1_def read_lock_account_def)
  qed
  then show ?thesis
    using D(2,3,6,7) D(5) t cnt exclusive_locks_add [OF D(6) may] by (auto simp: ta_rep_def x)
qed

lemma ta_release1_rep:
  assumes rep: "ta_rep n s (add_mset x H)"
  shows "\<exists>s'. ta_release1 x s = Some s' \<and> ta_rep n s' H"
proof -
  obtain t k w where x: "x = (t, k, w)"
    by (cases x)
  note D = ta_repD [OF rep]
  let ?Q = "\<lambda>j e. entry_rep e (\<lambda>u. count H (u, j, True)) (\<lambda>u. count H (u, j, False))"
  have bound: "count H (u, j, v) < 2 ^ 32" for u j v
    using D(7) [of u j v] by (simp split: if_splits)
  have frame: "?Q j (ta_locks s j)" if "j \<noteq> k" for j
    using D(4) [of j] that by (simp add: x)
  have "\<exists>s'. ta_release1 x s = Some s' \<and> ta_num_threads s' = n \<and> (\<forall>j. ?Q j (ta_locks s' j))"
  proof (cases w)
    case True
    then have "\<exists>e. write_unlock_entry t (ta_locks s k) = Some e \<and> ?Q k e"
      using write_unlock_entry_rep [of "ta_locks s k" "\<lambda>u. count H (u, k, True)" t "\<lambda>u. count H (u, k, False)"]
        D(4) [of k] bound
      by (auto simp: x count_add_lock simp del: count_add_mset fun_upd_apply)
    from on_entry_rep [where Q = ?Q and f = "write_unlock_entry t" and k = k, OF D(1) frame this] True show ?thesis
      by (simp add: x ta_release1_def write_unlock_account_def)
  next
    case False
    then have "\<exists>e. read_unlock_entry t (ta_locks s k) = Some e \<and> ?Q k e"
      using read_unlock_entry_rep [of "ta_locks s k" "\<lambda>u. count H (u, k, True)" "\<lambda>u. count H (u, k, False)" t]
        D(4) [of k] bound
      by (auto simp: x count_add_lock simp del: count_add_mset fun_upd_apply)
    from on_entry_rep [where Q = ?Q and f = "read_unlock_entry t" and k = k, OF D(1) frame this] False show ?thesis
      by (simp add: x ta_release1_def read_unlock_account_def)
  qed
  then show ?thesis
    using D(2,3) D(5) bound exclusive_locks_add_mset [OF D(6)] by (auto simp: ta_rep_def)
qed

lemma ta_rep_unique:
  assumes "ta_rep n s H" and "ta_rep n s' H"
  shows "s = s'"
proof (rule thread_aware_account_locks.equality)
  show "ta_locks s = ta_locks s'"
    using ta_repD(4) [OF assms(1)] ta_repD(4) [OF assms(2)] by (auto intro: entry_rep_unique)
qed (use assms in \<open>auto simp: ta_rep_def\<close>)

interpretation ta: counted_locks ta_take1 ta_release1 "ta_rep n" "ta_grantable n" for n
  by unfold_locales (auto intro: ta_take1_rep ta_release1_rep ta_rep_unique)

text \<open>The locks of one transaction on thread \<open>t\<close>.\<close>

definition thread_locks_of :: "thread_id \<Rightarrow> pubkey list \<Rightarrow> pubkey list \<Rightarrow> thread_lock list" where
  "thread_locks_of t ws rs = map (\<lambda>k. (t, k, True)) ws @ map (\<lambda>k. (t, k, False)) rs"

lemma ta_lock_accounts_eq:
  "t < ta_num_threads s \<Longrightarrow> ta_lock_accounts ws rs t s = foldM ta_take1 (thread_locks_of t ws rs) s"
  by (simp add: ta_lock_accounts_def thread_locks_of_def foldM_append foldM_map ta_take1_def)

lemma ta_unlock_accounts_eq:
  "ta_unlock_accounts ws rs t = foldM ta_release1 (thread_locks_of t ws rs)"
  by (simp add: fun_eq_iff ta_unlock_accounts_def thread_locks_of_def foldM_append foldM_map ta_release1_def)

definition may_lock_all :: "thread_id \<Rightarrow> pubkey list \<Rightarrow> pubkey list \<Rightarrow> thread_lock multiset \<Rightarrow> bool" where
  "may_lock_all t ws rs H \<longleftrightarrow>
     (\<forall>k \<in> set ws. thread_may_lock t k True H) \<and> (\<forall>k \<in> set rs. thread_may_lock t k False H)"

lemma may_lock_allD:
  "may_lock_all t ws rs H \<Longrightarrow> (u, k, w) \<in> set (thread_locks_of t ws rs) \<Longrightarrow>
     u = t \<and> thread_may_lock t k w H"
  by (auto simp: may_lock_all_def thread_locks_of_def)

lemma ta_grantable_all:
  assumes "\<And>u k w. (u, k, w) \<in> set xs \<Longrightarrow> u = t \<and> thread_may_lock t k w H" and "t < n"
    and "\<And>x. count H x + count (mset xs) x < 2 ^ 32"
  shows "ta.grantable_all n xs H"
  using assms(1,3)
proof (induction xs arbitrary: H)
  case Nil
  then show ?case by simp
next
  case (Cons x xs)
  obtain k w where x: "x = (t, k, w)"
    using Cons.prems(1) by (cases x) force
  have "ta_grantable n x H"
    using Cons.prems(1) [of t k w] Cons.prems(2) [of x] assms(2) by (simp add: ta_grantable_def x)
  moreover have "ta.grantable_all n xs (add_mset x H)"
  proof (rule Cons.IH)
    show "u = t \<and> thread_may_lock t j v (add_mset x H)" if "(u, j, v) \<in> set xs" for u j v
      using Cons.prems(1) [of u j v] that by (auto simp: thread_may_lock_def x)
    show "count (add_mset x H) y + count (mset xs) y < 2 ^ 32" for y
      using Cons.prems(2) [of y] by (simp split: if_splits)
  qed
  ultimately show ?case
    by simp
qed

subsection \<open>The threads an account can be scheduled on\<close>

lemma thread_may_lock_counts:
  "thread_may_lock t k w H \<longleftrightarrow>
     (\<forall>u. 0 < count H (u, k, True) \<longrightarrow> u = t) \<and> (w \<longrightarrow> (\<forall>u. 0 < count H (u, k, False) \<longrightarrow> u = t))"
  unfolding thread_may_lock_def all_bool_eq count_greater_zero_iff by blast

lemma schedulable_threads_read_only:
  assumes "ta_locks s k = Some e" and "ta_write_locks e = None" and "ta_read_locks e = Some r"
    and rs: "threads_of (ar_thread_set r) = R" and "R \<noteq> {}" "R \<subseteq> {..<n}"
    and n: "ta_num_threads s = n" "n \<le> 64"
  shows "\<exists>T. schedulable_threads w s k = Some T \<and>
    threads_of T = {t. t < n \<and> (w \<longrightarrow> (\<forall>u \<in> R. u = t))}"
proof (cases "only_one_contained (ar_thread_set r)")
  case None
  have none: "(\<forall>u \<in> R. u = t) = False" for t
  proof -
    have "R \<noteq> {t}"
      using None only_one_contained_iff [of "ar_thread_set r" t] rs by simp
    then show ?thesis
      using \<open>R \<noteq> {}\<close> by auto
  qed
  have "{t. t < n \<and> (w \<longrightarrow> (\<forall>u \<in> R. u = t))} = (if w then {} else {..<n})"
    unfolding none by (simp add: lessThan_def)
  then show ?thesis
    using assms(1-3) None n by (simp add: schedulable_threads_def)
next
  case (Some t)
  then have R: "R = {t}"
    using only_one_contained_iff [of "ar_thread_set r" t] rs by simp
  then have "t < n" "t < 64"
    using \<open>R \<subseteq> {..<n}\<close> n(2) by simp_all
  then have "{u. u < n \<and> (w \<longrightarrow> (\<forall>v \<in> R. v = u))} = (if w then {t} else {..<n})"
    by (auto simp: R)
  then show ?thesis
    using assms(1-3) Some n \<open>t < 64\<close> by (simp add: schedulable_threads_def)
qed

lemma schedulable_threads_written:
  assumes "ta_locks s k = Some e" and "ta_write_locks e = Some v" and "aw_thread_id v < 64"
    and "\<And>r. ta_read_locks e = Some r \<Longrightarrow> threads_of (ar_thread_set r) = {aw_thread_id v}"
  shows "\<exists>T. schedulable_threads w s k = Some T \<and> threads_of T = {aw_thread_id v}"
  using assms by (cases "ta_read_locks e") (simp_all add: schedulable_threads_def only_one_contained_iff)

lemma schedulable_threads_entry:
  assumes rep: "entry_rep (ta_locks s k) wr rd" and n: "ta_num_threads s = n" "n \<le> 64"
    and low: "\<And>t. 0 < wr t \<or> 0 < rd t \<Longrightarrow> t < n"
    and excl: "\<And>t u. 0 < wr t \<Longrightarrow> 0 < rd u \<or> 0 < wr u \<Longrightarrow> u = t"
  shows "\<exists>T. schedulable_threads w s k = Some T \<and>
    threads_of T = {t. t < n \<and> (\<forall>u. 0 < wr u \<longrightarrow> u = t) \<and> (w \<longrightarrow> (\<forall>u \<in> {u. 0 < rd u}. u = t))}"
proof (cases "ta_locks s k")
  case None
  with rep n show ?thesis
    by (simp add: schedulable_threads_def entry_rep_def lessThan_def)
next
  case (Some e)
  with rep have wr: "write_rep (ta_write_locks e) wr" and rd: "read_rep (ta_read_locks e) rd"
    and some: "ta_write_locks e \<noteq> None \<or> ta_read_locks e \<noteq> None"
    by (auto simp: entry_rep_def)
  show ?thesis
  proof (cases "ta_write_locks e")
    case writer: (Some v)
    define t where "t = aw_thread_id v"
    have t: "0 < wr t"
      using wr writer by (simp add: write_rep_def t_def)
    then have "t < n" "t < 64"
      using low n(2) by (auto intro: less_le_trans)
    have only: "{u. u < n \<and> (\<forall>v. 0 < wr v \<longrightarrow> v = u) \<and> (w \<longrightarrow> (\<forall>v \<in> {v. 0 < rd v}. v = u))} = {t}"
    proof (intro set_eqI iffI; clarsimp)
      fix u
      assume "\<forall>v. 0 < wr v \<longrightarrow> v = u"
      then show "u = t" using t by simp
    next
      show "t < n \<and> (\<forall>v. 0 < wr v \<longrightarrow> v = t) \<and> (w \<longrightarrow> (\<forall>v. 0 < rd v \<longrightarrow> v = t))"
        using \<open>t < n\<close> excl [OF t] by simp
    qed
    have "threads_of (ar_thread_set r) = {t}" if "ta_read_locks e = Some r" for r
    proof -
      have "threads_of (ar_thread_set r) = {u. 0 < rd u}" "\<exists>u. 0 < rd u"
        using rd that by (auto simp: read_rep_def)
      then show ?thesis
        using excl [OF t] by auto
    qed
    then show ?thesis
      using schedulable_threads_written [OF Some writer] \<open>t < 64\<close> unfolding only by (simp add: t_def)
  next
    case no_writer: None
    with some obtain r where r: "ta_read_locks e = Some r"
      by auto
    have rs: "threads_of (ar_thread_set r) = {u. 0 < rd u}" "{u. 0 < rd u} \<noteq> {}"
      using rd r by (auto simp: read_rep_def)
    have "{u. 0 < rd u} \<subseteq> {..<n}"
      using low by auto
    moreover have "wr u = 0" for u
      using wr no_writer by (simp add: write_rep_def)
    ultimately show ?thesis
      using schedulable_threads_read_only [OF Some no_writer r rs _ n] by simp
  qed
qed

lemma schedulable_threads_spec:
  assumes "ta_rep n s H"
  shows "\<exists>T. schedulable_threads w s k = Some T \<and> threads_of T = {t. t < n \<and> thread_may_lock t k w H}"
proof -
  note D = ta_repD [OF assms]
  have excl: "u = t" if "0 < count H (t, k, True)" "0 < count H (u, k, False) \<or> 0 < count H (u, k, True)" for t u
  proof -
    have "thread_may_lock t k True H"
      using D(6) that(1) by (simp add: exclusive_locks_def)
    then show ?thesis
      using that(2) by (auto simp: thread_may_lock_def)
  qed
  have low: "t < n" if "0 < count H (t, k, True) \<or> 0 < count H (t, k, False)" for t
    using D(5) that by auto
  show ?thesis
    using schedulable_threads_entry [where w = w, OF D(4) D(1) D(3) low excl]
    by (simp add: thread_may_lock_counts)
qed

lemma restrict_threads_spec:
  assumes "\<And>k. \<exists>S. f k = Some S \<and> threads_of S \<inter> N = {t. t \<in> N \<and> g t k}" and "threads_of T \<subseteq> N"
    and "threads_of T \<noteq> {}"
  shows "\<exists>r. restrict_threads f ks T = Some r \<and>
    (case r of
       None \<Rightarrow> {t \<in> threads_of T. \<forall>k \<in> set ks. g t k} = {}
     | Some T' \<Rightarrow> threads_of T' = {t \<in> threads_of T. \<forall>k \<in> set ks. g t k} \<and> threads_of T' \<noteq> {})"
  using assms(2,3)
proof (induction ks arbitrary: T)
  case Nil
  then show ?case by simp
next
  case (Cons k ks)
  obtain S where S: "f k = Some S" "threads_of S \<inter> N = {t. t \<in> N \<and> g t k}"
    using assms(1) by blast
  define T' where "T' = ts_bitand T S"
  have T': "threads_of T' = {t \<in> threads_of T. g t k}"
    using Cons.prems(1) S(2) by (auto simp: T'_def)
  have step: "restrict_threads f (k # ks) T =
      (if threads_of T' = {} then Some None else restrict_threads f ks T')"
    unfolding T'_def by (simp add: S ts_is_empty_iff Let_def)
  have both: "{t \<in> threads_of T. \<forall>j \<in> set (k # ks). g t j} = {t \<in> threads_of T'. \<forall>j \<in> set ks. g t j}"
    using T' by auto
  show ?case
  proof (cases "threads_of T' = {}")
    case True
    then show ?thesis
      unfolding step both by simp
  next
    case False
    moreover have "threads_of T' \<subseteq> N"
      using Cons.prems(1) T' by auto
    ultimately show ?thesis
      using Cons.IH [of T'] unfolding step both by simp
  qed
qed

lemma accounts_schedulable_threads_spec:
  assumes rep: "ta_rep n s H"
  shows "\<exists>r. accounts_schedulable_threads ws rs s = Some r \<and>
    (case r of
       None \<Rightarrow> {t. t < n \<and> may_lock_all t ws rs H} = {}
     | Some T \<Rightarrow> threads_of T = {t. t < n \<and> may_lock_all t ws rs H} \<and> threads_of T \<noteq> {})"
proof -
  note D = ta_repD [OF rep]
  have sched: "\<exists>S. schedulable_threads w s k = Some S \<and>
      threads_of S \<inter> {..<n} = {t. t \<in> {..<n} \<and> thread_may_lock t k w H}" for w k
    using schedulable_threads_spec [OF rep, of w k] by auto
  have any: "threads_of (ts_any n) = {..<n}" "threads_of (ts_any n) \<noteq> {}"
    using D(2,3) by auto
  obtain r where r: "restrict_threads (schedulable_threads True s) ws (ts_any n) = Some r"
    "case r of
       None \<Rightarrow> {t \<in> threads_of (ts_any n). \<forall>k \<in> set ws. thread_may_lock t k True H} = {}
     | Some T \<Rightarrow> threads_of T = {t \<in> threads_of (ts_any n). \<forall>k \<in> set ws. thread_may_lock t k True H} \<and>
         threads_of T \<noteq> {}"
    using restrict_threads_spec [where g = "\<lambda>t k. thread_may_lock t k True H" and ks = ws,
        OF sched [of True] equalityD1 [OF any(1)] any(2)]
    by (elim exE conjE)
  show ?thesis
  proof (cases r)
    case None
    then show ?thesis
      using r any D(1) by (auto simp: accounts_schedulable_threads_def may_lock_all_def)
  next
    case (Some T)
    then have T: "threads_of T = {t. t < n \<and> (\<forall>k \<in> set ws. thread_may_lock t k True H)}"
      "threads_of T \<noteq> {}"
      using r any(1) by auto
    then have sub: "threads_of T \<subseteq> {..<n}"
      by auto
    have both: "{t \<in> threads_of T. \<forall>k \<in> set rs. thread_may_lock t k False H} =
        {t. t < n \<and> may_lock_all t ws rs H}"
      using T(1) by (auto simp: may_lock_all_def)
    show ?thesis
      using restrict_threads_spec [where g = "\<lambda>t k. thread_may_lock t k False H" and ks = rs,
          OF sched [of False] sub T(2)] Some r(1) D(1)
      unfolding both by (simp add: accounts_schedulable_threads_def)
  qed
qed

text \<open>
  C21. Locking the accounts of a transaction on a table that represents the held locks \<open>H\<close>
  never panics, provided the selector picks one of the threads it is offered. It reports
  \<open>MultipleConflicts\<close> exactly when no thread can take all the locks without another thread
  holding a conflicting one, \<open>ThreadNotAllowed\<close> exactly when some thread can but none of the
  allowed ones, and otherwise offers the selector exactly the allowed threads that can take them
  and locks all accounts on the thread it picks; no lock of the new table conflicts with a lock
  of another thread.
\<close>

theorem try_lock_accounts_correct:
  assumes rep: "ta_rep n s H"
    and sel: "\<forall>T. threads_of T \<noteq> {} \<longrightarrow> selector T \<in> threads_of T"
    and cnt: "\<And>t x. count H x + count (mset (thread_locks_of t ws rs)) x < 2 ^ 32"
  shows "\<exists>r s'. try_lock_accounts ws rs allowed selector s = Some (r, s') \<and>
    (case r of
       Inl MultipleConflicts \<Rightarrow> s' = s \<and> {t. t < n \<and> may_lock_all t ws rs H} = {}
     | Inl ThreadNotAllowed \<Rightarrow> s' = s \<and> {t. t < n \<and> may_lock_all t ws rs H} \<noteq> {} \<and>
         {t. t < n \<and> may_lock_all t ws rs H} \<inter> threads_of allowed = {}
     | Inr t \<Rightarrow> (\<exists>T. threads_of T = {t. t < n \<and> may_lock_all t ws rs H} \<inter> threads_of allowed \<and> t = selector T) \<and>
         t < n \<and> t \<in> threads_of allowed \<and> may_lock_all t ws rs H \<and>
         ta_rep n s' (mset (thread_locks_of t ws rs) + H) \<and>
         exclusive_locks (mset (thread_locks_of t ws rs) + H))"
proof -
  obtain r where r: "accounts_schedulable_threads ws rs s = Some r"
    "case r of
       None \<Rightarrow> {t. t < n \<and> may_lock_all t ws rs H} = {}
     | Some T \<Rightarrow> threads_of T = {t. t < n \<and> may_lock_all t ws rs H} \<and> threads_of T \<noteq> {}"
    using accounts_schedulable_threads_spec [OF rep, of ws rs] by (elim exE conjE)
  show ?thesis
  proof (cases r)
    case None
    then show ?thesis
      using r by (simp add: try_lock_accounts_def)
  next
    case (Some T)
    define C where "C = ts_bitand T allowed"
    have C: "threads_of C = {t. t < n \<and> may_lock_all t ws rs H} \<inter> threads_of allowed"
      using r Some by (simp add: C_def)
    show ?thesis
    proof (cases "threads_of C = {}")
      case True
      then have "try_lock_accounts ws rs allowed selector s = Some (Inl ThreadNotAllowed, s)"
        using r Some by (simp add: try_lock_accounts_def ts_is_empty_iff flip: C_def)
      then show ?thesis
        using r Some C True by auto
    next
      case False
      define t where "t = selector C"
      have t: "t < n" "may_lock_all t ws rs H" "t \<in> threads_of allowed"
        using sel False C by (auto simp: t_def)
      have "ta.grantable_all n (thread_locks_of t ws rs) H"
        using may_lock_allD [OF t(2)] t(1) cnt by (rule ta_grantable_all)
      then obtain s' where s': "foldM ta_take1 (thread_locks_of t ws rs) s = Some s'"
        and rep': "ta_rep n s' (mset (thread_locks_of t ws rs) + H)"
        using ta.take_all_rep [OF rep] by blast
      have "try_lock_accounts ws rs allowed selector s = Some (Inr t, s')"
        using r(1) Some False s' t(1) ta_repD(1) [OF rep]
        by (simp add: try_lock_accounts_def ts_is_empty_iff ta_lock_accounts_eq Let_def
            flip: C_def t_def)
      then show ?thesis
        using t rep' ta_repD(6) [OF rep'] C by (auto simp: t_def)
    qed
  qed
qed

lemma ta_rep_new: "0 < n \<Longrightarrow> n \<le> 64 \<Longrightarrow> ta_rep n \<lparr>ta_num_threads = n, ta_locks = Map.empty\<rparr> {#}"
  by (simp add: ta_rep_def entry_rep_def exclusive_locks_def)

theorem try_lock_accounts_correct_witness:
  "\<exists>t s'. try_lock_accounts [1, 2] [2, 3] (ts_any 4) trailing_zeros
     \<lparr>ta_num_threads = 4, ta_locks = Map.empty\<rparr> = Some (Inr t, s') \<and> t = trailing_zeros (ts_any 4)"
proof -
  have free: "{t. t < 4 \<and> may_lock_all t [1, 2] [2, 3] {#}} = {..<4}"
    by (auto simp: may_lock_all_def thread_may_lock_def)
  have cnt: "count {#} x + count (mset (thread_locks_of t [1, 2] [2, 3])) x < 2 ^ 32" for t x
    by (simp add: thread_locks_of_def)
  have sel: "\<forall>T. threads_of T \<noteq> {} \<longrightarrow> trailing_zeros T \<in> threads_of T"
    using trailing_zeros_least by blast
  have "ta_rep 4 \<lparr>ta_num_threads = 4, ta_locks = Map.empty\<rparr> {#}"
    by (rule ta_rep_new) simp_all
  from try_lock_accounts_correct [where allowed = "ts_any 4" and selector = trailing_zeros, OF this sel cnt]
  show ?thesis
    unfolding free
    by (elim exE conjE; rename_tac r s', case_tac r)
      (auto simp: lessThan_empty_iff threads_of_inject [of _ "ts_any 4", simplified] split: try_lock_error.splits)
qed

text \<open>
  C33. Unlocking the accounts of a transaction on the thread that locked them never panics and
  restores the table as it was before the transaction was locked.
\<close>

theorem ta_lock_unlock_roundtrip:
  assumes "ta_rep n s H" and "t < n" and "may_lock_all t ws rs H"
    and "\<And>x. count H x + count (mset (thread_locks_of t ws rs)) x < 2 ^ 32"
  shows "Option.bind (ta_lock_accounts ws rs t s) (ta_unlock_accounts ws rs t) = Some s"
  using ta.take_release_roundtrip [OF assms(1) ta_grantable_all [OF may_lock_allD [OF assms(3)] assms(2,4)] refl]
    assms(2) ta_repD(1) [OF assms(1)]
  by (simp add: ta_lock_accounts_eq ta_unlock_accounts_eq)

theorem ta_lock_unlock_roundtrip_witness:
  "Option.bind (ta_lock_accounts [1] [2, 2] 3 \<lparr>ta_num_threads = 4, ta_locks = Map.empty\<rparr>)
     (ta_unlock_accounts [1] [2, 2] 3) = Some \<lparr>ta_num_threads = 4, ta_locks = Map.empty\<rparr>"
proof (rule ta_lock_unlock_roundtrip)
  show "ta_rep 4 \<lparr>ta_num_threads = 4, ta_locks = Map.empty\<rparr> {#}"
    by (rule ta_rep_new) simp_all
qed (simp_all add: may_lock_all_def thread_may_lock_def thread_locks_of_def)

end
