(* ===== verification/In_Flight.thy ===== *)
theory In_Flight
  imports Thread_Set
begin

section \<open>Tracking the batches in flight\<close>

text \<open>
  \<open>InFlightTracker\<close> and \<open>BatchIdGenerator\<close> of
  \<open>src/core/src/banking_stage/transaction_scheduler/\<close>: how many transactions and compute units
  each worker thread has been handed and not yet finished. The per-thread totals are vectors
  indexed by the thread (an index out of range panics) and their arithmetic wraps.
\<close>

record batch_entry =
  be_thread_id :: thread_id
  be_num_transactions :: u64
  be_total_cus :: u64

record in_flight_tracker =
  num_in_flight_per_thread :: "u64 list"
  cus_in_flight_per_thread :: "u64 list"
  batches :: "u64 \<rightharpoonup> batch_entry"
  next_id :: u64

definition in_flight_new :: "nat \<Rightarrow> in_flight_tracker" where
  "in_flight_new num_threads =
     \<lparr>num_in_flight_per_thread = replicate num_threads 0,
      cus_in_flight_per_thread = replicate num_threads 0,
      batches = Map.empty, next_id = 0\<rparr>"

definition generate_batch_id :: "in_flight_tracker \<Rightarrow> u64 \<times> in_flight_tracker" where
  "generate_batch_id self = (next_id self, self\<lparr>next_id := next_id self - 1\<rparr>)"

definition track_batch ::
  "u64 \<Rightarrow> u64 \<Rightarrow> thread_id \<Rightarrow> in_flight_tracker \<Rightarrow> (u64 \<times> in_flight_tracker) option" where
  "track_batch num_transactions total_cus thread_id self =
     (let (batch_id, self) = generate_batch_id self in
      if \<not> thread_id < length (num_in_flight_per_thread self) then None
      else if \<not> thread_id < length (cus_in_flight_per_thread self) then None
      else Some (batch_id, self\<lparr>
        num_in_flight_per_thread := (num_in_flight_per_thread self)
          [thread_id := num_in_flight_per_thread self ! thread_id + num_transactions],
        cus_in_flight_per_thread := (cus_in_flight_per_thread self)
          [thread_id := cus_in_flight_per_thread self ! thread_id + total_cus],
        batches := (batches self)(batch_id \<mapsto>
          \<lparr>be_thread_id = thread_id, be_num_transactions = num_transactions, be_total_cus = total_cus\<rparr>)\<rparr>))"

definition complete_batch :: "u64 \<Rightarrow> in_flight_tracker \<Rightarrow> (thread_id \<times> in_flight_tracker) option" where
  "complete_batch batch_id self =
     (case batches self batch_id of
        None \<Rightarrow> None
      | Some entry \<Rightarrow>
          let thread_id = be_thread_id entry in
          if \<not> thread_id < length (num_in_flight_per_thread self) then None
          else if \<not> thread_id < length (cus_in_flight_per_thread self) then None
          else Some (thread_id, self\<lparr>
            batches := (batches self)(batch_id := None),
            num_in_flight_per_thread := (num_in_flight_per_thread self)
              [thread_id := num_in_flight_per_thread self ! thread_id - be_num_transactions entry],
            cus_in_flight_per_thread := (cus_in_flight_per_thread self)
              [thread_id := cus_in_flight_per_thread self ! thread_id - be_total_cus entry]\<rparr>))"

subsection \<open>The totals are the sums over the tracked batches\<close>

definition thread_total :: "(batch_entry \<Rightarrow> u64) \<Rightarrow> (u64 \<rightharpoonup> batch_entry) \<Rightarrow> thread_id \<Rightarrow> u64" where
  "thread_total amount bs t =
     (\<Sum>i \<in> dom bs. if be_thread_id (the (bs i)) = t then amount (the (bs i)) else 0)"

definition in_flight_inv :: "nat \<Rightarrow> in_flight_tracker \<Rightarrow> bool" where
  "in_flight_inv n self \<longleftrightarrow>
     finite (dom (batches self)) \<and>
     num_in_flight_per_thread self = map (thread_total be_num_transactions (batches self)) [0..<n] \<and>
     cus_in_flight_per_thread self = map (thread_total be_total_cus (batches self)) [0..<n] \<and>
     (\<forall>e \<in> ran (batches self). be_thread_id e < n)"

lemma thread_total_insert:
  assumes "finite (dom bs)" and "bs i = None"
  shows "thread_total f (bs(i \<mapsto> e)) t =
    thread_total f bs t + (if be_thread_id e = t then f e else 0)"
proof -
  have "(\<Sum>j \<in> dom bs. if be_thread_id (the ((bs(i \<mapsto> e)) j)) = t then f (the ((bs(i \<mapsto> e)) j)) else 0) =
      thread_total f bs t"
    unfolding thread_total_def using assms by (intro sum.cong) auto
  moreover have "i \<notin> dom bs"
    using assms(2) by auto
  ultimately show ?thesis
    using assms(1) by (simp add: thread_total_def add.commute)
qed

lemma thread_total_remove:
  assumes "finite (dom bs)" and "bs i = Some e"
  shows "thread_total f (bs(i := None)) t =
    thread_total f bs t - (if be_thread_id e = t then f e else 0)"
proof -
  have "bs = (bs(i := None))(i \<mapsto> e)"
    using assms(2) by (simp add: fun_eq_iff)
  moreover have "finite (dom (bs(i := None)))"
    using assms(1) by simp
  ultimately show ?thesis
    using thread_total_insert [of "bs(i := None)" i f e t] by (simp add: algebra_simps)
qed

lemma map_upt_update:
  assumes "t < n" and "\<And>u. u < n \<Longrightarrow> g u = (if u = t then x else f u)"
  shows "(map f [0..<n])[t := x] = map g [0..<n]"
  using assms by (intro nth_equalityI) (auto simp: nth_list_update)

lemma in_flight_new_inv: "in_flight_inv n (in_flight_new n)"
  by (auto simp: in_flight_inv_def in_flight_new_def thread_total_def intro: nth_equalityI)

lemma track_batch_inv:
  assumes "in_flight_inv n s" and "batches s (next_id s) = None"
  shows "map_option (\<lambda>r. in_flight_inv n (snd r) \<and> next_id (snd r) = next_id s - 1 \<and>
      batches (snd r) = (batches s)(next_id s \<mapsto>
        \<lparr>be_thread_id = t, be_num_transactions = num, be_total_cus = cus\<rparr>)) (track_batch num cus t s) =
    (if t < n then Some True else None)"
  using assms
  by (auto simp: track_batch_def generate_batch_id_def in_flight_inv_def thread_total_insert ran_def
      intro!: map_upt_update)

lemma complete_batch_inv:
  assumes "in_flight_inv n s"
  shows "map_option (\<lambda>r. in_flight_inv n (snd r) \<and> next_id (snd r) = next_id s \<and> batches (snd r) = (batches s)(i := None))
      (complete_batch i s) = map_option (\<lambda>_. True) (batches s i)"
    and "map_option fst (complete_batch i s) = map_option be_thread_id (batches s i)"
proof -
  have "be_thread_id e < n" if "batches s i = Some e" for e
    using assms that by (auto simp: in_flight_inv_def ran_def)
  then show "map_option (\<lambda>r. in_flight_inv n (snd r) \<and> next_id (snd r) = next_id s \<and> batches (snd r) = (batches s)(i := None))
      (complete_batch i s) = map_option (\<lambda>_. True) (batches s i)"
    and "map_option fst (complete_batch i s) = map_option be_thread_id (batches s i)"
    using assms
    by (auto simp: complete_batch_def in_flight_inv_def thread_total_remove ran_def Let_def
        intro!: map_upt_update split: if_splits option.splits)
qed

subsection \<open>Sequences of operations\<close>

text \<open>
  A client tracks batches and completes them. \<open>in_flight_batches\<close> says which batches are in flight after
  a sequence, from the operations alone: identifiers are handed out from 0 downwards.
  \<open>in_flight_allowed\<close> says that every batch goes to an existing thread and every completed batch is
  in flight at that moment.
\<close>

datatype in_flight_op =
    is_Track: Track u64 u64 thread_id
  | Complete u64

fun in_flight_step :: "in_flight_op \<Rightarrow> in_flight_tracker \<Rightarrow> in_flight_tracker option" where
  "in_flight_step (Track num cus t) s = map_option snd (track_batch num cus t s)"
| "in_flight_step (Complete i) s = map_option snd (complete_batch i s)"

fun in_flight_batches :: "in_flight_op list \<Rightarrow> u64 \<Rightarrow> (u64 \<rightharpoonup> batch_entry) \<Rightarrow> (u64 \<rightharpoonup> batch_entry)" where
  "in_flight_batches [] i bs = bs"
| "in_flight_batches (Track num cus t # ops) i bs =
     in_flight_batches ops (i - 1) (bs(i \<mapsto> \<lparr>be_thread_id = t, be_num_transactions = num, be_total_cus = cus\<rparr>))"
| "in_flight_batches (Complete j # ops) i bs = in_flight_batches ops i (bs(j := None))"

fun in_flight_allowed :: "nat \<Rightarrow> in_flight_op list \<Rightarrow> u64 \<Rightarrow> (u64 \<rightharpoonup> batch_entry) \<Rightarrow> bool" where
  "in_flight_allowed n [] i bs = True"
| "in_flight_allowed n (Track num cus t # ops) i bs \<longleftrightarrow> t < n \<and>
     in_flight_allowed n ops (i - 1) (bs(i \<mapsto> \<lparr>be_thread_id = t, be_num_transactions = num, be_total_cus = cus\<rparr>))"
| "in_flight_allowed n (Complete j # ops) i bs \<longleftrightarrow> bs j \<noteq> None \<and> in_flight_allowed n ops i (bs(j := None))"

definition ids_below :: "nat \<Rightarrow> u64 set" where
  "ids_below k = (\<lambda>j. - of_nat j) ` {..<k}"

lemma ids_below_fresh: "k < 2 ^ 64 \<Longrightarrow> - of_nat k \<notin> ids_below k"
proof
  assume "k < 2 ^ 64" "- of_nat k \<in> ids_below k"
  then obtain j where "j < k" and eq: "(of_nat k :: u64) = of_nat j"
    by (auto simp: ids_below_def)
  have "unat (of_nat k :: u64) = unat (of_nat j :: u64)"
    by (simp only: eq)
  then show False
    using \<open>k < 2 ^ 64\<close> \<open>j < k\<close> by (simp only: unat_of_nat) simp
qed

lemma ids_below_Suc: "ids_below (Suc k) = insert (- of_nat k) (ids_below k)"
  by (simp add: ids_below_def lessThan_Suc)

lemma in_flight_steps:
  assumes "in_flight_inv n s" "next_id s = - of_nat k" "dom (batches s) \<subseteq> ids_below k"
    and "k + length (filter is_Track ops) \<le> 2 ^ 64"
  shows "map_option (\<lambda>s'. in_flight_inv n s' \<and> batches s' = in_flight_batches ops (next_id s) (batches s))
      (foldM in_flight_step ops s) =
    (if in_flight_allowed n ops (next_id s) (batches s) then Some True else None)"
  using assms
proof (induction ops arbitrary: s k)
  case Nil
  then show ?case by simp
next
  case (Cons op ops)
  show ?case
  proof (cases op)
    case (Track num cus t)
    then have "batches s (next_id s) = None"
      using Cons.prems(2-4) ids_below_fresh [of k] by auto
    note step = track_batch_inv [OF Cons.prems(1) this, of t num cus]
    show ?thesis
    proof (cases "t < n")
      case True
      then obtain i s' where s': "track_batch num cus t s = Some (i, s')" "in_flight_inv n s'" "next_id s' = next_id s - 1"
        "batches s' = (batches s)(next_id s \<mapsto> \<lparr>be_thread_id = t, be_num_transactions = num, be_total_cus = cus\<rparr>)"
        using step by auto
      have "next_id s' = - of_nat (Suc k)" "dom (batches s') \<subseteq> ids_below (Suc k)"
        "Suc k + length (filter is_Track ops) \<le> 2 ^ 64"
        using s'(3,4) Cons.prems(2-4) Track by (auto simp: ids_below_Suc)
      from Cons.IH [OF s'(2) this] show ?thesis
        using s' True Track by (simp del: fun_upd_apply split del: if_split)
    qed (use step Track in auto)
  next
    case (Complete i)
    note step = complete_batch_inv(1) [OF Cons.prems(1), of i]
    show ?thesis
    proof (cases "batches s i")
      case (Some e)
      then obtain t s' where s': "complete_batch i s = Some (t, s')" "in_flight_inv n s'" "next_id s' = next_id s"
        "batches s' = (batches s)(i := None)"
        using step by auto
      have "next_id s' = - of_nat k" "dom (batches s') \<subseteq> ids_below k" "k + length (filter is_Track ops) \<le> 2 ^ 64"
        using s'(3,4) Cons.prems(2-4) Complete by auto
      from Cons.IH [OF s'(2) this] show ?thesis
        using s' Some Complete by (simp del: fun_upd_apply split del: if_split)
    qed (use step Complete in auto)
  qed
qed

text \<open>
  C34. A tracker for \<open>n\<close> threads, from its creation through any sequence of operations that tracks at most
  \<open>2 ^ 64\<close> batches: the sequence panics exactly when it tracks a batch on a thread that does
  not exist or completes a batch that is not in flight. Otherwise the totals of each thread are
  the sums, modulo \<open>2 ^ 64\<close>, over the batches that were tracked on it and not completed,
  and completing one of them reports its thread.
\<close>

theorem in_flight_totals_exact:
  assumes "length (filter is_Track ops) \<le> 2 ^ 64"
  shows "(foldM in_flight_step ops (in_flight_new n) \<noteq> None \<longleftrightarrow> in_flight_allowed n ops 0 Map.empty) \<and>
    (\<forall>s. foldM in_flight_step ops (in_flight_new n) = Some s \<longrightarrow>
       num_in_flight_per_thread s = map (thread_total be_num_transactions (in_flight_batches ops 0 Map.empty)) [0..<n] \<and>
       cus_in_flight_per_thread s = map (thread_total be_total_cus (in_flight_batches ops 0 Map.empty)) [0..<n] \<and>
       (\<forall>i. map_option fst (complete_batch i s) = map_option be_thread_id (in_flight_batches ops 0 Map.empty i)))"
proof -
  have "in_flight_inv n (in_flight_new n)" "next_id (in_flight_new n) = - of_nat 0"
    "batches (in_flight_new n) = Map.empty"
    by (rule in_flight_new_inv) (simp_all add: in_flight_new_def)
  then have "map_option (\<lambda>s. in_flight_inv n s \<and> batches s = in_flight_batches ops 0 Map.empty)
      (foldM in_flight_step ops (in_flight_new n)) = (if in_flight_allowed n ops 0 Map.empty then Some True else None)"
    using in_flight_steps [of n "in_flight_new n" 0 ops] assms by simp
  then show ?thesis
    using complete_batch_inv(2) by (auto simp: in_flight_inv_def split: if_splits)
qed

theorem in_flight_totals_exact_witness:
  "\<exists>s. foldM in_flight_step [Track 2 10000 0, Track 1 15000 1, Complete 0] (in_flight_new 2) = Some s \<and>
     num_in_flight_per_thread s = map (thread_total be_num_transactions
       (in_flight_batches [Track 2 10000 0, Track 1 15000 1, Complete 0] 0 Map.empty)) [0..<2]"
proof -
  have "in_flight_allowed 2 [Track 2 10000 0, Track 1 15000 1, Complete 0] 0 Map.empty"
    by simp
  then show ?thesis
    using in_flight_totals_exact [of "[Track 2 10000 0, Track 1 15000 1, Complete 0]" 2] by auto
qed

end
