(* ===== verification/BTree_Map.thy ===== *)
theory BTree_Map
  imports Prelude
begin

section \<open>Ordered maps of the standard library\<close>

text \<open>
  \<open>std::collections::BTreeMap\<close> as the association list of its entries in key order, with the
  operations the modelled code calls. The abstraction is \<open>map_of\<close>; \<open>sorted_keys\<close> is the
  representation invariant.
\<close>

type_synonym ('k, 'v) btree_map = "('k \<times> 'v) list"

definition sorted_keys :: "('k::linorder, 'v) btree_map \<Rightarrow> bool" where
  "sorted_keys m \<longleftrightarrow> sorted_wrt (<) (map fst m)"

fun bt_insert :: "'k::linorder \<Rightarrow> 'v \<Rightarrow> ('k, 'v) btree_map \<Rightarrow> ('k, 'v) btree_map" where
  "bt_insert k v [] = [(k, v)]"
| "bt_insert k v ((j, w) # m) =
     (if k < j then (k, v) # (j, w) # m
      else if k = j then (k, v) # m
      else (j, w) # bt_insert k v m)"

fun bt_remove :: "'k::linorder \<Rightarrow> ('k, 'v) btree_map \<Rightarrow> ('k, 'v) btree_map" where
  "bt_remove k [] = []"
| "bt_remove k ((j, w) # m) = (if k = j then m else (j, w) # bt_remove k m)"

definition bt_pop_first :: "('k, 'v) btree_map \<Rightarrow> ('k \<times> 'v) option \<times> ('k, 'v) btree_map" where
  "bt_pop_first m = (case m of [] \<Rightarrow> (None, []) | e # m' \<Rightarrow> (Some e, m'))"

definition bt_first :: "('k, 'v) btree_map \<Rightarrow> ('k \<times> 'v) option" where
  "bt_first m = (case m of [] \<Rightarrow> None | e # _ \<Rightarrow> Some e)"

text \<open>\<open>split_off\<close> moves the entries from the key on into a map of its own.\<close>

definition bt_split_off :: "'k::linorder \<Rightarrow> ('k, 'v) btree_map \<Rightarrow> ('k, 'v) btree_map \<times> ('k, 'v) btree_map" where
  "bt_split_off k m = (filter (\<lambda>e. fst e < k) m, filter (\<lambda>e. k \<le> fst e) m)"

lemma sorted_keys_Nil [simp]: "sorted_keys []"
  by (simp add: sorted_keys_def)

lemma sorted_keys_Cons [simp]:
  "sorted_keys ((k, v) # m) \<longleftrightarrow> (\<forall>j \<in> fst ` set m. k < j) \<and> sorted_keys m"
  by (auto simp: sorted_keys_def)

lemma keys_bt_insert [simp]: "fst ` set (bt_insert k v m) = insert k (fst ` set m)"
  by (induction k v m rule: bt_insert.induct) auto

lemma map_of_bt_insert [simp]: "map_of (bt_insert k v m) = (map_of m)(k \<mapsto> v)"
  by (induction k v m rule: bt_insert.induct) auto

lemma sorted_bt_insert [simp]: "sorted_keys m \<Longrightarrow> sorted_keys (bt_insert k v m)"
  by (induction k v m rule: bt_insert.induct) (auto simp del: keys_bt_insert simp: keys_bt_insert)

lemma bt_remove_absent: "k \<notin> fst ` set m \<Longrightarrow> bt_remove k m = m"
  by (induction k m rule: bt_remove.induct) auto

lemma keys_bt_remove [simp]: "sorted_keys m \<Longrightarrow> fst ` set (bt_remove k m) = fst ` set m - {k}"
  by (induction k m rule: bt_remove.induct) auto

lemma map_of_bt_remove [simp]: "sorted_keys m \<Longrightarrow> map_of (bt_remove k m) = (map_of m)(k := None)"
  by (induction k m rule: bt_remove.induct) (auto simp: fun_eq_iff map_of_eq_None_iff)

lemma sorted_bt_remove [simp]: "sorted_keys m \<Longrightarrow> sorted_keys (bt_remove k m)"
  by (induction k m rule: bt_remove.induct) auto

lemma sorted_keys_filter [simp]: "sorted_keys m \<Longrightarrow> sorted_keys (filter P m)"
  by (induction m) auto

lemma bt_first_least:
  assumes "sorted_keys m" and "bt_first m = Some (k, v)"
  shows "map_of m k = Some v \<and> (\<forall>j \<in> dom (map_of m). k \<le> j)"
  using assms by (cases m) (auto simp: bt_first_def dom_map_of_conv_image_fst)

end
