(* ===== verification/Usage_Queue.thy ===== *)
theory Usage_Queue
  imports BTree_Map
begin

section \<open>Usage queues of the unified scheduler\<close>

text \<open>
  The per-address queues of \<open>src/unified-scheduler-logic/src/lib.rs\<close>: which tasks use an
  address now and which are blocked behind them, in order of arrival (\<open>FifoQueueing\<close>) or of
  task identifier (\<open>PriorityQueueing\<close>).

  Sharing is explicit. A \<open>TokenCell\<close> is mutated by the one scheduler thread that owns its
  token, so the usage queues form a store indexed by address (the usage queue loader returns
  the same queue for the same address) and the blocked-usage counters of the tasks a store
  indexed by the task identifier, which is unique among the tasks alive. \<open>None\<close> is a panic:
  an assertion, an \<open>unreachable!\<close>, or a counter that leaves the range of \<open>u32\<close>.
\<close>

datatype capability = FifoQueueing | PriorityQueueing

datatype requested_usage = Readonly | Writable

record task =
  task_id :: u128
  task_hash :: hash
  lock_contexts :: "(pubkey \<times> requested_usage) list"
  consumed_block_size :: u64
  sanitized_epoch :: epoch
  alt_invalidation_slot :: slot

type_synonym usage_from_task = "requested_usage \<times> task"
type_synonym blocked_counts = "u128 \<Rightarrow> u32"

datatype ('r, 'w) usage = ReadonlyUsage 'r | WritableUsage 'w

type_synonym fifo_usage = "(u32, unit) usage"
type_synonym priority_usage = "((u128, task) btree_map, task) usage"

datatype usage_queue_inner =
    Fifo "fifo_usage option" "usage_from_task list"
  | Priority "priority_usage option" "(u128, usage_from_task) btree_map"

datatype lock_result = LockOk | LockErr

subsection \<open>Short counters\<close>

definition increment :: "u32 \<Rightarrow> u32 option" where
  "increment self = checked_add self 1"

definition decrement :: "u32 \<Rightarrow> u32 option" where
  "decrement self = checked_sub self 1"

definition max_self :: "u32 \<Rightarrow> u32 \<Rightarrow> u32" where
  "max_self self other = max self other"

subsection \<open>Tasks\<close>

definition is_higher_priority :: "task \<Rightarrow> task \<Rightarrow> bool option" where
  "is_higher_priority self other =
     (if task_id self < task_id other then Some True
      else if task_id self > task_id other then Some False
      else None)"

definition set_blocked_usage_count :: "task \<Rightarrow> u32 \<Rightarrow> blocked_counts \<Rightarrow> blocked_counts" where
  "set_blocked_usage_count self n counts = counts(task_id self := n)"

definition try_unblock :: "task \<Rightarrow> blocked_counts \<Rightarrow> (bool \<times> blocked_counts) option" where
  "try_unblock self counts =
     Option.bind (decrement (counts (task_id self))) (\<lambda>n.
       Some (n = 0, counts(task_id self := n)))"

definition try_reblock :: "task \<Rightarrow> blocked_counts \<Rightarrow> (bool \<times> blocked_counts) option" where
  "try_reblock self counts =
     (if counts (task_id self) = 0 then Some (False, counts)
      else Option.bind (increment (counts (task_id self))) (\<lambda>n.
        Some (True, counts(task_id self := n))))"

subsection \<open>Usages\<close>

fun usage_requested_usage :: "('r, 'w) usage \<Rightarrow> requested_usage" where
  "usage_requested_usage (ReadonlyUsage _) = Readonly"
| "usage_requested_usage (WritableUsage _) = Writable"

fun fifo_usage_from :: "requested_usage \<Rightarrow> fifo_usage" where
  "fifo_usage_from Readonly = ReadonlyUsage 1"
| "fifo_usage_from Writable = WritableUsage ()"

fun priority_usage_from :: "task \<Rightarrow> requested_usage \<Rightarrow> priority_usage" where
  "priority_usage_from task Readonly = ReadonlyUsage [(task_id task, task)]"
| "priority_usage_from task Writable = WritableUsage task"

text \<open>\<open>take_readable\<close> and \<open>take_writable\<close> leave \<open>None\<close> behind.\<close>

fun take_readable :: "priority_usage option \<Rightarrow> priority_usage option option" where
  "take_readable (Some (ReadonlyUsage tasks)) = (if tasks = [] then Some None else None)"
| "take_readable _ = None"

fun take_writable :: "priority_usage option \<Rightarrow> (task \<times> priority_usage option) option" where
  "take_writable (Some (WritableUsage task)) = Some (task, None)"
| "take_writable _ = None"

definition insert_usage_from_task ::
  "usage_from_task \<Rightarrow> (u128, usage_from_task) btree_map \<Rightarrow> (u128, usage_from_task) btree_map option" where
  "insert_usage_from_task usage_from_task self =
     (let tid = task_id (snd usage_from_task) in
      if map_of self tid = None then Some (bt_insert tid usage_from_task self) else None)"

definition pop_first_usage_from_task ::
  "(u128, usage_from_task) btree_map \<Rightarrow> usage_from_task option \<times> (u128, usage_from_task) btree_map" where
  "pop_first_usage_from_task self =
     (case bt_pop_first self of (first, self') \<Rightarrow> (map_option snd first, self'))"

definition first_usage_from_task :: "(u128, usage_from_task) btree_map \<Rightarrow> usage_from_task option" where
  "first_usage_from_task self = map_option snd (bt_first self)"

subsection \<open>Queues\<close>

fun usage_queue_new :: "capability \<Rightarrow> usage_queue_inner" where
  "usage_queue_new FifoQueueing = Fifo None []"
| "usage_queue_new PriorityQueueing = Priority None []"

fun try_lock :: "usage_queue_inner \<Rightarrow> task \<Rightarrow> requested_usage \<Rightarrow> (lock_result \<times> usage_queue_inner) option" where
  "try_lock (Fifo current_usage blocked) new_task requested_usage =
     (case current_usage of
        None \<Rightarrow> Some (LockOk, Fifo (Some (fifo_usage_from requested_usage)) blocked)
      | Some (ReadonlyUsage n) \<Rightarrow>
          (case requested_usage of
             Readonly \<Rightarrow> Option.bind (increment n) (\<lambda>n'.
               Some (LockOk, Fifo (Some (ReadonlyUsage n')) blocked))
           | Writable \<Rightarrow> Some (LockErr, Fifo current_usage blocked))
      | Some (WritableUsage _) \<Rightarrow> Some (LockErr, Fifo current_usage blocked))"
| "try_lock (Priority current_usage blocked) new_task requested_usage =
     (case current_usage of
        Some (ReadonlyUsage tasks) \<Rightarrow>
          (case requested_usage of
             Readonly \<Rightarrow>
               (if map_of tasks (task_id new_task) = None
                then Some (LockOk, Priority (Some (ReadonlyUsage (bt_insert (task_id new_task) new_task tasks))) blocked)
                else None)
           | Writable \<Rightarrow> Some (LockErr, Priority current_usage blocked))
      | Some (WritableUsage _) \<Rightarrow> Some (LockErr, Priority current_usage blocked)
      | None \<Rightarrow> Some (LockOk, Priority (Some (priority_usage_from new_task requested_usage)) blocked))"

fun pop_blocked :: "usage_queue_inner \<Rightarrow> usage_from_task option \<times> usage_queue_inner" where
  "pop_blocked (Fifo current_usage []) = (None, Fifo current_usage [])"
| "pop_blocked (Fifo current_usage (u # blocked)) = (Some u, Fifo current_usage blocked)"
| "pop_blocked (Priority current_usage blocked) =
     (case pop_first_usage_from_task blocked of (u, blocked') \<Rightarrow> (u, Priority current_usage blocked'))"

fun push :: "usage_queue_inner \<Rightarrow> usage_from_task \<Rightarrow> usage_queue_inner option" where
  "push (Fifo current_usage blocked) u = Some (Fifo current_usage (blocked @ [u]))"
| "push (Priority current_usage blocked) u =
     map_option (Priority current_usage) (insert_usage_from_task u blocked)"

fun peek_blocked :: "usage_queue_inner \<Rightarrow> usage_from_task option" where
  "peek_blocked (Fifo _ blocked) = (case blocked of [] \<Rightarrow> None | u # _ \<Rightarrow> Some u)"
| "peek_blocked (Priority _ blocked) = first_usage_from_task blocked"

fun current_usage :: "usage_queue_inner \<Rightarrow> requested_usage option" where
  "current_usage (Fifo u _) = map_option usage_requested_usage u"
| "current_usage (Priority u _) = map_option usage_requested_usage u"

text \<open>
  \<open>unlock\<close>: the first component of the inner result is the new \<open>current_usage\<close> and whether the
  queue became newly lockable.
\<close>

fun unlock_fifo_usage :: "fifo_usage option \<Rightarrow> requested_usage \<Rightarrow> (fifo_usage option \<times> bool) option" where
  "unlock_fifo_usage (Some (ReadonlyUsage n)) Readonly =
     (if n = 1 then Some (None, True)
      else Option.bind (decrement n) (\<lambda>n'. Some (Some (ReadonlyUsage n'), False)))"
| "unlock_fifo_usage (Some (ReadonlyUsage n)) Writable = None"
| "unlock_fifo_usage (Some (WritableUsage _)) r = (if r = Writable then Some (None, True) else None)"
| "unlock_fifo_usage None r = None"

fun unlock_priority_usage ::
  "priority_usage option \<Rightarrow> task \<Rightarrow> requested_usage \<Rightarrow> (priority_usage option \<times> bool) option" where
  "unlock_priority_usage (Some (ReadonlyUsage tasks)) task Readonly =
     (if map_of tasks (task_id task) = None then None
      else let tasks' = bt_remove (task_id task) tasks in
        if tasks' = [] then Some (None, True) else Some (Some (ReadonlyUsage tasks'), False))"
| "unlock_priority_usage (Some (ReadonlyUsage tasks)) task Writable = None"
| "unlock_priority_usage (Some (WritableUsage t)) task r = (if r = Writable then Some (None, True) else None)"
| "unlock_priority_usage None task r = None"

fun unlock :: "usage_queue_inner \<Rightarrow> task \<Rightarrow> requested_usage \<Rightarrow> (usage_from_task option \<times> usage_queue_inner) option" where
  "unlock (Fifo current blocked) task requested_usage =
     Option.bind (unlock_fifo_usage current requested_usage) (\<lambda>(current', is_newly_lockable).
       Some (if is_newly_lockable then pop_blocked (Fifo current' blocked) else (None, Fifo current' blocked)))"
| "unlock (Priority current blocked) task requested_usage =
     Option.bind (unlock_priority_usage current task requested_usage) (\<lambda>(current', is_newly_lockable).
       Some (if is_newly_lockable then pop_blocked (Priority current' blocked) else (None, Priority current' blocked)))"

definition push_blocked :: "usage_queue_inner \<Rightarrow> usage_from_task \<Rightarrow> usage_queue_inner option" where
  "push_blocked self u = (if current_usage self = None then None else push self u)"

definition pop_lockable_readonly :: "usage_queue_inner \<Rightarrow> (usage_from_task option \<times> usage_queue_inner) option" where
  "pop_lockable_readonly self =
     (case peek_blocked self of
        Some (Readonly, _) \<Rightarrow>
          (if current_usage self = Some Readonly then Some (pop_blocked self) else None)
      | _ \<Rightarrow> Some (None, self))"

subsection \<open>Preparing a lock\<close>

text \<open>
  The loop over \<open>extract_if\<close>: from the key of the new task on, each current reader that can be
  reblocked leaves the current tasks and joins the blocked ones.
\<close>

fun reblock_readers ::
  "u128 \<Rightarrow> (u128, task) btree_map \<Rightarrow> (u128, usage_from_task) btree_map \<Rightarrow> blocked_counts \<Rightarrow>
     ((u128, task) btree_map \<times> (u128, usage_from_task) btree_map \<times> blocked_counts) option" where
  "reblock_readers from [] blocked counts = Some ([], blocked, counts)"
| "reblock_readers from ((tid, task) # tasks) blocked counts =
     (if tid < from then
        map_option (\<lambda>(tasks', rest). ((tid, task) # tasks', rest)) (reblock_readers from tasks blocked counts)
      else Option.bind (try_reblock task counts) (\<lambda>(extracted, counts').
        if extracted then
          Option.bind (insert_usage_from_task (Readonly, task) blocked) (\<lambda>blocked'.
            reblock_readers from tasks blocked' counts')
        else map_option (\<lambda>(tasks', rest). ((tid, task) # tasks', rest))
          (reblock_readers from tasks blocked counts')))"

fun prepare_lock ::
  "usage_queue_inner \<Rightarrow> blocked_counts \<Rightarrow> task \<Rightarrow> requested_usage \<Rightarrow>
     (lock_result \<times> usage_queue_inner \<times> blocked_counts) option" where
  "prepare_lock (Fifo current blocked) counts new_task requested_usage =
     Some (if blocked = [] then LockOk else LockErr, Fifo current blocked, counts)"
| "prepare_lock (Priority None blocked) counts new_task requested_usage =
     (if blocked = [] then Some (LockOk, Priority None blocked, counts) else None)"
| "prepare_lock (Priority (Some (WritableUsage current_task)) blocked) counts new_task requested_usage =
     Option.bind (is_higher_priority new_task current_task) (\<lambda>higher.
       if \<not> higher then Some (LockErr, Priority (Some (WritableUsage current_task)) blocked, counts)
       else Option.bind (try_reblock current_task counts) (\<lambda>(reblocked, counts').
         if \<not> reblocked then Some (LockErr, Priority (Some (WritableUsage current_task)) blocked, counts')
         else Option.bind (take_writable (Some (WritableUsage current_task))) (\<lambda>(reblocked_task, current').
           Option.bind (insert_usage_from_task (Writable, reblocked_task) blocked) (\<lambda>blocked'.
             Some (LockOk, Priority current' blocked', counts')))))"
| "prepare_lock (Priority (Some (ReadonlyUsage current_tasks)) blocked) counts new_task Readonly =
     (let self = Priority (Some (ReadonlyUsage current_tasks)) blocked in
      case peek_blocked self of
        None \<Rightarrow> Some (LockOk, self, counts)
      | Some (peeked_usage, peeked_task) \<Rightarrow>
          (if peeked_usage \<noteq> Writable then None
           else Option.bind (is_higher_priority new_task peeked_task) (\<lambda>higher.
             Some (if higher then LockOk else LockErr, self, counts))))"
| "prepare_lock (Priority (Some (ReadonlyUsage current_tasks)) blocked) counts new_task Writable =
     Option.bind (reblock_readers (task_id new_task) current_tasks blocked counts)
       (\<lambda>(current_tasks', blocked', counts').
          if current_tasks' = [] then
            Option.bind (take_readable (Some (ReadonlyUsage current_tasks'))) (\<lambda>current'.
              Some (LockOk, Priority current' blocked', counts'))
          else Some (LockErr, Priority (Some (ReadonlyUsage current_tasks')) blocked', counts'))"

end
