(* ===== verification/Unified_Scheduler.thy ===== *)
theory Unified_Scheduler
  imports Usage_Queue
begin

section \<open>The scheduling state machine of the unified scheduler\<close>

text \<open>
  \<open>SchedulingStateMachine\<close> of \<open>src/unified-scheduler-logic/src/lib.rs\<close>: tasks are scheduled as
  they arrive, run as soon as no earlier active task conflicts with them, and are descheduled
  when they are done. The record holds the fields of the struct and, for the two tokens, the
  stores they give access to: the usage queue of every address and the blocked-usage counter
  of every task.
\<close>

record ssm =
  unblocked_task_queue :: "task list"
  active_task_count :: u32
  peak_active_task_count :: u32
  dropped_task_count :: u32
  max_unique_active_task_count :: "nat option"
  unique_active_task_hashes :: "hash set"
  running_task_count :: u32
  max_running_task_count :: u32
  handled_task_count :: u32
  unblocked_task_count :: u32
  total_task_count :: u32
  blocked_usage_counts :: blocked_counts
  usage_queues :: "pubkey \<Rightarrow> usage_queue_inner"

definition has_no_running_task :: "ssm \<Rightarrow> bool" where
  "has_no_running_task self \<longleftrightarrow> running_task_count self = 0"

definition has_no_active_task :: "ssm \<Rightarrow> bool" where
  "has_no_active_task self \<longleftrightarrow> active_task_count self = 0"

definition has_unblocked_task :: "ssm \<Rightarrow> bool" where
  "has_unblocked_task self \<longleftrightarrow> unblocked_task_queue self \<noteq> []"

definition is_task_runnable :: "ssm \<Rightarrow> bool" where
  "is_task_runnable self \<longleftrightarrow> running_task_count self < max_running_task_count self"

definition has_runnable_task :: "ssm \<Rightarrow> bool" where
  "has_runnable_task self \<longleftrightarrow> has_unblocked_task self \<and> is_task_runnable self"

text \<open>One iteration of the loop of \<open>try_lock_usage_queues\<close>, with the counter of blocked usages.\<close>

definition try_lock_context ::
  "task \<Rightarrow> pubkey \<times> requested_usage \<Rightarrow> u32 \<times> ssm \<Rightarrow> (u32 \<times> ssm) option" where
  "try_lock_context task = (\<lambda>(address, requested_usage) (blocked_usage_count, self).
     Option.bind (prepare_lock (usage_queues self address) (blocked_usage_counts self) task requested_usage)
       (\<lambda>(prepared, queue, counts).
          Option.bind (if prepared = LockErr then Some (LockErr, queue) else try_lock queue task requested_usage)
            (\<lambda>(lock_result, queue').
               let self' = self\<lparr>blocked_usage_counts := counts\<rparr> in
               if lock_result = LockErr then
                 Option.bind (increment blocked_usage_count) (\<lambda>n.
                   Option.bind (push_blocked queue' (requested_usage, task)) (\<lambda>queue''.
                     Some (n, self'\<lparr>usage_queues := (usage_queues self)(address := queue'')\<rparr>)))
               else Some (blocked_usage_count, self'\<lparr>usage_queues := (usage_queues self)(address := queue')\<rparr>))))"

definition try_lock_usage_queues :: "task \<Rightarrow> ssm \<Rightarrow> (task option \<times> ssm) option" where
  "try_lock_usage_queues task self =
     Option.bind (foldM (try_lock_context task) (lock_contexts task) (0, self))
       (\<lambda>(blocked_usage_count, self).
          Some (if blocked_usage_count = 0 then (Some task, self)
            else (None, self\<lparr>blocked_usage_counts :=
              set_blocked_usage_count task blocked_usage_count (blocked_usage_counts self)\<rparr>)))"

text \<open>The number of blocked usages of a queue, which the loop below consumes.\<close>

fun blocked_len :: "usage_queue_inner \<Rightarrow> nat" where
  "blocked_len (Fifo _ blocked) = length blocked"
| "blocked_len (Priority _ blocked) = length blocked"

lemma blocked_len_pop:
  "pop_blocked q = (u, q') \<Longrightarrow> blocked_len q' + (if u = None then 0 else 1) = blocked_len q"
  by (cases q rule: pop_blocked.cases)
    (auto simp: pop_first_usage_from_task_def bt_pop_first_def split: list.splits)

lemma blocked_len_try_lock: "try_lock q t r = Some (l, q') \<Longrightarrow> blocked_len q' = blocked_len q"
  by (cases q) (auto split: option.splits usage.splits requested_usage.splits bind_splits if_splits)

lemma blocked_len_pop_lockable_readonly:
  "pop_lockable_readonly q = Some (u, q') \<Longrightarrow> blocked_len q' + (if u = None then 0 else 1) = blocked_len q"
  by (auto simp: pop_lockable_readonly_def dest: blocked_len_pop
      split: option.splits prod.splits requested_usage.splits if_splits)

text \<open>The \<open>while let\<close> loop of \<open>unlock_usage_queues\<close> on one queue.\<close>

function relock ::
  "usage_from_task option \<Rightarrow> usage_queue_inner \<Rightarrow> blocked_counts \<Rightarrow> task list \<Rightarrow>
     (usage_queue_inner \<times> blocked_counts \<times> task list) option" where
  "relock newly_lockable queue counts unblocked =
     (case newly_lockable of
        None \<Rightarrow> Some (queue, counts, unblocked)
      | Some (lockable_usage, lockable_task) \<Rightarrow>
          (case try_lock queue lockable_task lockable_usage of
             None \<Rightarrow> None
           | Some (LockErr, _) \<Rightarrow> None
           | Some (LockOk, queue') \<Rightarrow>
               (case try_unblock lockable_task counts of
                  None \<Rightarrow> None
                | Some (did_unblock, counts') \<Rightarrow>
                    (case (if lockable_usage = Readonly then pop_lockable_readonly queue' else Some (None, queue')) of
                       None \<Rightarrow> None
                     | Some (newly_lockable', queue'') \<Rightarrow>
                         relock newly_lockable' queue'' counts'
                           (if did_unblock then unblocked @ [lockable_task] else unblocked)))))"
  by pat_completeness auto
termination
  by (relation "measure (\<lambda>(u, q, _). blocked_len q + (if u = None then 0 else 1))")
    (auto split: if_splits dest!: blocked_len_try_lock blocked_len_pop_lockable_readonly)

declare relock.simps [simp del]

definition unlock_context :: "task \<Rightarrow> pubkey \<times> requested_usage \<Rightarrow> ssm \<Rightarrow> ssm option" where
  "unlock_context task = (\<lambda>(address, requested_usage) self.
     Option.bind (unlock (usage_queues self address) task requested_usage) (\<lambda>(newly_lockable, queue).
       Option.bind (relock newly_lockable queue (blocked_usage_counts self) (unblocked_task_queue self))
         (\<lambda>(queue', counts, unblocked).
            Some (self\<lparr>usage_queues := (usage_queues self)(address := queue'),
              blocked_usage_counts := counts, unblocked_task_queue := unblocked\<rparr>))))"

definition unlock_usage_queues :: "task \<Rightarrow> ssm \<Rightarrow> ssm option" where
  "unlock_usage_queues task self = foldM (unlock_context task) (lock_contexts task) self"

text \<open>The \<open>and_then\<close> chain that ends \<open>schedule_or_buffer_task\<close>.\<close>

definition lock_and_run :: "task \<Rightarrow> bool \<Rightarrow> ssm \<Rightarrow> (task option \<times> ssm) option" where
  "lock_and_run task force_buffering self =
     Option.bind (try_lock_usage_queues task self) (\<lambda>(locked, self).
       case locked of
         None \<Rightarrow> Some (None, self)
       | Some task \<Rightarrow>
           (if \<not> is_task_runnable self \<or> force_buffering then
              map_option (\<lambda>n. (None, self\<lparr>unblocked_task_count := n,
                  unblocked_task_queue := unblocked_task_queue self @ [task]\<rparr>))
                (increment (unblocked_task_count self))
            else
              map_option (\<lambda>n. (Some task, self\<lparr>running_task_count := n\<rparr>))
                (increment (running_task_count self))))"

definition schedule_or_buffer_task :: "task \<Rightarrow> bool \<Rightarrow> ssm \<Rightarrow> (task option \<times> ssm) option" where
  "schedule_or_buffer_task task force_buffering self =
     Option.bind (increment (total_task_count self)) (\<lambda>total.
     let self = self\<lparr>total_task_count := total\<rparr>;
         is_excess = (case max_unique_active_task_count self of
           None \<Rightarrow> False | Some m \<Rightarrow> card (unique_active_task_hashes self) \<ge> m);
         is_duplicate = (max_unique_active_task_count self \<noteq> None \<and>
           task_hash task \<in> unique_active_task_hashes self) in
     if is_excess \<or> is_duplicate then
       map_option (\<lambda>dropped. (None, self\<lparr>dropped_task_count := dropped\<rparr>)) (increment (dropped_task_count self))
     else
       let self = (if max_unique_active_task_count self = None then self
                   else self\<lparr>unique_active_task_hashes := insert (task_hash task) (unique_active_task_hashes self)\<rparr>) in
       Option.bind (increment (active_task_count self)) (\<lambda>active.
       let self = self\<lparr>active_task_count := active,
             peak_active_task_count := max_self (peak_active_task_count self) active\<rparr> in
       lock_and_run task force_buffering self))"

definition schedule_task :: "task \<Rightarrow> ssm \<Rightarrow> (task option \<times> ssm) option" where
  "schedule_task task self = schedule_or_buffer_task task False self"

definition buffer_task :: "task \<Rightarrow> ssm \<Rightarrow> ssm option" where
  "buffer_task task self =
     Option.bind (schedule_or_buffer_task task True self) (\<lambda>(r, self').
       if r = None then Some self' else None)"

definition schedule_next_unblocked_task :: "ssm \<Rightarrow> (task option \<times> ssm) option" where
  "schedule_next_unblocked_task self =
     (if \<not> is_task_runnable self then Some (None, self)
      else case unblocked_task_queue self of
        [] \<Rightarrow> Some (None, self)
      | task # rest \<Rightarrow>
          Option.bind (increment (running_task_count self)) (\<lambda>running.
          Option.bind (increment (unblocked_task_count self)) (\<lambda>unblocked.
            Some (Some task, self\<lparr>unblocked_task_queue := rest,
              running_task_count := running, unblocked_task_count := unblocked\<rparr>))))"

definition deschedule_task :: "task \<Rightarrow> ssm \<Rightarrow> ssm option" where
  "deschedule_task task self =
     Option.bind (decrement (running_task_count self)) (\<lambda>running.
     let self = self\<lparr>running_task_count := running\<rparr> in
     if max_unique_active_task_count self \<noteq> None \<and> task_hash task \<notin> unique_active_task_hashes self then None
     else
       let self = (if max_unique_active_task_count self = None then self
                   else self\<lparr>unique_active_task_hashes := unique_active_task_hashes self - {task_hash task}\<rparr>) in
       Option.bind (decrement (active_task_count self)) (\<lambda>active.
       Option.bind (increment (handled_task_count self)) (\<lambda>handled.
         unlock_usage_queues task (self\<lparr>active_task_count := active, handled_task_count := handled\<rparr>))))"

definition reinitialize :: "ssm \<Rightarrow> ssm option" where
  "reinitialize self =
     (if has_no_active_task self \<and> unique_active_task_hashes self = {} \<and>
         running_task_count self = 0 \<and> unblocked_task_queue self = []
      then Some (self\<lparr>active_task_count := 0, peak_active_task_count := 0, dropped_task_count := 0,
        handled_task_count := 0, unblocked_task_count := 0, total_task_count := 0\<rparr>)
      else None)"

text \<open>
  The draining loop of \<open>clear_and_reinitialize\<close>. It may only end because every iteration
  handles a task, so it is given as a partial function: \<open>None\<close> also stands for not returning.
\<close>

partial_function (option) clear_loop :: "u32 \<Rightarrow> ssm \<Rightarrow> (u32 \<times> ssm) option" where
  "clear_loop n self =
     Option.bind (schedule_next_unblocked_task self) (\<lambda>(next_task, self).
       case next_task of
         None \<Rightarrow> Some (n, self)
       | Some task \<Rightarrow>
           Option.bind (deschedule_task task self) (\<lambda>self.
             Option.bind (increment n) (\<lambda>n. clear_loop n self)))"

definition clear_and_reinitialize :: "ssm \<Rightarrow> (u32 \<times> ssm) option" where
  "clear_and_reinitialize self =
     Option.bind (clear_loop 0 self) (\<lambda>(n, self).
       map_option (\<lambda>self. (n, self)) (reinitialize self))"

text \<open>
  A new machine. \<open>max_running_task_count\<close> is a \<open>usize\<close> that has to fit a \<open>u32\<close>; the usage queues
  all are as their loader creates them.
\<close>

definition ssm_new :: "capability \<Rightarrow> nat option \<Rightarrow> nat option \<Rightarrow> ssm option" where
  "ssm_new cap max_running max_unique =
     (let m = (case max_running of None \<Rightarrow> 2 ^ 32 - 1 | Some m \<Rightarrow> m) in
      if m < 2 ^ 32 then Some
        \<lparr>unblocked_task_queue = [], active_task_count = 0, peak_active_task_count = 0,
         dropped_task_count = 0, max_unique_active_task_count = max_unique,
         unique_active_task_hashes = {}, running_task_count = 0,
         max_running_task_count = of_nat m, handled_task_count = 0, unblocked_task_count = 0,
         total_task_count = 0, blocked_usage_counts = (\<lambda>_. 0),
         usage_queues = (\<lambda>_. usage_queue_new cap)\<rparr>
      else None)"

text \<open>
  A transaction names its accounts, and for each whether it writes it; \<open>do_create_task\<close> turns
  them into lock contexts.
\<close>

record runtime_transaction =
  account_keys :: "pubkey list"
  is_writable :: "nat \<Rightarrow> bool"
  message_hash :: hash

definition do_create_task :: "runtime_transaction \<Rightarrow> u128 \<Rightarrow> u64 \<Rightarrow> epoch \<Rightarrow> slot \<Rightarrow> task" where
  "do_create_task transaction tid consumed epoch alt_slot =
     \<lparr>task_id = tid, task_hash = message_hash transaction,
      lock_contexts = map (\<lambda>(i, address). (address, if is_writable transaction i then Writable else Readonly))
        (enumerate 0 (account_keys transaction)),
      consumed_block_size = consumed, sanitized_epoch = epoch, alt_invalidation_slot = alt_slot\<rparr>"

definition create_task :: "runtime_transaction \<Rightarrow> u128 \<Rightarrow> task" where
  "create_task transaction tid = do_create_task transaction tid 0 (- 1) (- 1)"

definition create_block_production_task :: "runtime_transaction \<Rightarrow> u128 \<Rightarrow> u64 \<Rightarrow> epoch \<Rightarrow> slot \<Rightarrow> task" where
  "create_block_production_task transaction tid consumed epoch alt_slot =
     do_create_task transaction tid consumed epoch alt_slot"

end
