(* ===== verification/Fifo_Queue.thy ===== *)
theory Fifo_Queue
  imports Unified_Scheduler
begin

section \<open>First-in-first-out queues: the state is a function of the requests\<close>

text \<open>
  In \<open>FifoQueueing\<close> mode a usage queue only stores how the address is used now and who is
  blocked. The abstraction is the list of the requests of all active tasks for the address, in
  order of arrival: its longest conflict-free prefix holds the address, the rest is blocked.
  Locking appends a request to that list, unlocking removes one from the prefix.
\<close>

definition is_ro :: "usage_from_task \<Rightarrow> bool" where
  "is_ro u \<longleftrightarrow> fst u = Readonly"

lemma is_ro_pair [simp]: "is_ro (Readonly, t)" "\<not> is_ro (Writable, t)"
  by (simp_all add: is_ro_def)

fun holders :: "usage_from_task list \<Rightarrow> usage_from_task list" where
  "holders [] = []"
| "holders (u # us) = (if is_ro u then u # takeWhile is_ro us else [u])"

fun blocked_part :: "usage_from_task list \<Rightarrow> usage_from_task list" where
  "blocked_part [] = []"
| "blocked_part (u # us) = (if is_ro u then dropWhile is_ro us else us)"

fun fifo_of :: "usage_from_task list \<Rightarrow> usage_queue_inner" where
  "fifo_of [] = Fifo None []"
| "fifo_of (u # us) =
     (if is_ro u then Fifo (Some (ReadonlyUsage (of_nat (Suc (length (takeWhile is_ro us)))))) (dropWhile is_ro us)
      else Fifo (Some (WritableUsage ())) us)"

lemma holders_blocked: "holders us @ blocked_part us = us"
  by (cases us) auto

lemma holders_subset: "set (holders us) \<subseteq> set us"
  using holders_blocked [of us] by (metis Un_upper1 set_append)

text \<open>A request is granted at once when it conflicts with nothing before it.\<close>

definition grants :: "usage_from_task list \<Rightarrow> requested_usage \<Rightarrow> bool" where
  "grants us r \<longleftrightarrow> us = [] \<or> r = Readonly \<and> list_all is_ro us"

lemma all_ro_simps:
  "list_all P us \<Longrightarrow> takeWhile P us = us"
  "list_all P us \<Longrightarrow> dropWhile P us = []"
  "list_all P us \<Longrightarrow> takeWhile P (us @ vs) = us @ takeWhile P vs"
  "list_all P us \<Longrightarrow> dropWhile P (us @ vs) = dropWhile P vs"
  "\<not> list_all P us \<Longrightarrow> takeWhile P (us @ vs) = takeWhile P us"
  "\<not> list_all P us \<Longrightarrow> dropWhile P (us @ vs) = dropWhile P us @ vs"
  by (induction us) auto

lemma unat_of_nat_u32: "n < 2 ^ 32 \<Longrightarrow> unat (of_nat n :: u32) = n"
  by (simp add: unat_of_nat)

lemma increment_of_nat: "Suc n < 2 ^ 32 \<Longrightarrow> increment (of_nat n) = Some (of_nat (Suc n))"
  by (simp add: increment_def checked_add_def unat_of_nat_u32 del: of_nat_Suc) simp

lemma decrement_of_nat: "Suc n < 2 ^ 32 \<Longrightarrow> decrement (of_nat (Suc n)) = Some (of_nat n)"
  unfolding decrement_def checked_sub_Some
  by (simp add: unat_of_nat_u32 del: of_nat_Suc)

lemma of_nat_eq_1: "n < 2 ^ 32 \<Longrightarrow> (of_nat n :: u32) = 1 \<longleftrightarrow> n = 1"
  unfolding word_unat_eq_iff by (simp add: unat_of_nat_u32)

lemma fifo_of_append:
  assumes "us \<noteq> []"
  shows "fifo_of (us @ [(r, t)]) =
    (case fifo_of us of
       Fifo c b \<Rightarrow>
         if grants us r then Fifo (Some (ReadonlyUsage (of_nat (Suc (length us))))) []
         else Fifo c (b @ [(r, t)]))"
proof -
  obtain u us' where us: "us = u # us'"
    using assms by (cases us) auto
  show ?thesis
  proof (cases "list_all is_ro us'")
    case True
    then show ?thesis
      by (cases r; cases "is_ro u") (simp_all add: us grants_def all_ro_simps)
  next
    case False
    then show ?thesis
      by (cases "is_ro u") (simp_all add: us grants_def all_ro_simps)
  qed
qed

lemma blocked_part_Nil_iff: "blocked_part us = [] \<longleftrightarrow> length us \<le> 1 \<or> list_all is_ro us"
  by (cases us) (auto simp: dropWhile_eq_Nil_conv list_all_iff)

subsection \<open>Locking appends a request\<close>

definition lock_or_block ::
  "usage_queue_inner \<Rightarrow> blocked_counts \<Rightarrow> task \<Rightarrow> requested_usage \<Rightarrow> (lock_result \<times> usage_queue_inner \<times> blocked_counts) option" where
  "lock_or_block queue counts task r =
     Option.bind (prepare_lock queue counts task r) (\<lambda>(prepared, queue, counts).
       Option.bind (if prepared = LockErr then Some (LockErr, queue) else try_lock queue task r)
         (\<lambda>(lock_result, queue).
            if lock_result = LockErr
            then map_option (\<lambda>queue. (LockErr, queue, counts)) (push_blocked queue (r, task))
            else Some (LockOk, queue, counts)))"

lemma lock_or_block_fifo:
  assumes "Suc (length us) < 2 ^ 32"
  shows "lock_or_block (fifo_of us) counts t r =
    Some (if grants us r then LockOk else LockErr, fifo_of (us @ [(r, t)]), counts)"
proof (cases us)
  case Nil
  then show ?thesis
    by (cases r) (simp_all add: lock_or_block_def grants_def is_ro_def)
next
  case (Cons u us')
  then have ne: "us \<noteq> []"
    by simp
  show ?thesis
  proof (cases "is_ro u")
    case False
    then show ?thesis
      unfolding fifo_of_append [OF ne]
      by (simp add: Cons lock_or_block_def grants_def push_blocked_def)
  next
    case True
    show ?thesis
    proof (cases "list_all is_ro us'")
      case all: True
      then show ?thesis
        using True assms unfolding fifo_of_append [OF ne]
        by (cases r) (simp_all add: Cons lock_or_block_def grants_def push_blocked_def all_ro_simps
            increment_of_nat del: of_nat_Suc)
    next
      case False
      then obtain b bs where "dropWhile is_ro us' = b # bs"
        by (cases "dropWhile is_ro us'") (auto simp: dropWhile_eq_Nil_conv list_all_iff)
      then show ?thesis
        using True False unfolding fifo_of_append [OF ne]
        by (simp add: Cons lock_or_block_def grants_def push_blocked_def)
    qed
  qed
qed

subsection \<open>Unlocking removes a request of the prefix\<close>

text \<open>What giving the address to newly granted requests does to their tasks.\<close>

definition grant1 :: "usage_from_task \<Rightarrow> blocked_counts \<times> task list \<Rightarrow> (blocked_counts \<times> task list) option" where
  "grant1 = (\<lambda>(r, t) (counts, unblocked).
     map_option (\<lambda>(did_unblock, counts'). (counts', if did_unblock then unblocked @ [t] else unblocked))
       (try_unblock t counts))"

lemma relock_None [simp]: "relock None q c ub = Some (q, c, ub)"
  by (subst relock.simps) simp

lemma relock_step:
  assumes "try_lock q t r = Some (LockOk, q')"
    and "(if r = Readonly then pop_lockable_readonly q' else Some (None, q')) = Some (nl, q'')"
  shows "relock (Some (r, t)) q c ub =
    Option.bind (grant1 (r, t) (c, ub)) (\<lambda>(c', ub'). relock nl q'' c' ub')"
  using assms by (subst relock.simps) (auto simp: grant1_def split: option.splits prod.splits)

lemma relock_readers:
  assumes "0 < k" and "k + length us < 2 ^ 32"
  shows "Option.bind (pop_lockable_readonly (Fifo (Some (ReadonlyUsage (of_nat k))) us)) (\<lambda>(nl, q). relock nl q c ub) =
    map_option (\<lambda>(c', ub').
        (Fifo (Some (ReadonlyUsage (of_nat (k + length (takeWhile is_ro us))))) (dropWhile is_ro us), c', ub'))
      (foldM grant1 (takeWhile is_ro us) (c, ub))"
  using assms
proof (induction us arbitrary: k c ub)
  case Nil
  then show ?case by (simp add: pop_lockable_readonly_def)
next
  case (Cons u us)
  obtain r t where u: "u = (r, t)"
    by (cases u)
  show ?case
  proof (cases r)
    case Writable
    then show ?thesis
      by (simp add: u pop_lockable_readonly_def)
  next
    case Readonly
    let ?q = "Fifo (Some (ReadonlyUsage (of_nat (Suc k)))) us"
    have lock: "try_lock (Fifo (Some (ReadonlyUsage (of_nat k))) us) t Readonly = Some (LockOk, ?q)"
      using Cons.prems by (simp add: increment_of_nat del: of_nat_Suc)
    have "pop_lockable_readonly ?q \<noteq> None"
      by (auto simp: pop_lockable_readonly_def split: list.splits requested_usage.splits)
    then obtain nl q' where pop: "pop_lockable_readonly ?q = Some (nl, q')"
      by auto
    have step: "relock (Some (Readonly, t)) (Fifo (Some (ReadonlyUsage (of_nat k))) us) c ub =
        Option.bind (grant1 (Readonly, t) (c, ub)) (\<lambda>(c', ub'). relock nl q' c' ub')"
      using relock_step [OF lock] pop by simp
    have IH: "relock nl q' c' ub' = map_option (\<lambda>(c'', ub'').
        (Fifo (Some (ReadonlyUsage (of_nat (Suc k + length (takeWhile is_ro us))))) (dropWhile is_ro us), c'', ub''))
      (foldM grant1 (takeWhile is_ro us) (c', ub'))" for c' ub'
      using Cons.IH [of "Suc k" c' ub'] Cons.prems pop by simp
    show ?thesis
      using step Readonly
      by (auto simp: u pop_lockable_readonly_def IH bind_map_option split: option.splits bind_splits)
  qed
qed

lemma relock_pop:
  assumes "length us < 2 ^ 32" and "pop_blocked (Fifo None us) = (nl, q)"
  shows "relock nl q c ub =
    map_option (\<lambda>(c', ub'). (fifo_of us, c', ub')) (foldM grant1 (holders us) (c, ub))"
proof (cases us)
  case Nil
  with assms(2) show ?thesis by auto
next
  case (Cons u us')
  obtain r t where u: "u = (r, t)"
    by (cases u)
  have nl: "nl = Some (r, t)" "q = Fifo None us'"
    using assms(2) by (auto simp: Cons u)
  show ?thesis
  proof (cases r)
    case Writable
    have "relock (Some (Writable, t)) (Fifo None us') c ub =
        Option.bind (grant1 (Writable, t) (c, ub))
          (\<lambda>(c', ub'). relock None (Fifo (Some (WritableUsage ())) us') c' ub')"
      by (rule relock_step) simp_all
    then show ?thesis
      using Writable by (auto simp: nl Cons u split: bind_splits)
  next
    case Readonly
    let ?q = "Fifo (Some (ReadonlyUsage 1)) us'"
    have "pop_lockable_readonly ?q \<noteq> None"
      by (auto simp: pop_lockable_readonly_def split: list.splits requested_usage.splits)
    then obtain nl' q' where pop: "pop_lockable_readonly ?q = Some (nl', q')"
      by auto
    have "relock (Some (Readonly, t)) (Fifo None us') c ub =
        Option.bind (grant1 (Readonly, t) (c, ub)) (\<lambda>(c', ub'). relock nl' q' c' ub')"
      by (rule relock_step [where q' = ?q]) (simp_all add: pop)
    moreover have "relock nl' q' c' ub' = map_option (\<lambda>(c'', ub'').
        (Fifo (Some (ReadonlyUsage (of_nat (1 + length (takeWhile is_ro us'))))) (dropWhile is_ro us'), c'', ub''))
      (foldM grant1 (takeWhile is_ro us') (c', ub'))" for c' ub'
      using relock_readers [of 1 us' c' ub'] assms(1) pop by (simp add: Cons)
    ultimately show ?thesis
      using Readonly by (auto simp: nl Cons u split: bind_splits)
  qed
qed

text \<open>The requests that get the address when the request \<open>u\<close> leaves.\<close>

definition newly_granted :: "usage_from_task list \<Rightarrow> usage_from_task list" where
  "newly_granted us = (if length (holders us) = 1 then holders (tl us) else [])"

lemma length_holders_ro:
  "is_ro u \<Longrightarrow> length (holders (u # us)) = Suc (length (takeWhile is_ro us))"
  by simp

lemma fifo_of_remove_reader:
  assumes "us = pre @ u # post" and "list_all is_ro (pre @ [u])" and "length (holders us) = Suc (Suc n)"
  shows "fifo_of (pre @ post) = Fifo (Some (ReadonlyUsage (of_nat (Suc n)))) (blocked_part us)"
    and "fifo_of us = Fifo (Some (ReadonlyUsage (of_nat (Suc (Suc n))))) (blocked_part us)"
proof -
  show us: "fifo_of us = Fifo (Some (ReadonlyUsage (of_nat (Suc (Suc n))))) (blocked_part us)"
    using assms by (cases us; cases pre) auto
  show "fifo_of (pre @ post) = Fifo (Some (ReadonlyUsage (of_nat (Suc n)))) (blocked_part us)"
  proof (cases pre)
    case Nil
    then show ?thesis
      using assms by (cases post) (auto split: if_splits)
  next
    case (Cons v pre')
    then have "list_all is_ro pre'" "is_ro v" "is_ro u"
      using assms by auto
    then show ?thesis
      using assms by (simp add: Cons all_ro_simps)
  qed
qed

lemma unlock_relock_fifo:
  assumes us: "us = pre @ (r, t) # post" and hold: "length pre < length (holders us)"
    and len: "length us < 2 ^ 32"
  shows "Option.bind (unlock (fifo_of us) t r) (\<lambda>(nl, q). relock nl q c ub) =
    map_option (\<lambda>(c', ub'). (fifo_of (pre @ post), c', ub')) (foldM grant1 (newly_granted us) (c, ub))"
proof (cases "length (holders us) = 1")
  case True
  then have pre: "pre = []"
    using hold by simp
  obtain nl q where pop: "pop_blocked (Fifo None post) = (nl, q)"
    by fastforce
  have "unlock (fifo_of us) t r = Some (nl, q)"
  proof (cases r)
    case Readonly
    then have "takeWhile is_ro post = []" "dropWhile is_ro post = post"
      using True by (cases post; auto simp: us pre)+
    then show ?thesis
      using pop Readonly by (simp add: us pre)
  next
    case Writable
    then show ?thesis
      using pop by (simp add: us pre)
  qed
  then show ?thesis
    using relock_pop [OF _ pop] len True by (simp add: us pre newly_granted_def)
next
  case False
  moreover have ne: "us \<noteq> []"
    by (simp add: us)
  moreover have "holders us \<noteq> []"
    using ne by (cases us) auto
  ultimately obtain n where n: "length (holders us) = Suc (Suc n)"
    by (metis One_nat_def length_0_conv not0_implies_Suc)
  have "list_all is_ro (pre @ [(r, t)])"
  proof -
    have "list_all is_ro (holders us)"
      using n by (cases us) (auto simp: list_all_iff dest: set_takeWhileD split: if_splits)
    moreover have "pre @ [(r, t)] = take (Suc (length pre)) (holders us)"
      using hold by (metis Suc_leI append.assoc append_Cons append_Nil append_eq_conv_conj holders_blocked
          length_append_singleton take_append take_all_iff us diff_is_0_eq take_0 append_Nil2)
    ultimately show ?thesis
      by (metis in_set_takeD list_all_iff)
  qed
  note ro = fifo_of_remove_reader [OF us this n]
  have "n + 2 \<le> length us"
    using n holders_blocked [of us] by (metis add_2_eq_Suc' le_add1 length_append)
  then have "decrement (of_nat (Suc (Suc n))) = Some (of_nat (Suc n))"
    "(of_nat (Suc (Suc n)) :: u32) \<noteq> 1"
    using len by (simp_all add: decrement_of_nat of_nat_eq_1 del: of_nat_Suc)
  moreover have "r = Readonly"
    using \<open>list_all is_ro (pre @ [(r, t)])\<close> by (simp add: is_ro_def)
  ultimately show ?thesis
    using n by (simp add: ro newly_granted_def del: of_nat_Suc)
qed

end
