(* ===== verification/Fifo_Scheduler.thy ===== *)
theory Fifo_Scheduler
  imports Fifo_Queue
begin

section \<open>Correctness of first-in-first-out scheduling\<close>

text \<open>
  The scheduling state machine over \<open>FifoQueueing\<close> usage queues refines a list: the active tasks
  in order of arrival. Every usage queue is the function \<open>fifo_of\<close> of the requests the active
  tasks make for its address, the counter of a blocked task is the number of addresses it is
  blocked at, and a task is blocked exactly as long as an earlier active task conflicts with it.
\<close>

subsection \<open>The requests for an address\<close>

fun requests :: "task list \<Rightarrow> pubkey \<Rightarrow> usage_from_task list" where
  "requests [] a = []"
| "requests (t # ts) a =
     (case map_of (lock_contexts t) a of None \<Rightarrow> requests ts a | Some r \<Rightarrow> (r, t) # requests ts a)"

lemma requests_append: "requests (ts @ us) a = requests ts a @ requests us a"
  by (induction ts) (auto split: option.splits)

lemma set_requests: "(r, t) \<in> set (requests ts a) \<longleftrightarrow> t \<in> set ts \<and> map_of (lock_contexts t) a = Some r"
  by (induction ts) (auto split: option.splits)

lemma length_requests: "length (requests ts a) \<le> length ts"
  by (induction ts) (auto split: option.splits)

lemma snd_requests: "map snd (requests ts a) = filter (\<lambda>t. map_of (lock_contexts t) a \<noteq> None) ts"
  by (induction ts) (auto split: option.splits)

definition blocked_at :: "(pubkey \<Rightarrow> usage_from_task list) \<Rightarrow> task \<Rightarrow> pubkey set" where
  "blocked_at R t = {a. t \<in> snd ` set (blocked_part (R a))}"

definition task_addresses :: "task \<Rightarrow> pubkey set" where
  "task_addresses t = fst ` set (lock_contexts t)"

definition wf_task :: "task \<Rightarrow> bool" where
  "wf_task t \<longleftrightarrow> distinct (map fst (lock_contexts t)) \<and> length (lock_contexts t) < 2 ^ 32"

text \<open>Two tasks conflict when they share an address that one of them writes.\<close>

definition task_conflict :: "task \<Rightarrow> task \<Rightarrow> bool" where
  "task_conflict t u \<longleftrightarrow>
     (\<exists>a r q. (a, r) \<in> set (lock_contexts t) \<and> (a, q) \<in> set (lock_contexts u) \<and> (r = Writable \<or> q = Writable))"

lemma blocked_part_member:
  assumes "us = pre @ u # post" and "distinct (map snd us)"
  shows "snd u \<in> snd ` set (blocked_part us) \<longleftrightarrow> pre \<noteq> [] \<and> \<not> list_all is_ro (pre @ [u])"
proof -
  have mem: "snd u \<in> snd ` set (blocked_part us) \<longleftrightarrow> u \<in> set (blocked_part us)"
  proof
    assume "snd u \<in> snd ` set (blocked_part us)"
    then obtain v where v: "v \<in> set (blocked_part us)" "snd v = snd u"
      by auto
    moreover have "set (blocked_part us) \<subseteq> set us"
      using holders_blocked [of us] by (metis Un_upper2 set_append)
    moreover have "inj_on snd (set us)"
      using assms(2) by (simp add: distinct_map)
    moreover have "u \<in> set us"
      using assms(1) by simp
    ultimately have "v = u"
      by (meson inj_onD subsetD)
    with v show "u \<in> set (blocked_part us)"
      by simp
  qed auto
  have dist: "distinct us"
    using assms(2) by (simp add: distinct_map)
  show ?thesis
  proof (cases pre)
    case Nil
    then show ?thesis
      using assms(1) dist mem by (auto dest: set_dropWhileD)
  next
    case (Cons p pre')
    show ?thesis
    proof (cases "list_all is_ro (p # pre')")
      case True
      then show ?thesis
        using assms(1) dist mem by (auto simp: Cons all_ro_simps dest: set_dropWhileD)
    next
      case False
      then show ?thesis
        using assms(1) mem by (cases "is_ro p") (auto simp: Cons all_ro_simps)
    qed
  qed
qed

lemma blocked_at_subset:
  assumes "\<And>a. set (R a) \<subseteq> {(r, t). map_of (lock_contexts t) a = Some r}"
  shows "blocked_at R t \<subseteq> task_addresses t"
proof
  fix a
  assume "a \<in> blocked_at R t"
  then obtain r where "(r, t) \<in> set (blocked_part (R a))"
    by (auto simp: blocked_at_def)
  then have "(r, t) \<in> set (R a)"
    using holders_blocked [of "R a"] by (metis Un_iff set_append)
  then have "map_of (lock_contexts t) a = Some r"
    using assms by blast
  then show "a \<in> task_addresses t"
    by (force simp: task_addresses_def dest: map_of_SomeD)
qed

text \<open>A task of the list is unblocked exactly when no earlier one conflicts with it.\<close>

lemma blocked_at_empty_iff:
  assumes "distinct (pre @ t # post)" and "\<forall>u \<in> set (pre @ [t]). wf_task u"
  shows "blocked_at (requests (pre @ t # post)) t = {} \<longleftrightarrow> (\<forall>u \<in> set pre. \<not> task_conflict u t)"
proof -
  have blocked: "a \<in> blocked_at (requests (pre @ t # post)) t \<longleftrightarrow>
      (\<exists>r q u. map_of (lock_contexts t) a = Some r \<and> u \<in> set pre \<and>
        map_of (lock_contexts u) a = Some q \<and> (r = Writable \<or> q = Writable))" for a
  proof (cases "map_of (lock_contexts t) a")
    case None
    then have "t \<notin> snd ` set (requests (pre @ t # post) a)"
      by (auto simp: set_requests)
    moreover have "set (blocked_part (requests (pre @ t # post) a)) \<subseteq> set (requests (pre @ t # post) a)"
      using holders_blocked by (metis Un_upper2 set_append)
    ultimately show ?thesis
      using None by (auto simp: blocked_at_def)
  next
    case (Some r)
    have "map snd (requests (pre @ t # post) a) = filter (\<lambda>t. map_of (lock_contexts t) a \<noteq> None) (pre @ t # post)"
      by (rule snd_requests)
    then have dist: "distinct (map snd (requests (pre @ t # post) a))"
      using assms(1) by (metis distinct_filter)
    have split: "requests (pre @ t # post) a = requests pre a @ (r, t) # requests post a"
      using Some by (simp add: requests_append)
    have "a \<in> blocked_at (requests (pre @ t # post)) t \<longleftrightarrow>
        requests pre a \<noteq> [] \<and> \<not> list_all is_ro (requests pre a @ [(r, t)])"
      using blocked_part_member [OF split dist] by (simp add: blocked_at_def)
    also have "\<dots> \<longleftrightarrow> (\<exists>q u. (q, u) \<in> set (requests pre a) \<and> (r = Writable \<or> q = Writable))"
    proof -
      have "is_ro (q, u) \<longleftrightarrow> q \<noteq> Writable" for q u
        by (cases q) simp_all
      then show ?thesis
        by (cases "requests pre a") (fastforce simp: list_all_iff)+
    qed
    finally show ?thesis
      using Some by (auto simp: set_requests)
  qed
  have ctx: "map_of (lock_contexts u) a = Some q \<longleftrightarrow> (a, q) \<in> set (lock_contexts u)"
    if "u \<in> set (pre @ [t])" for u a q
    using assms(2) that by (intro map_of_eq_Some_iff) (auto simp: wf_task_def)
  have "blocked_at (requests (pre @ t # post)) t = {} \<longleftrightarrow>
      \<not> (\<exists>a r q u. map_of (lock_contexts t) a = Some r \<and> u \<in> set pre \<and>
        map_of (lock_contexts u) a = Some q \<and> (r = Writable \<or> q = Writable))"
    using blocked by blast
  also have "\<dots> \<longleftrightarrow> (\<forall>u \<in> set pre. \<not> task_conflict u t)"
    unfolding task_conflict_def using ctx by (auto; metis)
  finally show ?thesis .
qed

subsection \<open>Scheduling: the loop over the lock contexts\<close>

lemma lock_or_block_context:
  assumes "lock_or_block (usage_queues s a) (blocked_usage_counts s) t r = Some (l, q, c)"
    and "increment n = Some n'"
  shows "try_lock_context t (a, r) (n, s) =
    Some (if l = LockErr then n' else n,
      s\<lparr>blocked_usage_counts := c, usage_queues := (usage_queues s)(a := q)\<rparr>)"
proof -
  obtain p q1 c1 where prep: "prepare_lock (usage_queues s a) (blocked_usage_counts s) t r = Some (p, q1, c1)"
    using assms(1) by (cases "prepare_lock (usage_queues s a) (blocked_usage_counts s) t r")
      (auto simp: lock_or_block_def)
  obtain l2 q2 where lock: "(if p = LockErr then Some (LockErr, q1) else try_lock q1 t r) = Some (l2, q2)"
    using assms(1) prep by (cases "if p = LockErr then Some (LockErr, q1) else try_lock q1 t r")
      (auto simp: lock_or_block_def)
  have "(if l2 = LockErr then map_option (\<lambda>q. (LockErr, q, c1)) (push_blocked q2 (r, t))
      else Some (LockOk, q2, c1)) = Some (l, q, c)"
    using assms(1) prep lock by (simp add: lock_or_block_def)
  then show ?thesis
    using prep lock assms(2) by (cases l2) (auto simp: try_lock_context_def Let_def)
qed

definition extend_requests ::
  "(pubkey \<times> requested_usage) list \<Rightarrow> task \<Rightarrow> (pubkey \<Rightarrow> usage_from_task list) \<Rightarrow> pubkey \<Rightarrow> usage_from_task list" where
  "extend_requests ctxs t R a = (case map_of ctxs a of None \<Rightarrow> R a | Some r \<Rightarrow> R a @ [(r, t)])"

lemma try_lock_contexts:
  assumes "usage_queues s = (\<lambda>a. fifo_of (R a))"
    and "\<And>a. a \<in> fst ` set ctxs \<Longrightarrow> Suc (length (R a)) < 2 ^ 32"
    and "distinct (map fst ctxs)" and "n + length ctxs < 2 ^ 32"
  shows "foldM (try_lock_context t) ctxs (of_nat n, s) =
    Some (of_nat (n + length (filter (\<lambda>(a, r). \<not> grants (R a) r) ctxs)),
      s\<lparr>usage_queues := (\<lambda>a. fifo_of (extend_requests ctxs t R a))\<rparr>)"
  using assms
proof (induction ctxs arbitrary: n s R)
  case Nil
  then show ?case by (simp add: extend_requests_def)
next
  case (Cons c ctxs)
  obtain a r where c: "c = (a, r)"
    by (cases c)
  define k where "k = (if grants (R a) r then 0 else 1 :: nat)"
  define s' where "s' = s\<lparr>usage_queues := (usage_queues s)(a := fifo_of (R a @ [(r, t)]))\<rparr>"
  define R' where "R' = R(a := R a @ [(r, t)])"
  have "lock_or_block (usage_queues s a) (blocked_usage_counts s) t r =
      Some (if grants (R a) r then LockOk else LockErr, fifo_of (R a @ [(r, t)]), blocked_usage_counts s)"
    using Cons.prems(1,2) by (simp add: c lock_or_block_fifo)
  moreover have "increment (of_nat n) = Some (of_nat (Suc n))"
    using Cons.prems(4) by (intro increment_of_nat) simp
  ultimately have step: "try_lock_context t c (of_nat n, s) = Some (of_nat (n + k), s')"
    using lock_or_block_context by (simp add: c k_def s'_def)
  have queues: "usage_queues s' = (\<lambda>b. fifo_of (R' b))"
    by (auto simp: s'_def R'_def Cons.prems(1))
  have other: "b \<in> fst ` set ctxs \<Longrightarrow> R' b = R b" for b
    using Cons.prems(3) by (auto simp: R'_def c image_iff)
  have blocked: "filter (\<lambda>(b, q). \<not> grants (R' b) q) ctxs = filter (\<lambda>(b, q). \<not> grants (R b) q) ctxs"
    using other by (intro filter_cong) force+
  have extend: "extend_requests ctxs t R' = extend_requests (c # ctxs) t R"
    using Cons.prems(3) by (auto simp: R'_def c extend_requests_def fun_eq_iff image_iff
        dest: map_of_SomeD split: option.splits)
  have "foldM (try_lock_context t) ctxs (of_nat (n + k), s') =
      Some (of_nat (n + k + length (filter (\<lambda>(b, q). \<not> grants (R' b) q) ctxs)),
        s'\<lparr>usage_queues := (\<lambda>b. fifo_of (extend_requests ctxs t R' b))\<rparr>)"
    using Cons.prems(2-4) other by (intro Cons.IH queues) (auto simp: k_def)
  then show ?case
    by (simp add: step blocked extend) (simp add: c k_def s'_def)
qed

subsection \<open>Descheduling: the loop over the lock contexts\<close>

definition drop_task :: "task \<Rightarrow> usage_from_task list \<Rightarrow> usage_from_task list" where
  "drop_task t us = filter (\<lambda>u. snd u \<noteq> t) us"

lemma requests_remove: "requests (filter (\<lambda>u. u \<noteq> t) ts) a = drop_task t (requests ts a)"
  by (induction ts) (auto simp: drop_task_def split: option.splits)

lemma drop_task_split:
  assumes "us = pre @ (r, t) # post" and "distinct (map snd us)"
  shows "drop_task t us = pre @ post"
proof -
  have "t \<notin> snd ` set pre" "t \<notin> snd ` set post"
    using assms by auto
  then have "filter (\<lambda>u. snd u \<noteq> t) pre = pre" "filter (\<lambda>u. snd u \<noteq> t) post = post"
    by (auto simp: filter_id_conv)
  then show ?thesis
    by (simp add: assms(1) drop_task_def)
qed

lemma holder_split:
  assumes "u \<in> set (holders us)"
  obtains pre post where "us = pre @ u # post" and "length pre < length (holders us)"
proof -
  obtain i where i: "i < length (holders us)" "holders us ! i = u"
    using assms by (auto simp: in_set_conv_nth)
  then have "i < length us" "us ! i = u"
    using holders_blocked [of us] by (metis length_append trans_less_add1, metis nth_append)
  with i(1) show ?thesis
    using that [of "take i us" "drop (Suc i) us"] id_take_nth_drop [of i us] by simp
qed

lemma unlock_context_fifo:
  assumes "usage_queues s a = fifo_of us" and "(r, t) \<in> set (holders us)"
    and "distinct (map snd us)" and "length us < 2 ^ 32"
  shows "unlock_context t (a, r) s =
    map_option (\<lambda>(c, ub). s\<lparr>usage_queues := (usage_queues s)(a := fifo_of (drop_task t us)),
        blocked_usage_counts := c, unblocked_task_queue := ub\<rparr>)
      (foldM grant1 (newly_granted us) (blocked_usage_counts s, unblocked_task_queue s))"
proof -
  obtain pre post where us: "us = pre @ (r, t) # post" and "length pre < length (holders us)"
    using assms(2) by (rule holder_split)
  note unlock = unlock_relock_fifo [OF this assms(4), of "blocked_usage_counts s" "unblocked_task_queue s"]
  have "unlock_context t (a, r) s =
    Option.bind (Option.bind (unlock (fifo_of us) t r)
        (\<lambda>(nl, q). relock nl q (blocked_usage_counts s) (unblocked_task_queue s)))
      (\<lambda>(q, c, ub). Some (s\<lparr>usage_queues := (usage_queues s)(a := q),
        blocked_usage_counts := c, unblocked_task_queue := ub\<rparr>))"
    by (simp add: unlock_context_def assms(1) split_def)
  also have "\<dots> = map_option (\<lambda>(c, ub). s\<lparr>usage_queues := (usage_queues s)(a := fifo_of (pre @ post)),
        blocked_usage_counts := c, unblocked_task_queue := ub\<rparr>)
      (foldM grant1 (newly_granted us) (blocked_usage_counts s, unblocked_task_queue s))"
    unfolding unlock
    by (cases "foldM grant1 (newly_granted us) (blocked_usage_counts s, unblocked_task_queue s)") auto
  finally show ?thesis
    by (simp add: drop_task_split [OF us assms(3)])
qed

lemma unlock_contexts:
  assumes "usage_queues s = (\<lambda>a. fifo_of (R a))" and "distinct (map fst ctxs)"
    and "\<And>a r. (a, r) \<in> set ctxs \<Longrightarrow> (r, t) \<in> set (holders (R a))"
    and "\<And>a. distinct (map snd (R a))" and "\<And>a. length (R a) < 2 ^ 32"
  shows "foldM (unlock_context t) ctxs s =
    map_option (\<lambda>(c, ub).
        s\<lparr>usage_queues := (\<lambda>a. fifo_of (if a \<in> fst ` set ctxs then drop_task t (R a) else R a)),
          blocked_usage_counts := c, unblocked_task_queue := ub\<rparr>)
      (foldM grant1 (concat (map (\<lambda>(a, r). newly_granted (R a)) ctxs))
        (blocked_usage_counts s, unblocked_task_queue s))"
  using assms
proof (induction ctxs arbitrary: s R)
  case Nil
  then show ?case by simp
next
  case (Cons ctx ctxs)
  obtain a r where ctx: "ctx = (a, r)"
    by (cases ctx)
  define R' where "R' = R(a := drop_task t (R a))"
  have a: "a \<notin> fst ` set ctxs"
    using Cons.prems(2) by (simp add: ctx)
  have step: "unlock_context t ctx s =
    map_option (\<lambda>(c, ub). s\<lparr>usage_queues := (\<lambda>b. fifo_of (R' b)),
        blocked_usage_counts := c, unblocked_task_queue := ub\<rparr>)
      (foldM grant1 (newly_granted (R a)) (blocked_usage_counts s, unblocked_task_queue s))"
  proof -
    have "(usage_queues s)(a := fifo_of (drop_task t (R a))) = (\<lambda>b. fifo_of (R' b))"
      by (auto simp: Cons.prems(1) R'_def)
    moreover have "usage_queues s a = fifo_of (R a)" "(r, t) \<in> set (holders (R a))"
      using Cons.prems(1,3) by (simp_all add: ctx)
    ultimately show ?thesis
      using unlock_context_fifo [OF _ _ Cons.prems(4,5)] by (simp add: ctx)
  qed
  have same: "map (\<lambda>(a, r). newly_granted (R' a)) ctxs = map (\<lambda>(a, r). newly_granted (R a)) ctxs"
    using a by (intro map_cong) (auto simp: R'_def image_iff)
  have queues: "(\<lambda>b. fifo_of (if b \<in> fst ` set ctxs then drop_task t (R' b) else R' b)) =
      (\<lambda>b. fifo_of (if b \<in> fst ` set (ctx # ctxs) then drop_task t (R b) else R b))"
    using a by (auto simp: R'_def ctx fun_eq_iff)
  have IH: "foldM (unlock_context t) ctxs (s\<lparr>usage_queues := (\<lambda>b. fifo_of (R' b)),
        blocked_usage_counts := c, unblocked_task_queue := ub\<rparr>) =
    map_option (\<lambda>(c, ub).
        s\<lparr>usage_queues := (\<lambda>b. fifo_of (if b \<in> fst ` set (ctx # ctxs) then drop_task t (R b) else R b)),
          blocked_usage_counts := c, unblocked_task_queue := ub\<rparr>)
      (foldM grant1 (concat (map (\<lambda>(a, r). newly_granted (R a)) ctxs)) (c, ub))" for c ub
  proof -
    let ?s = "s\<lparr>usage_queues := (\<lambda>b. fifo_of (R' b)), blocked_usage_counts := c, unblocked_task_queue := ub\<rparr>"
    have "(q, t) \<in> set (holders (R' b))" if "(b, q) \<in> set ctxs" for b q
    proof -
      have "b \<noteq> a"
        using that a by force
      then show ?thesis
        using Cons.prems(3) [of b q] that by (simp add: R'_def)
    qed
    moreover have "distinct (map snd (R' b))" "length (R' b) < 2 ^ 32" for b
      using Cons.prems(4,5) [of b]
      by (auto simp: R'_def drop_task_def distinct_map_filter intro: le_less_trans [OF length_filter_le])
    ultimately show ?thesis
      using Cons.IH [of ?s R'] Cons.prems(2) by (simp add: same queues)
  qed
  show ?case
  proof (cases "foldM grant1 (newly_granted (R a)) (blocked_usage_counts s, unblocked_task_queue s)")
    case None
    then show ?thesis
      using step by (simp add: foldM_append ctx)
  next
    case (Some cu)
    then show ?thesis
      using step IH by (cases cu) (simp add: foldM_append ctx)
  qed
qed

subsection \<open>Granting counts down\<close>

definition occurrences :: "usage_from_task list \<Rightarrow> task \<Rightarrow> nat" where
  "occurrences G t = length (filter (\<lambda>u. snd u = t) G)"

lemma occurrences_simps [simp]:
  "occurrences [] t = 0"
  "occurrences (u # G) t = (if snd u = t then Suc (occurrences G t) else occurrences G t)"
  by (simp_all add: occurrences_def)

lemma occurrences_pos: "t \<in> snd ` set G \<longleftrightarrow> 0 < occurrences G t"
  by (induction G) auto

lemma grant_all:
  assumes "inj_on task_id T" and "snd ` set G \<subseteq> T"
    and "\<forall>t \<in> snd ` set G. occurrences G t \<le> unat (c (task_id t))"
  shows "\<exists>c' ub'. foldM grant1 G (c, ub) = Some (c', ub @ ub') \<and>
    (\<forall>t \<in> T. unat (c' (task_id t)) = unat (c (task_id t)) - occurrences G t) \<and>
    distinct ub' \<and> set ub' = {t \<in> snd ` set G. occurrences G t = unat (c (task_id t))}"
  using assms(2,3)
proof (induction G arbitrary: c ub)
  case Nil
  then show ?case by auto
next
  case (Cons u G)
  obtain r t where u: "u = (r, t)"
    by (cases u)
  have t: "t \<in> T" "Suc (occurrences G t) \<le> unat (c (task_id t))"
    using Cons.prems(1) Cons.prems(2) [THEN bspec, of t] by (simp_all add: u)
  define c1 where "c1 = c(task_id t := c (task_id t) - 1)"
  have "1 \<le> c (task_id t)"
    using t(2) by (simp add: word_le_nat_alt)
  then have unat: "unat (c (task_id t) - 1) = unat (c (task_id t)) - 1"
    and dec: "decrement (c (task_id t)) = Some (c (task_id t) - 1)"
    by (simp_all add: unat_sub decrement_def checked_sub_def)
  have c1: "unat (c1 (task_id v)) = unat (c (task_id v)) - (if v = t then 1 else 0)" if "v \<in> T" for v
    using inj_onD [OF assms(1) _ that t(1)] unat by (auto simp: c1_def)
  define freed where "freed \<longleftrightarrow> unat (c (task_id t)) = 1"
  have step: "grant1 u (c, ub) = Some (c1, if freed then ub @ [t] else ub)"
    using dec unat t(2)
    by (auto simp: grant1_def u try_unblock_def c1_def freed_def word_unat_eq_iff)
  have "occurrences G v \<le> unat (c1 (task_id v))" if "v \<in> snd ` set G" for v
    using Cons.prems(1) Cons.prems(2) [THEN bspec, of v] that c1 [of v] by (auto simp: u split: if_splits)
  then obtain c' ub' where IH: "foldM grant1 G (c1, if freed then ub @ [t] else ub) =
        Some (c', (if freed then ub @ [t] else ub) @ ub')"
    "\<forall>v \<in> T. unat (c' (task_id v)) = unat (c1 (task_id v)) - occurrences G v"
    "distinct ub'" "set ub' = {v \<in> snd ` set G. occurrences G v = unat (c1 (task_id v))}"
    using Cons.IH [of c1 "if freed then ub @ [t] else ub"] Cons.prems(1) by (auto simp: u)
  have notin: "freed \<Longrightarrow> t \<notin> snd ` set G"
    using t(2) by (auto simp: freed_def occurrences_pos)
  have final: "{v \<in> snd ` set (u # G). occurrences (u # G) v = unat (c (task_id v))} =
      (if freed then {t} else {}) \<union> set ub'"
  proof (rule set_eqI)
    fix v
    show "v \<in> {v \<in> snd ` set (u # G). occurrences (u # G) v = unat (c (task_id v))} \<longleftrightarrow>
        v \<in> (if freed then {t} else {}) \<union> set ub'"
    proof (cases "v = t")
      case True
      have "t \<in> set ub' \<longleftrightarrow> 0 < occurrences G t \<and> Suc (occurrences G t) = unat (c (task_id t))"
        using c1 [OF t(1)] t(2) unfolding IH(4) occurrences_pos [symmetric] by auto
      then show ?thesis
        using t(2) by (auto simp: True u freed_def)
    next
      case False
      then show ?thesis
        using IH(4) c1 [of v] Cons.prems(1) by (auto simp: u)
    qed
  qed
  have "foldM grant1 (u # G) (c, ub) = Some (c', ub @ ((if freed then [t] else []) @ ub'))"
    using step IH(1) by simp
  moreover have "\<forall>v \<in> T. unat (c' (task_id v)) = unat (c (task_id v)) - occurrences (u # G) v"
    using IH(2) c1 by (auto simp: u)
  moreover have "distinct ((if freed then [t] else []) @ ub')"
    using IH(3,4) notin by auto
  ultimately show ?case
    using final by (intro exI [of _ c'] exI [of _ "(if freed then [t] else []) @ ub'"]) simp
qed

text \<open>The addresses a task is blocked at shrink by those where it is newly granted.\<close>

lemma blocked_part_drop_holder:
  assumes "(r, t) \<in> set (holders us)" and "distinct (map snd us)"
  shows "blocked_part us = newly_granted us @ blocked_part (drop_task t us)"
proof -
  obtain pre post where us: "us = pre @ (r, t) # post" and pre: "length pre < length (holders us)"
    using assms(1) by (rule holder_split)
  note drop = drop_task_split [OF us assms(2)]
  show ?thesis
  proof (cases "length (holders us) = 1")
    case True
    then have "pre = []" "blocked_part us = post"
      using pre holders_blocked [of us] by (auto simp: us length_Suc_conv)
    moreover have "drop_task t us = post"
      using drop \<open>pre = []\<close> by simp
    moreover have "newly_granted us = holders post"
      using True us \<open>pre = []\<close> by (simp add: newly_granted_def)
    ultimately show ?thesis
      using holders_blocked [of post] by simp
  next
    case False
    moreover have "holders us \<noteq> []"
      using pre by auto
    ultimately obtain n where n: "length (holders us) = Suc (Suc n)"
      by (metis One_nat_def length_0_conv not0_implies_Suc)
    have "list_all is_ro (holders us)"
      using n by (cases us) (auto simp: list_all_iff dest: set_takeWhileD split: if_splits)
    moreover have "set (pre @ [(r, t)]) \<subseteq> set (holders us)"
    proof -
      have "pre @ [(r, t)] = take (Suc (length pre)) us"
        by (simp add: us)
      also have "\<dots> = take (Suc (length pre)) (holders us)"
        using pre holders_blocked [of us] by (metis Suc_leI append_Nil2 diff_is_0_eq take_0 take_append)
      finally show ?thesis
        by (metis set_take_subset)
    qed
    ultimately have "list_all is_ro (pre @ [(r, t)])"
      by (auto simp: list_all_iff)
    from fifo_of_remove_reader [OF us this n] have "blocked_part (pre @ post) = blocked_part us"
      by (cases "pre @ post") (auto split: if_splits)
    then show ?thesis
      using False by (simp add: newly_granted_def drop)
  qed
qed

lemma distinct_requests: "distinct ts \<Longrightarrow> distinct (map snd (requests ts a))"
  unfolding snd_requests by simp

lemma occurrences_distinct:
  "distinct (map snd us) \<Longrightarrow> occurrences us t = (if t \<in> snd ` set us then 1 else 0)"
  by (induction us) auto

lemma occurrences_concat:
  assumes "distinct (map fst ctxs)" and "\<And>a. distinct (map snd (G a))"
  shows "occurrences (concat (map (\<lambda>(a, r). G a) ctxs)) t = card {a \<in> fst ` set ctxs. t \<in> snd ` set (G a)}"
  using assms(1)
proof (induction ctxs)
  case (Cons c ctxs)
  let ?A = "{a \<in> fst ` set ctxs. t \<in> snd ` set (G a)}"
  have "{a \<in> fst ` set (c # ctxs). t \<in> snd ` set (G a)} = (if t \<in> snd ` set (G (fst c)) then insert (fst c) ?A else ?A)"
    by auto
  moreover have "fst c \<notin> ?A"
    using Cons.prems by auto
  moreover have "occurrences (G (fst c) @ X) t = occurrences (G (fst c)) t + occurrences X t" for X
    by (simp add: occurrences_def)
  ultimately show ?case
    using Cons occurrences_distinct [OF assms(2), of "fst c" t] by (simp add: split_def)
qed simp

lemma finite_blocked_at: "finite (blocked_at (requests ts) t)"
proof (rule finite_subset [OF blocked_at_subset])
  show "set (requests ts a) \<subseteq> {(r, t). map_of (lock_contexts t) a = Some r}" for a
    by (auto simp: set_requests)
qed (simp add: task_addresses_def)

lemma blocked_part_snoc:
  "blocked_part (us @ [(r, t)]) = blocked_part us @ (if grants us r then [] else [(r, t)])"
proof (cases us)
  case (Cons u us')
  then show ?thesis
    by (cases "list_all is_ro us'"; cases "is_ro u"; cases r) (simp_all add: grants_def all_ro_simps)
qed (simp add: grants_def)

lemma blocked_part_subset: "set (blocked_part us) \<subseteq> set us"
  using holders_blocked [of us] by (metis Un_upper2 set_append)

lemma requests_snoc: "requests (ts @ [t]) = extend_requests (lock_contexts t) t (requests ts)"
  by (auto simp: fun_eq_iff requests_append extend_requests_def split: option.splits)

lemma blocked_at_snoc_other: "u \<noteq> t \<Longrightarrow> blocked_at (requests (ts @ [t])) u = blocked_at (requests ts) u"
  by (auto simp: blocked_at_def requests_snoc extend_requests_def blocked_part_snoc split: option.splits)

lemma blocked_at_snoc:
  assumes "t \<notin> set ts" and "wf_task t"
  shows "card (blocked_at (requests (ts @ [t])) t) =
    length (filter (\<lambda>(a, r). \<not> grants (requests ts a) r) (lock_contexts t))"
proof -
  let ?F = "filter (\<lambda>(a, r). \<not> grants (requests ts a) r) (lock_contexts t)"
  have dist: "distinct (map fst (lock_contexts t))"
    using assms(2) by (simp add: wf_task_def)
  have none: "t \<notin> snd ` set (blocked_part (requests ts a))" for a
    using assms(1) blocked_part_subset [of "requests ts a"] by (auto simp: set_requests)
  have "a \<in> blocked_at (requests (ts @ [t])) t \<longleftrightarrow> a \<in> fst ` set ?F" for a
  proof (cases "map_of (lock_contexts t) a")
    case None
    then have "a \<notin> fst ` set (lock_contexts t)"
      by (simp add: map_of_eq_None_iff)
    then show ?thesis
      using None none [of a] by (auto simp: blocked_at_def requests_snoc extend_requests_def)
  next
    case (Some r)
    then have "(a, q) \<in> set (lock_contexts t) \<longleftrightarrow> q = r" for q
      by (metis Some map_of_eq_Some_iff [OF dist] option.inject)
    then show ?thesis
      using Some none [of a]
      by (force simp: blocked_at_def requests_snoc extend_requests_def blocked_part_snoc)
  qed
  then have "blocked_at (requests (ts @ [t])) t = set (map fst ?F)"
    by auto
  moreover have "distinct (map fst ?F)"
    using dist by (induction "lock_contexts t") (auto simp: distinct_map inj_on_def)
  ultimately show ?thesis
    using distinct_card [of "map fst ?F"] by simp
qed

lemma holds_when_unblocked:
  assumes "t \<in> set ts" and "wf_task t" and "blocked_at (requests ts) t = {}" and "(a, r) \<in> set (lock_contexts t)"
  shows "(r, t) \<in> set (holders (requests ts a))"
proof -
  have "map_of (lock_contexts t) a = Some r"
    using assms(2,4) by (simp add: wf_task_def)
  then have "(r, t) \<in> set (requests ts a)"
    using assms(1) by (simp add: set_requests)
  moreover have "(r, t) \<notin> set (blocked_part (requests ts a))"
    using assms(3) by (force simp: blocked_at_def)
  ultimately show ?thesis
    using holders_blocked [of "requests ts a"] by (metis Un_iff set_append)
qed

lemma drop_task_elsewhere:
  assumes "a \<notin> task_addresses t"
  shows "drop_task t (requests ts a) = requests ts a"
proof -
  have "map_of (lock_contexts t) a = None"
    using assms by (simp add: task_addresses_def map_of_eq_None_iff)
  then have "\<forall>u \<in> set (requests ts a). snd u \<noteq> t"
    by (auto simp: set_requests)
  then show ?thesis
    by (simp add: drop_task_def filter_id_conv)
qed

text \<open>When a holder leaves, the others are blocked at fewer addresses: those newly granted.\<close>

definition granted_at :: "task list \<Rightarrow> task \<Rightarrow> task \<Rightarrow> pubkey set" where
  "granted_at ts t u = {a \<in> task_addresses t. u \<in> snd ` set (newly_granted (requests ts a))}"

lemma blocked_at_remove:
  assumes "t \<in> set ts" and "distinct ts" and "wf_task t" and "blocked_at (requests ts) t = {}"
  shows "blocked_at (requests ts) u = granted_at ts t u \<union> blocked_at (requests (filter (\<lambda>v. v \<noteq> t) ts)) u"
    and "granted_at ts t u \<inter> blocked_at (requests (filter (\<lambda>v. v \<noteq> t) ts)) u = {}"
proof -
  have split: "blocked_part (requests ts a) = newly_granted (requests ts a) @ blocked_part (drop_task t (requests ts a))"
    if a: "a \<in> task_addresses t" for a
  proof -
    obtain r where "(a, r) \<in> set (lock_contexts t)"
      using a by (auto simp: task_addresses_def)
    from holds_when_unblocked [OF assms(1,3,4) this] show ?thesis
      by (rule blocked_part_drop_holder) (simp add: distinct_requests assms(2))
  qed
  show "blocked_at (requests ts) u = granted_at ts t u \<union> blocked_at (requests (filter (\<lambda>v. v \<noteq> t) ts)) u"
  proof (rule set_eqI)
    fix a
    show "a \<in> blocked_at (requests ts) u \<longleftrightarrow>
        a \<in> granted_at ts t u \<union> blocked_at (requests (filter (\<lambda>v. v \<noteq> t) ts)) u"
    proof (cases "a \<in> task_addresses t")
      case True
      then show ?thesis
        by (simp add: blocked_at_def granted_at_def requests_remove split [OF True] image_Un)
    next
      case False
      then show ?thesis
        by (simp add: blocked_at_def granted_at_def requests_remove drop_task_elsewhere)
    qed
  qed
  have "distinct (map snd (blocked_part (requests ts a)))" for a
    using distinct_requests [OF assms(2)] holders_blocked [of "requests ts a"] by (metis distinct_append map_append)
  then have "u \<notin> snd ` set (blocked_part (drop_task t (requests ts a)))"
    if "a \<in> task_addresses t" and "u \<in> snd ` set (newly_granted (requests ts a))" for a
    using split [OF that(1)] that(2) by (metis disjoint_iff distinct_append map_append set_map)
  then show "granted_at ts t u \<inter> blocked_at (requests (filter (\<lambda>v. v \<noteq> t) ts)) u = {}"
    by (simp add: blocked_at_def granted_at_def requests_remove disjoint_iff)
qed

end
