(* ===== verification/Fifo_Invariant.thy ===== *)
theory Fifo_Invariant
  imports Fifo_Scheduler
begin

section \<open>The invariant of first-in-first-out scheduling\<close>

text \<open>
  \<open>fifo_inv s act run\<close> relates a state of the scheduling state machine to the list \<open>act\<close> of its
  active tasks, in order of arrival, and the list \<open>run\<close> of those handed out to a handler. Every
  operation of the machine keeps it and none of them panics as long as fewer than \<open>2 ^ 31\<close> tasks
  are scheduled in one session.
\<close>

definition tasks_ok :: "task list \<Rightarrow> bool" where
  "tasks_ok act \<longleftrightarrow> distinct (map task_id act) \<and> (\<forall>t \<in> set act. wf_task t)"

definition locks_inv :: "ssm \<Rightarrow> task list \<Rightarrow> task list \<Rightarrow> bool" where
  "locks_inv s act run \<longleftrightarrow>
     usage_queues s = (\<lambda>a. fifo_of (requests act a)) \<and>
     (\<forall>t \<in> set act. blocked_at (requests act) t \<noteq> {} \<longrightarrow>
        unat (blocked_usage_counts s (task_id t)) = card (blocked_at (requests act) t)) \<and>
     distinct (run @ unblocked_task_queue s) \<and>
     set (run @ unblocked_task_queue s) = {t \<in> set act. blocked_at (requests act) t = {}}"

definition hashes_inv :: "ssm \<Rightarrow> task list \<Rightarrow> bool" where
  "hashes_inv s act \<longleftrightarrow>
     (case max_unique_active_task_count s of
        None \<Rightarrow> unique_active_task_hashes s = {}
      | Some m \<Rightarrow> unique_active_task_hashes s = task_hash ` set act \<and>
          distinct (map task_hash act) \<and> length act \<le> m)"

definition counters_inv :: "ssm \<Rightarrow> task list \<Rightarrow> task list \<Rightarrow> bool" where
  "counters_inv s act run \<longleftrightarrow>
     unat (active_task_count s) = length act \<and>
     unat (running_task_count s) = length run \<and> length run \<le> unat (max_running_task_count s) \<and>
     unat (handled_task_count s) + unat (dropped_task_count s) + length act = unat (total_task_count s) \<and>
     unat (unblocked_task_count s) + length act \<le> 2 * unat (total_task_count s) + length run \<and>
     unat (total_task_count s) < 2 ^ 31"

definition fifo_inv :: "ssm \<Rightarrow> task list \<Rightarrow> task list \<Rightarrow> bool" where
  "fifo_inv s act run \<longleftrightarrow> tasks_ok act \<and> locks_inv s act run \<and> hashes_inv s act \<and> counters_inv s act run"

lemmas fifo_inv_defs = fifo_inv_def locks_inv_def hashes_inv_def counters_inv_def

lemma tasks_okD:
  assumes "tasks_ok act"
  shows "distinct act" "inj_on task_id (set act)" "t \<in> set act \<Longrightarrow> wf_task t"
  using assms by (auto simp: tasks_ok_def distinct_map)

lemma locks_invD:
  assumes "locks_inv s act run"
  shows "usage_queues s = (\<lambda>a. fifo_of (requests act a))"
    and "t \<in> set act \<Longrightarrow> blocked_at (requests act) t \<noteq> {} \<Longrightarrow>
      unat (blocked_usage_counts s (task_id t)) = card (blocked_at (requests act) t)"
    and "distinct (run @ unblocked_task_queue s)"
    and "set (run @ unblocked_task_queue s) = {t \<in> set act. blocked_at (requests act) t = {}}"
  using assms unfolding locks_inv_def by blast+

lemma run_subset_active: "locks_inv s act run \<Longrightarrow> set (run @ unblocked_task_queue s) \<subseteq> set act"
  by (auto simp: locks_inv_def)

lemma run_length:
  assumes "locks_inv s act run" and "tasks_ok act"
  shows "length run + length (unblocked_task_queue s) \<le> length act"
proof -
  have "distinct (run @ unblocked_task_queue s)"
    using assms(1) by (simp add: locks_inv_def)
  then have "length (run @ unblocked_task_queue s) = card (set (run @ unblocked_task_queue s))"
    by (simp only: distinct_card)
  also have "\<dots> \<le> card (set act)"
    using run_subset_active [OF assms(1)] by (intro card_mono) auto
  finally show ?thesis
    using distinct_card [OF tasks_okD(1) [OF assms(2)]] by simp
qed

definition same_limits :: "ssm \<Rightarrow> ssm \<Rightarrow> bool" where
  "same_limits s s' \<longleftrightarrow> max_unique_active_task_count s' = max_unique_active_task_count s \<and>
     max_running_task_count s' = max_running_task_count s"

definition conflict_free :: "task list \<Rightarrow> task \<Rightarrow> bool" where
  "conflict_free act t \<longleftrightarrow> (\<forall>u \<in> set act. \<not> task_conflict u t)"

text \<open>Incrementing a counter that stays in range.\<close>

lemma increment_ok:
  assumes "unat (n :: u32) + 1 < 2 ^ 32"
  shows "\<exists>m. increment n = Some m \<and> unat m = unat n + 1"
  using assms by (intro exI [of _ "n + 1"]) (simp add: increment_def checked_add_def unat_word_ariths)

lemma decrement_ok:
  assumes "0 < unat (n :: u32)"
  shows "\<exists>m. decrement n = Some m \<and> unat m + 1 = unat n"
proof -
  have "1 \<le> n"
    using assms by (simp add: word_le_nat_alt)
  then show ?thesis
    using assms by (intro exI [of _ "n - 1"]) (simp add: decrement_def checked_sub_def unat_sub)
qed

subsection \<open>Locking the usage queues of a new task\<close>

lemma lock_new_task:
  assumes "locks_inv s act run" and "tasks_ok act" and "task_id t \<notin> task_id ` set act" and "wf_task t"
    and "Suc (length act) < 2 ^ 32"
  shows "\<exists>n. try_lock_usage_queues t s =
      Some (if conflict_free act t then Some t else None,
        s\<lparr>usage_queues := (\<lambda>a. fifo_of (requests (act @ [t]) a)),
          blocked_usage_counts := (if conflict_free act t then blocked_usage_counts s
            else (blocked_usage_counts s)(task_id t := n))\<rparr>) \<and>
      unat n = card (blocked_at (requests (act @ [t])) t) \<and>
      (blocked_at (requests (act @ [t])) t = {} \<longleftrightarrow> conflict_free act t)"
proof -
  let ?F = "filter (\<lambda>(a, r). \<not> grants (requests act a) r) (lock_contexts t)"
  have "t \<notin> set act"
    using assms(3) by auto
  note card = blocked_at_snoc [OF this assms(4)]
  have "length (requests act a) < 2 ^ 32 - 1" for a
    using length_requests [of act a] assms(5) by simp
  then have "foldM (try_lock_context t) (lock_contexts t) (of_nat 0, s) =
      Some (of_nat (0 + length ?F), s\<lparr>usage_queues := (\<lambda>a. fifo_of (extend_requests (lock_contexts t) t (requests act) a))\<rparr>)"
    using assms(1,4) by (intro try_lock_contexts) (auto simp: locks_inv_def wf_task_def less_diff_conv)
  then have loop: "foldM (try_lock_context t) (lock_contexts t) (0, s) =
      Some (of_nat (length ?F), s\<lparr>usage_queues := (\<lambda>a. fifo_of (requests (act @ [t]) a))\<rparr>)"
    by (simp add: requests_snoc)
  have "length ?F < 2 ^ 32"
    using assms(4) by (intro le_less_trans [OF length_filter_le]) (simp add: wf_task_def)
  then have unat: "unat (of_nat (length ?F) :: u32) = length ?F"
    by (rule unat_of_nat_u32)
  then have zero: "(of_nat (length ?F) :: u32) = 0 \<longleftrightarrow> blocked_at (requests (act @ [t])) t = {}"
    using card finite_blocked_at [of "act @ [t]" t] by (metis card_0_eq unat_eq_zero)
  have "distinct (act @ t # [])" "\<forall>u \<in> set (act @ [t]). wf_task u"
    using tasks_okD [OF assms(2)] \<open>t \<notin> set act\<close> assms(4) by auto
  note free = blocked_at_empty_iff [OF this, folded conflict_free_def]
  define n where "n = (of_nat (length ?F) :: u32)"
  have "try_lock_usage_queues t s = Some (if n = 0 then Some t else None,
      s\<lparr>usage_queues := (\<lambda>a. fifo_of (requests (act @ [t]) a)),
        blocked_usage_counts := (if n = 0 then blocked_usage_counts s else (blocked_usage_counts s)(task_id t := n))\<rparr>)"
    unfolding try_lock_usage_queues_def loop n_def [symmetric]
    by (cases "n = 0") (simp_all add: set_blocked_usage_count_def)
  moreover have conflict: "conflict_free act t \<longleftrightarrow> n = 0"
    unfolding n_def zero free by (rule refl)
  moreover have "unat n = card (blocked_at (requests (act @ [t])) t)"
    unfolding n_def unat card by (rule refl)
  ultimately show ?thesis
    unfolding free conflict by (intro exI [of _ n] conjI) simp_all
qed

subsection \<open>Scheduling a task\<close>

definition is_dropped :: "ssm \<Rightarrow> task \<Rightarrow> bool" where
  "is_dropped s t \<longleftrightarrow>
     (case max_unique_active_task_count s of
        None \<Rightarrow> False
      | Some m \<Rightarrow> card (unique_active_task_hashes s) \<ge> m \<or> task_hash t \<in> unique_active_task_hashes s)"

lemma locks_inv_snoc:
  assumes "locks_inv s act run" and "t \<notin> set act"
    and "usage_queues s' = (\<lambda>a. fifo_of (requests (act @ [t]) a))"
    and "\<And>u. u \<in> set act \<Longrightarrow> blocked_usage_counts s' (task_id u) = blocked_usage_counts s (task_id u)"
    and "blocked_at (requests (act @ [t])) t \<noteq> {} \<Longrightarrow>
      unat (blocked_usage_counts s' (task_id t)) = card (blocked_at (requests (act @ [t])) t)"
    and "run' @ unblocked_task_queue s' = run @ unblocked_task_queue s \<and> blocked_at (requests (act @ [t])) t \<noteq> {} \<or>
      mset (run' @ unblocked_task_queue s') = add_mset t (mset (run @ unblocked_task_queue s)) \<and>
      blocked_at (requests (act @ [t])) t = {}"
  shows "locks_inv s' (act @ [t]) run'"
proof -
  have other: "blocked_at (requests (act @ [t])) u = blocked_at (requests act) u" if "u \<in> set act" for u
    using that assms(2) by (intro blocked_at_snoc_other) auto
  have unblocked: "{u \<in> set (act @ [t]). blocked_at (requests (act @ [t])) u = {}} =
      {u \<in> set act. blocked_at (requests act) u = {}} \<union>
      (if blocked_at (requests (act @ [t])) t = {} then {t} else {})"
    using other by auto
  define old where "old = run @ unblocked_task_queue s"
  define new where "new = run' @ unblocked_task_queue s'"
  have old: "distinct old" "set old = {u \<in> set act. blocked_at (requests act) u = {}}"
    unfolding old_def by (fact locks_invD(3,4) [OF assms(1)])+
  have "distinct new \<and> set new = set old \<union> (if blocked_at (requests (act @ [t])) t = {} then {t} else {})"
    using assms(6) unfolding old_def [symmetric] new_def [symmetric]
  proof (elim disjE conjE)
    assume "mset new = add_mset t (mset old)" and free: "blocked_at (requests (act @ [t])) t = {}"
    then have eq: "mset new = mset (t # old)"
      by simp
    have "distinct (t # old)"
      using old assms(2) by simp
    then show ?thesis
      using free mset_eq_imp_distinct_iff [OF eq] mset_eq_setD [OF eq] by simp
  next
    assume "new = old" and "blocked_at (requests (act @ [t])) t \<noteq> {}"
    then show ?thesis
      using old(1) by simp
  qed
  then have new: "distinct new" "set new = {u \<in> set (act @ [t]). blocked_at (requests (act @ [t])) u = {}}"
    unfolding unblocked old(2) by blast+
  have "unat (blocked_usage_counts s' (task_id u)) = card (blocked_at (requests (act @ [t])) u)"
    if "u \<in> set (act @ [t])" "blocked_at (requests (act @ [t])) u \<noteq> {}" for u
  proof (cases "u = t")
    case False
    then have u: "u \<in> set act"
      using that(1) by simp
    show ?thesis
      using that(2) locks_invD(2) [OF assms(1) u] unfolding other [OF u] assms(4) [OF u] by blast
  qed (use that(2) assms(5) in simp)
  then show ?thesis
    unfolding locks_inv_def new_def [symmetric] using assms(3) new by blast
qed

lemma hashes_inv_snoc:
  assumes "hashes_inv s act" and "\<not> is_dropped s t"
    and "max_unique_active_task_count s' = max_unique_active_task_count s"
    and "unique_active_task_hashes s' = (if max_unique_active_task_count s = None then unique_active_task_hashes s
      else insert (task_hash t) (unique_active_task_hashes s))"
  shows "hashes_inv s' (act @ [t])"
proof (cases "max_unique_active_task_count s")
  case None
  then show ?thesis
    using assms by (simp add: hashes_inv_def)
next
  case (Some m)
  then have "card (task_hash ` set act) = length act"
    using assms(1) distinct_card [of "map task_hash act"] by (simp add: hashes_inv_def)
  then show ?thesis
    using Some assms by (auto simp: hashes_inv_def is_dropped_def)
qed

text \<open>The invariants only read the fields they mention.\<close>

lemma locks_inv_cong:
  assumes "locks_inv s act run" and "usage_queues s' = usage_queues s"
    and "blocked_usage_counts s' = blocked_usage_counts s" and "unblocked_task_queue s' = unblocked_task_queue s"
  shows "locks_inv s' act run"
  using assms by (simp add: locks_inv_def)

lemma hashes_inv_cong:
  assumes "hashes_inv s act" and "unique_active_task_hashes s' = unique_active_task_hashes s"
    and "max_unique_active_task_count s' = max_unique_active_task_count s"
  shows "hashes_inv s' act"
  using assms(1) unfolding hashes_inv_def assms(2,3) .

lemma tasks_ok_snoc: "tasks_ok act \<Longrightarrow> task_id t \<notin> task_id ` set act \<Longrightarrow> wf_task t \<Longrightarrow> tasks_ok (act @ [t])"
  by (auto simp: tasks_ok_def)

definition may_run :: "ssm \<Rightarrow> task list \<Rightarrow> task \<Rightarrow> bool \<Rightarrow> bool" where
  "may_run s act t force \<longleftrightarrow> conflict_free act t \<and> is_task_runnable s \<and> \<not> force"

definition same_admission :: "ssm \<Rightarrow> ssm \<Rightarrow> bool" where
  "same_admission s s' \<longleftrightarrow>
     active_task_count s' = active_task_count s \<and> total_task_count s' = total_task_count s \<and>
     handled_task_count s' = handled_task_count s \<and> dropped_task_count s' = dropped_task_count s \<and>
     max_running_task_count s' = max_running_task_count s \<and>
     max_unique_active_task_count s' = max_unique_active_task_count s \<and>
     unique_active_task_hashes s' = unique_active_task_hashes s"

text \<open>The part of scheduling after the task has been admitted.\<close>

lemma admitted_task:
  assumes locks: "locks_inv s act run" and ok: "tasks_ok act" "task_id t \<notin> task_id ` set act" "wf_task t"
    and act: "Suc (length act) < 2 ^ 32" and run: "unat (running_task_count s) + 1 < 2 ^ 32"
    and unblocked: "unat (unblocked_task_count s) + 1 < 2 ^ 32"
  shows "\<exists>r s'. lock_and_run t force s = Some (r, s') \<and>
     r = (if may_run s act t force then Some t else None) \<and>
     locks_inv s' (act @ [t]) (if may_run s act t force then run @ [t] else run) \<and>
     unat (running_task_count s') = unat (running_task_count s) + (if may_run s act t force then 1 else 0) \<and>
     unat (unblocked_task_count s') \<le> unat (unblocked_task_count s) + (if may_run s act t force then 0 else 1) \<and>
     same_admission s s'"
proof -
  let ?act = "act @ [t]"
  have new: "t \<notin> set act"
    using ok(2) by auto
  obtain n where lock: "try_lock_usage_queues t s =
      Some (if conflict_free act t then Some t else None,
        s\<lparr>usage_queues := (\<lambda>a. fifo_of (requests ?act a)),
          blocked_usage_counts := (if conflict_free act t then blocked_usage_counts s
            else (blocked_usage_counts s)(task_id t := n))\<rparr>)"
    and n: "unat n = card (blocked_at (requests ?act) t)"
    and free: "blocked_at (requests ?act) t = {} \<longleftrightarrow> conflict_free act t"
    using lock_new_task [OF locks ok act] by blast
  obtain k where k: "increment (unblocked_task_count s) = Some k" "unat k = unat (unblocked_task_count s) + 1"
    using increment_ok [OF unblocked] by blast
  obtain m where m: "increment (running_task_count s) = Some m" "unat m = unat (running_task_count s) + 1"
    using increment_ok [OF run] by blast
  note inv = locks_inv_snoc [OF locks new]
  have other: "task_id u \<noteq> task_id t" if "u \<in> set act" for u
    using ok(2) that by (metis image_eqI)
  show ?thesis
  proof (cases "conflict_free act t")
    case False
    let ?s = "s\<lparr>usage_queues := (\<lambda>a. fifo_of (requests ?act a)),
      blocked_usage_counts := (blocked_usage_counts s)(task_id t := n)\<rparr>"
    have "locks_inv ?s ?act run"
      by (rule inv) (use False free n other in simp_all)
    then show ?thesis
      using False lock by (intro exI [of _ None] exI [of _ ?s]) (simp add: lock_and_run_def may_run_def same_admission_def)
  next
    case free': True
    let ?s0 = "s\<lparr>usage_queues := (\<lambda>a. fifo_of (requests ?act a))\<rparr>"
    have lock': "try_lock_usage_queues t s = Some (Some t, ?s0)"
      unfolding lock if_P [OF free'] by simp
    have runnable: "is_task_runnable ?s0 = is_task_runnable s"
      by (simp add: is_task_runnable_def)
    show ?thesis
    proof (cases "is_task_runnable s \<and> \<not> force")
      case True
      let ?s = "?s0\<lparr>running_task_count := m\<rparr>"
      have "locks_inv ?s ?act (run @ [t])"
        by (rule inv) (use free free' in simp_all)
      then show ?thesis
        using free' True m lock'
        by (intro exI [of _ "Some t"] exI [of _ ?s]) (simp add: lock_and_run_def may_run_def same_admission_def runnable)
    next
      case False
      let ?s = "?s0\<lparr>unblocked_task_count := k, unblocked_task_queue := unblocked_task_queue s @ [t]\<rparr>"
      have "locks_inv ?s ?act run"
        by (rule inv) (use free free' in simp_all)
      then show ?thesis
        using free' False k lock'
        by (intro exI [of _ None] exI [of _ ?s]) (simp add: lock_and_run_def may_run_def same_admission_def runnable)
    qed
  qed
qed

lemma schedule_or_buffer_inv:
  assumes inv: "fifo_inv s act run" and ok: "task_id t \<notin> task_id ` set act" "wf_task t"
    and total: "unat (total_task_count s) + 1 < 2 ^ 31"
  shows "\<exists>r s'. schedule_or_buffer_task t force s = Some (r, s') \<and>
    same_limits s s' \<and> unat (total_task_count s') = unat (total_task_count s) + 1 \<and>
    (if is_dropped s t then r = None \<and> fifo_inv s' act run
     else r = (if may_run s act t force then Some t else None) \<and>
       fifo_inv s' (act @ [t]) (if may_run s act t force then run @ [t] else run))"
proof -
  note tasks = inv [unfolded fifo_inv_def, THEN conjunct1]
  have locks: "locks_inv s act run" and hashes: "hashes_inv s act" and cnt: "counters_inv s act run"
    using inv by (simp_all add: fifo_inv_def)
  obtain total' where total': "increment (total_task_count s) = Some total'"
    "unat total' = unat (total_task_count s) + 1"
    using increment_ok [of "total_task_count s"] total by auto
  show ?thesis
  proof (cases "is_dropped s t")
    case True
    obtain dropped where dropped: "increment (dropped_task_count s) = Some dropped"
      "unat dropped = unat (dropped_task_count s) + 1"
      using increment_ok [of "dropped_task_count s"] total cnt by (auto simp: counters_inv_def)
    let ?s = "s\<lparr>total_task_count := total', dropped_task_count := dropped\<rparr>"
    have "schedule_or_buffer_task t force s = Some (None, ?s)"
      using True total' dropped
      by (auto simp: schedule_or_buffer_task_def is_dropped_def Let_def split: option.splits)
    moreover have "locks_inv ?s act run" "hashes_inv ?s act"
      by (rule locks_inv_cong [OF locks]; simp) (rule hashes_inv_cong [OF hashes]; simp)
    moreover have "counters_inv ?s act run"
      using cnt total' dropped total by (auto simp: counters_inv_def)
    ultimately have "schedule_or_buffer_task t force s = Some (None, ?s)" "fifo_inv ?s act run"
      using tasks by (simp_all add: fifo_inv_def)
    then show ?thesis
      using True total'(2) by (intro exI [of _ None] exI [of _ ?s]) (simp add: same_limits_def)
  next
    case False
    obtain active where active: "increment (active_task_count s) = Some active"
      "unat active = unat (active_task_count s) + 1"
      using increment_ok [of "active_task_count s"] total cnt by (auto simp: counters_inv_def)
    define s1 where "s1 = s\<lparr>total_task_count := total',
      unique_active_task_hashes := (if max_unique_active_task_count s = None then unique_active_task_hashes s
        else insert (task_hash t) (unique_active_task_hashes s)),
      active_task_count := active, peak_active_task_count := max_self (peak_active_task_count s) active\<rparr>"
    have sched: "schedule_or_buffer_task t force s = lock_and_run t force s1"
      using False total' active
      by (auto simp: schedule_or_buffer_task_def is_dropped_def Let_def s1_def split: option.splits)
    have "locks_inv s1 act run"
      by (rule locks_inv_cong [OF locks]) (simp_all add: s1_def)
    moreover have "Suc (length act) < 2 ^ 32" "unat (running_task_count s1) + 1 < 2 ^ 32"
      "unat (unblocked_task_count s1) + 1 < 2 ^ 32"
      using cnt total run_length [OF locks tasks] by (auto simp: counters_inv_def s1_def)
    ultimately obtain r s' where s': "lock_and_run t force s1 = Some (r, s')"
      "r = (if may_run s1 act t force then Some t else None)"
      "locks_inv s' (act @ [t]) (if may_run s1 act t force then run @ [t] else run)"
      "unat (running_task_count s') = unat (running_task_count s1) + (if may_run s1 act t force then 1 else 0)"
      "unat (unblocked_task_count s') \<le> unat (unblocked_task_count s1) + (if may_run s1 act t force then 0 else 1)"
      "same_admission s1 s'"
      using admitted_task [OF _ tasks ok] by blast
    have may: "may_run s1 act t force = may_run s act t force"
      by (simp add: may_run_def is_task_runnable_def s1_def)
    have "length run < unat (max_running_task_count s)" if "may_run s act t force"
      using that cnt by (simp add: may_run_def is_task_runnable_def counters_inv_def word_less_nat_alt)
    then have "counters_inv s' (act @ [t]) (if may_run s act t force then run @ [t] else run)"
      using cnt s'(4-6) [unfolded may] active(2) total'(2) total
      by (auto simp: counters_inv_def same_admission_def s1_def)
    moreover have "hashes_inv s' (act @ [t])"
      by (rule hashes_inv_snoc [OF hashes False]) (use s'(6) in \<open>simp_all add: same_admission_def s1_def\<close>)
    moreover have "tasks_ok (act @ [t])"
      by (rule tasks_ok_snoc [OF tasks ok])
    ultimately have "fifo_inv s' (act @ [t]) (if may_run s act t force then run @ [t] else run)"
      using s'(3) unfolding fifo_inv_def may by blast
    moreover have "same_limits s s'" "total_task_count s' = total'"
      using s'(6) by (simp_all add: same_limits_def same_admission_def s1_def)
    ultimately show ?thesis
      using False s'(1,2) total'(2) unfolding sched may by simp
  qed
qed

subsection \<open>Handing out an unblocked task\<close>

lemma schedule_next_inv:
  assumes inv: "fifo_inv s act run"
  shows "\<exists>r s'. schedule_next_unblocked_task s = Some (r, s') \<and>
    same_limits s s' \<and>
    total_task_count s' = total_task_count s \<and>
    (if has_runnable_task s
     then r = Some (hd (unblocked_task_queue s)) \<and> fifo_inv s' act (run @ [hd (unblocked_task_queue s)])
     else r = None \<and> s' = s)"
proof (cases "has_runnable_task s")
  case False
  then show ?thesis
    by (auto simp: same_limits_def schedule_next_unblocked_task_def has_runnable_task_def has_unblocked_task_def
        split: list.splits)
next
  case True
  then obtain t rest where q: "unblocked_task_queue s = t # rest"
    and runnable: "running_task_count s < max_running_task_count s"
    by (auto simp: has_runnable_task_def has_unblocked_task_def is_task_runnable_def neq_Nil_conv)
  have tasks: "tasks_ok act" and locks: "locks_inv s act run" and hashes: "hashes_inv s act"
    and cnt: "counters_inv s act run"
    using inv by (simp_all add: fifo_inv_def)
  have len: "length run + 1 \<le> length act"
    using run_length [OF locks tasks] by (simp add: q)
  obtain m where m: "increment (running_task_count s) = Some m" "unat m = unat (running_task_count s) + 1"
    using increment_ok [of "running_task_count s"] cnt len by (auto simp: counters_inv_def)
  obtain k where k: "increment (unblocked_task_count s) = Some k" "unat k = unat (unblocked_task_count s) + 1"
    using increment_ok [of "unblocked_task_count s"] cnt len by (auto simp: counters_inv_def)
  let ?s = "s\<lparr>unblocked_task_queue := rest, running_task_count := m, unblocked_task_count := k\<rparr>"
  have "schedule_next_unblocked_task s = Some (Some t, ?s)"
    using q runnable m k by (simp add: schedule_next_unblocked_task_def is_task_runnable_def)
  moreover have "locks_inv ?s act (run @ [t])"
    using locks q by (simp add: locks_inv_def)
  moreover have "hashes_inv ?s act"
    by (rule hashes_inv_cong [OF hashes]) simp_all
  moreover have "counters_inv ?s act (run @ [t])"
    using cnt m(2) k(2) runnable by (auto simp: counters_inv_def word_less_nat_alt)
  ultimately have "schedule_next_unblocked_task s = Some (Some t, ?s)" "fifo_inv ?s act (run @ [t])"
    using tasks by (simp_all add: fifo_inv_def)
  then show ?thesis
    using True q by (intro exI [of _ "Some t"] exI [of _ ?s]) (simp add: same_limits_def)
qed

subsection \<open>Descheduling a finished task\<close>

abbreviation without :: "task \<Rightarrow> task list \<Rightarrow> task list" where
  "without t ts \<equiv> filter (\<lambda>u. u \<noteq> t) ts"

lemma length_without: "distinct ts \<Longrightarrow> t \<in> set ts \<Longrightarrow> length (without t ts) + 1 = length ts"
proof (induction ts)
  case (Cons u ts)
  then show ?case
    by (cases "u = t") (auto simp: filter_id_conv intro!: arg_cong [where f = length])
qed simp

lemma run_remove:
  assumes "distinct (run @ q)" and "set (run @ q) = {u \<in> A. B u = {}}" and "t \<in> set run"
    and "distinct ub" and "\<And>u. u \<in> set ub \<longleftrightarrow> u \<in> A \<and> B u \<noteq> {} \<and> B' u = {}" and "\<And>u. B' u \<subseteq> B u"
  shows "distinct (without t run @ q @ ub)" and "set (without t run @ q @ ub) = {u \<in> A - {t}. B' u = {}}"
proof -
  have "set (run @ q) \<inter> set ub = {}"
    unfolding assms(2) using assms(5) by blast
  then show "distinct (without t run @ q @ ub)"
    using assms(1,4) by auto
  have "t \<notin> set q" "t \<notin> set ub"
    using assms(1,3) \<open>set (run @ q) \<inter> set ub = {}\<close> by auto
  then have "set (without t run @ q @ ub) = (set (run @ q) \<union> set ub) - {t}"
    by auto
  also have "\<dots> = {u \<in> A - {t}. B' u = {}}"
    unfolding assms(2) using assms(5,6) by blast
  finally show "set (without t run @ q @ ub) = {u \<in> A - {t}. B' u = {}}" .
qed

definition all_granted :: "task list \<Rightarrow> task \<Rightarrow> usage_from_task list" where
  "all_granted act t = concat (map (\<lambda>(a, r). newly_granted (requests act a)) (lock_contexts t))"

lemma newly_granted_subset: "set (newly_granted us) \<subseteq> set us"
  using holders_subset [of "tl us"] by (cases us) (auto simp: newly_granted_def)

lemma distinct_newly_granted:
  assumes "distinct (map snd us)"
  shows "distinct (map snd (newly_granted us))"
proof -
  have "distinct (map snd (tl us))"
    using assms by (cases us) auto
  then have "distinct (map snd (holders (tl us)))"
    using holders_blocked [of "tl us"] by (metis distinct_append map_append)
  then show ?thesis
    by (simp add: newly_granted_def)
qed

lemma occurrences_all_granted:
  assumes "distinct act" and "wf_task t"
  shows "occurrences (all_granted act t) u = card (granted_at act t u)"
proof -
  have "distinct (map snd (newly_granted (requests act a)))" for a
    by (intro distinct_newly_granted distinct_requests assms)
  moreover have "distinct (map fst (lock_contexts t))"
    using assms(2) by (simp add: wf_task_def)
  ultimately show ?thesis
    unfolding all_granted_def granted_at_def task_addresses_def by (intro occurrences_concat)
qed

lemma snd_all_granted: "snd ` set (all_granted act t) \<subseteq> set act"
  using newly_granted_subset by (fastforce simp: all_granted_def set_requests)

lemma unlock_queues_inv:
  assumes locks: "locks_inv s act run" and ok: "tasks_ok act" and t: "t \<in> set run" and len: "length act < 2 ^ 32"
  shows "\<exists>c ub. unlock_usage_queues t s = Some (s\<lparr>usage_queues := (\<lambda>a. fifo_of (requests (without t act) a)),
      blocked_usage_counts := c, unblocked_task_queue := ub\<rparr>) \<and>
    locks_inv (s\<lparr>usage_queues := (\<lambda>a. fifo_of (requests (without t act) a)),
      blocked_usage_counts := c, unblocked_task_queue := ub\<rparr>) (without t act) (without t run)"
proof -
  let ?R = "requests act" and ?R' = "requests (without t act)"
  have "t \<in> set (run @ unblocked_task_queue s)"
    using t by simp
  then have act: "t \<in> set act" and free: "blocked_at ?R t = {}"
    unfolding locks_invD(4) [OF locks] by auto
  note wf = tasks_okD(3) [OF ok act]
  note dist = tasks_okD(1) [OF ok]
  note remove = blocked_at_remove [OF act dist wf free]
  have occ: "occurrences (all_granted act t) u + card (blocked_at ?R' u) = card (blocked_at ?R u)" for u
  proof -
    have "finite (granted_at act t u)" "finite (blocked_at ?R' u)"
      by (simp_all add: granted_at_def task_addresses_def finite_blocked_at)
    then show ?thesis
      unfolding occurrences_all_granted [OF dist wf] remove(1)
      using remove(2) by (intro card_Un_disjoint [symmetric])
  qed
  have blocked: "blocked_at ?R u \<noteq> {}" if "u \<in> snd ` set (all_granted act t)" for u
    using that occ [of u] finite_blocked_at [of act u] by (auto simp: occurrences_pos)
  have enough: "\<forall>u \<in> snd ` set (all_granted act t). occurrences (all_granted act t) u \<le> unat (blocked_usage_counts s (task_id u))"
  proof
    fix u
    assume u: "u \<in> snd ` set (all_granted act t)"
    then have "u \<in> set act"
      using snd_all_granted by blast
    then show "occurrences (all_granted act t) u \<le> unat (blocked_usage_counts s (task_id u))"
      using occ [of u] locks_invD(2) [OF locks _ blocked [OF u]] by simp
  qed
  obtain c ub where grant: "foldM grant1 (all_granted act t) (blocked_usage_counts s, unblocked_task_queue s) =
      Some (c, unblocked_task_queue s @ ub) \<and>
    (\<forall>u \<in> set act. unat (c (task_id u)) =
      unat (blocked_usage_counts s (task_id u)) - occurrences (all_granted act t) u) \<and>
    distinct ub \<and>
    set ub = {u \<in> snd ` set (all_granted act t). occurrences (all_granted act t) u = unat (blocked_usage_counts s (task_id u))}"
    using grant_all [OF tasks_okD(2) [OF ok] snd_all_granted enough, where ub = "unblocked_task_queue s"]
    by (elim exE)
  note fold = grant [THEN conjunct1] and ub = grant [THEN conjunct2, THEN conjunct2]
  have c: "unat (c (task_id u)) = card (blocked_at ?R' u)"
    if "u \<in> set act" "blocked_at ?R' u \<noteq> {}" for u
  proof -
    have "blocked_at ?R u \<noteq> {}"
      using that(2) remove(1) [of u] by auto
    then show ?thesis
      using grant that(1) locks_invD(2) [OF locks that(1)] occ [of u] by simp
  qed
  have new: "u \<in> set ub \<longleftrightarrow> u \<in> set act \<and> blocked_at ?R u \<noteq> {} \<and> blocked_at ?R' u = {}" for u
  proof -
    let ?n = "occurrences (all_granted act t) u"
    have zero: "blocked_at ?R' u = {} \<longleftrightarrow> card (blocked_at ?R' u) = 0" "blocked_at ?R u = {} \<longleftrightarrow> card (blocked_at ?R u) = 0"
      by (simp_all add: finite_blocked_at)
    have "u \<in> set ub \<longleftrightarrow> 0 < ?n \<and> ?n = unat (blocked_usage_counts s (task_id u))"
      using ub unfolding occurrences_pos by blast
    moreover have "0 < ?n \<Longrightarrow> u \<in> set act"
      using snd_all_granted [of act t] unfolding occurrences_pos [symmetric] by blast
    moreover note occ [of u] locks_invD(2) [OF locks, of u]
    ultimately show ?thesis
      unfolding zero by linarith
  qed
  have queues: "(\<lambda>a. fifo_of (if a \<in> fst ` set (lock_contexts t) then drop_task t (?R a) else ?R a)) = (\<lambda>a. fifo_of (?R' a))"
    using drop_task_elsewhere [of _ t act] by (auto simp: fun_eq_iff requests_remove task_addresses_def)
  have "foldM (unlock_context t) (lock_contexts t) s = map_option (\<lambda>(c, ub).
        s\<lparr>usage_queues := (\<lambda>a. fifo_of (?R' a)), blocked_usage_counts := c, unblocked_task_queue := ub\<rparr>)
      (foldM grant1 (all_granted act t) (blocked_usage_counts s, unblocked_task_queue s))"
    unfolding queues [symmetric] all_granted_def
  proof (rule unlock_contexts [OF locks_invD(1) [OF locks]])
    show "length (?R a) < 2 ^ 32" for a
      using length_requests [of act a] len by simp
  qed (use wf holds_when_unblocked [OF act wf free] distinct_requests [OF dist] in \<open>simp_all add: wf_task_def\<close>)
  then have result: "unlock_usage_queues t s = Some (s\<lparr>usage_queues := (\<lambda>a. fifo_of (?R' a)),
      blocked_usage_counts := c, unblocked_task_queue := unblocked_task_queue s @ ub\<rparr>)"
    by (simp add: unlock_usage_queues_def fold)
  let ?s = "s\<lparr>usage_queues := (\<lambda>a. fifo_of (?R' a)), blocked_usage_counts := c,
    unblocked_task_queue := unblocked_task_queue s @ ub\<rparr>"
  have "locks_inv ?s (without t act) (without t run)"
  proof -
    have sub: "blocked_at ?R' u \<subseteq> blocked_at ?R u" for u
      using remove(1) [of u] by blast
    note split = run_remove [OF locks_invD(3,4) [OF locks] t ub [THEN conjunct1] new sub]
    moreover have "set act - {t} = set (without t act)"
      by auto
    ultimately show ?thesis
      using c unfolding locks_inv_def by simp
  qed
  then show ?thesis
    using result by (intro exI [of _ c] exI [of _ "unblocked_task_queue s @ ub"]) simp
qed

lemma tasks_ok_without: "tasks_ok act \<Longrightarrow> tasks_ok (without t act)"
  by (auto simp: tasks_ok_def distinct_map_filter)

lemma hashes_inv_without:
  assumes "hashes_inv s act" and "t \<in> set act" and "tasks_ok act"
    and "max_unique_active_task_count s' = max_unique_active_task_count s"
    and "unique_active_task_hashes s' = (if max_unique_active_task_count s = None then unique_active_task_hashes s
      else unique_active_task_hashes s - {task_hash t})"
  shows "hashes_inv s' (without t act)"
proof (cases "max_unique_active_task_count s")
  case None
  then show ?thesis
    using assms by (simp add: hashes_inv_def)
next
  case (Some m)
  then have dist: "distinct (map task_hash act)" and len: "length act \<le> m"
    and eq: "unique_active_task_hashes s = task_hash ` set act"
    using assms(1) by (simp_all add: hashes_inv_def)
  have "inj_on task_hash (set act)"
    using dist by (simp add: distinct_map)
  then have "task_hash ` set act - {task_hash t} = task_hash ` set (without t act)"
    using assms(2) by (auto simp: inj_on_def)
  moreover have "length (without t act) \<le> m"
    by (rule le_trans [OF length_filter_le len])
  ultimately show ?thesis
    using Some assms(4,5) dist eq by (simp add: hashes_inv_def distinct_map_filter)
qed

lemma deschedule_inv:
  assumes inv: "fifo_inv s act run" and t: "t \<in> set run"
  shows "\<exists>s'. deschedule_task t s = Some s' \<and> fifo_inv s' (without t act) (without t run) \<and>
    same_limits s s' \<and>
    total_task_count s' = total_task_count s"
proof -
  have ok: "tasks_ok act" and locks: "locks_inv s act run" and hashes: "hashes_inv s act"
    and cnt: "counters_inv s act run"
    using inv by (simp_all add: fifo_inv_def)
  have act: "t \<in> set act"
    using run_subset_active [OF locks] t by auto
  have len: "length (without t act) + 1 = length act" "length (without t run) + 1 = length run"
    using length_without tasks_okD(1) [OF ok] act t locks_invD(3) [OF locks] by auto
  have ne: "run \<noteq> []" "act \<noteq> []"
    using t act by auto
  obtain running where running: "decrement (running_task_count s) = Some running"
    "unat running + 1 = unat (running_task_count s)"
    using decrement_ok [of "running_task_count s"] cnt ne by (auto simp: counters_inv_def)
  obtain active where active: "decrement (active_task_count s) = Some active"
    "unat active + 1 = unat (active_task_count s)"
    using decrement_ok [of "active_task_count s"] cnt ne by (auto simp: counters_inv_def)
  obtain handled where handled: "increment (handled_task_count s) = Some handled"
    "unat handled = unat (handled_task_count s) + 1"
  proof -
    have "unat (handled_task_count s) + 1 < 2 ^ 32"
      using cnt len by (simp add: counters_inv_def)
    then show ?thesis
      using increment_ok that by blast
  qed
  have known: "\<not> (max_unique_active_task_count s \<noteq> None \<and> task_hash t \<notin> unique_active_task_hashes s)"
    using hashes act by (auto simp: hashes_inv_def split: option.splits)
  define s1 where "s1 = s\<lparr>running_task_count := running,
    unique_active_task_hashes := (if max_unique_active_task_count s = None then unique_active_task_hashes s
      else unique_active_task_hashes s - {task_hash t}),
    active_task_count := active, handled_task_count := handled\<rparr>"
  have desched: "deschedule_task t s = unlock_usage_queues t s1"
    using known running active handled by (auto simp: deschedule_task_def Let_def s1_def)
  have "locks_inv s1 act run"
    by (rule locks_inv_cong [OF locks]) (simp_all add: s1_def)
  moreover have "length act < 2 ^ 32"
    using cnt by (simp add: counters_inv_def)
  ultimately obtain s' c ub where s': "s' = s1\<lparr>usage_queues := (\<lambda>a. fifo_of (requests (without t act) a)),
      blocked_usage_counts := c, unblocked_task_queue := ub\<rparr>"
    and unlock: "unlock_usage_queues t s1 = Some s'" and "locks_inv s' (without t act) (without t run)"
    using unlock_queues_inv [OF _ ok t, of s1] by blast
  moreover have "hashes_inv s' (without t act)"
    by (rule hashes_inv_without [OF hashes act ok]) (simp_all add: s' s1_def)
  moreover have "counters_inv s' (without t act) (without t run)"
    using cnt len running(2) active(2) handled(2) by (auto simp: counters_inv_def s' s1_def)
  ultimately have "fifo_inv s' (without t act) (without t run)"
    using tasks_ok_without [OF ok] by (simp add: fifo_inv_def)
  then show ?thesis
    using unlock by (intro exI [of _ s']) (simp add: desched, simp add: same_limits_def s' s1_def)
qed

subsection \<open>The initial state, progress and quiescence\<close>

lemma new_inv: "ssm_new FifoQueueing max_running max_unique = Some s \<Longrightarrow> fifo_inv s [] []"
  by (cases max_unique)
    (auto simp: ssm_new_def Let_def fifo_inv_defs tasks_ok_def blocked_at_def split: if_splits)

lemma first_task_unblocked:
  assumes "fifo_inv s (t # act) run"
  shows "t \<in> set (run @ unblocked_task_queue s)"
proof -
  have "distinct ([] @ t # act)" "\<forall>u \<in> set ([] @ [t]). wf_task u"
    using assms tasks_okD [of "t # act"] by (auto simp: fifo_inv_def)
  from blocked_at_empty_iff [OF this] have "blocked_at (requests (t # act)) t = {}"
    by simp
  then show ?thesis
    using assms locks_invD(4) [of s "t # act" run] by (simp add: fifo_inv_def)
qed

lemma unblocked_iff:
  assumes "fifo_inv s (pre @ t # post) run"
  shows "t \<in> set (run @ unblocked_task_queue s) \<longleftrightarrow> conflict_free pre t"
proof -
  have "distinct (pre @ t # post)" "\<forall>u \<in> set (pre @ [t]). wf_task u"
    using assms tasks_okD [of "pre @ t # post"] by (auto simp: fifo_inv_def)
  from blocked_at_empty_iff [OF this] show ?thesis
    using assms locks_invD(4) [of s "pre @ t # post" run] by (simp add: fifo_inv_def conflict_free_def)
qed

text \<open>Draining the machine: every iteration takes the first unblocked task out.\<close>

lemma clear_loop_drains:
  assumes "fifo_inv s act []" and "0 < max_running_task_count s" and "unat n + length act < 2 ^ 32"
  shows "\<exists>n' s'. clear_loop n s = Some (n', s') \<and> unat n' = unat n + length act \<and> fifo_inv s' [] []"
  using assms
proof (induction "length act" arbitrary: act s n)
  case 0
  then have "\<not> has_runnable_task s"
    using locks_invD(4) [of s act "[]"] by (simp add: fifo_inv_def has_runnable_task_def has_unblocked_task_def)
  then have "schedule_next_unblocked_task s = Some (None, s)"
    using schedule_next_inv [OF 0(2)] by auto
  then show ?case
    using 0 by (simp add: clear_loop.simps)
next
  case (Suc k)
  then obtain t0 act0 where act: "act = t0 # act0"
    by (cases act) auto
  have "has_runnable_task s"
    using first_task_unblocked [of s t0 act0 "[]"] Suc.prems(1,2)
    by (auto simp: act has_runnable_task_def has_unblocked_task_def is_task_runnable_def fifo_inv_defs
        word_less_nat_alt)
  then obtain t s1 where s1: "schedule_next_unblocked_task s = Some (Some t, s1)" "fifo_inv s1 act [t]"
    "same_limits s s1"
    using schedule_next_inv [OF Suc.prems(1)] by (simp, metis)
  then obtain s2 where s2: "deschedule_task t s1 = Some s2" "fifo_inv s2 (without t act) []" "same_limits s1 s2"
    using deschedule_inv [of s1 act "[t]" t] by auto
  have "t \<in> set act" "distinct act"
    using run_subset_active [of s1 act "[t]"] s1(2) tasks_okD(1) [of act] by (auto simp: fifo_inv_def)
  then have len: "k = length (without t act)"
    using length_without [of act t] Suc.hyps(2) by simp
  obtain n1 where n1: "increment n = Some n1" "unat n1 = unat n + 1"
    using increment_ok [of n] Suc.prems(3) Suc.hyps(2) by auto
  have "max_running_task_count s2 = max_running_task_count s"
    using s1(3) s2(3) by (simp add: same_limits_def)
  then obtain n' s' where "clear_loop n1 s2 = Some (n', s')" "unat n' = unat n1 + k" "fifo_inv s' [] []"
    using Suc.hyps(1) [OF len s2(2), of n1] Suc.prems(2,3) Suc.hyps(2) n1(2) len by auto
  then show ?case
    using s1(1) s2(1) n1 Suc.hyps(2) by (subst clear_loop.simps) simp
qed

text \<open>With tasks at the client the loop ends as well, and leaves those tasks active.\<close>

lemma clear_loop_keeps:
  assumes "fifo_inv s act run" and "unat n + length act < 2 ^ 32"
  shows "\<exists>n' s' act'. clear_loop n s = Some (n', s') \<and> fifo_inv s' act' run \<and>
    (\<not> has_runnable_task s \<longrightarrow> act' = act)"
  using assms
proof (induction "length act" arbitrary: act s n rule: less_induct)
  case less
  show ?case
  proof (cases "has_runnable_task s")
    case False
    then have "schedule_next_unblocked_task s = Some (None, s)"
      using schedule_next_inv [OF less.prems(1)] by auto
    then show ?thesis
      using less.prems(1) by (simp add: clear_loop.simps) blast
  next
    case True
    then obtain t s1 where s1: "schedule_next_unblocked_task s = Some (Some t, s1)" "fifo_inv s1 act (run @ [t])"
      using schedule_next_inv [OF less.prems(1)] by (simp, metis)
    then have locks: "locks_inv s1 act (run @ [t])" and "distinct act"
      using tasks_okD(1) by (auto simp: fifo_inv_def)
    then have "t \<notin> set run" "t \<in> set act"
      using locks_invD(3) [OF locks] run_subset_active [OF locks] by auto
    then have "without t (run @ [t]) = run"
      by (auto simp: filter_id_conv)
    then obtain s2 where s2: "deschedule_task t s1 = Some s2" "fifo_inv s2 (without t act) run"
      using deschedule_inv [OF s1(2), of t] by auto
    have len: "length (without t act) + 1 = length act"
      using length_without [OF \<open>distinct act\<close> \<open>t \<in> set act\<close>] .
    obtain n1 where n1: "increment n = Some n1" "unat n1 = unat n + 1"
      using increment_ok [of n] less.prems(2) len by auto
    obtain n' s' act' where "clear_loop n1 s2 = Some (n', s')" "fifo_inv s' act' run"
      using less.hyps [OF _ s2(2), of n1] less.prems(2) len n1(2) by auto
    then show ?thesis
      using s1(1) s2(1) n1 True by (subst clear_loop.simps) auto
  qed
qed

lemma no_active_task_run: "fifo_inv s [] run \<Longrightarrow> run = [] \<and> unblocked_task_queue s = []"
  using run_subset_active [of s "[]" run] by (simp add: fifo_inv_def)

text \<open>The assertions of \<open>reinitialize\<close> hold exactly when no task is active.\<close>

lemma reinitialize_inv:
  assumes "fifo_inv s act run"
  shows "map_option (\<lambda>s'. fifo_inv s' [] []) (reinitialize s) = (if act = [] then Some True else None)"
proof (cases "act = []")
  case True
  then have "run = []" "unblocked_task_queue s = []"
    using assms no_active_task_run by blast+
  then show ?thesis
    using assms True
    by (auto simp: reinitialize_def has_no_active_task_def fifo_inv_defs unat_eq_zero split: option.splits)
next
  case False
  then have "active_task_count s \<noteq> 0"
    using assms by (auto simp: fifo_inv_def counters_inv_def)
  then show ?thesis
    using False by (simp add: reinitialize_def has_no_active_task_def)
qed

lemma clear_and_reinitialize_inv:
  assumes "fifo_inv s act run"
  shows "map_option (\<lambda>r. fifo_inv (snd r) [] []) (clear_and_reinitialize s) =
    (if run = [] \<and> (act = [] \<or> 0 < max_running_task_count s) then Some True else None)"
proof -
  have small: "unat (0 :: u32) + length act < 2 ^ 32"
    using assms by (simp add: fifo_inv_def counters_inv_def)
  obtain n s' act' where loop: "clear_loop 0 s = Some (n, s')" "fifo_inv s' act' run"
    "\<not> has_runnable_task s \<longrightarrow> act' = act"
    using clear_loop_keeps [OF assms small] by blast
  have "act' = [] \<longleftrightarrow> run = [] \<and> (act = [] \<or> 0 < max_running_task_count s)"
  proof (cases "run = [] \<and> 0 < max_running_task_count s")
    case True
    then have "fifo_inv s' [] []"
      using clear_loop_drains [of s act 0] assms small loop(1) by auto
    then have "unat (active_task_count s') = 0"
      by (simp add: fifo_inv_def counters_inv_def)
    then show ?thesis
      using True loop(2) by (simp add: fifo_inv_def counters_inv_def)
  next
    case False
    show ?thesis
    proof (cases "run = []")
      case True
      then have "\<not> has_runnable_task s"
        using False by (simp add: has_runnable_task_def is_task_runnable_def word_gt_0)
      then show ?thesis
        using True False loop(3) by auto
    next
      case False
      then show ?thesis
        using loop(2) no_active_task_run by blast
    qed
  qed
  then show ?thesis
    using reinitialize_inv [OF loop(2)] loop(1) by (cases "reinitialize s'") (auto simp: clear_and_reinitialize_def)
qed

end
