(* ===== verification/Fifo_Trace.thy ===== *)
theory Fifo_Trace
  imports Fifo_Invariant
begin

section \<open>Executions of the first-in-first-out scheduler\<close>

text \<open>
  What a client of \<open>SchedulingStateMachine\<close> sees. \<open>reachable s act run\<close> holds when \<open>s\<close> is reached
  from a new machine by the calls a client may make: it schedules or buffers tasks with fresh ids,
  asks for the next unblocked task, deschedules tasks that were handed out to it, and starts over with
  \<open>reinitialize\<close> or \<open>clear_and_reinitialize\<close>. \<open>act\<close> lists the tasks that were accepted and are not yet
  descheduled, in order of arrival, and \<open>run\<close> those the client holds.
\<close>

inductive reachable :: "ssm \<Rightarrow> task list \<Rightarrow> task list \<Rightarrow> bool" where
  new: "ssm_new FifoQueueing max_running max_unique = Some s \<Longrightarrow> reachable s [] []"
| schedule: "reachable s act run \<Longrightarrow> task_id t \<notin> task_id ` set act \<Longrightarrow> wf_task t \<Longrightarrow>
    unat (total_task_count s) + 1 < 2 ^ 31 \<Longrightarrow> schedule_task t s = Some (r, s') \<Longrightarrow>
    reachable s' (if is_dropped s t then act else act @ [t]) (run @ (case r of None \<Rightarrow> [] | Some u \<Rightarrow> [u]))"
| buffer: "reachable s act run \<Longrightarrow> task_id t \<notin> task_id ` set act \<Longrightarrow> wf_task t \<Longrightarrow>
    unat (total_task_count s) + 1 < 2 ^ 31 \<Longrightarrow> buffer_task t s = Some s' \<Longrightarrow>
    reachable s' (if is_dropped s t then act else act @ [t]) run"
| run_next: "reachable s act run \<Longrightarrow> schedule_next_unblocked_task s = Some (r, s') \<Longrightarrow>
    reachable s' act (run @ (case r of None \<Rightarrow> [] | Some u \<Rightarrow> [u]))"
| finish: "reachable s act run \<Longrightarrow> t \<in> set run \<Longrightarrow> deschedule_task t s = Some s' \<Longrightarrow>
    reachable s' (without t act) (without t run)"
| restart: "reachable s act run \<Longrightarrow> reinitialize s = Some s' \<Longrightarrow> reachable s' [] []"
| clear: "reachable s act run \<Longrightarrow> clear_and_reinitialize s = Some (n, s') \<Longrightarrow> reachable s' [] []"

lemma buffer_inv:
  assumes "fifo_inv s act run" and "task_id t \<notin> task_id ` set act" and "wf_task t"
    and "unat (total_task_count s) + 1 < 2 ^ 31"
  shows "\<exists>s'. buffer_task t s = Some s' \<and> fifo_inv s' (if is_dropped s t then act else act @ [t]) run"
proof -
  obtain s' where "schedule_or_buffer_task t True s = Some (None, s')"
    "fifo_inv s' (if is_dropped s t then act else act @ [t]) run"
    using schedule_or_buffer_inv [OF assms, of True] by (auto simp: may_run_def split: if_splits)
  then show ?thesis
    by (simp add: buffer_task_def)
qed

lemma reachable_inv: "reachable s act run \<Longrightarrow> fifo_inv s act run"
proof (induction rule: reachable.induct)
  case (new max_running max_unique s)
  then show ?case by (rule new_inv)
next
  case (schedule s act run t r s')
  then show ?case
    using schedule_or_buffer_inv [OF schedule.IH schedule.hyps(2-4), of False]
    by (auto simp: schedule_task_def split: if_splits)
next
  case (buffer s act run t s')
  then show ?case
    using buffer_inv [OF buffer.IH buffer.hyps(2-4)] by auto
next
  case (run_next s act run r s')
  then show ?case
    using schedule_next_inv [OF run_next.IH] by (auto split: if_splits)
next
  case (finish s act run t s')
  then show ?case
    using deschedule_inv [OF finish.IH finish.hyps(2)] by auto
next
  case (restart s act run s')
  then show ?case
    using reinitialize_inv [OF restart.IH] by (auto split: if_splits)
next
  case (clear s act run n s')
  then show ?case
    using clear_and_reinitialize_inv [OF clear.IH] by (auto split: if_splits)
qed

lemma two_members:
  assumes "t \<in> set xs" and "u \<in> set xs" and "t \<noteq> u"
  obtains (before) pre mid rest where "xs = pre @ t # mid @ u # rest"
    | (after) pre mid rest where "xs = pre @ u # mid @ t # rest"
proof -
  obtain pre post where xs: "xs = pre @ t # post"
    using assms(1) by (auto simp: in_set_conv_decomp)
  then consider "u \<in> set pre" | "u \<in> set post"
    using assms(2,3) by auto
  then show ?thesis
  proof cases
    case 1
    then obtain a b where "pre = a @ u # b"
      by (auto simp: in_set_conv_decomp)
    then show ?thesis
      using after xs by simp
  next
    case 2
    then obtain a b where "post = a @ u # b"
      by (auto simp: in_set_conv_decomp)
    then show ?thesis
      using before xs by simp
  qed
qed

subsection \<open>Two conflicting tasks, as an example\<close>

definition example_task :: "u128 \<Rightarrow> task" where
  "example_task i = \<lparr>task_id = i, task_hash = 0, lock_contexts = [(7, Writable)],
     consumed_block_size = 0, sanitized_epoch = 0, alt_invalidation_slot = 0\<rparr>"

lemma example_task_simps [simp]:
  "wf_task (example_task i)" "task_id (example_task i) = i" "task_conflict (example_task i) (example_task j)"
  "example_task i = example_task j \<longleftrightarrow> i = j"
  by (auto simp: example_task_def wf_task_def task_conflict_def)

lemma example_reachable: "\<exists>s. reachable s [example_task 1, example_task 2] [example_task 1]"
proof -
  define s0 where "s0 = the (ssm_new FifoQueueing None None)"
  have new: "ssm_new FifoQueueing None None = Some s0"
    by (simp add: s0_def ssm_new_def)
  then have s0: "reachable s0 [] []"
    by (rule reachable.new)
  have free: "\<not> is_dropped s0 t" "may_run s0 [] t False" "unat (total_task_count s0) = 0"
      "max_unique_active_task_count s0 = None" for t
    using new by (auto simp: ssm_new_def is_dropped_def may_run_def is_task_runnable_def conflict_free_def)
  obtain s1 where s1: "schedule_task (example_task 1) s0 = Some (Some (example_task 1), s1)" "same_limits s0 s1"
      "unat (total_task_count s1) = 1"
    using schedule_or_buffer_inv [OF reachable_inv [OF s0], of "example_task 1" False] free
    by (auto simp: schedule_task_def)
  have r1: "reachable s1 [example_task 1] [example_task 1]"
    using reachable.schedule [OF s0 _ _ _ s1(1)] free by simp
  have free1: "\<not> is_dropped s1 t" "\<not> may_run s1 [example_task 1] (example_task 2) False" for t
    using s1(2) free(4) by (simp_all add: is_dropped_def same_limits_def may_run_def conflict_free_def)
  obtain s2 where s2: "schedule_task (example_task 2) s1 = Some (None, s2)"
    using schedule_or_buffer_inv [OF reachable_inv [OF r1], of "example_task 2" False] free1 s1(3)
    by (auto simp: schedule_task_def)
  have "reachable s2 [example_task 1, example_task 2] [example_task 1]"
    using reachable.schedule [OF r1 _ _ _ s2] free1 s1(3) by simp
  then show ?thesis ..
qed

subsection \<open>What a client can rely on\<close>

text \<open>
  C19. When the operations of the state machine panic, on every state that a client can reach: a fresh
  task can be scheduled or buffered, the next task asked for, and every task handed out
  descheduled, all without a panic, as long as fewer than \<open>2 ^ 31\<close> tasks arrive between restarts.
  \<open>reinitialize\<close> panics exactly when a task is active, and \<open>clear_and_reinitialize\<close> exactly when a
  task is with the client, or tasks are active and the machine may not run any; its loop always
  ends, so that the panic is that of \<open>reinitialize\<close>.
\<close>

theorem fifo_panics_exactly:
  assumes "reachable s act run"
  shows "(task_id t \<notin> task_id ` set act \<and> wf_task t \<and> unat (total_task_count s) + 1 < 2 ^ 31 \<longrightarrow>
      schedule_task t s \<noteq> None \<and> buffer_task t s \<noteq> None) \<and>
    schedule_next_unblocked_task s \<noteq> None \<and>
    (t \<in> set run \<longrightarrow> deschedule_task t s \<noteq> None) \<and>
    (reinitialize s = None \<longleftrightarrow> act \<noteq> []) \<and>
    clear_loop 0 s \<noteq> None \<and>
    (clear_and_reinitialize s = None \<longleftrightarrow> run \<noteq> [] \<or> act \<noteq> [] \<and> max_running_task_count s = 0)"
proof -
  note inv = reachable_inv [OF assms]
  have "schedule_task t s \<noteq> None \<and> buffer_task t s \<noteq> None"
    if "task_id t \<notin> task_id ` set act" "wf_task t" "unat (total_task_count s) + 1 < 2 ^ 31"
    using schedule_or_buffer_inv [OF inv that, of False] buffer_inv [OF inv that] by (auto simp: schedule_task_def)
  moreover have "reinitialize s = None \<longleftrightarrow> act \<noteq> []"
    using reinitialize_inv [OF inv] by (auto split: if_splits)
  moreover have "clear_loop 0 s \<noteq> None"
    using clear_loop_keeps [OF inv, of 0] inv by (auto simp: fifo_inv_def counters_inv_def)
  moreover have "clear_and_reinitialize s = None \<longleftrightarrow> run \<noteq> [] \<or> act \<noteq> [] \<and> max_running_task_count s = 0"
    using clear_and_reinitialize_inv [OF inv] by (auto simp: word_gt_0 split: if_splits)
  ultimately show ?thesis
    using schedule_next_inv [OF inv] deschedule_inv [OF inv, of t] by auto
qed

theorem fifo_panics_exactly_witness:
  "\<exists>s. reachable s [example_task 1, example_task 2] [example_task 1] \<and>
     schedule_next_unblocked_task s \<noteq> None \<and> deschedule_task (example_task 1) s \<noteq> None \<and>
     clear_and_reinitialize s = None"
proof -
  obtain s where s: "reachable s [example_task 1, example_task 2] [example_task 1]"
    using example_reachable ..
  show ?thesis
    using s fifo_panics_exactly [OF s, of "example_task 1"] by auto
qed

text \<open>
  C10. Conflicting tasks run in order of arrival: an active task is with the client or in the
  queue of unblocked tasks exactly when no task that arrived before it and is still active
  conflicts with it.
\<close>

theorem fifo_conflicts_ordered:
  assumes "reachable s (earlier @ t # later) run"
  shows "t \<in> set run \<union> set (unblocked_task_queue s) \<longleftrightarrow> (\<forall>u \<in> set earlier. \<not> task_conflict u t)"
  using unblocked_iff [OF reachable_inv [OF assms]] by (simp add: conflict_free_def)

theorem fifo_conflicts_ordered_witness:
  "\<exists>s. reachable s [example_task 1, example_task 2] [example_task 1] \<and>
     example_task 2 \<notin> set (unblocked_task_queue s)"
proof -
  obtain s where s: "reachable s ([example_task 1] @ example_task 2 # []) [example_task 1]"
    using example_reachable by auto
  show ?thesis
    using s fifo_conflicts_ordered [OF s] by auto
qed

text \<open>
  C24. Tasks that run at the same time never conflict: no address is used by two tasks handed out
  to the client if one of them writes it. No task is handed out twice, and the client never holds
  more tasks than the machine was configured for.
\<close>

theorem fifo_running_isolated:
  assumes "reachable s act run"
  shows "(t \<in> set run \<and> u \<in> set run \<and> t \<noteq> u \<longrightarrow> \<not> task_conflict t u) \<and>
    distinct run \<and> length run \<le> unat (max_running_task_count s)"
proof -
  note inv = reachable_inv [OF assms]
  have locks: "locks_inv s act run"
    using inv by (simp add: fifo_inv_def)
  have earlier: "\<not> task_conflict x y" if "act = pre @ y # post" "x \<in> set pre" "y \<in> set run" for x y pre post
    using unblocked_iff [OF inv [unfolded that(1)]] that(2,3) by (auto simp: conflict_free_def)
  have "\<not> task_conflict t u" if t: "t \<in> set run" and u: "u \<in> set run" and "t \<noteq> u"
  proof -
    have "t \<in> set act" "u \<in> set act"
      using run_subset_active [OF locks] t u by auto
    then consider pre mid rest where "act = pre @ t # mid @ u # rest"
      | pre mid rest where "act = pre @ u # mid @ t # rest"
      using \<open>t \<noteq> u\<close> by (rule two_members)
    then show ?thesis
    proof cases
      case 1
      then show ?thesis
        using earlier [of "pre @ t # mid" u rest t] u by simp
    next
      case 2
      then show ?thesis
        using earlier [of "pre @ u # mid" t rest u] t by (auto simp: task_conflict_def)
    qed
  qed
  then show ?thesis
    using locks_invD(3) [OF locks] inv by (auto simp: fifo_inv_def counters_inv_def)
qed

theorem fifo_running_isolated_witness:
  "\<exists>s. reachable s [example_task 1, example_task 2] [example_task 1] \<and> distinct [example_task 1] \<and>
     1 \<le> unat (max_running_task_count s)"
proof -
  obtain s where s: "reachable s [example_task 1, example_task 2] [example_task 1]"
    using example_reachable ..
  show ?thesis
    using s fifo_running_isolated [OF s] by auto
qed

text \<open>
  C29. The scheduler makes progress: while tasks are active and none is with the client, a machine
  that may run a task hands one out, and draining it by \<open>clear_and_reinitialize\<close> ends, handles
  exactly the active tasks and leaves every usage queue as it was created.
\<close>

theorem fifo_clear_terminates:
  assumes "reachable s act []" and "0 < max_running_task_count s"
  shows "\<exists>n s'. clear_and_reinitialize s = Some (n, s') \<and> unat n = length act \<and>
    has_no_active_task s' \<and> total_task_count s' = 0 \<and>
    usage_queues s' = (\<lambda>_. usage_queue_new FifoQueueing)"
proof -
  note inv = reachable_inv [OF assms(1)]
  have "unat (0 :: u32) + length act < 2 ^ 32"
    using inv by (simp add: fifo_inv_def counters_inv_def)
  then obtain n s1 where loop: "clear_loop 0 s = Some (n, s1)" "unat n = length act" and s1: "fifo_inv s1 [] []"
    using clear_loop_drains [OF inv assms(2), of 0] by auto
  have "active_task_count s1 = 0" "running_task_count s1 = 0" "unblocked_task_queue s1 = []"
    "unique_active_task_hashes s1 = {}" "usage_queues s1 = (\<lambda>_. usage_queue_new FifoQueueing)"
    using s1 by (auto simp: fifo_inv_defs unat_eq_zero split: option.splits)
  then show ?thesis
    using loop by (simp add: clear_and_reinitialize_def reinitialize_def has_no_active_task_def)
qed

lemma example_buffered:
  "\<exists>s. reachable s [example_task 1] [] \<and> 0 < max_running_task_count s \<and> unat (total_task_count s) + 1 < 2 ^ 31"
proof -
  define s0 where "s0 = the (ssm_new FifoQueueing None None)"
  have new: "ssm_new FifoQueueing None None = Some s0"
    by (simp add: s0_def ssm_new_def)
  then have s0: "reachable s0 [] []"
    by (rule reachable.new)
  have free: "\<not> is_dropped s0 t" "unat (total_task_count s0) = 0" "max_running_task_count s0 = - 1" for t
    using new by (auto simp: ssm_new_def is_dropped_def)
  obtain s1 where s1: "buffer_task (example_task 1) s0 = Some s1" "same_limits s0 s1"
      "unat (total_task_count s1) = 1"
    using schedule_or_buffer_inv [OF reachable_inv [OF s0], of "example_task 1" True] free
    by (auto simp: buffer_task_def may_run_def)
  have "reachable s1 [example_task 1] []"
    using reachable.buffer [OF s0 _ _ _ s1(1)] free by simp
  moreover have "max_running_task_count s1 \<noteq> 0"
    using s1(2) free(3) by (simp add: same_limits_def)
  then have "0 < max_running_task_count s1"
    by (simp add: word_neq_0_conv)
  ultimately show ?thesis
    using s1(3) by auto
qed

theorem fifo_clear_terminates_witness:
  "\<exists>s n s'. reachable s [example_task 1] [] \<and> clear_and_reinitialize s = Some (n, s') \<and> unat n = 1"
proof -
  obtain s where s: "reachable s [example_task 1] []" "0 < max_running_task_count s"
    using example_buffered by blast
  show ?thesis
    using s fifo_clear_terminates [OF s] by auto
qed

text \<open>
  The answer of \<open>schedule_task\<close>: a task is dropped exactly when a bound on the number of
  active tasks is configured and reached, or its message is already active; otherwise it becomes
  active, and it is handed out at once exactly when it conflicts with no active task and another
  task may run. A dropped task changes no usage queue.
\<close>

lemma fifo_schedule_answer:
  assumes "reachable s act run" and "task_id t \<notin> task_id ` set act" and "wf_task t"
    and "unat (total_task_count s) + 1 < 2 ^ 31"
  shows "\<exists>r s'. schedule_task t s = Some (r, s') \<and>
    r = (if \<not> is_dropped s t \<and> is_task_runnable s \<and> (\<forall>u \<in> set act. \<not> task_conflict u t) then Some t else None) \<and>
    unat (active_task_count s') = length act + (if is_dropped s t then 0 else 1) \<and>
    (is_dropped s t \<longrightarrow> usage_queues s' = usage_queues s) \<and>
    (is_dropped s t \<longleftrightarrow> (\<exists>m. max_unique_active_task_count s = Some m \<and>
       (length act \<ge> m \<or> task_hash t \<in> task_hash ` set act)))"
proof -
  note inv = reachable_inv [OF assms(1)]
  have drop: "is_dropped s t \<longleftrightarrow> (\<exists>m. max_unique_active_task_count s = Some m \<and>
       (length act \<ge> m \<or> task_hash t \<in> task_hash ` set act))"
    using inv distinct_card [of "map task_hash act"]
    by (auto simp: is_dropped_def fifo_inv_def hashes_inv_def split: option.splits)
  obtain r s' where s': "schedule_task t s = Some (r, s')"
    "if is_dropped s t then r = None \<and> fifo_inv s' act run
     else r = (if may_run s act t False then Some t else None) \<and>
       fifo_inv s' (act @ [t]) (if may_run s act t False then run @ [t] else run)"
    using schedule_or_buffer_inv [OF inv assms(2-4), of False] by (auto simp: schedule_task_def)
  then have "unat (active_task_count s') = length act + (if is_dropped s t then 0 else 1)"
    "is_dropped s t \<longrightarrow> usage_queues s' = usage_queues s"
    "r = (if \<not> is_dropped s t \<and> is_task_runnable s \<and> (\<forall>u \<in> set act. \<not> task_conflict u t) then Some t else None)"
    using inv by (auto simp: fifo_inv_def counters_inv_def locks_inv_def may_run_def conflict_free_def split: if_splits)
  with s'(1) drop show ?thesis
    by blast
qed

end
