(* ===== verification/Vote_Interface.thy ===== *)
theory Vote_Interface
  imports BTree_Map
begin

section \<open>The data of the vote program and the interface crate it uses\<close>

text \<open>
  The vote program (\<open>src/programs/vote\<close>) keeps its data in types of the crate
  \<open>solana-vote-interface\<close>, which is not part of the repository. The fields its code reads and
  writes are the records below; the functions and constants of that crate are the fields of the
  record \<open>vote_interface\<close>, an argument of every definition that calls them. What the proofs
  rely on is the documented behaviour stated in \<open>lockout_laws\<close>.
\<close>

type_synonym unix_timestamp = int

record lockout =
  lo_slot :: slot
  lo_confirmation_count :: u32

record landed_vote =
  lv_latency :: u8
  lv_lockout :: lockout

abbreviation vote_slot :: "landed_vote \<Rightarrow> slot" where
  "vote_slot v \<equiv> lo_slot (lv_lockout v)"

abbreviation vote_confirmation_count :: "landed_vote \<Rightarrow> u32" where
  "vote_confirmation_count v \<equiv> lo_confirmation_count (lv_lockout v)"

record block_timestamp =
  bt_slot :: slot
  bt_timestamp :: unix_timestamp

type_synonym authorized_voters = "(epoch, pubkey) btree_map"
type_synonym bls_pubkey = "u8 list"

record vote_state_v4 =
  v4_node_pubkey :: pubkey
  v4_authorized_withdrawer :: pubkey
  v4_inflation_rewards_collector :: pubkey
  v4_block_revenue_collector :: pubkey
  v4_inflation_rewards_commission_bps :: u16
  v4_block_revenue_commission_bps :: u16
  v4_pending_delegator_rewards :: u64
  v4_bls_pubkey_compressed :: "bls_pubkey option"
  v4_votes :: "landed_vote list"
  v4_root_slot :: "slot option"
  v4_authorized_voters :: authorized_voters
  v4_epoch_credits :: "(epoch \<times> u64 \<times> u64) list"
  v4_last_timestamp :: block_timestamp

text \<open>The older versions, with the fields that the conversion reads.\<close>

record 'v old_vote_state =
  old_node_pubkey :: pubkey
  old_authorized_withdrawer :: pubkey
  old_commission :: u8
  old_votes :: "'v list"
  old_root_slot :: "slot option"
  old_authorized_voters :: authorized_voters
  old_epoch_credits :: "(epoch \<times> u64 \<times> u64) list"
  old_last_timestamp :: block_timestamp

datatype vote_state_versions =
    Uninitialized
  | V1_14_11 "lockout old_vote_state"
  | V3 "landed_vote old_vote_state"
  | V4 vote_state_v4

datatype vote_error =
    VoteTooOld
  | SlotsMismatch
  | SlotHashMismatch
  | EmptySlots
  | TimestampTooOld
  | TooSoonToReauthorize
  | LockoutConflict
  | NewVoteStateLockoutMismatch
  | SlotsNotOrdered
  | ConfirmationsNotOrdered
  | ZeroConfirmations
  | ConfirmationTooLarge
  | RootRollBack
  | ConfirmationRollBack
  | SlotSmallerThanRoot
  | TooManyVotes
  | VotesTooOldAllFiltered
  | RootOnDifferentFork
  | ActiveVoteAccountClose
  | CommissionUpdateTooLate
  | AssertionFailed

record vote_interface =
  max_lockout_history :: nat
  max_epoch_credits_history :: nat
  vote_credits_grace_slots :: u8
  vote_credits_maximum_per_slot :: u8
  lockout_new :: "slot \<Rightarrow> lockout"
  last_locked_out_slot :: "lockout \<Rightarrow> slot"
  is_locked_out_at_slot :: "lockout \<Rightarrow> slot \<Rightarrow> bool"
  increase_confirmation_count :: "u32 \<Rightarrow> lockout \<Rightarrow> lockout"
  landed_vote_from :: "lockout \<Rightarrow> landed_vote"

text \<open>
  The documented behaviour: at most \<open>MAX_LOCKOUT_HISTORY\<close> votes, a count that fits a byte, are
  kept, and at least one epoch of credits; a new lockout has one confirmation; increasing the confirmations keeps the slot and
  saturates; a vote is locked out up to and including its last locked-out slot, which is not
  before its own slot and does not move back as confirmations grow; a landed vote made from a
  lockout has no latency yet.
\<close>

definition lockout_laws :: "vote_interface \<Rightarrow> bool" where
  "lockout_laws vi \<longleftrightarrow>
     0 < max_lockout_history vi \<and> max_lockout_history vi < 2 ^ 8 \<and> 0 < max_epoch_credits_history vi \<and>
     (\<forall>s. lockout_new vi s = \<lparr>lo_slot = s, lo_confirmation_count = 1\<rparr>) \<and>
     (\<forall>n l. increase_confirmation_count vi n l =
        l\<lparr>lo_confirmation_count := saturating_add (lo_confirmation_count l) n\<rparr>) \<and>
     (\<forall>l s. is_locked_out_at_slot vi l s \<longleftrightarrow> s \<le> last_locked_out_slot vi l) \<and>
     (\<forall>l. lo_slot l \<le> last_locked_out_slot vi l) \<and>
     (\<forall>l m. lo_slot l = lo_slot m \<and> lo_confirmation_count l \<le> lo_confirmation_count m \<longrightarrow>
        last_locked_out_slot vi l \<le> last_locked_out_slot vi m) \<and>
     (\<forall>l. landed_vote_from vi l = \<lparr>lv_latency = 0, lv_lockout = l\<rparr>)"

text \<open>
  An instance: lockouts double with every confirmation, up to \<open>2 ^ 31\<close> slots. It is used to show
  that the laws can hold.
\<close>

definition doubling_lockouts :: vote_interface where
  "doubling_lockouts = \<lparr>
     max_lockout_history = 31,
     max_epoch_credits_history = 64,
     vote_credits_grace_slots = 2,
     vote_credits_maximum_per_slot = 16,
     lockout_new = (\<lambda>s. \<lparr>lo_slot = s, lo_confirmation_count = 1\<rparr>),
     last_locked_out_slot = (\<lambda>l. saturating_add (lo_slot l) (2 ^ min (unat (lo_confirmation_count l)) 31)),
     is_locked_out_at_slot =
       (\<lambda>l s. s \<le> saturating_add (lo_slot l) (2 ^ min (unat (lo_confirmation_count l)) 31)),
     increase_confirmation_count =
       (\<lambda>n l. l\<lparr>lo_confirmation_count := saturating_add (lo_confirmation_count l) n\<rparr>),
     landed_vote_from = (\<lambda>l. \<lparr>lv_latency = 0, lv_lockout = l\<rparr>)\<rparr>"

lemma two_power_mono_word:
  assumes "m \<le> n" and "n \<le> 31"
  shows "(2 :: u64) ^ m \<le> 2 ^ n"
proof -
  have unat: "unat ((2 :: u64) ^ k) = 2 ^ k" if "k \<le> 31" for k
  proof -
    have "(2 :: nat) ^ k \<le> 2 ^ 31"
      using that by (intro power_increasing) auto
    moreover have "(2 :: u64) ^ k = of_nat (2 ^ k)"
      by simp
    ultimately show ?thesis
      by (simp only: unat_of_nat) simp
  qed
  show ?thesis
    using assms unat [of m] unat [of n] by (simp add: word_le_nat_alt)
qed

lemma doubling_lockouts_laws: "lockout_laws doubling_lockouts"
proof -
  have "(2 :: u64) ^ min (unat (lo_confirmation_count l)) 31 \<le>
      2 ^ min (unat (lo_confirmation_count m)) 31"
    if "lo_confirmation_count l \<le> lo_confirmation_count m" for l m :: lockout
    using that by (intro two_power_mono_word) (auto simp: word_le_nat_alt)
  then show ?thesis
    by (auto simp: lockout_laws_def doubling_lockouts_def saturating_add_ge intro: saturating_add_mono_right)
qed

text \<open>The laws, as facts about an interface that obeys them.\<close>

lemma lockout_lawsD:
  assumes "lockout_laws vi"
  shows "0 < max_lockout_history vi" "max_lockout_history vi < 2 ^ 8"
    "lockout_new vi s = \<lparr>lo_slot = s, lo_confirmation_count = 1\<rparr>"
    "increase_confirmation_count vi n l =
       l\<lparr>lo_confirmation_count := saturating_add (lo_confirmation_count l) n\<rparr>"
    "is_locked_out_at_slot vi l s \<longleftrightarrow> s \<le> last_locked_out_slot vi l"
    "lo_slot l \<le> last_locked_out_slot vi l"
    "lo_slot l = lo_slot m \<Longrightarrow> lo_confirmation_count l \<le> lo_confirmation_count m \<Longrightarrow>
       last_locked_out_slot vi l \<le> last_locked_out_slot vi m"
    "landed_vote_from vi l = \<lparr>lv_latency = 0, lv_lockout = l\<rparr>"
    "0 < max_epoch_credits_history vi"
  using assms unfolding lockout_laws_def by blast+

end
