(* ===== verification/Slice_Search.thy ===== *)
theory Slice_Search
  imports Prelude
begin

section \<open>Binary search\<close>

text \<open>
  \<open>binary_search_by\<close> of the standard library, for slices and for deques, which vote states use to look up
  a slot. A deque consists of two slices. \<open>Inr\<close> is the index of a match, \<open>Inl\<close> the place to insert one.
  On ordered elements the search finds an element exactly when there is one, however the deque is
  split; otherwise the result can be anything, as the documentation says.
\<close>

datatype cmp_ordering = Less | Equal | Greater

definition word_cmp :: "'a :: linorder \<Rightarrow> 'a \<Rightarrow> cmp_ordering" where
  "word_cmp a b = (if a < b then Less else if a = b then Equal else Greater)"

text \<open>The loop halves the part that starts at \<open>base\<close> and has no early exit.\<close>

function search_base :: "('a \<Rightarrow> cmp_ordering) \<Rightarrow> 'a list \<Rightarrow> nat \<Rightarrow> nat \<Rightarrow> nat" where
  "search_base f xs base len =
     (if 1 < len then
        let half = len div 2; mid = base + half
        in search_base f xs (if f (xs ! mid) = Greater then base else mid) (len - half)
      else base)"
  by pat_completeness auto

termination
  by (relation "measure (\<lambda>(f, xs, base, len). len)") auto

declare search_base.simps [simp del]

definition slice_binary_search_by :: "('a \<Rightarrow> cmp_ordering) \<Rightarrow> 'a list \<Rightarrow> nat + nat" where
  "slice_binary_search_by f xs =
     (if xs = [] then Inl 0
      else let base = search_base f xs 0 (length xs)
           in case f (xs ! base) of Equal \<Rightarrow> Inr base | Less \<Rightarrow> Inl (base + 1) | Greater \<Rightarrow> Inl base)"

definition deque_binary_search_by :: "('a \<Rightarrow> cmp_ordering) \<Rightarrow> 'a list \<Rightarrow> 'a list \<Rightarrow> nat + nat" where
  "deque_binary_search_by f front rear =
     (let cmp_rear = (case rear of [] \<Rightarrow> None | elem # _ \<Rightarrow> Some (f elem)) in
      if cmp_rear = Some Equal then Inr (length front)
      else if cmp_rear = Some Less
      then map_sum (\<lambda>i. i + length front) (\<lambda>i. i + length front) (slice_binary_search_by f rear)
      else slice_binary_search_by f front)"

subsection \<open>The search on ordered elements\<close>

lemma word_cmp_simps [simp]:
  "word_cmp a b = Less \<longleftrightarrow> a < b" "word_cmp a b = Equal \<longleftrightarrow> a = b" "word_cmp a b = Greater \<longleftrightarrow> b < a"
  by (auto simp: word_cmp_def)

lemma search_base_finds:
  assumes "sorted (map key xs)" and "0 < len" and "base + len \<le> length xs"
    and "base \<le> j" and "j < base + len" and "key (xs ! j) = c"
  shows "search_base (\<lambda>x. word_cmp (key x) c) xs base len < length xs \<and>
    key (xs ! search_base (\<lambda>x. word_cmp (key x) c) xs base len) = c"
  using assms(2-)
proof (induction len arbitrary: base j rule: less_induct)
  case (less len)
  have mono: "key (xs ! a) \<le> key (xs ! b)" if "a \<le> b" "b < length xs" for a b
    using sorted_nth_mono [OF assms(1) that(1)] that by simp
  show ?case
  proof (cases "1 < len")
    case False
    then have "j = base"
      using less.prems(1,3,4) by simp
    then have "key (xs ! base) = c" "base < length xs"
      using less.prems by simp_all
    then show ?thesis
      using False by (simp add: search_base.simps [of _ _ base len])
  next
    case True
    define half where "half = len div 2"
    have half: "0 < half" "half < len" "half \<le> len - half"
      using True by (auto simp: half_def)
    have step: "search_base (\<lambda>x. word_cmp (key x) c) xs base len =
        search_base (\<lambda>x. word_cmp (key x) c) xs (if c < key (xs ! (base + half)) then base else base + half) (len - half)"
      using True by (simp add: search_base.simps [of _ _ base len] half_def Let_def)
    consider (left) "c < key (xs ! (base + half))" "j < base + half"
      | (right) "\<not> c < key (xs ! (base + half))" "base + half \<le> j"
      | (here) "\<not> c < key (xs ! (base + half))" "key (xs ! (base + half)) = c"
      using mono [of "base + half" j] mono [of j "base + half"] less.prems half by fastforce
    then show ?thesis
    proof cases
      case left
      then show ?thesis
        unfolding step using less.IH [of "len - half" base j] less.prems half by simp
    next
      case right
      then show ?thesis
        unfolding step using less.IH [of "len - half" "base + half" j] less.prems half by simp
    next
      case here
      then show ?thesis
        unfolding step using less.IH [of "len - half" "base + half" "base + half"] less.prems half by simp
    qed
  qed
qed

lemma search_base_range: "0 < len \<Longrightarrow> base \<le> search_base f xs base len \<and> search_base f xs base len < base + len"
proof (induction f xs base len rule: search_base.induct)
  case (1 f xs base len)
  show ?case
  proof (cases "1 < len")
    case True
    define half base' where "half = len div 2" and "base' = (if f (xs ! (base + half)) = Greater then base else base + half)"
    have half: "0 < half" "half < len" "half \<le> len - half"
      using True by (auto simp: half_def)
    have "search_base f xs base len = search_base f xs base' (len - half)"
      using True by (simp add: search_base.simps [of f xs base len] half_def base'_def Let_def)
    moreover have "base' \<le> search_base f xs base' (len - half) \<and> search_base f xs base' (len - half) < base' + (len - half)"
      using "1.IH" [OF True half_def refl] half by (simp add: base'_def)
    ultimately show ?thesis
      using half by (auto simp: base'_def split: if_splits)
  qed (use "1.prems" in \<open>simp add: search_base.simps [of f xs base len]\<close>)
qed

lemma slice_search_found:
  assumes "sorted (map key xs)"
  shows "\<not> isl (slice_binary_search_by (\<lambda>x. word_cmp (key x) c) xs) \<longleftrightarrow> c \<in> key ` set xs"
proof (cases "xs = []")
  case False
  let ?r = "search_base (\<lambda>x. word_cmp (key x) c) xs 0 (length xs)"
  have "?r < length xs"
    using search_base_range [of "length xs" 0] False by simp
  moreover have "key (xs ! ?r) = c" if c: "c \<in> key ` set xs"
  proof -
    obtain j where "j < length xs" "key (xs ! j) = c"
      using c by (auto simp: in_set_conv_nth)
    then show ?thesis
      using search_base_finds [OF assms, of "length xs" 0 j c] False by simp
  qed
  ultimately have "key (xs ! ?r) = c \<longleftrightarrow> c \<in> key ` set xs"
    by (metis image_eqI nth_mem)
  then show ?thesis
    using False by (auto simp: slice_binary_search_by_def Let_def split: cmp_ordering.splits)
qed (simp add: slice_binary_search_by_def)

lemma deque_search_found:
  assumes "sorted (map key (front @ rear))"
  shows "\<not> isl (deque_binary_search_by (\<lambda>x. word_cmp (key x) c) front rear) \<longleftrightarrow> c \<in> key ` set (front @ rear)"
proof -
  have slices: "sorted (map key front)" "sorted (map key rear)"
    using assms by (simp_all add: sorted_append)
  show ?thesis
  proof (cases rear)
    case Nil
    then show ?thesis
      using slice_search_found [OF slices(1), of c] by (simp add: deque_binary_search_by_def)
  next
    case (Cons x rest)
    have low: "key y \<le> key x" if "y \<in> set front" for y
      using assms that Cons by (auto simp: sorted_append)
    have high: "key x \<le> key y" if "y \<in> set rear" for y
      using slices(2) that Cons by auto
    consider "key x = c" | "key x < c" | "c < key x"
      by fastforce
    then show ?thesis
    proof cases
      case 2
      then have "c \<notin> key ` set front"
        using low by fastforce
      then show ?thesis
        using 2 slice_search_found [OF slices(2), of c] Cons
        by (cases "slice_binary_search_by (\<lambda>x. word_cmp (key x) c) rear") (auto simp: deque_binary_search_by_def)
    next
      case 3
      then have "c \<notin> key ` set rear"
        using high by fastforce
      then show ?thesis
        using 3 slice_search_found [OF slices(1), of c] Cons by (auto simp: deque_binary_search_by_def)
    qed (use Cons in \<open>simp add: deque_binary_search_by_def\<close>)
  qed
qed

end
