(* ===== verification/Vote_Handler.thy ===== *)
theory Vote_Handler
  imports Vote_Interface Slice_Search
begin

section \<open>The vote state handler\<close>

text \<open>
  The operations of \<open>VoteStateHandler\<close> (\<open>src/programs/vote/src/vote_state/handler.rs\<close>) on a vote
  state. The handler wraps the single target version \<open>V4\<close>, so a handler is a \<open>vote_state_v4\<close>.
  The deque of votes is a list with its back at the end. \<open>None\<close> is a panic, \<open>Inl\<close> an error.
\<close>

datatype vote_state_target_version = TargetV4

definition authorized_withdrawer :: "vote_state_v4 \<Rightarrow> pubkey" where
  "authorized_withdrawer self = v4_authorized_withdrawer self"

definition set_authorized_withdrawer :: "pubkey \<Rightarrow> vote_state_v4 \<Rightarrow> vote_state_v4" where
  "set_authorized_withdrawer key self = self\<lparr>v4_authorized_withdrawer := key\<rparr>"

definition commission :: "vote_state_v4 \<Rightarrow> u8" where
  "commission self = ucast (min (v4_inflation_rewards_commission_bps self div 100) 255)"

definition set_commission :: "u8 \<Rightarrow> vote_state_v4 \<Rightarrow> vote_state_v4" where
  "set_commission c self = self\<lparr>v4_inflation_rewards_commission_bps := ucast c * 100\<rparr>"

definition set_inflation_rewards_commission_bps :: "u16 \<Rightarrow> vote_state_v4 \<Rightarrow> vote_state_v4" where
  "set_inflation_rewards_commission_bps bps self = self\<lparr>v4_inflation_rewards_commission_bps := bps\<rparr>"

definition set_block_revenue_commission_bps :: "u16 \<Rightarrow> vote_state_v4 \<Rightarrow> vote_state_v4" where
  "set_block_revenue_commission_bps bps self = self\<lparr>v4_block_revenue_commission_bps := bps\<rparr>"

definition set_node_pubkey :: "pubkey \<Rightarrow> vote_state_v4 \<Rightarrow> vote_state_v4" where
  "set_node_pubkey key self = self\<lparr>v4_node_pubkey := key\<rparr>"

definition set_inflation_rewards_collector :: "pubkey \<Rightarrow> vote_state_v4 \<Rightarrow> vote_state_v4" where
  "set_inflation_rewards_collector key self = self\<lparr>v4_inflation_rewards_collector := key\<rparr>"

definition set_block_revenue_collector :: "pubkey \<Rightarrow> vote_state_v4 \<Rightarrow> vote_state_v4" where
  "set_block_revenue_collector key self = self\<lparr>v4_block_revenue_collector := key\<rparr>"

definition pending_delegator_rewards :: "vote_state_v4 \<Rightarrow> u64" where
  "pending_delegator_rewards self = v4_pending_delegator_rewards self"

text \<open>\<open>None\<close> is the error \<open>ArithmeticOverflow\<close>.\<close>

definition add_pending_delegator_rewards :: "u64 \<Rightarrow> vote_state_v4 \<Rightarrow> vote_state_v4 option" where
  "add_pending_delegator_rewards amount self =
     map_option (\<lambda>r. self\<lparr>v4_pending_delegator_rewards := r\<rparr>)
       (checked_add (v4_pending_delegator_rewards self) amount)"

definition votes :: "vote_state_v4 \<Rightarrow> landed_vote list" where
  "votes self = v4_votes self"

definition set_votes :: "landed_vote list \<Rightarrow> vote_state_v4 \<Rightarrow> vote_state_v4" where
  "set_votes vs self = self\<lparr>v4_votes := vs\<rparr>"

text \<open>
  The binary search over the votes. The deque is searched as if it lay in one slice; for ordered votes
  the answer is the same wherever it is split (\<open>contains_slot_layout\<close>).
\<close>

definition contains_slot :: "vote_state_v4 \<Rightarrow> slot \<Rightarrow> bool" where
  "contains_slot self candidate_slot \<longleftrightarrow>
     \<not> isl (deque_binary_search_by (\<lambda>vote. word_cmp (vote_slot vote) candidate_slot) (v4_votes self) [])"

definition last_lockout :: "vote_state_v4 \<Rightarrow> lockout option" where
  "last_lockout self = (if v4_votes self = [] then None else Some (lv_lockout (last (v4_votes self))))"

definition last_voted_slot :: "vote_state_v4 \<Rightarrow> slot option" where
  "last_voted_slot self = map_option lo_slot (last_lockout self)"

definition root_slot :: "vote_state_v4 \<Rightarrow> slot option" where
  "root_slot self = v4_root_slot self"

definition set_root_slot :: "slot option \<Rightarrow> vote_state_v4 \<Rightarrow> vote_state_v4" where
  "set_root_slot r self = self\<lparr>v4_root_slot := r\<rparr>"

definition current_epoch :: "vote_state_v4 \<Rightarrow> epoch" where
  "current_epoch self = (if v4_epoch_credits self = [] then 0 else fst (last (v4_epoch_credits self)))"

definition has_bls_pubkey :: "vote_state_v4 \<Rightarrow> bool" where
  "has_bls_pubkey self \<longleftrightarrow> v4_bls_pubkey_compressed self \<noteq> None"

subsection \<open>Credits\<close>

definition credits_for_vote_at_index :: "vote_interface \<Rightarrow> vote_state_v4 \<Rightarrow> nat \<Rightarrow> u64" where
  "credits_for_vote_at_index vi self index =
     (let latency = (if index < length (votes self) then lv_latency (votes self ! index) else 0) in
      if latency = 0 then 1
      else case checked_sub latency (vote_credits_grace_slots vi) of
        None \<Rightarrow> ucast (vote_credits_maximum_per_slot vi)
      | Some diff \<Rightarrow>
          if diff = 0 then ucast (vote_credits_maximum_per_slot vi)
          else case checked_sub (vote_credits_maximum_per_slot vi) diff of
            None \<Rightarrow> 1
          | Some credits \<Rightarrow> if credits = 0 then 1 else ucast credits)"

text \<open>The entry for the epoch, appended or moved, and the oldest entry dropped.\<close>

definition enter_epoch :: "vote_interface \<Rightarrow> epoch \<Rightarrow> (epoch \<times> u64 \<times> u64) list \<Rightarrow> (epoch \<times> u64 \<times> u64) list" where
  "enter_epoch vi epoch entries =
     (if entries = [] then [(epoch, 0, 0)]
      else case last entries of (e, credits, prev_credits) \<Rightarrow>
        if epoch \<noteq> e then
          (let entries' = (if credits \<noteq> prev_credits then entries @ [(epoch, credits, credits)]
                           else butlast entries @ [(epoch, credits, prev_credits)]) in
           if length entries' > max_epoch_credits_history vi then tl entries' else entries')
        else entries)"

definition increment_credits :: "vote_interface \<Rightarrow> epoch \<Rightarrow> u64 \<Rightarrow> vote_state_v4 \<Rightarrow> vote_state_v4 option" where
  "increment_credits vi epoch credits self =
     (let entries = enter_epoch vi epoch (v4_epoch_credits self) in
      if entries = [] then None
      else case last entries of (e, c, p) \<Rightarrow>
        Some (self\<lparr>v4_epoch_credits := butlast entries @ [(e, saturating_add c credits, p)]\<rparr>))"

subsection \<open>Timestamps\<close>

definition process_timestamp :: "slot \<Rightarrow> unix_timestamp \<Rightarrow> vote_state_v4 \<Rightarrow> vote_error + vote_state_v4" where
  "process_timestamp slot timestamp self =
     (let last_timestamp = v4_last_timestamp self in
      if (slot < bt_slot last_timestamp \<or> timestamp < bt_timestamp last_timestamp) \<or>
         (slot = bt_slot last_timestamp \<and>
          \<lparr>bt_slot = slot, bt_timestamp = timestamp\<rparr> \<noteq> last_timestamp \<and> bt_slot last_timestamp \<noteq> 0)
      then Inl TimestampTooOld
      else Inr (self\<lparr>v4_last_timestamp := \<lparr>bt_slot = slot, bt_timestamp = timestamp\<rparr>\<rparr>))"

subsection \<open>Voting on the next slot\<close>

definition compute_vote_latency :: "slot \<Rightarrow> slot \<Rightarrow> u8" where
  "compute_vote_latency voted_for_slot current_slot = ucast (min (saturating_sub current_slot voted_for_slot) 255)"

definition pop_expired_votes :: "vote_interface \<Rightarrow> slot \<Rightarrow> vote_state_v4 \<Rightarrow> vote_state_v4" where
  "pop_expired_votes vi next_vote_slot self =
     self\<lparr>v4_votes := rev (dropWhile (\<lambda>v. \<not> is_locked_out_at_slot vi (lv_lockout v) next_vote_slot)
       (rev (v4_votes self)))\<rparr>"

definition double_lockouts :: "vote_interface \<Rightarrow> vote_state_v4 \<Rightarrow> vote_state_v4" where
  "double_lockouts vi self =
     (let stack_depth = length (v4_votes self) in
      self\<lparr>v4_votes := map (\<lambda>(i, v).
        if stack_depth > i + unat (vote_confirmation_count v)
        then v\<lparr>lv_lockout := increase_confirmation_count vi 1 (lv_lockout v)\<rparr> else v)
        (enumerate 0 (v4_votes self))\<rparr>)"

definition root_oldest_vote :: "vote_interface \<Rightarrow> epoch \<Rightarrow> vote_state_v4 \<Rightarrow> vote_state_v4 option" where
  "root_oldest_vote vi epoch self =
     (if length (v4_votes self) = max_lockout_history vi then
        (let credits = credits_for_vote_at_index vi self 0 in
         case v4_votes self of
           [] \<Rightarrow> None
         | landed_vote # rest \<Rightarrow>
             increment_credits vi epoch credits
               (set_root_slot (Some (vote_slot landed_vote)) (self\<lparr>v4_votes := rest\<rparr>)))
      else Some self)"

definition process_next_vote_slot ::
  "vote_interface \<Rightarrow> slot \<Rightarrow> epoch \<Rightarrow> slot \<Rightarrow> vote_state_v4 \<Rightarrow> vote_state_v4 option" where
  "process_next_vote_slot vi next_vote_slot epoch current_slot self =
     (if (case last_voted_slot self of None \<Rightarrow> False | Some last_voted \<Rightarrow> next_vote_slot \<le> last_voted)
      then Some self
      else
        let self = pop_expired_votes vi next_vote_slot self;
            landed_vote = \<lparr>lv_latency = compute_vote_latency next_vote_slot current_slot,
                           lv_lockout = lockout_new vi next_vote_slot\<rparr> in
        map_option (\<lambda>self. double_lockouts vi (self\<lparr>v4_votes := v4_votes self @ [landed_vote]\<rparr>))
          (root_oldest_vote vi epoch self))"

subsection \<open>Conversion of older versions\<close>

definition landed_votes_from_lockouts :: "vote_interface \<Rightarrow> lockout list \<Rightarrow> landed_vote list" where
  "landed_votes_from_lockouts vi lockouts = map (landed_vote_from vi) lockouts"

definition upgrade_vote_state :: "pubkey \<Rightarrow> landed_vote list \<Rightarrow> 'v old_vote_state \<Rightarrow> vote_state_v4" where
  "upgrade_vote_state vote_pubkey vs state = \<lparr>
     v4_node_pubkey = old_node_pubkey state,
     v4_authorized_withdrawer = old_authorized_withdrawer state,
     v4_inflation_rewards_collector = vote_pubkey,
     v4_block_revenue_collector = old_node_pubkey state,
     v4_inflation_rewards_commission_bps = saturating_mul (ucast (old_commission state)) 100,
     v4_block_revenue_commission_bps = 10000,
     v4_pending_delegator_rewards = 0,
     v4_bls_pubkey_compressed = None,
     v4_votes = vs,
     v4_root_slot = old_root_slot state,
     v4_authorized_voters = old_authorized_voters state,
     v4_epoch_credits = old_epoch_credits state,
     v4_last_timestamp = old_last_timestamp state\<rparr>"

text \<open>\<open>None\<close> is the error \<open>UninitializedAccount\<close>.\<close>

fun try_convert_to_vote_state_v4 ::
  "vote_interface \<Rightarrow> vote_state_versions \<Rightarrow> pubkey \<Rightarrow> vote_state_v4 option" where
  "try_convert_to_vote_state_v4 vi Uninitialized vote_pubkey = None"
| "try_convert_to_vote_state_v4 vi (V1_14_11 state) vote_pubkey =
     Some (upgrade_vote_state vote_pubkey (landed_votes_from_lockouts vi (old_votes state)) state)"
| "try_convert_to_vote_state_v4 vi (V3 state) vote_pubkey =
     Some (upgrade_vote_state vote_pubkey (old_votes state) state)"
| "try_convert_to_vote_state_v4 vi (V4 state) vote_pubkey = Some state"

text \<open>A state with two votes above its root, as an example.\<close>

definition example_votes :: vote_state_v4 where
  "example_votes = \<lparr>v4_node_pubkey = 1, v4_authorized_withdrawer = 2, v4_inflation_rewards_collector = 3,
     v4_block_revenue_collector = 1, v4_inflation_rewards_commission_bps = 500,
     v4_block_revenue_commission_bps = 10000, v4_pending_delegator_rewards = 0, v4_bls_pubkey_compressed = None,
     v4_votes = [\<lparr>lv_latency = 1, lv_lockout = \<lparr>lo_slot = 4, lo_confirmation_count = 2\<rparr>\<rparr>,
                 \<lparr>lv_latency = 1, lv_lockout = \<lparr>lo_slot = 5, lo_confirmation_count = 1\<rparr>\<rparr>],
     v4_root_slot = Some 3, v4_authorized_voters = [(0, 7)], v4_epoch_credits = [(0, 5, 0)],
     v4_last_timestamp = \<lparr>bt_slot = 5, bt_timestamp = 1700000000\<rparr>\<rparr>"

end
