(* ===== verification/Vote_Tower.thy ===== *)
theory Vote_Tower
  imports Vote_Handler
begin

section \<open>The tower of a validator\<close>

text \<open>
  \<open>TowerVoteState\<close> of \<open>src/core/src/consensus/tower_vote_state.rs\<close> is the copy of the tower that a
  validator keeps for itself: the lockouts and the root, without latencies, credits and the rest
  of the on-chain state. The lemmas show the invariant of a tower grown by voting, and that the
  handler of the vote program and the local tower agree on it.
\<close>

record tower_vote_state =
  tower_votes :: "lockout list"
  tower_root_slot :: "slot option"

definition tower :: "tower_vote_state \<Rightarrow> slot list" where
  "tower self = map lo_slot (tower_votes self)"

definition tower_last_lockout :: "tower_vote_state \<Rightarrow> lockout option" where
  "tower_last_lockout self = (if tower_votes self = [] then None else Some (last (tower_votes self)))"

definition tower_last_voted_slot :: "tower_vote_state \<Rightarrow> slot option" where
  "tower_last_voted_slot self = map_option lo_slot (tower_last_lockout self)"

definition nth_recent_lockout :: "tower_vote_state \<Rightarrow> nat \<Rightarrow> lockout option" where
  "nth_recent_lockout self position =
     (if position + 1 \<le> length (tower_votes self)
      then Some (tower_votes self ! (length (tower_votes self) - (position + 1))) else None)"

definition tower_pop_expired_votes :: "vote_interface \<Rightarrow> slot \<Rightarrow> lockout list \<Rightarrow> lockout list" where
  "tower_pop_expired_votes vi next_vote_slot ls =
     rev (dropWhile (\<lambda>l. \<not> is_locked_out_at_slot vi l next_vote_slot) (rev ls))"

definition tower_double_lockouts :: "vote_interface \<Rightarrow> lockout list \<Rightarrow> lockout list" where
  "tower_double_lockouts vi ls =
     (let stack_depth = length ls in
      map (\<lambda>(i, v). if stack_depth > i + unat (lo_confirmation_count v)
        then increase_confirmation_count vi 1 v else v) (enumerate 0 ls))"

definition tower_process_next_vote_slot ::
  "vote_interface \<Rightarrow> slot \<Rightarrow> tower_vote_state \<Rightarrow> tower_vote_state option" where
  "tower_process_next_vote_slot vi next_vote_slot self =
     (if (case tower_last_voted_slot self of None \<Rightarrow> False | Some last_voted \<Rightarrow> next_vote_slot \<le> last_voted)
      then Some self
      else
        let self = self\<lparr>tower_votes := tower_pop_expired_votes vi next_vote_slot (tower_votes self)\<rparr> in
        map_option (\<lambda>self. self\<lparr>tower_votes :=
            tower_double_lockouts vi (tower_votes self @ [lockout_new vi next_vote_slot])\<rparr>)
          (if length (tower_votes self) = max_lockout_history vi then
             (case tower_votes self of
                [] \<Rightarrow> None
              | rooted_vote # rest \<Rightarrow> Some \<lparr>tower_votes = rest, tower_root_slot = Some (lo_slot rooted_vote)\<rparr>)
           else Some self))"

text \<open>\<open>From\<close> for the versions of a vote state.\<close>

definition tower_from_v4 :: "vote_state_v4 \<Rightarrow> tower_vote_state" where
  "tower_from_v4 state = \<lparr>tower_votes = map lv_lockout (v4_votes state), tower_root_slot = v4_root_slot state\<rparr>"

definition tower_from_v3 :: "landed_vote old_vote_state \<Rightarrow> tower_vote_state" where
  "tower_from_v3 state = \<lparr>tower_votes = map lv_lockout (old_votes state), tower_root_slot = old_root_slot state\<rparr>"

definition tower_from_v1_14_11 :: "lockout old_vote_state \<Rightarrow> tower_vote_state" where
  "tower_from_v1_14_11 state = \<lparr>tower_votes = old_votes state, tower_root_slot = old_root_slot state\<rparr>"

subsection \<open>The shape of a tower\<close>

text \<open>
  Slots grow strictly, confirmations shrink strictly and are at least one and at most the limit,
  every vote has been confirmed by those above it, and every vote was still locked out when the
  one above it was cast.
\<close>

definition tower_ordered :: "vote_interface \<Rightarrow> lockout list \<Rightarrow> bool" where
  "tower_ordered vi ls \<longleftrightarrow>
     length ls \<le> max_lockout_history vi \<and>
     (\<forall>i < length ls. 0 < lo_confirmation_count (ls ! i) \<and>
        unat (lo_confirmation_count (ls ! i)) \<le> max_lockout_history vi) \<and>
     (\<forall>i. Suc i < length ls \<longrightarrow>
        lo_slot (ls ! i) < lo_slot (ls ! Suc i) \<and>
        lo_confirmation_count (ls ! Suc i) < lo_confirmation_count (ls ! i) \<and>
        lo_slot (ls ! Suc i) \<le> last_locked_out_slot vi (ls ! i))"

definition tower_deep :: "lockout list \<Rightarrow> bool" where
  "tower_deep ls \<longleftrightarrow> (\<forall>i < length ls. length ls \<le> i + unat (lo_confirmation_count (ls ! i)))"

lemma tower_ordered_take: "tower_ordered vi ls \<Longrightarrow> tower_ordered vi (take n ls)"
  by (auto simp: tower_ordered_def)

lemma tower_deep_take: "tower_deep ls \<Longrightarrow> tower_deep (take n ls)"
  by (fastforce simp: tower_deep_def)

lemma tower_ordered_tl:
  assumes "tower_ordered vi (l # ls)"
  shows "tower_ordered vi ls"
  using assms by (fastforce simp: tower_ordered_def)

lemma tower_deep_tl: "tower_deep (l # ls) \<Longrightarrow> tower_deep ls"
  by (fastforce simp: tower_deep_def)

lemma tower_slots_sorted:
  assumes "tower_ordered vi ls"
  shows "sorted_wrt (<) (map lo_slot ls)"
proof -
  have "sorted_wrt (\<lambda>x y. x < y) (map lo_slot ls) \<longleftrightarrow>
      (\<forall>i. Suc i < length (map lo_slot ls) \<longrightarrow> map lo_slot ls ! i < map lo_slot ls ! Suc i)"
    by (intro sorted_wrt_iff_nth_Suc_transp) (simp add: transp_def)
  then show ?thesis
    using assms by (auto simp: tower_ordered_def)
qed

lemma tower_confirmations_sorted:
  assumes "tower_ordered vi ls"
  shows "sorted_wrt (>) (map lo_confirmation_count ls)"
proof -
  have "sorted_wrt (\<lambda>x y. x > y) (map lo_confirmation_count ls) \<longleftrightarrow>
      (\<forall>i. Suc i < length (map lo_confirmation_count ls) \<longrightarrow>
         map lo_confirmation_count ls ! i > map lo_confirmation_count ls ! Suc i)"
    by (intro sorted_wrt_iff_nth_Suc_transp) (auto simp: transp_def)
  then show ?thesis
    using assms by (auto simp: tower_ordered_def)
qed

text \<open>Popping keeps a prefix.\<close>

lemma pop_is_take:
  "\<exists>n. rev (dropWhile P (rev xs)) = take n xs"
  by (metis drop_rev dropWhile_eq_drop rev_rev_ident)

lemma pop_split:
  assumes "rev (dropWhile P (rev xs)) = ys"
  obtains zs where "xs = ys @ zs" and "\<forall>z \<in> set zs. P z" and "ys \<noteq> [] \<longrightarrow> \<not> P (last ys)"
proof
  show "xs = ys @ rev (takeWhile P (rev xs))"
    using assms by (metis rev_append rev_rev_ident takeWhile_dropWhile_id)
  show "\<forall>z \<in> set (rev (takeWhile P (rev xs))). P z"
    by (auto dest: set_takeWhileD)
  show "ys \<noteq> [] \<longrightarrow> \<not> P (last ys)"
  proof
    assume "ys \<noteq> []"
    define ws where "ws = dropWhile P (rev xs)"
    have ys: "ys = rev ws"
      using assms by (simp add: ws_def)
    then have "\<not> P (hd ws)"
      using \<open>ys \<noteq> []\<close> hd_dropWhile [of P "rev xs"] unfolding ws_def [symmetric] by simp
    then show "\<not> P (last ys)"
      using \<open>ys \<noteq> []\<close> by (simp add: ys last_rev)
  qed
qed

subsection \<open>Voting keeps the shape\<close>

lemma length_double [simp]: "length (tower_double_lockouts vi ls) = length ls"
  by (simp add: tower_double_lockouts_def)

lemma double_nth:
  assumes "i < length ls"
  shows "tower_double_lockouts vi ls ! i =
    (if length ls > i + unat (lo_confirmation_count (ls ! i)) then increase_confirmation_count vi 1 (ls ! i) else ls ! i)"
  using assms by (simp add: tower_double_lockouts_def Let_def nth_enumerate_eq)

lemma increase_one:
  assumes "lockout_laws vi" and "unat (lo_confirmation_count l) < max_lockout_history vi"
  shows "lo_slot (increase_confirmation_count vi 1 l) = lo_slot l"
    and "unat (lo_confirmation_count (increase_confirmation_count vi 1 l)) = unat (lo_confirmation_count l) + 1"
proof -
  have "unat (lo_confirmation_count l) + 1 < 2 ^ 32"
    using assms(2) lockout_lawsD(2) [OF assms(1)] by simp
  then show "unat (lo_confirmation_count (increase_confirmation_count vi 1 l)) = unat (lo_confirmation_count l) + 1"
    by (simp add: lockout_lawsD(4) [OF assms(1)] unat_saturating_add)
qed (simp add: lockout_lawsD(4) [OF assms(1)])

text \<open>A new vote on top of a tower that is not full and whose last vote is still locked out.\<close>

lemma push_vote:
  assumes laws: "lockout_laws vi" and ord: "tower_ordered vi ls" and deep: "tower_deep ls"
    and len: "length ls < max_lockout_history vi"
    and top: "ls \<noteq> [] \<Longrightarrow> lo_slot (last ls) < s \<and> s \<le> last_locked_out_slot vi (last ls)"
  defines "ls' \<equiv> tower_double_lockouts vi (ls @ [lockout_new vi s])"
  shows "tower_ordered vi ls'" and "tower_deep ls'"
    and "\<And>i. i < length ls \<Longrightarrow> lo_slot (ls' ! i) = lo_slot (ls ! i) \<and>
      lo_confirmation_count (ls ! i) \<le> lo_confirmation_count (ls' ! i)"
    and "ls' ! length ls = \<lparr>lo_slot = s, lo_confirmation_count = 1\<rparr>"
proof -
  let ?n = "length ls" and ?c = "\<lambda>i. unat (lo_confirmation_count (ls ! i))"
  have len': "length ls' = Suc ?n"
    by (simp add: ls'_def)
  have new: "ls' ! ?n = \<lparr>lo_slot = s, lo_confirmation_count = 1\<rparr>"
    by (simp add: ls'_def double_nth lockout_lawsD(3) [OF laws])
  have old: "lo_slot (ls' ! i) = lo_slot (ls ! i)"
    "unat (lo_confirmation_count (ls' ! i)) = (if Suc ?n > i + ?c i then ?c i + 1 else ?c i)" if "i < ?n" for i
  proof -
    have "Suc ?n > i + ?c i \<Longrightarrow> ?c i < max_lockout_history vi"
      using len by simp
    then show "lo_slot (ls' ! i) = lo_slot (ls ! i)"
      "unat (lo_confirmation_count (ls' ! i)) = (if Suc ?n > i + ?c i then ?c i + 1 else ?c i)"
      using that increase_one [OF laws, of "ls ! i"] by (simp_all add: ls'_def double_nth nth_append)
  qed
  have bound: "0 < ?c i" "?c i \<le> max_lockout_history vi" "?n \<le> i + ?c i" if "i < ?n" for i
    using ord deep that by (auto simp: tower_ordered_def tower_deep_def unat_gt_0)
  show grow: "lo_slot (ls' ! i) = lo_slot (ls ! i) \<and> lo_confirmation_count (ls ! i) \<le> lo_confirmation_count (ls' ! i)"
    if "i < ?n" for i
    using old [OF that] by (simp add: word_le_nat_alt)
  have dec: "?c (Suc i) < ?c i" if "Suc i < ?n" for i
    using ord that by (simp add: tower_ordered_def word_less_nat_alt)
  have locked: "lo_slot (ls ! Suc i) \<le> last_locked_out_slot vi (ls ! i)" if "Suc i < ?n" for i
    using ord that by (simp add: tower_ordered_def)
  have top': "lo_slot (ls ! i) < s" "s \<le> last_locked_out_slot vi (ls ! i)" if "Suc i = ?n" for i
  proof -
    have ne: "ls \<noteq> []"
      using that by auto
    moreover have "last ls = ls ! i"
      using last_conv_nth [OF ne] by (simp flip: that)
    ultimately show "lo_slot (ls ! i) < s" "s \<le> last_locked_out_slot vi (ls ! i)"
      using top by simp_all
  qed
  have lock: "last_locked_out_slot vi (ls ! i) \<le> last_locked_out_slot vi (ls' ! i)" if "i < ?n" for i
    using grow [OF that] lockout_lawsD(7) [OF laws, of "ls ! i" "ls' ! i"] by simp
  show "tower_deep ls'"
    unfolding tower_deep_def len'
  proof (intro allI impI)
    fix i
    assume "i < Suc ?n"
    then show "Suc ?n \<le> i + unat (lo_confirmation_count (ls' ! i))"
      using old(2) [of i] bound(3) [of i] new by (cases "i = ?n") auto
  qed
  show "tower_ordered vi ls'"
    unfolding tower_ordered_def len'
  proof (intro conjI allI impI)
    show "Suc ?n \<le> max_lockout_history vi"
      using len by simp
    fix i
    show "0 < lo_confirmation_count (ls' ! i)" if "i < Suc ?n"
      using that old(2) [of i] bound [of i] new by (cases "i = ?n") (auto simp: word_less_nat_alt)
    show "unat (lo_confirmation_count (ls' ! i)) \<le> max_lockout_history vi" if "i < Suc ?n"
      using that old(2) [of i] bound [of i] new len by (cases "i = ?n") auto
    assume i: "Suc i < Suc ?n"
    show "lo_slot (ls' ! i) < lo_slot (ls' ! Suc i)"
      using i old(1) [of i] old(1) [of "Suc i"] new top'(1) [of i] ord
      by (cases "Suc i = ?n") (auto simp: tower_ordered_def)
    show "lo_confirmation_count (ls' ! Suc i) < lo_confirmation_count (ls' ! i)"
      using i old(2) [of i] old(2) [of "Suc i"] new bound [of i] dec [of i]
      by (cases "Suc i = ?n") (auto simp: word_less_nat_alt)
    show "lo_slot (ls' ! Suc i) \<le> last_locked_out_slot vi (ls' ! i)"
      using i old(1) [of "Suc i"] new top'(2) [of i] locked [of i] lock [of i]
      by (cases "Suc i = ?n") auto
  qed
  show "ls' ! ?n = \<lparr>lo_slot = s, lo_confirmation_count = 1\<rparr>"
    by (fact new)
qed

definition tower_inv :: "vote_interface \<Rightarrow> tower_vote_state \<Rightarrow> bool" where
  "tower_inv vi t \<longleftrightarrow> tower_ordered vi (tower_votes t) \<and> tower_deep (tower_votes t) \<and>
     (\<forall>r. tower_root_slot t = Some r \<longrightarrow> (\<forall>l \<in> set (tower_votes t). r < lo_slot l))"

lemma tower_inv_empty: "lockout_laws vi \<Longrightarrow> tower_inv vi \<lparr>tower_votes = [], tower_root_slot = r\<rparr>"
  by (simp add: tower_inv_def tower_ordered_def tower_deep_def)

lemma kept_votes:
  assumes inv: "tower_inv vi t" and split: "tower_votes t = kept @ expired"
    and new: "\<forall>l \<in> set (tower_votes t). lo_slot l < s"
    and top: "kept \<noteq> [] \<longrightarrow> s \<le> last_locked_out_slot vi (last kept)"
    and base: "base = kept \<and> length kept \<noteq> max_lockout_history vi \<or>
      (\<exists>r. kept = r # base \<and> length kept = max_lockout_history vi)"
  shows "tower_ordered vi base" "tower_deep base" "length base < max_lockout_history vi"
    "base \<noteq> [] \<Longrightarrow> lo_slot (last base) < s \<and> s \<le> last_locked_out_slot vi (last base)"
    "set base \<subseteq> set kept" "tower_ordered vi kept"
proof -
  have kept: "tower_ordered vi kept" "tower_deep kept"
    using inv tower_ordered_take [of vi "tower_votes t" "length kept"] tower_deep_take [of "tower_votes t" "length kept"]
    by (simp_all add: tower_inv_def split)
  have facts: "tower_ordered vi base \<and> tower_deep base \<and> length base < max_lockout_history vi \<and>
      (base \<noteq> [] \<longrightarrow> last base = last kept) \<and> set base \<subseteq> set kept"
    using base
  proof
    assume "base = kept \<and> length kept \<noteq> max_lockout_history vi"
    then show ?thesis
      using kept by (auto simp: tower_ordered_def)
  next
    assume "\<exists>r. kept = r # base \<and> length kept = max_lockout_history vi"
    then obtain r where r: "kept = r # base" "length kept = max_lockout_history vi"
      by blast
    then show ?thesis
      using kept tower_ordered_tl [of vi r base] tower_deep_tl [of r base] by auto
  qed
  then show "tower_ordered vi base" "tower_deep base" "length base < max_lockout_history vi" "set base \<subseteq> set kept"
    by blast+
  show "lo_slot (last base) < s \<and> s \<le> last_locked_out_slot vi (last base)" if "base \<noteq> []"
  proof -
    have "last base \<in> set (tower_votes t)" "last base = last kept" "kept \<noteq> []"
      using facts that last_in_set [OF that] unfolding split by auto
    then show ?thesis
      using new top by simp
  qed
  show "tower_ordered vi kept"
    by (fact kept(1))
qed

text \<open>What a new vote does to the tower.\<close>

lemma tower_next_vote:
  assumes laws: "lockout_laws vi" and inv: "tower_inv vi t"
    and new: "\<forall>l \<in> set (tower_votes t). lo_slot l < s"
  obtains kept expired base t' where
    "tower_process_next_vote_slot vi s t = Some t'"
    "tower_votes t = kept @ expired" "\<forall>l \<in> set expired. last_locked_out_slot vi l < s"
    "kept \<noteq> [] \<longrightarrow> s \<le> last_locked_out_slot vi (last kept)"
    "if length kept = max_lockout_history vi
      then \<exists>r. kept = r # base \<and> tower_root_slot t' = Some (lo_slot r)
      else base = kept \<and> tower_root_slot t' = tower_root_slot t"
    "tower_votes t' = tower_double_lockouts vi (base @ [lockout_new vi s])"
proof -
  let ?ls = "tower_votes t"
  define kept where "kept = tower_pop_expired_votes vi s ?ls"
  have "rev (dropWhile (\<lambda>l. \<not> is_locked_out_at_slot vi l s) (rev ?ls)) = kept"
    by (simp add: kept_def tower_pop_expired_votes_def)
  then obtain expired where split: "?ls = kept @ expired" "\<forall>l \<in> set expired. \<not> is_locked_out_at_slot vi l s"
    "kept \<noteq> [] \<longrightarrow> \<not> \<not> is_locked_out_at_slot vi (last kept) s"
    by (rule pop_split)
  have fresh: "\<not> (case tower_last_voted_slot t of None \<Rightarrow> False | Some l \<Rightarrow> s \<le> l)"
    using new by (auto simp: tower_last_voted_slot_def tower_last_lockout_def not_le)
  have expired: "\<forall>l \<in> set expired. last_locked_out_slot vi l < s"
    using split(2) by (simp add: lockout_lawsD(5) [OF laws] not_le)
  have top: "kept \<noteq> [] \<longrightarrow> s \<le> last_locked_out_slot vi (last kept)"
    using split(3) by (simp add: lockout_lawsD(5) [OF laws])
  show ?thesis
  proof (cases "length kept = max_lockout_history vi")
    case True
    then obtain r base where kept: "kept = r # base"
      using lockout_lawsD(1) [OF laws] by (cases kept) auto
    let ?t = "\<lparr>tower_votes = tower_double_lockouts vi (base @ [lockout_new vi s]), tower_root_slot = Some (lo_slot r)\<rparr>"
    have "tower_process_next_vote_slot vi s t = Some ?t"
      using fresh True by (simp add: tower_process_next_vote_slot_def Let_def kept flip: kept_def)
    then show ?thesis
      using that [OF _ split(1) expired top, of ?t base] True by (simp add: kept)
  next
    case False
    let ?t = "\<lparr>tower_votes = tower_double_lockouts vi (kept @ [lockout_new vi s]), tower_root_slot = tower_root_slot t\<rparr>"
    have "tower_process_next_vote_slot vi s t = Some ?t"
      using fresh False by (simp add: tower_process_next_vote_slot_def Let_def flip: kept_def)
    then show ?thesis
      using that [OF _ split(1) expired top, of ?t kept] False by simp
  qed
qed

lemma tower_next_inv:
  assumes laws: "lockout_laws vi" and inv: "tower_inv vi t" and above_root: "\<forall>r. tower_root_slot t = Some r \<longrightarrow> r < s"
  shows "\<exists>t'. tower_process_next_vote_slot vi s t = Some t' \<and> tower_inv vi t' \<and>
    (case (tower_root_slot t, tower_root_slot t') of (Some r, Some r') \<Rightarrow> r \<le> r' | (Some r, None) \<Rightarrow> False | _ \<Rightarrow> True)"
proof (cases "\<forall>l \<in> set (tower_votes t). lo_slot l < s")
  case True
  obtain kept expired base t' where step: "tower_process_next_vote_slot vi s t = Some t'"
    and "tower_votes t = kept @ expired" "\<forall>l \<in> set expired. last_locked_out_slot vi l < s"
      "kept \<noteq> [] \<longrightarrow> s \<le> last_locked_out_slot vi (last kept)"
    and root: "if length kept = max_lockout_history vi
      then \<exists>r. kept = r # base \<and> tower_root_slot t' = Some (lo_slot r)
      else base = kept \<and> tower_root_slot t' = tower_root_slot t"
    and votes': "tower_votes t' = tower_double_lockouts vi (base @ [lockout_new vi s])"
    by (rule tower_next_vote [OF laws inv True])
  note split = this(2,4)
  have "base = kept \<and> length kept \<noteq> max_lockout_history vi \<or>
      (\<exists>r. kept = r # base \<and> length kept = max_lockout_history vi)"
    using root by (auto split: if_splits)
  note base = kept_votes [OF inv split(1) True split(2) this]
  note push = push_vote [OF laws base(1-4), folded votes']
  have slots: "lo_slot l \<in> insert s (lo_slot ` set base)" if l: "l \<in> set (tower_votes t')" for l
  proof -
    obtain i where i: "i < length (tower_votes t')" "l = tower_votes t' ! i"
      using l by (auto simp: in_set_conv_nth)
    then show ?thesis
      using push(3) [of i] push(4) by (cases "i = length base") (auto simp: votes' less_Suc_eq)
  qed
  have sorted: "sorted_wrt (<) (map lo_slot kept)"
    by (rule tower_slots_sorted [OF base(6)])
  have above: "tower_root_slot t' = Some r \<Longrightarrow> r < lo_slot l" if "l \<in> set base" for r l
    using that root sorted inv split(1) by (auto simp: tower_inv_def split: if_splits)
  have "tower_root_slot t' = Some r \<Longrightarrow> r < s" for r
    using root True split(1) above_root by (auto split: if_splits)
  then have "tower_inv vi t'"
    using push(1,2) above slots by (fastforce simp: tower_inv_def)
  moreover have "case (tower_root_slot t, tower_root_slot t') of (Some r, Some r') \<Rightarrow> r \<le> r' | (Some r, None) \<Rightarrow> False | _ \<Rightarrow> True"
    using root inv split(1) by (auto simp: tower_inv_def less_imp_le split: if_splits option.splits)
  ultimately show ?thesis
    using step by blast
next
  case False
  then have ne: "tower_votes t \<noteq> []" and "s \<le> lo_slot (last (tower_votes t))"
  proof -
    show "tower_votes t \<noteq> []"
      using False by auto
    obtain l where l: "l \<in> set (tower_votes t)" "s \<le> lo_slot l"
      using False by (auto simp: not_less)
    have "sorted_wrt (<) (map lo_slot (tower_votes t))"
      by (rule tower_slots_sorted [of vi]) (use inv in \<open>simp add: tower_inv_def\<close>)
    then have "lo_slot l \<le> lo_slot (last (tower_votes t))"
      using l(1) by (cases "tower_votes t" rule: rev_cases) (auto simp: sorted_wrt_append less_imp_le)
    with l(2) show "s \<le> lo_slot (last (tower_votes t))"
      by (rule order_trans)
  qed
  then show ?thesis
    using inv by (auto simp: tower_process_next_vote_slot_def tower_last_voted_slot_def tower_last_lockout_def
        split: option.splits)
qed

subsection \<open>Credits\<close>

text \<open>
  The history of credits: epochs grow strictly, an entry starts where the one before it ended, and
  no entry loses credits.
\<close>

fun credits_ok :: "(epoch \<times> u64 \<times> u64) list \<Rightarrow> bool" where
  "credits_ok [] \<longleftrightarrow> True"
| "credits_ok [(e, c, p)] \<longleftrightarrow> p \<le> c"
| "credits_ok ((e, c, p) # (e', c', p') # rest) \<longleftrightarrow>
     p \<le> c \<and> e < e' \<and> p' = c \<and> credits_ok ((e', c', p') # rest)"

lemma credits_ok_append:
  "credits_ok (xs @ [(e, c, p)]) \<longleftrightarrow>
     credits_ok xs \<and> p \<le> c \<and> (xs \<noteq> [] \<longrightarrow> fst (last xs) < e \<and> p = fst (snd (last xs)))"
  by (induction xs rule: credits_ok.induct) auto

lemma credits_ok_tl: "credits_ok xs \<Longrightarrow> credits_ok (tl xs)"
  by (cases xs rule: credits_ok.cases) auto

definition total_credits :: "vote_state_v4 \<Rightarrow> u64" where
  "total_credits st = (if v4_epoch_credits st = [] then 0 else fst (snd (last (v4_epoch_credits st))))"

lemma enter_epoch_ok:
  assumes "0 < max_epoch_credits_history vi" and "credits_ok ec"
    and "length ec \<le> max_epoch_credits_history vi" and "ec \<noteq> [] \<longrightarrow> fst (last ec) \<le> epoch"
  shows "\<exists>pre c p. enter_epoch vi epoch ec = pre @ [(epoch, c, p)] \<and> credits_ok (pre @ [(epoch, c, p)]) \<and>
    length pre < max_epoch_credits_history vi \<and> c = (if ec = [] then 0 else fst (snd (last ec)))"
proof (cases ec rule: rev_cases)
  case Nil
  then show ?thesis
    using assms(1) by (intro exI [of _ "[]"] exI [of _ 0]) (simp add: enter_epoch_def)
next
  case (snoc pre ecp)
  obtain e c p where ecp: "ecp = (e, c, p)"
    by (cases ecp)
  have ok: "credits_ok pre" "p \<le> c" "pre \<noteq> [] \<longrightarrow> fst (last pre) < e \<and> p = fst (snd (last pre))"
    using assms(2) by (simp_all add: snoc ecp credits_ok_append)
  have le: "e \<le> epoch"
    using assms(4) by (simp add: snoc ecp)
  consider (same) "epoch = e" | (moved) "epoch \<noteq> e" "c = p" | (appended) "epoch \<noteq> e" "c \<noteq> p"
    by blast
  then show ?thesis
  proof cases
    case same
    then show ?thesis
      using assms(2,3) by (intro exI [of _ pre]) (simp add: enter_epoch_def snoc ecp)
  next
    case moved
    then show ?thesis
      using ok le assms(3)
      by (intro exI [of _ pre] exI [of _ c] exI [of _ p])
        (auto simp: enter_epoch_def snoc ecp credits_ok_append Let_def)
  next
    case appended
    then have "e < epoch"
      using le by simp
    then have new: "credits_ok ((pre @ [(e, c, p)]) @ [(epoch, c, c)])"
      using assms(2) by (simp add: credits_ok_append snoc ecp del: append_assoc)
    let ?pre = "if length ec < max_epoch_credits_history vi then pre @ [(e, c, p)] else tl (pre @ [(e, c, p)])"
    have "enter_epoch vi epoch ec = ?pre @ [(epoch, c, c)]"
      using appended assms(1,3) by (cases pre) (auto simp: enter_epoch_def snoc ecp Let_def)
    moreover have "credits_ok (?pre @ [(epoch, c, c)])"
      using new credits_ok_tl [OF new] by (cases pre) auto
    ultimately show ?thesis
      using assms(1,3) by (intro exI [of _ ?pre] exI [of _ c]) (auto simp: snoc ecp)
  qed
qed

lemma increment_credits_ok:
  assumes "lockout_laws vi" and "credits_ok (v4_epoch_credits st)"
    and "length (v4_epoch_credits st) \<le> max_epoch_credits_history vi"
    and "current_epoch st \<le> epoch"
  shows "\<exists>ec. increment_credits vi epoch credits st = Some (st\<lparr>v4_epoch_credits := ec\<rparr>) \<and> credits_ok ec \<and>
    length ec \<le> max_epoch_credits_history vi \<and> ec \<noteq> [] \<and> fst (last ec) = epoch \<and>
    fst (snd (last ec)) = saturating_add (total_credits st) credits"
proof -
  have le: "v4_epoch_credits st \<noteq> [] \<longrightarrow> fst (last (v4_epoch_credits st)) \<le> epoch"
    using assms(4) by (auto simp: current_epoch_def)
  obtain pre c p where enter: "enter_epoch vi epoch (v4_epoch_credits st) = pre @ [(epoch, c, p)]"
    "credits_ok (pre @ [(epoch, c, p)])" "length pre < max_epoch_credits_history vi"
    "c = (if v4_epoch_credits st = [] then 0 else fst (snd (last (v4_epoch_credits st))))"
    using enter_epoch_ok [OF lockout_lawsD(9) [OF assms(1)] assms(2,3) le] by blast
  have "p \<le> saturating_add c credits"
    using enter(2) saturating_add_ge [of c credits] by (auto simp: credits_ok_append intro: order_trans)
  then have "credits_ok (pre @ [(epoch, saturating_add c credits, p)])"
    using enter(2) by (simp add: credits_ok_append)
  then show ?thesis
    using enter by (intro exI [of _ "pre @ [(epoch, saturating_add c credits, p)]"])
      (simp add: increment_credits_def total_credits_def)
qed

lemma increment_credits_total:
  assumes "lockout_laws vi"
  shows "\<exists>ec. increment_credits vi epoch credits st = Some (st\<lparr>v4_epoch_credits := ec\<rparr>)"
proof -
  have "enter_epoch vi epoch ec \<noteq> []" for ec
    using lockout_lawsD(9) [OF assms]
    by (cases "ec" rule: rev_cases) (auto simp: enter_epoch_def Let_def tl_append split: prod.splits list.splits)
  then show ?thesis
    by (auto simp: increment_credits_def Let_def split: prod.splits)
qed

subsection \<open>The handler and the local tower agree\<close>

lemma pop_expired_lockouts:
  "map lv_lockout (v4_votes (pop_expired_votes vi s st)) =
     tower_pop_expired_votes vi s (map lv_lockout (v4_votes st))"
  by (simp add: pop_expired_votes_def tower_pop_expired_votes_def rev_map dropWhile_map comp_def)

lemma double_lockouts_lockouts:
  "map lv_lockout (v4_votes (double_lockouts vi st)) = tower_double_lockouts vi (map lv_lockout (v4_votes st))"
  by (rule nth_equalityI)
    (auto simp: double_lockouts_def Let_def double_nth nth_enumerate_eq)

lemma root_oldest_vote_lockouts:
  assumes "lockout_laws vi"
  shows "map_option tower_from_v4 (root_oldest_vote vi epoch st) =
    (if length (v4_votes st) = max_lockout_history vi then
       (case map lv_lockout (v4_votes st) of
          [] \<Rightarrow> None
        | l # rest \<Rightarrow> Some \<lparr>tower_votes = rest, tower_root_slot = Some (lo_slot l)\<rparr>)
     else Some (tower_from_v4 st))"
  using increment_credits_total [OF assms, of epoch "credits_for_vote_at_index vi st 0"]
  by (cases "v4_votes st") (fastforce simp: root_oldest_vote_def tower_from_v4_def set_root_slot_def)+

lemma last_voted_lockouts: "last_voted_slot st = tower_last_voted_slot (tower_from_v4 st)"
  by (simp add: last_voted_slot_def last_lockout_def tower_last_voted_slot_def tower_last_lockout_def
      tower_from_v4_def last_map)

text \<open>
  C22. The vote program and the validator's own tower agree: processing a vote for the next slot on
  the on-chain state never panics, and the lockouts and the root it leaves are those that
  \<open>TowerVoteState\<close> computes from the lockouts and the root before. Latencies and credits do not
  influence the tower.
\<close>

theorem handler_refines_tower:
  assumes "lockout_laws vi"
  shows "map_option tower_from_v4 (process_next_vote_slot vi s epoch current_slot st) =
    tower_process_next_vote_slot vi s (tower_from_v4 st)"
proof (cases "case last_voted_slot st of None \<Rightarrow> False | Some l \<Rightarrow> s \<le> l")
  case True
  then show ?thesis
    by (simp add: process_next_vote_slot_def tower_process_next_vote_slot_def flip: last_voted_lockouts)
next
  case False
  define st1 where "st1 = pop_expired_votes vi s st"
  have st1: "map lv_lockout (v4_votes st1) = tower_pop_expired_votes vi s (map lv_lockout (v4_votes st))"
    "v4_root_slot st1 = v4_root_slot st"
    by (simp add: st1_def pop_expired_lockouts) (simp add: st1_def pop_expired_votes_def)
  have len: "length (tower_pop_expired_votes vi s (map lv_lockout (v4_votes st))) = length (v4_votes st1)"
    by (simp flip: st1(1))
  define push where "push = (\<lambda>t :: tower_vote_state. t\<lparr>tower_votes := tower_double_lockouts vi (tower_votes t @ [lockout_new vi s])\<rparr>)"
  have push: "tower_from_v4 (double_lockouts vi (u\<lparr>v4_votes := v4_votes u @
        [\<lparr>lv_latency = compute_vote_latency s current_slot, lv_lockout = lockout_new vi s\<rparr>]\<rparr>)) =
      push (tower_from_v4 u)" for u
    by (simp add: push_def tower_from_v4_def double_lockouts_lockouts) (simp add: double_lockouts_def)
  have "map_option tower_from_v4 (process_next_vote_slot vi s epoch current_slot st) =
      map_option push (map_option tower_from_v4 (root_oldest_vote vi epoch st1))"
    using False by (simp add: process_next_vote_slot_def Let_def option.map_comp comp_def push flip: st1_def)
  also have "\<dots> = tower_process_next_vote_slot vi s (tower_from_v4 st)"
    unfolding root_oldest_vote_lockouts [OF assms] st1(1)
    using False [unfolded last_voted_lockouts tower_from_v4_def]
    by (simp add: tower_process_next_vote_slot_def push_def tower_from_v4_def len st1)
  finally show ?thesis .
qed

theorem handler_refines_tower_witness:
  "map_option tower_from_v4 (process_next_vote_slot doubling_lockouts 6 0 8 example_votes) =
     tower_process_next_vote_slot doubling_lockouts 6 (tower_from_v4 example_votes)"
  by (rule handler_refines_tower [OF doubling_lockouts_laws])

text \<open>
  C36. Voting keeps the tower well formed: from any tower with strictly growing slots, strictly
  shrinking confirmation counts between one and the limit, and no vote cast on top of an expired
  one, a vote for any slot above the root never panics and leaves such a tower again, and the
  root never moves back.
\<close>

theorem tower_vote_preserves:
  assumes "lockout_laws vi" and "tower_inv vi t" and "\<forall>r. tower_root_slot t = Some r \<longrightarrow> r < s"
  shows "\<exists>t'. tower_process_next_vote_slot vi s t = Some t' \<and> tower_inv vi t' \<and>
    (case (tower_root_slot t, tower_root_slot t') of
       (Some r, Some r') \<Rightarrow> r \<le> r' | (Some r, None) \<Rightarrow> False | _ \<Rightarrow> True)"
  by (rule tower_next_inv [OF assms])

lemma example_tower_inv: "tower_inv doubling_lockouts (tower_from_v4 example_votes)"
proof -
  let ?ls = "[\<lparr>lo_slot = 4, lo_confirmation_count = 2\<rparr>, \<lparr>lo_slot = 5, lo_confirmation_count = 1\<rparr>] :: lockout list"
  have t: "tower_from_v4 example_votes = \<lparr>tower_votes = ?ls, tower_root_slot = Some 3\<rparr>"
    by (simp add: tower_from_v4_def example_votes_def)
  have two: "(\<forall>i < Suc (Suc 0). P i) \<longleftrightarrow> P 0 \<and> P 1" for P :: "nat \<Rightarrow> bool"
    by (auto simp: less_Suc_eq)
  have "tower_ordered doubling_lockouts ?ls"
    by (simp add: tower_ordered_def two doubling_lockouts_def saturating_add_def)
  moreover have "tower_deep ?ls"
    by (simp add: tower_deep_def two)
  ultimately show ?thesis
    by (simp add: t tower_inv_def)
qed

theorem tower_vote_preserves_witness:
  "\<exists>t'. tower_process_next_vote_slot doubling_lockouts 6 (tower_from_v4 example_votes) = Some t' \<and>
     tower_inv doubling_lockouts t'"
  using tower_vote_preserves [OF doubling_lockouts_laws example_tower_inv, of 6]
  by (auto simp: tower_from_v4_def example_votes_def)

text \<open>
  Credits are accounted per epoch: incrementing them never panics and adds exactly the credits
  (up to saturation) to the running total; the entries stay ordered by epoch, each starts where
  the previous one ended, none loses credits, and no more epochs are kept than allowed.
\<close>

lemma increment_credits_accounts:
  assumes "lockout_laws vi" and "credits_ok (v4_epoch_credits st)"
    and "length (v4_epoch_credits st) \<le> max_epoch_credits_history vi"
    and "current_epoch st \<le> epoch"
  shows "\<exists>st'. increment_credits vi epoch credits st = Some st' \<and> credits_ok (v4_epoch_credits st') \<and>
    length (v4_epoch_credits st') \<le> max_epoch_credits_history vi \<and> current_epoch st' = epoch \<and>
    total_credits st' = saturating_add (total_credits st) credits"
proof -
  obtain ec where ec: "increment_credits vi epoch credits st = Some (st\<lparr>v4_epoch_credits := ec\<rparr>)"
    "credits_ok ec" "length ec \<le> max_epoch_credits_history vi" "ec \<noteq> []" "fst (last ec) = epoch"
    "fst (snd (last ec)) = saturating_add (total_credits st) credits"
    using increment_credits_ok [OF assms, of credits] by blast
  have "current_epoch (st\<lparr>v4_epoch_credits := ec\<rparr>) = epoch"
    using ec(4,5) by (simp add: current_epoch_def)
  moreover have "total_credits (st\<lparr>v4_epoch_credits := ec\<rparr>) = saturating_add (total_credits st) credits"
    using ec(4,6) by (simp add: total_credits_def)
  ultimately show ?thesis
    using ec(1-3) by (intro exI [of _ "st\<lparr>v4_epoch_credits := ec\<rparr>"]) simp
qed

end
