(* ===== verification/Vote_Check.thy ===== *)
theory Vote_Check
  imports Vote_Handler
begin

section \<open>Checking a vote against the slot hashes\<close>

text \<open>
  \<open>check_and_filter_proposed_vote_state\<close> and \<open>check_slots_are_valid\<close> of
  \<open>src/programs/vote/src/vote_state/mod.rs\<close>: the slots of a vote are compared with the slot
  hashes, which list the recent ancestors of the bank from newest to oldest. The two-index loops
  are recursive functions over the indices of the source; each iteration advances one of them.
  In the results \<open>None\<close> is a panic and \<open>Inl\<close> an error.
\<close>

type_synonym slot_hashes = "(slot \<times> hash) list"

text \<open>The proposed root, overwritten when it is older than the history.\<close>

fun latest_vote_at_most :: "slot \<Rightarrow> landed_vote list \<Rightarrow> slot option" where
  "latest_vote_at_most root [] = None"
| "latest_vote_at_most root (v # vs) = (if vote_slot v \<le> root then Some (vote_slot v) else latest_vote_at_most root vs)"

definition adjust_root :: "vote_state_v4 \<Rightarrow> slot \<Rightarrow> slot option \<Rightarrow> slot option" where
  "adjust_root vote_state earliest proposed_root =
     (case proposed_root of
        None \<Rightarrow> None
      | Some root \<Rightarrow>
          if root < earliest then
            (case latest_vote_at_most root (rev (votes vote_state)) of
               Some s \<Rightarrow> Some s
             | None \<Rightarrow> root_slot vote_state)
          else Some root)"

text \<open>
  The loop over the proposed lockouts, with the root still to be checked, the index \<open>i\<close> into the
  lockouts, the index \<open>j\<close> into the slot hashes and the indices to filter out.
\<close>

function filter_loop ::
  "vote_state_v4 \<Rightarrow> lockout list \<Rightarrow> slot_hashes \<Rightarrow> slot \<Rightarrow> slot option \<Rightarrow> nat \<Rightarrow> nat \<Rightarrow> nat list \<Rightarrow>
     vote_error + nat \<times> nat \<times> nat list" where
  "filter_loop vote_state lockouts slot_hashes earliest root_to_check i j to_filter =
     (if i < length lockouts \<and> j > 0 then
        let proposed_vote_slot = (case root_to_check of Some root \<Rightarrow> root | None \<Rightarrow> lo_slot (lockouts ! i)) in
        if root_to_check = None \<and> i > 0 \<and> proposed_vote_slot \<le> lo_slot (lockouts ! (i - 1))
        then Inl SlotsNotOrdered
        else
          let ancestor_slot = fst (slot_hashes ! (j - 1)) in
          if proposed_vote_slot < ancestor_slot then
            (if j = length slot_hashes then
               (if proposed_vote_slot \<ge> earliest then Inl AssertionFailed
                else
                  case root_to_check of
                    Some new_proposed_root \<Rightarrow>
                      if new_proposed_root \<ge> earliest then Inl AssertionFailed
                      else filter_loop vote_state lockouts slot_hashes earliest None i j to_filter
                  | None \<Rightarrow>
                      filter_loop vote_state lockouts slot_hashes earliest None (i + 1) j
                        (if \<not> contains_slot vote_state proposed_vote_slot then to_filter @ [i] else to_filter))
             else if root_to_check \<noteq> None then Inl RootOnDifferentFork
             else Inl SlotsMismatch)
          else if proposed_vote_slot > ancestor_slot then
            filter_loop vote_state lockouts slot_hashes earliest root_to_check i (j - 1) to_filter
          else if root_to_check \<noteq> None then
            filter_loop vote_state lockouts slot_hashes earliest None i j to_filter
          else filter_loop vote_state lockouts slot_hashes earliest None (i + 1) (j - 1) to_filter
      else Inr (i, j, to_filter))"
  by pat_completeness auto
termination
  by (relation "measure (\<lambda>(_, lockouts, _, _, root, i, j, _).
      (length lockouts - i) + j + (if root = None then 0 else 1))") auto

declare filter_loop.simps [simp del]

text \<open>The closure given to \<open>retain\<close>, with the indices that are still to be filtered out.\<close>

fun retain_votes :: "nat \<Rightarrow> nat list \<Rightarrow> lockout list \<Rightarrow> lockout list" where
  "retain_votes i to_filter [] = []"
| "retain_votes i [] (l # ls) = l # retain_votes (i + 1) [] ls"
| "retain_votes i (f # fs) (l # ls) =
     (if i = f then retain_votes (i + 1) fs ls else l # retain_votes (i + 1) (f # fs) ls)"

definition check_and_filter_proposed_vote_state ::
  "vote_state_v4 \<Rightarrow> lockout list \<Rightarrow> slot option \<Rightarrow> hash \<Rightarrow> slot_hashes \<Rightarrow>
     (vote_error + lockout list \<times> slot option) option" where
  "check_and_filter_proposed_vote_state vote_state lockouts proposed_root proposed_hash slot_hashes =
     (if lockouts = [] then Some (Inl EmptySlots)
      else
        let last_proposed_slot = lo_slot (last lockouts) in
        if votes vote_state \<noteq> [] \<and> last_proposed_slot \<le> vote_slot (last (votes vote_state))
        then Some (Inl VoteTooOld)
        else if slot_hashes = [] then Some (Inl SlotsMismatch)
        else
          let earliest = fst (last slot_hashes) in
          if last_proposed_slot < earliest then Some (Inl VoteTooOld)
          else
            let proposed_root = adjust_root vote_state earliest proposed_root in
            case filter_loop vote_state lockouts slot_hashes earliest proposed_root 0 (length slot_hashes) [] of
              Inl e \<Rightarrow> Some (Inl e)
            | Inr (i, j, to_filter) \<Rightarrow>
                if i \<noteq> length lockouts then Some (Inl SlotsMismatch)
                else if j \<ge> length slot_hashes \<or> last_proposed_slot \<noteq> fst (slot_hashes ! j) then None
                else if snd (slot_hashes ! j) \<noteq> proposed_hash then Some (Inl SlotHashMismatch)
                else Some (Inr (retain_votes 0 to_filter lockouts, proposed_root)))"

function slots_loop :: "slot option \<Rightarrow> slot list \<Rightarrow> slot_hashes \<Rightarrow> nat \<Rightarrow> nat \<Rightarrow> nat \<times> nat" where
  "slots_loop last_voted vote_slots slot_hashes i j =
     (if i < length vote_slots \<and> j > 0 then
        if (case last_voted of None \<Rightarrow> False | Some s \<Rightarrow> vote_slots ! i \<le> s)
        then slots_loop last_voted vote_slots slot_hashes (i + 1) j
        else if vote_slots ! i \<noteq> fst (slot_hashes ! (j - 1))
        then slots_loop last_voted vote_slots slot_hashes i (j - 1)
        else slots_loop last_voted vote_slots slot_hashes (i + 1) (j - 1)
      else (i, j))"
  by pat_completeness auto
termination
  by (relation "measure (\<lambda>(_, vote_slots, _, i, j). (length vote_slots - i) + j)") auto

declare slots_loop.simps [simp del]

definition check_slots_are_valid ::
  "vote_state_v4 \<Rightarrow> slot list \<Rightarrow> hash \<Rightarrow> slot_hashes \<Rightarrow> (vote_error + unit) option" where
  "check_slots_are_valid vote_state vote_slots vote_hash slot_hashes =
     (case slots_loop (last_voted_slot vote_state) vote_slots slot_hashes 0 (length slot_hashes) of (i, j) \<Rightarrow>
        if j = length slot_hashes then Some (Inl VoteTooOld)
        else if i \<noteq> length vote_slots then Some (Inl SlotsMismatch)
        else if j \<ge> length slot_hashes then None
        else if snd (slot_hashes ! j) \<noteq> vote_hash then Some (Inl SlotHashMismatch)
        else Some (Inr ()))"

subsection \<open>What the filtering loop establishes\<close>

definition too_old_for :: "vote_state_v4 \<Rightarrow> slot \<Rightarrow> lockout \<Rightarrow> bool" where
  "too_old_for st earliest l \<longleftrightarrow> lo_slot l < earliest \<and> \<not> contains_slot st (lo_slot l)"

lemma filter_loop_stop: "length ls \<le> i \<Longrightarrow> filter_loop st ls sh earliest root i j fs = Inr (i, j, fs)"
  by (simp add: filter_loop.simps)

text \<open>One iteration of a run that ends without an error.\<close>

lemma filter_loop_step:
  assumes "filter_loop st ls sh earliest root i j fs = Inr x"
  obtains (stop) "\<not> (i < length ls \<and> j > 0)" "x = (i, j, fs)"
  | (old_root) r where "i < length ls" "j > 0" "root = Some r" "r < earliest"
      "filter_loop st ls sh earliest None i j fs = Inr x"
  | (old_vote) "i < length ls" "j > 0" "root = None" "lo_slot (ls ! i) < earliest"
      "i > 0 \<longrightarrow> lo_slot (ls ! (i - 1)) < lo_slot (ls ! i)"
      "filter_loop st ls sh earliest None (i + 1) j
         (if too_old_for st earliest (ls ! i) then fs @ [i] else fs) = Inr x"
  | (newer) "i < length ls" "j > 0" "filter_loop st ls sh earliest root i (j - 1) fs = Inr x"
  | (found_root) r where "i < length ls" "j > 0" "root = Some r" "r = fst (sh ! (j - 1))"
      "filter_loop st ls sh earliest None i j fs = Inr x"
  | (found_vote) "i < length ls" "j > 0" "root = None" "lo_slot (ls ! i) = fst (sh ! (j - 1))"
      "i > 0 \<longrightarrow> lo_slot (ls ! (i - 1)) < lo_slot (ls ! i)"
      "filter_loop st ls sh earliest None (i + 1) (j - 1) fs = Inr x"
proof -
  let ?prev = "lo_slot (ls ! (i - 1))" and ?a = "fst (sh ! (j - 1))"
  show ?thesis
  proof (cases "i < length ls \<and> j > 0")
    case False
    then have "filter_loop st ls sh earliest root i j fs = Inr (i, j, fs)"
      by (subst filter_loop.simps) (simp only: if_False)
    then show ?thesis
      using assms stop False by simp
  next
    case bounds: True
    show ?thesis
    proof (cases root)
      case None
      let ?s = "lo_slot (ls ! i)"
      have eq: "filter_loop st ls sh earliest root i j fs =
        (if i > 0 \<and> ?s \<le> ?prev then Inl SlotsNotOrdered
         else if ?s < ?a then
           (if j = length sh then
              (if ?s \<ge> earliest then Inl AssertionFailed
               else filter_loop st ls sh earliest None (i + 1) j
                 (if \<not> contains_slot st ?s then fs @ [i] else fs))
            else Inl SlotsMismatch)
         else if ?s > ?a then filter_loop st ls sh earliest None i (j - 1) fs
         else filter_loop st ls sh earliest None (i + 1) (j - 1) fs)"
        unfolding None by (subst filter_loop.simps) (simp only: bounds Let_def option.case simp_thms if_True if_False)
      have order: "i > 0 \<longrightarrow> ?prev < ?s"
        using assms eq by (auto simp: not_le split: if_splits)
      consider "?s < ?a" | "?s > ?a" | "?s = ?a"
        by fastforce
      then show ?thesis
      proof cases
        case 1
        then have "\<not> ?s \<ge> earliest" "filter_loop st ls sh earliest None (i + 1) j
            (if \<not> contains_slot st ?s then fs @ [i] else fs) = Inr x"
          using assms order unfolding eq by (auto split: if_splits)
        then show ?thesis
          using old_vote bounds None order by (simp add: too_old_for_def not_le)
      next
        case 2
        then show ?thesis
          using assms order newer bounds None unfolding eq by (auto split: if_splits)
      next
        case 3
        then show ?thesis
          using assms order found_vote bounds None unfolding eq by (auto split: if_splits)
      qed
    next
      case (Some r)
      have eq: "filter_loop st ls sh earliest root i j fs =
        (if r < ?a then
           (if j = length sh then
              (if r \<ge> earliest then Inl AssertionFailed
               else filter_loop st ls sh earliest None i j fs)
            else Inl RootOnDifferentFork)
         else if r > ?a then filter_loop st ls sh earliest (Some r) i (j - 1) fs
         else filter_loop st ls sh earliest None i j fs)"
        unfolding Some by (subst filter_loop.simps) (simp add: bounds Let_def)
      consider "r < ?a" | "r > ?a" | "r = ?a"
        by fastforce
      then show ?thesis
      proof cases
        case 1
        then show ?thesis
          using assms old_root bounds Some unfolding eq by (auto simp: not_le split: if_splits)
      next
        case 2
        then show ?thesis
          using assms newer bounds Some unfolding eq by (auto split: if_splits)
      next
        case 3
        then show ?thesis
          using assms found_root bounds Some unfolding eq by (auto split: if_splits)
      qed
    qed
  qed
qed

lemma filter_loop_sound:
  assumes "filter_loop st ls sh earliest root i j fs = Inr (i', j', fs')"
    and "i \<le> length ls" and "j \<le> length sh" and "\<forall>s \<in> fst ` set sh. earliest \<le> s"
  shows "i \<le> i' \<and> i' \<le> length ls \<and>
    fs' = fs @ filter (\<lambda>k. too_old_for st earliest (ls ! k)) [i..<i'] \<and>
    (\<forall>k \<in> {i..<i'}. (lo_slot (ls ! k) \<in> fst ` set sh \<or> lo_slot (ls ! k) < earliest) \<and>
      (k > 0 \<longrightarrow> lo_slot (ls ! (k - 1)) < lo_slot (ls ! k))) \<and>
    (i < i' \<and> i' = length ls \<longrightarrow>
      (j' < length sh \<and> fst (sh ! j') = lo_slot (last ls)) \<or> lo_slot (last ls) < earliest) \<and>
    (\<forall>r. root = Some r \<and> i < i' \<longrightarrow> r \<in> fst ` set sh \<or> r < earliest)"
  using assms(1-3)
proof (induction "(length ls - i) + j + (if root = None then 0 else 1 :: nat)" arbitrary: root i j fs rule: less_induct)
  case less
  have anc: "fst (sh ! (j - 1)) \<in> fst ` set sh" if "j > 0"
    using that less.prems(3) by auto
  have from_next: "[i..<i'] = i # [i + 1..<i']" "{i..<i'} = insert i {i + 1..<i'}" if "i + 1 \<le> i'"
    using that by (auto simp: upt_conv_Cons)
  from less.prems(1) show ?case
  proof (cases rule: filter_loop_step)
    case stop
    then show ?thesis
      using less.prems(2) by simp
  next
    case (old_root r)
    then show ?thesis
      using less.hyps [OF _ old_root(5)] less.prems(2,3) by auto
  next
    case old_vote
    have IH: "i + 1 \<le> i' \<and> i' \<le> length ls \<and>
      fs' = (if too_old_for st earliest (ls ! i) then fs @ [i] else fs) @
        filter (\<lambda>k. too_old_for st earliest (ls ! k)) [i + 1..<i'] \<and>
      (\<forall>k \<in> {i + 1..<i'}. (lo_slot (ls ! k) \<in> fst ` set sh \<or> lo_slot (ls ! k) < earliest) \<and>
        (k > 0 \<longrightarrow> lo_slot (ls ! (k - 1)) < lo_slot (ls ! k))) \<and>
      (i + 1 < i' \<and> i' = length ls \<longrightarrow>
        (j' < length sh \<and> fst (sh ! j') = lo_slot (last ls)) \<or> lo_slot (last ls) < earliest)"
      using less.hyps [OF _ old_vote(6)] less.prems(2,3) old_vote(1-3) by simp
    have "i' = i + 1 \<and> i' = length ls \<longrightarrow> last ls = ls ! i"
      using old_vote(1) by (cases ls rule: rev_cases) auto
    then have last: "i < i' \<and> i' = length ls \<longrightarrow>
        (j' < length sh \<and> fst (sh ! j') = lo_slot (last ls)) \<or> lo_slot (last ls) < earliest"
      using IH old_vote(4) by (metis Suc_eq_plus1 Suc_lessI)
    have "\<forall>k \<in> insert i {i + 1..<i'}. (lo_slot (ls ! k) \<in> fst ` set sh \<or> lo_slot (ls ! k) < earliest) \<and>
        (k > 0 \<longrightarrow> lo_slot (ls ! (k - 1)) < lo_slot (ls ! k))"
      using IH old_vote(4,5) by blast
    moreover have "fs' = fs @ filter (\<lambda>k. too_old_for st earliest (ls ! k)) (i # [i + 1..<i'])"
      using IH by simp
    ultimately show ?thesis
      using IH last old_vote(3) from_next by simp
  next
    case newer
    then show ?thesis
      using less.hyps [OF _ newer(3)] less.prems(2,3) by auto
  next
    case (found_root r)
    then show ?thesis
      using less.hyps [OF _ found_root(5)] less.prems(2,3) anc by auto
  next
    case found_vote
    have IH: "i + 1 \<le> i' \<and> i' \<le> length ls \<and>
      fs' = fs @ filter (\<lambda>k. too_old_for st earliest (ls ! k)) [i + 1..<i'] \<and>
      (\<forall>k \<in> {i + 1..<i'}. (lo_slot (ls ! k) \<in> fst ` set sh \<or> lo_slot (ls ! k) < earliest) \<and>
        (k > 0 \<longrightarrow> lo_slot (ls ! (k - 1)) < lo_slot (ls ! k))) \<and>
      (i + 1 < i' \<and> i' = length ls \<longrightarrow>
        (j' < length sh \<and> fst (sh ! j') = lo_slot (last ls)) \<or> lo_slot (last ls) < earliest)"
      using less.hyps [OF _ found_vote(6)] less.prems(2,3) found_vote(1-3) by simp
    have fresh: "\<not> too_old_for st earliest (ls ! i)"
      using anc [OF found_vote(2)] assms(4) found_vote(4) by (auto simp: too_old_for_def)
    have "i' = i + 1 \<and> i' = length ls \<longrightarrow> last ls = ls ! i \<and> j' = j - 1"
      using found_vote(1,6) filter_loop_stop [of ls "i + 1"] by (cases ls rule: rev_cases) auto
    moreover have "j - 1 < length sh"
      using found_vote(2) less.prems(3) by simp
    ultimately have last: "i < i' \<and> i' = length ls \<longrightarrow>
        (j' < length sh \<and> fst (sh ! j') = lo_slot (last ls)) \<or> lo_slot (last ls) < earliest"
      using IH found_vote(4) by (metis Suc_eq_plus1 Suc_lessI)
    have "\<forall>k \<in> insert i {i + 1..<i'}. (lo_slot (ls ! k) \<in> fst ` set sh \<or> lo_slot (ls ! k) < earliest) \<and>
        (k > 0 \<longrightarrow> lo_slot (ls ! (k - 1)) < lo_slot (ls ! k))"
      using IH found_vote(4,5) anc [OF found_vote(2)] by (metis insertE)
    moreover have "fs' = fs @ filter (\<lambda>k. too_old_for st earliest (ls ! k)) (i # [i + 1..<i'])"
      using IH fresh by simp
    ultimately show ?thesis
      using IH last found_vote(3) from_next by simp
  qed
qed

lemma retain_votes_filter:
  "retain_votes i (filter (\<lambda>k. P (xs ! (k - i))) [i..<i + length xs]) xs = filter (\<lambda>x. \<not> P x) xs"
proof (induction xs arbitrary: i)
  case (Cons x xs)
  have first: "[i..<i + length (x # xs)] = i # [i + 1..<i + 1 + length xs]"
    by (simp add: upt_conv_Cons del: upt_Suc)
  have "filter (\<lambda>k. P ((x # xs) ! (k - i))) [i + 1..<i + 1 + length xs] =
      filter (\<lambda>k. P (xs ! (k - (i + 1)))) [i + 1..<i + 1 + length xs]"
    by (intro filter_cong) (auto simp: nth_Cons' Suc_diff_Suc)
  then have upt: "filter (\<lambda>k. P ((x # xs) ! (k - i))) [i..<i + length (x # xs)] =
      (if P x then [i] else []) @ filter (\<lambda>k. P (xs ! (k - (i + 1)))) [i + 1..<i + 1 + length xs]"
    unfolding first by simp
  let ?fs = "filter (\<lambda>k. P (xs ! (k - (i + 1)))) [i + 1..<i + 1 + length xs]"
  show ?case
  proof (cases "P x")
    case True
    then show ?thesis
      unfolding upt using Cons.IH [of "i + 1"] by (simp del: upt_Suc)
  next
    case False
    have "i \<notin> set ?fs"
      by auto
    moreover have "retain_votes i fs (x # xs) = x # retain_votes (i + 1) fs xs" if "i \<notin> set fs" for fs
      using that by (cases fs) auto
    ultimately have "retain_votes i ?fs (x # xs) = x # filter (\<lambda>x. \<not> P x) xs"
      using Cons.IH [of "i + 1"] by metis
    then show ?thesis
      unfolding upt using False by simp
  qed
qed simp

lemma earliest_least:
  assumes "sh \<noteq> []" and "sorted_wrt (>) (map fst sh)"
  shows "\<forall>s \<in> fst ` set sh. fst (last sh) \<le> (s :: slot)"
  using assms by (cases sh rule: rev_cases) (auto simp: sorted_wrt_append less_imp_le)

text \<open>The index computations stay in range and the final assertion holds.\<close>

lemma check_and_filter_total:
  assumes "sorted_wrt (>) (map fst slot_hashes)"
  shows "check_and_filter_proposed_vote_state st lockouts root h slot_hashes \<noteq> None"
proof (cases "lockouts = [] \<or> slot_hashes = [] \<or>
    (votes st \<noteq> [] \<and> lo_slot (last lockouts) \<le> vote_slot (last (votes st))) \<or>
    lo_slot (last lockouts) < fst (last slot_hashes)")
  case True
  then show ?thesis
    by (auto simp: check_and_filter_proposed_vote_state_def Let_def)
next
  case False
  define root' where "root' = adjust_root st (fst (last slot_hashes)) root"
  show ?thesis
  proof (cases "filter_loop st lockouts slot_hashes (fst (last slot_hashes)) root' 0 (length slot_hashes) []")
    case (Inl e)
    then show ?thesis
      using False by (simp add: check_and_filter_proposed_vote_state_def Let_def flip: root'_def)
  next
    case (Inr x)
    obtain i j fs where x: "x = (i, j, fs)"
      by (cases x)
    have "i = length lockouts \<Longrightarrow> j < length slot_hashes \<and> fst (slot_hashes ! j) = lo_slot (last lockouts)"
      using filter_loop_sound [OF Inr [unfolded x]] earliest_least [OF _ assms] False by auto
    then show ?thesis
      using False Inr x by (auto simp: check_and_filter_proposed_vote_state_def Let_def simp flip: root'_def)
  qed
qed

lemma check_and_filter_facts:
  assumes "sorted_wrt (>) (map fst slot_hashes)"
    and "check_and_filter_proposed_vote_state st lockouts root h slot_hashes = Some (Inr (lockouts', root'))"
  shows "sorted_wrt (<) (map lo_slot lockouts) \<and>
    lockouts' = filter (\<lambda>l. \<not> too_old_for st (fst (last slot_hashes)) l) lockouts \<and>
    (\<forall>l \<in> set lockouts'. lo_slot l \<in> fst ` set slot_hashes \<or> contains_slot st (lo_slot l)) \<and>
    lockouts' \<noteq> [] \<and> last lockouts' = last lockouts \<and>
    (lo_slot (last lockouts), h) \<in> set slot_hashes \<and>
    (votes st \<noteq> [] \<longrightarrow> vote_slot (last (votes st)) < lo_slot (last lockouts)) \<and>
    root' = adjust_root st (fst (last slot_hashes)) root \<and>
    (\<forall>r. root' = Some r \<longrightarrow> r \<in> fst ` set slot_hashes \<or> r < fst (last slot_hashes))"
proof -
  define E where "E = fst (last slot_hashes)"
  have pre: "lockouts \<noteq> []" "slot_hashes \<noteq> []" "\<not> lo_slot (last lockouts) < E"
    "votes st \<noteq> [] \<longrightarrow> vote_slot (last (votes st)) < lo_slot (last lockouts)"
    using assms(2)
    by (auto simp: check_and_filter_proposed_vote_state_def Let_def E_def not_le split: if_splits)
  have root': "root' = adjust_root st E root"
    and "\<exists>j fs. filter_loop st lockouts slot_hashes E (adjust_root st E root) 0 (length slot_hashes) [] =
        Inr (length lockouts, j, fs) \<and> lockouts' = retain_votes 0 fs lockouts \<and>
      j < length slot_hashes \<and> fst (slot_hashes ! j) = lo_slot (last lockouts) \<and> snd (slot_hashes ! j) = h"
    using assms(2)
    by (auto simp: check_and_filter_proposed_vote_state_def Let_def E_def not_le split: if_splits sum.splits prod.splits)
  then obtain j fs where loop: "filter_loop st lockouts slot_hashes E root' 0 (length slot_hashes) [] =
        Inr (length lockouts, j, fs)" and ls': "lockouts' = retain_votes 0 fs lockouts"
    and j: "j < length slot_hashes" "slot_hashes ! j = (lo_slot (last lockouts), h)"
    by (metis prod.collapse)
  have E: "\<forall>s \<in> fst ` set slot_hashes. E \<le> s"
    unfolding E_def by (rule earliest_least [OF pre(2) assms(1)])
  note sound = filter_loop_sound [OF loop _ _ E, simplified]
  have slots: "k < length lockouts \<Longrightarrow> lo_slot (lockouts ! k) \<in> fst ` set slot_hashes \<or> lo_slot (lockouts ! k) < E"
    and order: "k < length lockouts \<Longrightarrow> k > 0 \<Longrightarrow> lo_slot (lockouts ! (k - 1)) < lo_slot (lockouts ! k)" for k
    using sound by auto
  have "sorted_wrt (\<lambda>x y. x < y) (map lo_slot lockouts) \<longleftrightarrow>
      (\<forall>i. Suc i < length (map lo_slot lockouts) \<longrightarrow> map lo_slot lockouts ! i < map lo_slot lockouts ! Suc i)"
    by (intro sorted_wrt_iff_nth_Suc_transp) (simp add: transp_def)
  then have sorted: "sorted_wrt (<) (map lo_slot lockouts)"
    using order [of "Suc _"] by simp
  have "fs = filter (\<lambda>k. too_old_for st E (lockouts ! (k - 0))) [0..<0 + length lockouts]"
    using sound by simp
  then have filtered: "lockouts' = filter (\<lambda>l. \<not> too_old_for st E l) lockouts"
    unfolding ls' by (metis retain_votes_filter)
  have "\<forall>l \<in> set lockouts'. lo_slot l \<in> fst ` set slot_hashes \<or> contains_slot st (lo_slot l)"
    using slots unfolding filtered by (fastforce simp: in_set_conv_nth too_old_for_def)
  moreover have "lockouts' \<noteq> [] \<and> last lockouts' = last lockouts"
    using pre(1,3) unfolding filtered by (cases lockouts rule: rev_cases) (auto simp: too_old_for_def)
  moreover have "(lo_slot (last lockouts), h) \<in> set slot_hashes"
    using j by (metis nth_mem)
  moreover have "\<forall>r. root' = Some r \<longrightarrow> r \<in> fst ` set slot_hashes \<or> r < E"
    using sound pre(1) by auto
  ultimately show ?thesis
    using sorted filtered pre(4) root' unfolding E_def by blast
qed

text \<open>
  In a vote state with ordered votes the binary search finds exactly the slots that were voted on,
  wherever the deque is split into its two slices.
\<close>

lemma contains_slot_layout:
  assumes "sorted (map vote_slot (votes st))" and "votes st = front @ rear"
  shows "contains_slot st s \<longleftrightarrow> s \<in> vote_slot ` set (votes st)"
    and "\<not> isl (deque_binary_search_by (\<lambda>vote. word_cmp (vote_slot vote) s) front rear) \<longleftrightarrow> contains_slot st s"
proof -
  show "contains_slot st s \<longleftrightarrow> s \<in> vote_slot ` set (votes st)"
    using deque_search_found [of vote_slot "votes st" "[]" s] assms(1) by (simp add: contains_slot_def votes_def)
  then show "\<not> isl (deque_binary_search_by (\<lambda>vote. word_cmp (vote_slot vote) s) front rear) \<longleftrightarrow> contains_slot st s"
    using deque_search_found [of vote_slot front rear s] assms by simp
qed

text \<open>
  C25. Let the votes of the state be ordered by slot and the slot hashes be in descending order. A proposed tower that passes the check is on the bank's fork: its slots grow strictly; the
  last one is newer than the last vote of the state and is in the slot hashes with the proposed
  hash; every lockout that is kept is for an ancestor listed in the slot hashes or for a slot among
  the votes of the state; exactly the lockouts that are older than the history and for no slot
  among those votes are dropped; and a root that is kept is an ancestor in the history or older
  than it.
\<close>

theorem check_and_filter_sound:
  assumes "sorted_wrt (>) (map fst slot_hashes)" and "sorted (map vote_slot (votes st))"
    and "check_and_filter_proposed_vote_state st lockouts root h slot_hashes = Some (Inr (lockouts', root'))"
  shows "sorted_wrt (<) (map lo_slot lockouts) \<and>
    lockouts' = filter (\<lambda>l. \<not> (lo_slot l < fst (last slot_hashes) \<and> lo_slot l \<notin> vote_slot ` set (votes st))) lockouts \<and>
    (\<forall>l \<in> set lockouts'. lo_slot l \<in> fst ` set slot_hashes \<union> vote_slot ` set (votes st)) \<and>
    lockouts' \<noteq> [] \<and> last lockouts' = last lockouts \<and>
    (lo_slot (last lockouts), h) \<in> set slot_hashes \<and>
    (votes st \<noteq> [] \<longrightarrow> vote_slot (last (votes st)) < lo_slot (last lockouts)) \<and>
    root' = adjust_root st (fst (last slot_hashes)) root \<and>
    (\<forall>r. root' = Some r \<longrightarrow> r \<in> fst ` set slot_hashes \<or> r < fst (last slot_hashes))"
proof -
  note found = contains_slot_layout(1) [OF assms(2) append_Nil2 [symmetric]]
  show ?thesis
    unfolding Un_iff by (rule check_and_filter_facts [OF assms(1,3), unfolded too_old_for_def found])
qed

lemma example_check:
  "check_and_filter_proposed_vote_state example_votes
     [\<lparr>lo_slot = 2, lo_confirmation_count = 4\<rparr>, \<lparr>lo_slot = 4, lo_confirmation_count = 3\<rparr>,
      \<lparr>lo_slot = 5, lo_confirmation_count = 2\<rparr>, \<lparr>lo_slot = 6, lo_confirmation_count = 1\<rparr>]
     (Some 3) 60 [(6, 60), (5, 50), (4, 40), (3, 30)] =
   Some (Inr ([\<lparr>lo_slot = 4, lo_confirmation_count = 3\<rparr>,
      \<lparr>lo_slot = 5, lo_confirmation_count = 2\<rparr>, \<lparr>lo_slot = 6, lo_confirmation_count = 1\<rparr>], Some 3))"
  by code_simp

theorem check_and_filter_sound_witness:
  "(lo_slot (last [\<lparr>lo_slot = 2, lo_confirmation_count = 4\<rparr>, \<lparr>lo_slot = 4, lo_confirmation_count = 3\<rparr>,
      \<lparr>lo_slot = 5, lo_confirmation_count = 2\<rparr>, \<lparr>lo_slot = 6, lo_confirmation_count = 1\<rparr>]), 60)
     \<in> set [(6, 60), (5, 50), (4, 40), (3 :: slot, 30 :: hash)]"
  using check_and_filter_sound [OF _ _ example_check] by (simp add: example_votes_def votes_def)

subsection \<open>Votes given as slots\<close>

definition newer_slots :: "slot option \<Rightarrow> slot list \<Rightarrow> slot list" where
  "newer_slots last_voted slots = filter (\<lambda>s. case last_voted of None \<Rightarrow> True | Some l \<Rightarrow> l < s) slots"

lemma slots_loop_sound:
  assumes "slots_loop last_voted slots sh i j = (i', j')" and "i \<le> length slots" and "j \<le> length sh"
  shows "j' \<le> j \<and> i \<le> i' \<and> i' \<le> length slots \<and>
    (i' = length slots \<longrightarrow> set (newer_slots last_voted (drop i slots)) \<subseteq> fst ` set sh \<and>
      (if newer_slots last_voted (drop i slots) = [] then j' = j
       else j' < j \<and> fst (sh ! j') = last (newer_slots last_voted (drop i slots))))"
  using assms
proof (induction last_voted slots sh i j rule: slots_loop.induct)
  case (1 last_voted slots sh i j)
  let ?old = "case last_voted of None \<Rightarrow> False | Some s \<Rightarrow> slots ! i \<le> s"
  consider (stop) "\<not> (i < length slots \<and> j > 0)"
    | (old) "i < length slots" "j > 0" ?old
    | (other) "i < length slots" "j > 0" "\<not> ?old" "slots ! i \<noteq> fst (sh ! (j - 1))"
    | (found) "i < length slots" "j > 0" "\<not> ?old" "slots ! i = fst (sh ! (j - 1))"
    by blast
  note split = this
  have newer: "newer_slots last_voted (drop i slots) = slots ! i # newer_slots last_voted (drop (i + 1) slots)"
    if "i < length slots" "\<not> ?old"
    using that by (cases last_voted) (simp_all add: newer_slots_def not_le flip: Cons_nth_drop_Suc)
  from split show ?case
  proof cases
    case stop
    then have "slots_loop last_voted slots sh i j = (i, j)"
      by (subst slots_loop.simps) (simp only: if_False)
    then have "i' = i" "j' = j"
      using "1.prems"(1) by simp_all
    then show ?thesis
      using "1.prems"(2) by (simp add: newer_slots_def)
  next
    case old
    then have "slots_loop last_voted slots sh (i + 1) j = (i', j')"
      using "1.prems"(1) by (simp add: slots_loop.simps [of last_voted slots sh i j])
    moreover have "newer_slots last_voted (drop i slots) = newer_slots last_voted (drop (i + 1) slots)"
      using old by (cases last_voted) (simp_all add: newer_slots_def not_less flip: Cons_nth_drop_Suc)
    ultimately show ?thesis
      using "1.IH"(1) [OF _ old(3)] old(1,2) "1.prems"(3) by auto
  next
    case other
    then have "slots_loop last_voted slots sh i (j - 1) = (i', j')"
      using "1.prems"(1) by (simp add: slots_loop.simps [of last_voted slots sh i j])
    moreover have "newer_slots last_voted (drop i slots) \<noteq> []"
      using newer [OF other(1,3)] by simp
    moreover have "j - 1 \<le> length sh"
      using "1.prems"(3) by simp
    ultimately show ?thesis
      using "1.IH"(2) [OF _ other(3,4)] other(1,2) "1.prems"(2) by auto
  next
    case found
    then have loop: "slots_loop last_voted slots sh (i + 1) (j - 1) = (i', j')"
      using "1.prems"(1) by (simp add: slots_loop.simps [of last_voted slots sh i j])
    have "fst (sh ! (j - 1)) \<in> fst ` set sh"
      using found(2) "1.prems"(3) by auto
    moreover have "j - 1 \<le> length sh"
      using "1.prems"(3) by simp
    ultimately show ?thesis
      using "1.IH"(3) [OF _ found(3) _ loop] found(1,2,4) newer [OF found(1,3)]
      by (auto split: if_splits)
  qed
qed

text \<open>
  A vote given as a list of slots is accepted only if all its slots that are newer than the
  last vote are in the slot hashes, there is at least one of them, and the newest of them has the
  hash of the vote; and the check never panics.
\<close>

lemma check_slots_are_valid_sound:
  "check_slots_are_valid st vote_slots h slot_hashes \<noteq> None \<and>
   (check_slots_are_valid st vote_slots h slot_hashes = Some (Inr ()) \<longrightarrow>
      newer_slots (last_voted_slot st) vote_slots \<noteq> [] \<and>
      set (newer_slots (last_voted_slot st) vote_slots) \<subseteq> fst ` set slot_hashes \<and>
      (last (newer_slots (last_voted_slot st) vote_slots), h) \<in> set slot_hashes)"
proof -
  obtain i j where loop: "slots_loop (last_voted_slot st) vote_slots slot_hashes 0 (length slot_hashes) = (i, j)"
    by (cases "slots_loop (last_voted_slot st) vote_slots slot_hashes 0 (length slot_hashes)")
  note sound = slots_loop_sound [OF loop, simplified]
  have "check_slots_are_valid st vote_slots h slot_hashes \<noteq> None"
    using sound by (auto simp: check_slots_are_valid_def loop)
  moreover have "newer_slots (last_voted_slot st) vote_slots \<noteq> [] \<and>
      set (newer_slots (last_voted_slot st) vote_slots) \<subseteq> fst ` set slot_hashes \<and>
      (last (newer_slots (last_voted_slot st) vote_slots), h) \<in> set slot_hashes"
    if "check_slots_are_valid st vote_slots h slot_hashes = Some (Inr ())"
  proof -
    have j: "j < length slot_hashes" "i = length vote_slots" "snd (slot_hashes ! j) = h"
      using that by (auto simp: check_slots_are_valid_def loop split: if_splits)
    then have "newer_slots (last_voted_slot st) vote_slots \<noteq> []"
      "set (newer_slots (last_voted_slot st) vote_slots) \<subseteq> fst ` set slot_hashes"
      "fst (slot_hashes ! j) = last (newer_slots (last_voted_slot st) vote_slots)"
      using sound by (auto split: if_splits)
    then show ?thesis
      using j by (metis nth_mem prod.collapse)
  qed
  ultimately show ?thesis by blast
qed

end
