(* ===== verification/Vote_Update.thy ===== *)
theory Vote_Update
  imports Vote_Tower Vote_Check
begin

section \<open>Applying a vote to the vote state\<close>

text \<open>
  \<open>process_new_vote_state\<close>, the tower-sync and vote-state-update entry points and the processing of
  votes given as slots, from \<open>src/programs/vote/src/vote_state/mod.rs\<close>. \<open>None\<close> is a panic and \<open>Inl\<close>
  an error. The loops over deques that advance an index are recursions over lists.
\<close>

record vote =
  vote_slots :: "slot list"
  vote_hash :: hash
  vote_timestamp :: "unix_timestamp option"

text \<open>\<open>VoteStateUpdate\<close> and \<open>TowerSync\<close>, with the fields the program reads.\<close>

record vote_state_update =
  vsu_lockouts :: "lockout list"
  vsu_root :: "slot option"
  vsu_hash :: hash
  vsu_timestamp :: "unix_timestamp option"

record tower_sync =
  ts_lockouts :: "lockout list"
  ts_root :: "slot option"
  ts_hash :: hash
  ts_timestamp :: "unix_timestamp option"

text \<open>The checks of the proposed votes; the result is the first error.\<close>

fun validate_votes :: "vote_interface \<Rightarrow> slot option \<Rightarrow> landed_vote option \<Rightarrow> landed_vote list \<Rightarrow> vote_error option" where
  "validate_votes vi new_root previous_vote [] = None"
| "validate_votes vi new_root previous_vote (v # vs) =
     (if vote_confirmation_count v = 0 then Some ZeroConfirmations
      else if vote_confirmation_count v > of_nat (max_lockout_history vi) then Some ConfirmationTooLarge
      else if (case new_root of None \<Rightarrow> False | Some r \<Rightarrow> vote_slot v \<le> r \<and> r \<noteq> 0) then Some SlotSmallerThanRoot
      else case previous_vote of
        None \<Rightarrow> validate_votes vi new_root (Some v) vs
      | Some p \<Rightarrow>
          if vote_slot p \<ge> vote_slot v then Some SlotsNotOrdered
          else if vote_confirmation_count p \<le> vote_confirmation_count v then Some ConfirmationsNotOrdered
          else if vote_slot v > last_locked_out_slot vi (lv_lockout p) then Some NewVoteStateLockoutMismatch
          else validate_votes vi new_root (Some v) vs)"

text \<open>The number of current votes that the new root covers, and the credits they earn.\<close>

fun credit_rooted :: "vote_interface \<Rightarrow> vote_state_v4 \<Rightarrow> slot \<Rightarrow> nat \<Rightarrow> u64 \<Rightarrow> landed_vote list \<Rightarrow> (nat \<times> u64) option" where
  "credit_rooted vi vote_state new_root i earned [] = Some (i, earned)"
| "credit_rooted vi vote_state new_root i earned (v # vs) =
     (if vote_slot v \<le> new_root then
        Option.bind (checked_add earned (credits_for_vote_at_index vi vote_state i))
          (\<lambda>earned'. credit_rooted vi vote_state new_root (i + 1) earned' vs)
      else Some (i, earned))"

text \<open>The merge of the remaining current votes with the proposed ones, which takes over latencies.\<close>

fun match_votes :: "vote_interface \<Rightarrow> landed_vote list \<Rightarrow> landed_vote list \<Rightarrow> vote_error + landed_vote list" where
  "match_votes vi [] ns = Inr ns"
| "match_votes vi (c # cs) [] = Inr []"
| "match_votes vi (c # cs) (n # ns) =
     (if vote_slot c < vote_slot n then
        (if last_locked_out_slot vi (lv_lockout c) \<ge> vote_slot n then Inl LockoutConflict
         else match_votes vi cs (n # ns))
      else if vote_slot c = vote_slot n then
        (if vote_confirmation_count n < vote_confirmation_count c then Inl ConfirmationRollBack
         else map_sum (\<lambda>e. e) (\<lambda>ns'. n\<lparr>lv_latency := lv_latency c\<rparr> # ns') (match_votes vi cs ns))
      else map_sum (\<lambda>e. e) (\<lambda>ns'. n # ns') (match_votes vi (c # cs) ns))"

definition set_latency :: "slot \<Rightarrow> landed_vote \<Rightarrow> landed_vote" where
  "set_latency current_slot v =
     (if lv_latency v = 0 then v\<lparr>lv_latency := compute_vote_latency (vote_slot v) current_slot\<rparr> else v)"

definition process_new_vote_state ::
  "vote_interface \<Rightarrow> vote_state_v4 \<Rightarrow> landed_vote list \<Rightarrow> slot option \<Rightarrow> unix_timestamp option \<Rightarrow> epoch \<Rightarrow> slot \<Rightarrow>
     (vote_error + vote_state_v4) option" where
  "process_new_vote_state vi vote_state new_state new_root timestamp epoch current_slot =
     (if new_state = [] then None
      else if length new_state > max_lockout_history vi then Some (Inl TooManyVotes)
      else if (case (new_root, root_slot vote_state) of
                 (Some n, Some c) \<Rightarrow> n < c | (None, Some _) \<Rightarrow> True | _ \<Rightarrow> False)
      then Some (Inl RootRollBack)
      else case validate_votes vi new_root None new_state of
        Some e \<Rightarrow> Some (Inl e)
      | None \<Rightarrow>
          Option.bind (case new_root of
              None \<Rightarrow> Some (0, 0)
            | Some r \<Rightarrow> credit_rooted vi vote_state r 0 0 (votes vote_state)) (\<lambda>(i, earned_credits).
          case match_votes vi (drop i (votes vote_state)) new_state of
            Inl e \<Rightarrow> Some (Inl e)
          | Inr new_state \<Rightarrow>
              let new_state = map (set_latency current_slot) new_state in
              Option.bind (if root_slot vote_state \<noteq> new_root
                  then increment_credits vi epoch earned_credits vote_state else Some vote_state)
                (\<lambda>vote_state.
                   case (case timestamp of
                           None \<Rightarrow> Inr vote_state
                         | Some t \<Rightarrow> process_timestamp (vote_slot (last new_state)) t vote_state) of
                     Inl e \<Rightarrow> Some (Inl e)
                   | Inr vote_state \<Rightarrow> Some (Inr (set_votes new_state (set_root_slot new_root vote_state))))))"

definition check_and_apply ::
  "vote_interface \<Rightarrow> vote_state_v4 \<Rightarrow> slot_hashes \<Rightarrow> epoch \<Rightarrow> slot \<Rightarrow>
     lockout list \<Rightarrow> slot option \<Rightarrow> hash \<Rightarrow> unix_timestamp option \<Rightarrow> (vote_error + vote_state_v4) option" where
  "check_and_apply vi vote_state slot_hashes epoch slot lockouts root h timestamp =
     (case check_and_filter_proposed_vote_state vote_state lockouts root h slot_hashes of
        None \<Rightarrow> None
      | Some (Inl e) \<Rightarrow> Some (Inl e)
      | Some (Inr (lockouts, root)) \<Rightarrow>
          process_new_vote_state vi vote_state (map (landed_vote_from vi) lockouts) root timestamp epoch slot)"

definition do_process_vote_state_update ::
  "vote_interface \<Rightarrow> vote_state_v4 \<Rightarrow> slot_hashes \<Rightarrow> epoch \<Rightarrow> slot \<Rightarrow> vote_state_update \<Rightarrow>
     (vote_error + vote_state_v4) option" where
  "do_process_vote_state_update vi vote_state slot_hashes epoch slot u =
     check_and_apply vi vote_state slot_hashes epoch slot (vsu_lockouts u) (vsu_root u) (vsu_hash u) (vsu_timestamp u)"

definition do_process_tower_sync ::
  "vote_interface \<Rightarrow> vote_state_v4 \<Rightarrow> slot_hashes \<Rightarrow> epoch \<Rightarrow> slot \<Rightarrow> tower_sync \<Rightarrow>
     (vote_error + vote_state_v4) option" where
  "do_process_tower_sync vi vote_state slot_hashes epoch slot t =
     check_and_apply vi vote_state slot_hashes epoch slot (ts_lockouts t) (ts_root t) (ts_hash t) (ts_timestamp t)"

subsection \<open>Votes given as slots\<close>

definition process_vote_unfiltered ::
  "vote_interface \<Rightarrow> vote_state_v4 \<Rightarrow> slot list \<Rightarrow> vote \<Rightarrow> slot_hashes \<Rightarrow> epoch \<Rightarrow> slot \<Rightarrow>
     (vote_error + vote_state_v4) option" where
  "process_vote_unfiltered vi vote_state slots v slot_hashes epoch current_slot =
     (case check_slots_are_valid vote_state slots (vote_hash v) slot_hashes of
        None \<Rightarrow> None
      | Some (Inl e) \<Rightarrow> Some (Inl e)
      | Some (Inr ()) \<Rightarrow>
          map_option Inr (foldM (\<lambda>s st. process_next_vote_slot vi s epoch current_slot st) slots vote_state))"

definition process_vote ::
  "vote_interface \<Rightarrow> vote_state_v4 \<Rightarrow> vote \<Rightarrow> slot_hashes \<Rightarrow> epoch \<Rightarrow> slot \<Rightarrow> (vote_error + vote_state_v4) option" where
  "process_vote vi vote_state v slot_hashes epoch current_slot =
     (if vote_slots v = [] then Some (Inl EmptySlots)
      else
        let earliest_slot_in_history = (if slot_hashes = [] then 0 else fst (last slot_hashes));
            slots = filter (\<lambda>s. s \<ge> earliest_slot_in_history) (vote_slots v) in
        if slots = [] then Some (Inl VotesTooOldAllFiltered)
        else process_vote_unfiltered vi vote_state slots v slot_hashes epoch current_slot)"

definition process_vote_unchecked :: "vote_interface \<Rightarrow> vote_state_v4 \<Rightarrow> vote \<Rightarrow> (vote_error + vote_state_v4) option" where
  "process_vote_unchecked vi vote_state v =
     (if vote_slots v = [] then Some (Inl EmptySlots)
      else
        let slot_hashes = map (\<lambda>s. (s, vote_hash v)) (rev (vote_slots v)) in
        process_vote_unfiltered vi vote_state (vote_slots v) v slot_hashes (current_epoch vote_state) 0)"

text \<open>The result is discarded, so on an error the state stays as it was.\<close>

definition process_slot_vote_unchecked :: "vote_interface \<Rightarrow> vote_state_v4 \<Rightarrow> slot \<Rightarrow> vote_state_v4 option" where
  "process_slot_vote_unchecked vi vote_state slot =
     map_option (\<lambda>r. case r of Inl _ \<Rightarrow> vote_state | Inr st \<Rightarrow> st)
       (process_vote_unchecked vi vote_state \<lparr>vote_slots = [slot], vote_hash = 0, vote_timestamp = None\<rparr>)"

subsection \<open>What validation establishes\<close>

abbreviation lockouts_of :: "landed_vote list \<Rightarrow> lockout list" where
  "lockouts_of vs \<equiv> map lv_lockout vs"

definition above_root :: "slot option \<Rightarrow> slot \<Rightarrow> bool" where
  "above_root root s \<longleftrightarrow> (\<forall>r. root = Some r \<and> r \<noteq> 0 \<longrightarrow> r < s)"

definition on_top_of :: "vote_interface \<Rightarrow> landed_vote \<Rightarrow> landed_vote \<Rightarrow> bool" where
  "on_top_of vi a b \<longleftrightarrow> vote_slot a < vote_slot b \<and> vote_confirmation_count b < vote_confirmation_count a \<and>
     vote_slot b \<le> last_locked_out_slot vi (lv_lockout a)"

lemma validate_votes_None:
  "validate_votes vi root p vs = None \<longleftrightarrow>
     (\<forall>v \<in> set vs. vote_confirmation_count v \<noteq> 0 \<and>
        vote_confirmation_count v \<le> of_nat (max_lockout_history vi) \<and> above_root root (vote_slot v)) \<and>
     successively (on_top_of vi) (case p of None \<Rightarrow> vs | Some p \<Rightarrow> p # vs)"
proof (induction vs arbitrary: p)
  case Nil
  then show ?case by (cases p) auto
next
  case (Cons v vs)
  have root: "(case root of None \<Rightarrow> False | Some r \<Rightarrow> vote_slot v \<le> r \<and> r \<noteq> 0) \<longleftrightarrow> \<not> above_root root (vote_slot v)"
    by (auto simp: above_root_def not_less split: option.splits)
  show ?case
    using Cons.IH [of "Some v"]
    by (cases p) (auto simp: root on_top_of_def not_less not_le)
qed

lemma tower_ordered_iff:
  assumes "lockout_laws vi"
  shows "tower_ordered vi (lockouts_of vs) \<longleftrightarrow> length vs \<le> max_lockout_history vi \<and>
    (\<forall>v \<in> set vs. vote_confirmation_count v \<noteq> 0 \<and> vote_confirmation_count v \<le> of_nat (max_lockout_history vi)) \<and>
    successively (on_top_of vi) vs"
proof -
  have "unat (of_nat (max_lockout_history vi) :: u32) = max_lockout_history vi"
    using lockout_lawsD(2) [OF assms] by (simp add: unat_of_nat)
  then have "(c :: u32) \<le> of_nat (max_lockout_history vi) \<longleftrightarrow> unat c \<le> max_lockout_history vi" for c
    by (simp add: word_le_nat_alt)
  then show ?thesis
    by (fastforce simp: tower_ordered_def successively_conv_nth on_top_of_def in_set_conv_nth word_neq_0_conv)
qed

lemma slots_strict:
  assumes "successively (on_top_of vi) vs"
  shows "sorted_wrt (<) (map vote_slot vs)"
proof -
  have "successively (\<lambda>a b. vote_slot a < vote_slot b) vs"
    using assms by (rule successively_mono) (simp_all add: on_top_of_def)
  then have "successively (<) (map vote_slot vs)"
    by (simp add: successively_map)
  then show ?thesis
    by (subst (asm) successively_iff_sorted_wrt_strong) auto
qed

subsection \<open>What the merge establishes\<close>

lemma lockouts_set_latency [simp]: "lv_lockout (set_latency s v) = lv_lockout v"
  by (simp add: set_latency_def)

lemma match_votes_lockouts: "match_votes vi cs ns = Inr ns' \<Longrightarrow> lockouts_of ns' = lockouts_of ns"
proof (induction vi cs ns arbitrary: ns' rule: match_votes.induct)
  case (3 vi c cs n ns)
  consider "vote_slot c < vote_slot n" | "vote_slot c = vote_slot n" | "vote_slot n < vote_slot c"
    by fastforce
  then show ?case
  proof cases
    case 1
    then show ?thesis
      using "3.prems" "3.IH"(1) by (simp split: if_splits)
  next
    case 2
    then show ?thesis
      using "3.prems" "3.IH"(2) by (auto simp: map_sum_Inr_iff split: if_splits)
  next
    case 3
    then have "\<not> vote_slot c < vote_slot n" "vote_slot c \<noteq> vote_slot n"
      by auto
    then show ?thesis
      using "3.prems" "3.IH"(3) by (auto simp: map_sum_Inr_iff)
  qed
qed simp_all

text \<open>A current vote is confirmed again with at least as many confirmations, or it had expired.\<close>

definition respects_vote :: "vote_interface \<Rightarrow> landed_vote list \<Rightarrow> landed_vote \<Rightarrow> bool" where
  "respects_vote vi ns c \<longleftrightarrow>
     (\<exists>n \<in> set ns. vote_slot n = vote_slot c \<and> vote_confirmation_count c \<le> vote_confirmation_count n) \<or>
     (vote_slot c \<notin> vote_slot ` set ns \<and>
      (\<forall>n \<in> set ns. vote_slot c < vote_slot n \<longrightarrow> last_locked_out_slot vi (lv_lockout c) < vote_slot n))"

lemma match_votes_respects:
  assumes "match_votes vi cs ns = Inr ns'"
    and "sorted_wrt (<) (map vote_slot cs)" and "sorted_wrt (<) (map vote_slot ns)"
    and "ns \<noteq> []" and "c \<in> set cs" and "vote_slot c < vote_slot (last ns)"
  shows "respects_vote vi ns c"
  using assms
proof (induction vi cs ns arbitrary: ns' rule: match_votes.induct)
  case (3 vi d cs n ns)
  have sorted: "\<forall>m \<in> set ns. vote_slot n < vote_slot m" "\<forall>e \<in> set cs. vote_slot d < vote_slot e"
    "sorted_wrt (<) (map vote_slot cs)" "sorted_wrt (<) (map vote_slot ns)"
    using "3.prems"(2,3) by auto
  consider (lt) "vote_slot d < vote_slot n" | (eq) "vote_slot d = vote_slot n" | (gt) "vote_slot n < vote_slot d"
    by fastforce
  then show ?case
  proof cases
    case lt
    then have expired: "last_locked_out_slot vi (lv_lockout d) < vote_slot n"
      and rest: "match_votes vi cs (n # ns) = Inr ns'"
      using "3.prems"(1) by (auto simp: not_le split: if_splits)
    show ?thesis
    proof (cases "c = d")
      case True
      then show ?thesis
        using expired lt sorted(1) by (fastforce simp: respects_vote_def)
    next
      case False
      then show ?thesis
        using "3.IH"(1) [OF lt _ rest] expired sorted(3) "3.prems"(3-6) by (simp add: not_le)
    qed
  next
    case eq
    then obtain ns1 where conf: "\<not> vote_confirmation_count n < vote_confirmation_count d"
      and rest: "match_votes vi cs ns = Inr ns1"
      using "3.prems"(1) by (auto simp: map_sum_Inr_iff split: if_splits)
    show ?thesis
    proof (cases "c = d")
      case True
      then show ?thesis
        using conf eq by (auto simp: respects_vote_def not_less)
    next
      case False
      then have c: "c \<in> set cs" "vote_slot n < vote_slot c"
        using "3.prems"(5) sorted(2) eq by auto
      then have "ns \<noteq> []"
        using "3.prems"(6) by auto
      then have "respects_vote vi ns c"
        using "3.IH"(2) [OF _ eq conf rest sorted(3,4)] c "3.prems"(6) eq by simp
      then show ?thesis
        using c(2) by (auto simp: respects_vote_def)
    qed
  next
    case gt
    then have ne: "\<not> vote_slot d < vote_slot n" "vote_slot d \<noteq> vote_slot n"
      by auto
    then obtain ns1 where rest: "match_votes vi (d # cs) ns = Inr ns1"
      using "3.prems"(1) by (auto simp: map_sum_Inr_iff)
    have c: "vote_slot n < vote_slot c"
      using "3.prems"(5) sorted(2) gt by auto
    then have "ns \<noteq> []"
      using "3.prems"(6) by auto
    then have "respects_vote vi ns c"
      using "3.IH"(3) [OF ne rest "3.prems"(2) sorted(4)] "3.prems"(5,6) by simp
    then show ?thesis
      using c by (auto simp: respects_vote_def)
  qed
qed auto

lemma credit_rooted_index:
  assumes "credit_rooted vi st r i earned vs = Some (i', earned')"
  shows "i \<le> i' \<and> i' - i \<le> length vs \<and> (\<forall>v \<in> set (take (i' - i) vs). vote_slot v \<le> r) \<and>
    (\<forall>v w. drop (i' - i) vs = v # w \<longrightarrow> r < vote_slot v)"
  using assms
proof (induction vs arbitrary: i earned)
  case (Cons v vs)
  show ?case
  proof (cases "vote_slot v \<le> r")
    case True
    then obtain e where "credit_rooted vi st r (i + 1) e vs = Some (i', earned')"
      using Cons.prems by (auto split: bind_splits)
    then have "i + 1 \<le> i'" "i' - (i + 1) \<le> length vs" "\<forall>v \<in> set (take (i' - (i + 1)) vs). vote_slot v \<le> r"
      "\<forall>v w. drop (i' - (i + 1)) vs = v # w \<longrightarrow> r < vote_slot v"
      using Cons.IH by blast+
    moreover then have "i' - i = Suc (i' - (i + 1))"
      by simp
    ultimately show ?thesis
      using True by auto
  next
    case False
    then have "i' = i"
      using Cons.prems by simp
    then show ?thesis
      using False by (auto simp: not_le)
  qed
qed simp

subsection \<open>Accepted updates\<close>

definition root_rolls_back :: "slot option \<Rightarrow> slot option \<Rightarrow> bool" where
  "root_rolls_back new current \<longleftrightarrow>
     (case (new, current) of (Some n, Some c) \<Rightarrow> n < c | (None, Some _) \<Rightarrow> True | _ \<Rightarrow> False)"

lemma increment_credits_votes:
  "increment_credits vi epoch credits st = Some st' \<Longrightarrow> v4_votes st' = v4_votes st \<and> v4_root_slot st' = v4_root_slot st"
  by (auto simp: increment_credits_def Let_def split: if_splits prod.splits)

lemma process_timestamp_votes:
  "process_timestamp slot t st = Inr st' \<Longrightarrow> v4_votes st' = v4_votes st \<and> v4_root_slot st' = v4_root_slot st"
  by (auto simp: process_timestamp_def Let_def split: if_splits)

lemma update_stages:
  assumes "process_new_vote_state vi st ns root timestamp epoch current_slot = Some (Inr st')"
  obtains i earned ns' st1 st2 where "ns \<noteq> []" "length ns \<le> max_lockout_history vi"
    "\<not> root_rolls_back root (root_slot st)" "validate_votes vi root None ns = None"
    "(case root of None \<Rightarrow> Some (0, 0) | Some r \<Rightarrow> credit_rooted vi st r 0 0 (votes st)) = Some (i, earned)"
    "match_votes vi (drop i (votes st)) ns = Inr ns'"
    "(if root_slot st \<noteq> root then increment_credits vi epoch earned st else Some st) = Some st1"
    "(case timestamp of None \<Rightarrow> Inr st1
      | Some t \<Rightarrow> process_timestamp (vote_slot (last (map (set_latency current_slot) ns'))) t st1) = Inr st2"
    "st' = set_votes (map (set_latency current_slot) ns') (set_root_slot root st2)"
proof -
  have checks: "ns \<noteq> []" "length ns \<le> max_lockout_history vi" "\<not> root_rolls_back root (root_slot st)"
    "validate_votes vi root None ns = None"
    using assms by (auto simp: process_new_vote_state_def root_rolls_back_def split: if_splits option.splits)
  obtain i earned where credit:
    "(case root of None \<Rightarrow> Some (0, 0) | Some r \<Rightarrow> credit_rooted vi st r 0 0 (votes st)) = Some (i, earned)"
    using assms checks
    by (cases "case root of None \<Rightarrow> Some (0, 0) | Some r \<Rightarrow> credit_rooted vi st r 0 0 (votes st)")
      (auto simp: process_new_vote_state_def root_rolls_back_def)
  obtain ns' where match: "match_votes vi (drop i (votes st)) ns = Inr ns'"
    using assms checks credit
    by (cases "match_votes vi (drop i (votes st)) ns") (auto simp: process_new_vote_state_def root_rolls_back_def)
  obtain st1 where st1: "(if root_slot st \<noteq> root then increment_credits vi epoch earned st else Some st) = Some st1"
    using assms checks credit match
    by (cases "if root_slot st \<noteq> root then increment_credits vi epoch earned st else Some st")
      (simp_all add: process_new_vote_state_def root_rolls_back_def)
  obtain st2 where st2: "(case timestamp of None \<Rightarrow> Inr st1
      | Some t \<Rightarrow> process_timestamp (vote_slot (last (map (set_latency current_slot) ns'))) t st1) = Inr st2"
    using assms checks credit match st1
    by (cases "case timestamp of None \<Rightarrow> Inr st1
      | Some t \<Rightarrow> process_timestamp (vote_slot (last (map (set_latency current_slot) ns'))) t st1")
      (simp_all add: process_new_vote_state_def root_rolls_back_def)
  have "st' = set_votes (map (set_latency current_slot) ns') (set_root_slot root st2)"
    using assms checks credit match st1 st2 by (simp add: process_new_vote_state_def root_rolls_back_def)
  with checks credit match st1 st2 that show ?thesis
    by blast
qed

lemma accepted_update:
  assumes "process_new_vote_state vi st ns root timestamp epoch current_slot = Some (Inr st')"
  obtains i earned ns' where "ns \<noteq> []" "length ns \<le> max_lockout_history vi"
    "\<not> root_rolls_back root (root_slot st)" "validate_votes vi root None ns = None"
    "(case root of None \<Rightarrow> Some (0, 0) | Some r \<Rightarrow> credit_rooted vi st r 0 0 (votes st)) = Some (i, earned)"
    "match_votes vi (drop i (votes st)) ns = Inr ns'"
    "votes st' = map (set_latency current_slot) ns'" "root_slot st' = root"
proof (rule update_stages [OF assms])
  fix i earned ns' st1 st2
  assume checks: "ns \<noteq> []" "length ns \<le> max_lockout_history vi" "\<not> root_rolls_back root (root_slot st)"
      "validate_votes vi root None ns = None"
      "(case root of None \<Rightarrow> Some (0, 0) | Some r \<Rightarrow> credit_rooted vi st r 0 0 (votes st)) = Some (i, earned)"
      "match_votes vi (drop i (votes st)) ns = Inr ns'"
    and "st' = set_votes (map (set_latency current_slot) ns') (set_root_slot root st2)"
  then have "votes st' = map (set_latency current_slot) ns'" "root_slot st' = root"
    by (simp_all add: votes_def root_slot_def set_votes_def set_root_slot_def)
  with checks show thesis
    by (rule that)
qed

text \<open>
  C26. A tower accepted by \<open>process_new_vote_state\<close> becomes the tower of the state, with the root
  that was proposed, and it has the promised shape: strictly growing slots above the root, strictly
  shrinking confirmation counts between one and the limit, and no vote cast on top of an expired
  one. The root never moves back and is never given up.
\<close>

theorem accepted_tower_well_formed:
  assumes "lockout_laws vi"
    and "process_new_vote_state vi st new_state new_root timestamp epoch current_slot = Some (Inr st')"
  shows "lockouts_of (votes st') = lockouts_of new_state \<and> root_slot st' = new_root \<and>
    tower_ordered vi (lockouts_of (votes st')) \<and>
    (\<forall>v \<in> set (votes st'). above_root new_root (vote_slot v)) \<and>
    \<not> root_rolls_back new_root (root_slot st)"
  using assms(2)
proof (rule accepted_update)
  fix i earned ns'
  assume valid: "validate_votes vi new_root None new_state = None" "length new_state \<le> max_lockout_history vi"
    and match: "match_votes vi (drop i (votes st)) new_state = Inr ns'"
    and st': "votes st' = map (set_latency current_slot) ns'" "root_slot st' = new_root"
    and root: "\<not> root_rolls_back new_root (root_slot st)"
  have same: "lockouts_of (votes st') = lockouts_of new_state"
    using match_votes_lockouts [OF match] by (simp add: st' comp_def)
  moreover have "tower_ordered vi (lockouts_of new_state)"
    using valid by (simp add: tower_ordered_iff [OF assms(1)] validate_votes_None)
  moreover have "\<forall>v \<in> set (votes st'). above_root new_root (vote_slot v)"
  proof -
    have "\<forall>l \<in> set (lockouts_of new_state). above_root new_root (lo_slot l)"
      using valid by (simp add: validate_votes_None)
    then show ?thesis
      unfolding same [symmetric] by simp
  qed
  ultimately show ?thesis
    using st'(2) root by simp
qed

lemma respects_vote_cong:
  assumes "lockouts_of ns = lockouts_of ms"
  shows "respects_vote vi ns c \<longleftrightarrow> respects_vote vi ms c"
proof -
  have char: "respects_vote vi vs c \<longleftrightarrow>
     (\<exists>l \<in> lv_lockout ` set vs. lo_slot l = vote_slot c \<and> vote_confirmation_count c \<le> lo_confirmation_count l) \<or>
     (vote_slot c \<notin> lo_slot ` lv_lockout ` set vs \<and>
      (\<forall>l \<in> lv_lockout ` set vs. vote_slot c < lo_slot l \<longrightarrow> last_locked_out_slot vi (lv_lockout c) < lo_slot l))" for vs
    by (simp add: respects_vote_def image_image)
  have same: "lv_lockout ` set ns = lv_lockout ` set ms"
    using assms by (metis set_map)
  show ?thesis
    unfolding char same by (rule refl)
qed

lemma rooted_or_respected:
  assumes update: "process_new_vote_state vi st ns root timestamp epoch current_slot = Some (Inr st')"
    and sorted: "sorted_wrt (<) (map vote_slot (votes st))"
    and newer: "\<forall>c \<in> set (votes st). vote_slot c < vote_slot (last ns)"
    and c: "c \<in> set (votes st)"
  shows "(\<exists>r. root_slot st' = Some r \<and> vote_slot c \<le> r) \<or> respects_vote vi (votes st') c"
  using update
proof (rule accepted_update)
  fix i earned ns'
  assume ne: "ns \<noteq> []" and valid: "validate_votes vi root None ns = None"
    and credit: "(case root of None \<Rightarrow> Some (0, 0) | Some r \<Rightarrow> credit_rooted vi st r 0 0 (votes st)) = Some (i, earned)"
    and match: "match_votes vi (drop i (votes st)) ns = Inr ns'"
    and st': "votes st' = map (set_latency current_slot) ns'" "root_slot st' = root"
  show ?thesis
  proof (cases "c \<in> set (take i (votes st))")
    case True
    then obtain r where r: "root = Some r"
      using credit by (cases root) auto
    then have "credit_rooted vi st r 0 0 (votes st) = Some (i, earned)"
      using credit by simp
    from credit_rooted_index [OF this] have "vote_slot c \<le> r"
      using True by simp
    then show ?thesis
      using st'(2) r by simp
  next
    case False
    then have "c \<in> set (drop i (votes st))"
      using c by (metis Un_iff append_take_drop_id set_append)
    moreover have "sorted_wrt (<) (map vote_slot (drop i (votes st)))"
      using sorted sorted_wrt_drop by (metis drop_map)
    moreover have "sorted_wrt (<) (map vote_slot ns)"
      using valid by (intro slots_strict [of vi]) (simp add: validate_votes_None)
    ultimately have "respects_vote vi ns c"
      using match_votes_respects [OF match _ _ ne] newer c by blast
    moreover have "lockouts_of (votes st') = lockouts_of ns"
      using match_votes_lockouts [OF match] by (simp add: st'(1) comp_def)
    ultimately show ?thesis
      using respects_vote_cong by blast
  qed
qed

text \<open>
  C11. Tower syncs never break a lockout: when a tower sync is accepted, every vote of the state
  before is either covered by the new root, or is in the new tower with at least as many
  confirmations, or is no longer in it because it had expired before every newer vote of the new
  tower. The new tower ends with a vote newer than all votes before.
\<close>

theorem tower_sync_no_rollback:
  assumes "lockout_laws vi" and "sorted_wrt (>) (map fst slot_hashes)"
    and "sorted_wrt (<) (map vote_slot (votes st))"
    and "do_process_tower_sync vi st slot_hashes epoch slot sync = Some (Inr st')"
  shows "\<forall>c \<in> set (votes st).
    ((\<exists>r. root_slot st' = Some r \<and> vote_slot c \<le> r) \<or> respects_vote vi (votes st') c) \<and>
    vote_slot c < vote_slot (last (votes st'))"
proof
  fix c
  assume c: "c \<in> set (votes st)"
  obtain ls' root' where check: "check_and_filter_proposed_vote_state st (ts_lockouts sync) (ts_root sync)
      (ts_hash sync) slot_hashes = Some (Inr (ls', root'))"
    and update: "process_new_vote_state vi st (map (landed_vote_from vi) ls') root' (ts_timestamp sync) epoch slot =
      Some (Inr st')"
    using assms(4) by (auto simp: do_process_tower_sync_def check_and_apply_def split: option.splits sum.splits)
  have ls': "ls' \<noteq> []" "last ls' = last (ts_lockouts sync)"
    "votes st \<noteq> [] \<longrightarrow> vote_slot (last (votes st)) < lo_slot (last (ts_lockouts sync))"
    using check_and_filter_facts [OF assms(2) check] by blast+
  have last: "vote_slot (last (map (landed_vote_from vi) ls')) = lo_slot (last ls')"
    using ls'(1) by (simp add: last_map lockout_lawsD(8) [OF assms(1)])
  have top: "vote_slot d \<le> vote_slot (last (votes st))" if "d \<in> set (votes st)" for d
    using that assms(3) by (cases "votes st" rule: rev_cases) (auto simp: sorted_wrt_append less_imp_le)
  have newer: "\<forall>d \<in> set (votes st). vote_slot d < vote_slot (last (map (landed_vote_from vi) ls'))"
    unfolding last ls'(2) using top ls'(3) by (metis empty_iff le_less_trans list.set(1))
  have "lockouts_of (votes st') = lockouts_of (map (landed_vote_from vi) ls')"
    using update by (rule accepted_update) (use match_votes_lockouts in \<open>force simp: comp_def\<close>)
  then have "vote_slot (last (votes st')) = vote_slot (last (map (landed_vote_from vi) ls'))"
    using ls'(1) by (metis (no_types, lifting) last_map list.map_disc_iff)
  then show "((\<exists>r. root_slot st' = Some r \<and> vote_slot c \<le> r) \<or> respects_vote vi (votes st') c) \<and>
      vote_slot c < vote_slot (last (votes st'))"
    using rooted_or_respected [OF update assms(3) newer c] newer c by simp
qed

definition example_sync :: tower_sync where
  "example_sync = \<lparr>ts_lockouts = [\<lparr>lo_slot = 4, lo_confirmation_count = 3\<rparr>,
      \<lparr>lo_slot = 5, lo_confirmation_count = 2\<rparr>, \<lparr>lo_slot = 6, lo_confirmation_count = 1\<rparr>],
     ts_root = Some 3, ts_hash = 60, ts_timestamp = Some 1700000001\<rparr>"

lemma example_sync_checked:
  "check_and_filter_proposed_vote_state example_votes (ts_lockouts example_sync) (ts_root example_sync)
     (ts_hash example_sync) [(6, 60), (5, 50), (4, 40), (3, 30)] =
   Some (Inr ([\<lparr>lo_slot = 4, lo_confirmation_count = 3\<rparr>,
      \<lparr>lo_slot = 5, lo_confirmation_count = 2\<rparr>, \<lparr>lo_slot = 6, lo_confirmation_count = 1\<rparr>], Some 3))"
  by code_simp

lemmas example_update_simps = process_new_vote_state_def example_votes_def doubling_lockouts_def votes_def root_slot_def
  credits_for_vote_at_index_def checked_add_def checked_sub_def saturating_add_def increment_credits_def
  enter_epoch_def process_timestamp_def

lemma example_sync_accepted:
  "case do_process_tower_sync doubling_lockouts example_votes [(6, 60), (5, 50), (4, 40), (3, 30)] 0 7 example_sync of
     Some (Inr st') \<Rightarrow> True | _ \<Rightarrow> False"
  unfolding do_process_tower_sync_def check_and_apply_def example_sync_checked
  by (simp add: example_update_simps example_sync_def set_latency_def word_le_nat_alt)

theorem tower_sync_no_rollback_witness:
  "\<exists>st'. do_process_tower_sync doubling_lockouts example_votes [(6, 60), (5, 50), (4, 40), (3, 30)] 0 7 example_sync =
       Some (Inr st') \<and> (\<forall>c \<in> set (votes example_votes). vote_slot c < vote_slot (last (votes st')))"
proof -
  obtain st' where st': "do_process_tower_sync doubling_lockouts example_votes
      [(6, 60), (5, 50), (4, 40), (3, 30)] 0 7 example_sync = Some (Inr st')"
    using example_sync_accepted by (auto split: option.splits sum.splits)
  have "sorted_wrt (<) (map vote_slot (votes example_votes))"
    by (simp add: votes_def example_votes_def)
  then show ?thesis
    using st' tower_sync_no_rollback [OF doubling_lockouts_laws _ _ st'] by auto
qed

lemma example_update:
  "case process_new_vote_state doubling_lockouts example_votes
     [\<lparr>lv_latency = 0, lv_lockout = \<lparr>lo_slot = 6, lo_confirmation_count = 1\<rparr>\<rparr>] (Some 5) None 0 7 of
     Some (Inr st') \<Rightarrow> True | _ \<Rightarrow> False"
  by (simp add: example_update_simps)

theorem accepted_tower_well_formed_witness:
  "\<exists>st'. process_new_vote_state doubling_lockouts example_votes
     [\<lparr>lv_latency = 0, lv_lockout = \<lparr>lo_slot = 6, lo_confirmation_count = 1\<rparr>\<rparr>] (Some 5) None 0 7 = Some (Inr st') \<and>
     tower_ordered doubling_lockouts (lockouts_of (votes st'))"
proof -
  obtain st' where st': "process_new_vote_state doubling_lockouts example_votes
     [\<lparr>lv_latency = 0, lv_lockout = \<lparr>lo_slot = 6, lo_confirmation_count = 1\<rparr>\<rparr>] (Some 5) None 0 7 = Some (Inr st')"
    using example_update by (auto split: option.splits sum.splits)
  then show ?thesis
    using accepted_tower_well_formed [OF doubling_lockouts_laws st'] by blast
qed

subsection \<open>Processing a vote never panics\<close>

lemma credits_le: "unat (credits_for_vote_at_index vi st i) \<le> 255"
proof -
  have "unat (ucast c :: u64) \<le> 255" for c :: u8
  proof -
    have "unat c < 2 ^ 8"
      using unsigned_less [of c] by simp
    then show ?thesis
      by (simp add: unsigned_ucast_eq take_bit_nat_eq_self)
  qed
  then show ?thesis
    by (auto simp: credits_for_vote_at_index_def Let_def split: option.splits)
qed

lemma credit_rooted_total:
  assumes "unat earned + 255 * length vs < 2 ^ 64"
  shows "credit_rooted vi st r i earned vs \<noteq> None"
  using assms
proof (induction vs arbitrary: i earned)
  case (Cons v vs)
  have le: "unat (credits_for_vote_at_index vi st i) \<le> 255"
    by (rule credits_le)
  then have "unat earned + unat (credits_for_vote_at_index vi st i) < 2 ^ 64"
    using Cons.prems by simp
  then obtain e where e: "checked_add earned (credits_for_vote_at_index vi st i) = Some e"
    "unat e = unat earned + unat (credits_for_vote_at_index vi st i)"
    by (auto simp: checked_add_def unat_word_ariths)
  then show ?case
    using Cons.IH [of e "i + 1"] Cons.prems le by simp
qed simp

lemma process_new_vote_state_total:
  assumes "lockout_laws vi" and "ns \<noteq> []" and "length (votes st) < 2 ^ 32"
  shows "process_new_vote_state vi st ns root timestamp epoch current_slot \<noteq> None"
proof -
  obtain i earned where credit:
    "(case root of None \<Rightarrow> Some (0, 0) | Some r \<Rightarrow> credit_rooted vi st r 0 0 (votes st)) = Some (i, earned)"
  proof -
    have "credit_rooted vi st r 0 0 (votes st) \<noteq> None" for r
      using assms(3) by (intro credit_rooted_total) simp
    then show ?thesis
      using that by (cases root) fastforce+
  qed
  obtain st1 where "(if root_slot st \<noteq> root then increment_credits vi epoch earned st else Some st) = Some st1"
    using increment_credits_total [OF assms(1), of epoch earned st] by (cases "root_slot st = root") auto
  then show ?thesis
    using assms(2) credit
    by (auto simp: process_new_vote_state_def Let_def split: option.splits sum.splits)
qed

text \<open>
  C35. Processing a tower sync never panics, for any proposal, as long as the slot hashes are
  ordered and the state has fewer than \<open>2 ^ 32\<close> votes: the checks leave a non-empty proposal and
  the credits of the rooted votes do not overflow.
\<close>

theorem tower_sync_no_panic:
  assumes "lockout_laws vi" and "sorted_wrt (>) (map fst slot_hashes)" and "length (votes st) < 2 ^ 32"
  shows "do_process_tower_sync vi st slot_hashes epoch slot sync \<noteq> None"
proof (cases "check_and_filter_proposed_vote_state st (ts_lockouts sync) (ts_root sync) (ts_hash sync) slot_hashes")
  case None
  then show ?thesis
    using check_and_filter_total [OF assms(2)] by blast
next
  case (Some r)
  show ?thesis
  proof (cases r)
    case (Inl e)
    then show ?thesis
      using Some by (simp add: do_process_tower_sync_def check_and_apply_def)
  next
    case (Inr p)
    obtain ls' root' where p: "p = (ls', root')"
      by (cases p)
    have "ls' \<noteq> []"
      using check_and_filter_facts [OF assms(2)] Some Inr p by blast
    then show ?thesis
      using Some Inr p process_new_vote_state_total [OF assms(1) _ assms(3)]
      by (simp add: do_process_tower_sync_def check_and_apply_def)
  qed
qed

theorem tower_sync_no_panic_witness:
  "do_process_tower_sync doubling_lockouts example_votes [(6, 60), (5, 50), (4, 40), (3, 30)] 0 7 example_sync \<noteq> None"
  using tower_sync_no_panic [OF doubling_lockouts_laws, of "[(6, 60), (5, 50), (4, 40), (3, 30)]" example_votes]
  by (simp add: votes_def example_votes_def)

subsection \<open>Honest votes are accepted\<close>

lemma match_expired:
  assumes "\<forall>e \<in> set es. vote_slot e < vote_slot m \<and> last_locked_out_slot vi (lv_lockout e) < vote_slot m"
  shows "match_votes vi es [m] = Inr [m]"
  using assms by (induction es) (auto simp: not_le)

lemma match_honest:
  assumes "list_all2 (\<lambda>c n. vote_slot c = vote_slot n \<and> vote_confirmation_count c \<le> vote_confirmation_count n) bs ns"
    and "\<forall>e \<in> set es. vote_slot e < vote_slot m \<and> last_locked_out_slot vi (lv_lockout e) < vote_slot m"
  shows "\<exists>ns'. match_votes vi (bs @ es) (ns @ [m]) = Inr ns'"
  using assms(1)
proof (induction bs ns rule: list_all2_induct)
  case Nil
  then show ?case
    using match_expired [OF assms(2)] by auto
next
  case (Cons c cs n ns)
  then show ?case by (auto simp: not_less)
qed

text \<open>The current votes that the new root does not cover.\<close>

lemma credit_rooted_none:
  assumes "credit_rooted vi st r 0 0 vs = Some (i, earned)" and "\<forall>v \<in> set vs. r < vote_slot v"
  shows "i = 0"
proof (rule ccontr)
  assume "i \<noteq> 0"
  then obtain v where "v \<in> set (take i vs)"
    using credit_rooted_index [OF assms(1)] by (cases vs; cases i) auto
  then have "vote_slot v \<le> r" "v \<in> set vs"
    using credit_rooted_index [OF assms(1)] by (auto dest: in_set_takeD)
  then show False
    using assms(2) by (meson not_le)
qed

lemma credit_rooted_first:
  assumes "credit_rooted vi st r 0 0 (v # vs) = Some (i, earned)" and "vote_slot v = r" and "\<forall>v \<in> set vs. r < vote_slot v"
  shows "i = 1"
proof -
  note index = credit_rooted_index [OF assms(1), simplified]
  have "i \<noteq> 0"
  proof
    assume "i = 0"
    then have "r < vote_slot v"
      using index by auto
    then show False
      using assms(2) by simp
  qed
  then obtain k where k: "i = Suc k"
    by (cases i) auto
  have "k = 0"
  proof (rule ccontr)
    assume "k \<noteq> 0"
    then obtain w where "w \<in> set (take k vs)"
      using index k by (cases vs; cases k) auto
    then have "vote_slot w \<le> r" "w \<in> set vs"
      using index k by (auto dest: in_set_takeD)
    then show False
      using assms(3) by (meson not_le)
  qed
  then show ?thesis
    using k by simp
qed

lemma new_tower_votes:
  assumes laws: "lockout_laws vi" and base: "tower_ordered vi base" "tower_deep base" "length base < max_lockout_history vi"
    and top: "base \<noteq> [] \<Longrightarrow> lo_slot (last base) < s \<and> s \<le> last_locked_out_slot vi (last base)"
  obtains base' where
    "tower_double_lockouts vi (base @ [lockout_new vi s]) = base' @ [\<lparr>lo_slot = s, lo_confirmation_count = 1\<rparr>]"
    "list_all2 (\<lambda>c n. lo_slot c = lo_slot n \<and> lo_confirmation_count c \<le> lo_confirmation_count n) base base'"
proof -
  let ?ls = "tower_double_lockouts vi (base @ [lockout_new vi s])"
  note push = push_vote [OF laws base top]
  have "?ls = take (length base) ?ls @ [?ls ! length base]"
    using take_Suc_conv_app_nth [of "length base" ?ls] by simp
  then have "?ls = take (length base) ?ls @ [\<lparr>lo_slot = s, lo_confirmation_count = 1\<rparr>]"
    using push(4) by simp
  moreover have "list_all2 (\<lambda>c n. lo_slot c = lo_slot n \<and> lo_confirmation_count c \<le> lo_confirmation_count n)
      base (take (length base) ?ls)"
    using push(3) by (simp add: list_all2_conv_all_nth)
  ultimately show ?thesis
    using that by blast
qed

lemma process_new_vote_state_accepts:
  assumes "lockout_laws vi" and "ns \<noteq> []" and "length ns \<le> max_lockout_history vi"
    and "\<not> root_rolls_back root (root_slot st)" and "validate_votes vi root None ns = None"
    and "length (votes st) < 2 ^ 32"
    and "\<And>i earned. (case root of None \<Rightarrow> Some (0, 0) | Some r \<Rightarrow> credit_rooted vi st r 0 0 (votes st)) = Some (i, earned) \<Longrightarrow>
      \<exists>ns'. match_votes vi (drop i (votes st)) ns = Inr ns'"
  shows "\<exists>st'. process_new_vote_state vi st ns root None epoch current_slot = Some (Inr st') \<and>
    tower_from_v4 st' = \<lparr>tower_votes = lockouts_of ns, tower_root_slot = root\<rparr>"
proof -
  have "process_new_vote_state vi st ns root None epoch current_slot \<noteq> None"
    by (rule process_new_vote_state_total [OF assms(1,2,6)])
  then obtain res where res: "process_new_vote_state vi st ns root None epoch current_slot = Some res"
    by blast
  have "\<exists>st'. res = Inr st'"
  proof (cases res)
    case (Inl e)
    with res assms(2-5) assms(7) show ?thesis
      by (fastforce simp: process_new_vote_state_def root_rolls_back_def Let_def
          split: bind_splits option.splits sum.splits prod.splits if_splits)
  qed blast
  then obtain st' where st': "process_new_vote_state vi st ns root None epoch current_slot = Some (Inr st')"
    using res by blast
  have "lockouts_of (votes st') = lockouts_of ns" "root_slot st' = root"
    using st' by (rule accepted_update; use match_votes_lockouts in \<open>force simp: comp_def\<close>)+
  then show ?thesis
    using st' by (auto simp: tower_from_v4_def votes_def root_slot_def)
qed

lemma honest_remaining:
  assumes inv: "tower_inv vi (tower_from_v4 st)" and split: "lockouts_of (votes st) = kept @ expired"
    and full: "if length kept = max_lockout_history vi
      then \<exists>r. kept = r # base \<and> root = Some (lo_slot r) else base = kept \<and> root = root_slot st"
    and credit: "(case root of None \<Rightarrow> Some (0, 0) | Some r \<Rightarrow> credit_rooted vi st r 0 0 (votes st)) = Some (i, earned)"
  shows "lockouts_of (drop i (votes st)) = base @ expired"
proof (cases "length kept = max_lockout_history vi")
  case True
  then obtain r where r: "kept = r # base" "root = Some (lo_slot r)"
    using full by auto
  then obtain v vs where v: "votes st = v # vs" "lv_lockout v = r" "lockouts_of vs = base @ expired"
    using split by (cases "votes st") auto
  have "sorted_wrt (<) (map lo_slot (lockouts_of (votes st)))"
    using inv by (intro tower_slots_sorted [of vi]) (simp add: tower_inv_def tower_from_v4_def votes_def)
  then have "\<forall>w \<in> set vs. lo_slot r < vote_slot w"
    by (simp add: v(1,2))
  then have "i = 1"
    using credit credit_rooted_first [of vi st "lo_slot r" v vs i earned] r(2) v(1,2) by simp
  then show ?thesis
    using v by simp
next
  case False
  then have root': "base = kept" "root = root_slot st"
    using full by auto
  have "i = 0"
  proof (cases "root_slot st")
    case None
    then show ?thesis
      using credit root' by simp
  next
    case (Some r)
    then have "\<forall>v \<in> set (votes st). r < vote_slot v"
      using inv by (auto simp: tower_inv_def tower_from_v4_def votes_def root_slot_def)
    then show ?thesis
      using credit root' Some credit_rooted_none [of vi st r "votes st" i earned] by simp
  qed
  then show ?thesis
    using split root' by simp
qed

lemma honest_match:
  assumes laws: "lockout_laws vi" and remaining: "lockouts_of cs = base @ expired"
    and same: "list_all2 (\<lambda>c n. lo_slot c = lo_slot n \<and> lo_confirmation_count c \<le> lo_confirmation_count n) base base'"
    and expired: "\<forall>l \<in> set expired. lo_slot l < s \<and> last_locked_out_slot vi l < s"
  shows "\<exists>ns'. match_votes vi cs (map (landed_vote_from vi) (base' @ [\<lparr>lo_slot = s, lo_confirmation_count = 1\<rparr>])) = Inr ns'"
proof -
  obtain bs es where cs: "cs = bs @ es" "lockouts_of bs = base" "lockouts_of es = expired"
    using remaining by (auto simp: map_eq_append_conv)
  let ?m = "landed_vote_from vi \<lparr>lo_slot = s, lo_confirmation_count = 1\<rparr>"
  have lock: "lv_lockout (landed_vote_from vi l) = l" for l
    by (simp add: lockout_lawsD(8) [OF laws])
  have "list_all2 (\<lambda>c n. vote_slot c = vote_slot n \<and> vote_confirmation_count c \<le> vote_confirmation_count n)
      bs (map (landed_vote_from vi) base')"
    using same unfolding cs(2) [symmetric] by (simp add: list_all2_map1 list_all2_map2 lock)
  moreover have "\<forall>e \<in> set es. vote_slot e < vote_slot ?m \<and> last_locked_out_slot vi (lv_lockout e) < vote_slot ?m"
    using expired unfolding cs(3) [symmetric] by (auto simp: lock)
  ultimately have "\<exists>ns'. match_votes vi (bs @ es) (map (landed_vote_from vi) base' @ [?m]) = Inr ns'"
    by (rule match_honest)
  then show ?thesis
    by (simp add: cs(1))
qed

text \<open>
  C23. A validator that follows its tower is never rejected: if the on-chain state holds the lockouts
  and the root of a well-formed local tower, and the tower votes on a slot above all of them, then
  the new tower, sent without a timestamp, passes all checks of \<open>process_new_vote_state\<close> and becomes
  the on-chain tower.
\<close>

theorem honest_vote_accepted:
  assumes laws: "lockout_laws vi" and inv: "tower_inv vi (tower_from_v4 st)"
    and new: "\<forall>v \<in> set (votes st). vote_slot v < s" and root: "\<forall>r. root_slot st = Some r \<longrightarrow> r < s"
    and vote: "tower_process_next_vote_slot vi s (tower_from_v4 st) = Some t'"
  shows "\<exists>st'. process_new_vote_state vi st (map (landed_vote_from vi) (tower_votes t')) (tower_root_slot t')
      None epoch current_slot = Some (Inr st') \<and> tower_from_v4 st' = t'"
proof -
  let ?t = "tower_from_v4 st" and ?ns = "map (landed_vote_from vi) (tower_votes t')"
  have t: "tower_votes ?t = lockouts_of (votes st)" "tower_root_slot ?t = root_slot st"
    by (simp_all add: tower_from_v4_def votes_def root_slot_def)
  have ns: "lockouts_of ?ns = tower_votes t'"
    by (simp add: comp_def lockout_lawsD(8) [OF laws])
  have below: "\<forall>l \<in> set (tower_votes ?t). lo_slot l < s"
    using new by (simp add: t)
  obtain kept expired base t1 where t1: "tower_process_next_vote_slot vi s ?t = Some t1"
    and split: "tower_votes ?t = kept @ expired" "\<forall>l \<in> set expired. last_locked_out_slot vi l < s"
      "kept \<noteq> [] \<longrightarrow> s \<le> last_locked_out_slot vi (last kept)"
    and full1: "if length kept = max_lockout_history vi
      then \<exists>r. kept = r # base \<and> tower_root_slot t1 = Some (lo_slot r)
      else base = kept \<and> tower_root_slot t1 = tower_root_slot ?t"
    and votes1: "tower_votes t1 = tower_double_lockouts vi (base @ [lockout_new vi s])"
    by (rule tower_next_vote [OF laws inv below])
  have "t1 = t'"
    using t1 vote by simp
  note full = full1 [unfolded this] and votes' = votes1 [unfolded this]
  have inv': "tower_inv vi t'" and mono: "\<not> root_rolls_back (tower_root_slot t') (root_slot st)"
    using tower_next_inv [OF laws inv, of s] root vote t(2)
    by (auto simp: root_rolls_back_def not_less split: option.splits)
  have "base = kept \<and> length kept \<noteq> max_lockout_history vi \<or>
      (\<exists>r. kept = r # base \<and> length kept = max_lockout_history vi)"
    using full by (auto split: if_splits)
  note base = kept_votes [OF inv split(1) below split(3) this]
  obtain base' where new_votes: "tower_votes t' = base' @ [\<lparr>lo_slot = s, lo_confirmation_count = 1\<rparr>]"
    and same: "list_all2 (\<lambda>c n. lo_slot c = lo_slot n \<and> lo_confirmation_count c \<le> lo_confirmation_count n) base base'"
    using votes' by (auto intro: new_tower_votes [OF laws base(1-4)])
  have "\<forall>l \<in> set expired. lo_slot l < s \<and> last_locked_out_slot vi l < s"
    using below split(1,2) by simp
  then have match: "\<exists>ns'. match_votes vi cs ?ns = Inr ns'" if "lockouts_of cs = base @ expired" for cs
    unfolding new_votes using honest_match [OF laws that same] by blast
  note drop = honest_remaining [OF inv split(1) [unfolded t] full [unfolded t]]
  have ordered: "tower_ordered vi (lockouts_of ?ns)"
    unfolding ns using inv' by (simp add: tower_inv_def)
  have above: "\<forall>v \<in> set ?ns. above_root (tower_root_slot t') (vote_slot v)"
    using inv' by (auto simp: tower_inv_def above_root_def lockout_lawsD(8) [OF laws])
  have "length (votes st) \<le> max_lockout_history vi"
    using inv t(1) by (simp add: tower_inv_def tower_ordered_def)
  then have "length (votes st) < 2 ^ 32"
    using lockout_lawsD(2) [OF laws] by simp
  moreover have "?ns \<noteq> []" "length ?ns \<le> max_lockout_history vi" "validate_votes vi (tower_root_slot t') None ?ns = None"
    using new_votes ordered above unfolding tower_ordered_iff [OF laws] validate_votes_None by auto
  ultimately show ?thesis
    using process_new_vote_state_accepts [OF laws _ _ mono, of ?ns epoch current_slot] drop match ns by auto
qed

theorem honest_vote_accepted_witness:
  "\<exists>t' st'. tower_process_next_vote_slot doubling_lockouts 6 (tower_from_v4 example_votes) = Some t' \<and>
     process_new_vote_state doubling_lockouts example_votes
       (map (landed_vote_from doubling_lockouts) (tower_votes t')) (tower_root_slot t') None 0 7 = Some (Inr st') \<and>
     tower_from_v4 st' = t'"
proof -
  obtain t' where t': "tower_process_next_vote_slot doubling_lockouts 6 (tower_from_v4 example_votes) = Some t'"
    using tower_next_inv [OF doubling_lockouts_laws example_tower_inv, of 6]
    by (auto simp: tower_from_v4_def example_votes_def)
  show ?thesis
    using t' honest_vote_accepted [OF doubling_lockouts_laws example_tower_inv _ _ t', of 0 7]
    by (auto simp: votes_def root_slot_def example_votes_def)
qed

text \<open>
  The latency of a vote that stays in the tower is not always kept: a vote that was stored with
  latency zero, as every vote converted from an old vote state is, gets a new latency from the
  slot of the update, although it was already in the state before.
\<close>

lemma zero_latency_recomputed:
  "\<exists>st st'. votes st = [\<lparr>lv_latency = 0, lv_lockout = \<lparr>lo_slot = 4, lo_confirmation_count = 1\<rparr>\<rparr>] \<and>
     process_new_vote_state doubling_lockouts st
       [\<lparr>lv_latency = 0, lv_lockout = \<lparr>lo_slot = 4, lo_confirmation_count = 2\<rparr>\<rparr>,
        \<lparr>lv_latency = 0, lv_lockout = \<lparr>lo_slot = 5, lo_confirmation_count = 1\<rparr>\<rparr>] (Some 3) None 0 7 = Some (Inr st') \<and>
     map lv_latency (votes st') = [3, 2]"
proof -
  let ?st = "example_votes\<lparr>v4_votes := [\<lparr>lv_latency = 0, lv_lockout = \<lparr>lo_slot = 4, lo_confirmation_count = 1\<rparr>\<rparr>]\<rparr>"
  show ?thesis
    by (intro exI [of _ ?st] exI [of _ "?st\<lparr>v4_votes :=
          [\<lparr>lv_latency = 3, lv_lockout = \<lparr>lo_slot = 4, lo_confirmation_count = 2\<rparr>\<rparr>,
           \<lparr>lv_latency = 2, lv_lockout = \<lparr>lo_slot = 5, lo_confirmation_count = 1\<rparr>\<rparr>]\<rparr>"])
      (simp add: example_update_simps set_latency_def compute_vote_latency_def saturating_sub_def
        set_votes_def set_root_slot_def word_le_nat_alt)
qed

end
