(* ===== verification/Transaction_Accounts.thy ===== *)
theory Transaction_Accounts
  imports Prelude
begin

section \<open>The accounts of a transaction\<close>

text \<open>
  The accounts that a transaction has loaded, as \<open>src/transaction-context/src/transaction_accounts.rs\<close>
  keeps them: the fields shared with programs and the private fields in two parallel arrays, a
  borrow counter and a touched flag per account, and the changes of the data length and of the
  lamports since the transaction started.

  \<^item> An index is a \<open>u16\<close>, a length a \<open>nat\<close>; signed integers are \<open>int\<close> with their bounds written out.
  \<^item> The reference count and the spare capacity of an account's buffer have no influence on its
    contents and are left out.
  \<^item> An operation that fails returns its error only: the runtime throws the accounts of a failed
    transaction away.
\<close>

type_synonym index_of_account = u16

type_synonym 'a result = "instruction_error + 'a"

subsection \<open>Results, slices and signed integers\<close>

definition and_then :: "'e + 'a \<Rightarrow> ('a \<Rightarrow> 'e + 'b) \<Rightarrow> 'e + 'b" where
  "and_then m k = (case m of Inl e \<Rightarrow> Inl e | Inr x \<Rightarrow> k x)"

definition ok_or :: "'e \<Rightarrow> 'a option \<Rightarrow> 'e + 'a" where
  "ok_or e x = (case x of None \<Rightarrow> Inl e | Some a \<Rightarrow> Inr a)"

definition ensure :: "bool \<Rightarrow> 'e \<Rightarrow> 'e + unit" where
  "ensure b e = (if b then Inr () else Inl e)"

definition slice_get :: "'a list \<Rightarrow> nat \<Rightarrow> 'a option" where
  "slice_get xs i = (if i < length xs then Some (xs ! i) else None)"

definition sat_i64 :: "int \<Rightarrow> int" where
  "sat_i64 x = max (- (2 ^ 63)) (min (2 ^ 63 - 1) x)"

definition in_i128 :: "int \<Rightarrow> bool" where
  "in_i128 x \<longleftrightarrow> - (2 ^ 127) \<le> x \<and> x < 2 ^ 127"

named_theorems result_ops \<open>results of a sequence of calls, one call at a time\<close>

lemma and_then_simps [simp]: "and_then (Inl e) k = Inl e" "and_then (Inr x) k = k x"
  by (simp_all add: and_then_def)

lemma and_then_Inr [result_ops]: "and_then m k = Inr y \<longleftrightarrow> (\<exists>x. m = Inr x \<and> k x = Inr y)"
  by (simp add: and_then_def split: sum.splits)

lemma ok_or_simps [simp]: "ok_or e None = Inl e" "ok_or e (Some x) = Inr x"
  by (simp_all add: ok_or_def)

lemma ok_or_Inr [result_ops]: "ok_or e x = Inr y \<longleftrightarrow> x = Some y"
  by (simp add: ok_or_def split: option.splits)

lemma ensure_Inr [result_ops]: "ensure b e = Inr u \<longleftrightarrow> b"
  by (simp add: ensure_def)

lemma ensure_simps [simp]: "ensure True e = Inr ()" "ensure False e = Inl e"
  by (simp_all add: ensure_def)

lemma slice_get_Some [result_ops]: "slice_get xs i = Some x \<longleftrightarrow> i < length xs \<and> xs ! i = x"
  by (auto simp: slice_get_def)

lemma sat_i64_id: "- (2 ^ 63) \<le> x \<Longrightarrow> x < 2 ^ 63 \<Longrightarrow> sat_i64 x = x"
  by (simp add: sat_i64_def)

subsection \<open>State\<close>

record vm_slice =
  vs_ptr :: u64
  vs_len :: u64

definition vm_slice_set_len :: "u64 \<Rightarrow> vm_slice \<Rightarrow> vm_slice" where
  "vm_slice_set_len n s = s\<lparr>vs_len := n\<rparr>"

definition vm_slice_end :: "u64 \<Rightarrow> vm_slice \<Rightarrow> u64" where
  "vm_slice_end element_size s = saturating_add (vs_ptr s) (saturating_mul (vs_len s) element_size)"

record account_shared_fields =
  sf_key :: pubkey
  sf_owner :: pubkey
  sf_lamports :: u64
  sf_payload :: vm_slice

record account_private_fields =
  pf_rent_epoch :: u64
  pf_executable :: bool
  pf_payload :: "u8 list"

text \<open>The account type of the crate \<open>solana-account\<close>, as it enters and leaves a transaction.\<close>

record account_shared_data =
  acc_lamports :: u64
  acc_data :: "u8 list"
  acc_owner :: pubkey
  acc_executable :: bool
  acc_rent_epoch :: u64

record transaction_accounts =
  ta_shared :: "account_shared_fields list"
  ta_private :: "account_private_fields list"
  ta_borrow_counters :: "int list"
  ta_touched_flags :: "bool list"
  ta_resize_delta :: int
  ta_lamports_delta :: int

definition guest_region_size :: u64 where
  "guest_region_size = 2 ^ 32"

definition guest_account_payload_base_address :: u64 where
  "guest_account_payload_base_address = 8 * guest_region_size"

definition max_account_data_len :: nat where
  "max_account_data_len = 10 * 1024 * 1024"

definition max_account_data_growth_per_transaction :: int where
  "max_account_data_growth_per_transaction = int max_account_data_len * 2"

definition transaction_accounts_new :: "(pubkey \<times> account_shared_data) list \<Rightarrow> transaction_accounts" where
  "transaction_accounts_new accounts = \<lparr>
     ta_shared = map (\<lambda>(idx, key, acc). \<lparr>
         sf_key = key, sf_owner = acc_owner acc, sf_lamports = acc_lamports acc,
         sf_payload = \<lparr>
           vs_ptr = saturating_add guest_account_payload_base_address
                      (saturating_mul guest_region_size (of_nat idx)),
           vs_len = of_nat (length (acc_data acc))\<rparr>\<rparr>) (enumerate 0 accounts),
     ta_private = map (\<lambda>(key, acc). \<lparr>
         pf_rent_epoch = acc_rent_epoch acc, pf_executable = acc_executable acc,
         pf_payload = acc_data acc\<rparr>) accounts,
     ta_borrow_counters = replicate (length accounts) 0,
     ta_touched_flags = replicate (length accounts) False,
     ta_resize_delta = 0,
     ta_lamports_delta = 0\<rparr>"

subsection \<open>Operations\<close>

definition touch :: "index_of_account \<Rightarrow> transaction_accounts \<Rightarrow> transaction_accounts result" where
  "touch index ta =
     (if unat index < length (ta_touched_flags ta)
      then Inr (ta\<lparr>ta_touched_flags := (ta_touched_flags ta)[unat index := True]\<rparr>)
      else Inl MissingAccount)"

definition update_accounts_resize_delta :: "nat \<Rightarrow> nat \<Rightarrow> transaction_accounts \<Rightarrow> transaction_accounts result" where
  "update_accounts_resize_delta old_len new_len ta =
     Inr (ta\<lparr>ta_resize_delta := sat_i64 (ta_resize_delta ta + sat_i64 (int new_len - int old_len))\<rparr>)"

definition can_data_be_resized :: "nat \<Rightarrow> nat \<Rightarrow> transaction_accounts \<Rightarrow> unit result" where
  "can_data_be_resized old_len new_len ta =
     (if max_account_data_len < new_len then Inl InvalidRealloc
      else if max_account_data_growth_per_transaction
                < sat_i64 (ta_resize_delta ta + sat_i64 (int new_len - int old_len))
      then Inl MaxAccountsDataAllocationsExceeded
      else Inr ())"

definition add_lamports_delta :: "int \<Rightarrow> transaction_accounts \<Rightarrow> transaction_accounts result" where
  "add_lamports_delta balance ta =
     (if in_i128 (ta_lamports_delta ta + balance)
      then Inr (ta\<lparr>ta_lamports_delta := ta_lamports_delta ta + balance\<rparr>)
      else Inl ArithmeticOverflow)"

definition account_key :: "index_of_account \<Rightarrow> transaction_accounts \<Rightarrow> pubkey option" where
  "account_key index ta = map_option sf_key (slice_get (ta_shared ta) (unat index))"

definition create_from_existing :: "account_shared_fields \<Rightarrow> account_private_fields \<Rightarrow> account_shared_data" where
  "create_from_existing sf pf = \<lparr>
     acc_lamports = sf_lamports sf, acc_data = pf_payload pf, acc_owner = sf_owner sf,
     acc_executable = pf_executable pf, acc_rent_epoch = pf_rent_epoch pf\<rparr>"

definition deconstruct_into_keyed_account_shared_data ::
  "transaction_accounts \<Rightarrow> (pubkey \<times> account_shared_data) list" where
  "deconstruct_into_keyed_account_shared_data ta =
     map (\<lambda>(sf, pf). (sf_key sf, create_from_existing sf pf)) (zip (ta_shared ta) (ta_private ta))"

definition deconstruct_into_account_shared_data :: "transaction_accounts \<Rightarrow> account_shared_data list" where
  "deconstruct_into_account_shared_data ta =
     map (\<lambda>(sf, pf). create_from_existing sf pf) (zip (ta_shared ta) (ta_private ta))"

definition take_accounts :: "transaction_accounts \<Rightarrow> (pubkey \<times> account_shared_data) list \<times> bool list \<times> int" where
  "take_accounts ta =
     (deconstruct_into_keyed_account_shared_data ta, ta_touched_flags ta, ta_resize_delta ta)"

subsection \<open>Borrow counters\<close>

text \<open>The counter is an \<open>i8\<close>: the number of readers, or \<open>-1\<close> while the account is borrowed for writing.\<close>

definition sat_i8 :: "int \<Rightarrow> int" where
  "sat_i8 x = max (- 128) (min 127 x)"

definition bc_is_writing :: "int \<Rightarrow> bool" where
  "bc_is_writing counter \<longleftrightarrow> counter < 0"

definition bc_is_reading :: "int \<Rightarrow> bool" where
  "bc_is_reading counter \<longleftrightarrow> 0 < counter"

definition bc_try_borrow :: "int \<Rightarrow> int result" where
  "bc_try_borrow counter =
     (if bc_is_writing counter then Inl AccountBorrowFailed
      else if counter + 1 \<le> 127 then Inr (counter + 1)
      else Inl AccountBorrowFailed)"

definition bc_try_borrow_mut :: "int \<Rightarrow> int result" where
  "bc_try_borrow_mut counter =
     (if bc_is_writing counter \<or> bc_is_reading counter then Inl AccountBorrowFailed
      else Inr (sat_i8 (counter - 1)))"

definition bc_release_borrow :: "int \<Rightarrow> int" where
  "bc_release_borrow counter = sat_i8 (counter - 1)"

definition bc_release_borrow_mut :: "int \<Rightarrow> int" where
  "bc_release_borrow_mut counter = sat_i8 (counter + 1)"

definition try_borrow_mut :: "index_of_account \<Rightarrow> transaction_accounts \<Rightarrow> transaction_accounts result" where
  "try_borrow_mut index ta =
     and_then (ok_or MissingAccount (slice_get (ta_borrow_counters ta) (unat index))) (\<lambda>counter.
     and_then (bc_try_borrow_mut counter) (\<lambda>counter'.
     Inr (ta\<lparr>ta_borrow_counters := (ta_borrow_counters ta)[unat index := counter']\<rparr>)))"

definition try_borrow :: "index_of_account \<Rightarrow> transaction_accounts \<Rightarrow> transaction_accounts result" where
  "try_borrow index ta =
     and_then (ok_or MissingAccount (slice_get (ta_borrow_counters ta) (unat index))) (\<lambda>counter.
     and_then (bc_try_borrow counter) (\<lambda>counter'.
     Inr (ta\<lparr>ta_borrow_counters := (ta_borrow_counters ta)[unat index := counter']\<rparr>)))"

text \<open>Dropping a reference: a mutable one also stores the length of the data for the program.\<close>

definition drop_account_ref :: "index_of_account \<Rightarrow> transaction_accounts \<Rightarrow> transaction_accounts" where
  "drop_account_ref index ta = ta\<lparr>ta_borrow_counters :=
     (ta_borrow_counters ta)[unat index := bc_release_borrow (ta_borrow_counters ta ! unat index)]\<rparr>"

definition drop_account_ref_mut :: "index_of_account \<Rightarrow> transaction_accounts \<Rightarrow> transaction_accounts" where
  "drop_account_ref_mut index ta = ta\<lparr>
     ta_shared := (ta_shared ta)[unat index := (ta_shared ta ! unat index)\<lparr>sf_payload :=
       vm_slice_set_len (of_nat (length (pf_payload (ta_private ta ! unat index))))
         (sf_payload (ta_shared ta ! unat index))\<rparr>],
     ta_borrow_counters :=
       (ta_borrow_counters ta)[unat index := bc_release_borrow_mut (ta_borrow_counters ta ! unat index)]\<rparr>"

text \<open>
  The counter of one account along every sequence of successful borrows and drops, with the
  number of readers and of writers that hold a reference.
\<close>

inductive borrow_trace :: "nat \<Rightarrow> nat \<Rightarrow> int \<Rightarrow> bool" where
  fresh: "borrow_trace 0 0 0"
| borrow: "borrow_trace r w c \<Longrightarrow> bc_try_borrow c = Inr c' \<Longrightarrow> borrow_trace (Suc r) w c'"
| borrow_mut: "borrow_trace r w c \<Longrightarrow> bc_try_borrow_mut c = Inr c' \<Longrightarrow> borrow_trace r (Suc w) c'"
| release: "borrow_trace (Suc r) w c \<Longrightarrow> borrow_trace r w (bc_release_borrow c)"
| release_mut: "borrow_trace r (Suc w) c \<Longrightarrow> borrow_trace r w (bc_release_borrow_mut c)"

inductive_cases borrow_traceE: "borrow_trace r w c"

lemmas borrow_counter_defs =
  bc_is_writing_def bc_is_reading_def bc_try_borrow_def bc_try_borrow_mut_def
  bc_release_borrow_def bc_release_borrow_mut_def sat_i8_def

lemma borrow_trace_counter:
  "borrow_trace r w c \<Longrightarrow> (w = 0 \<and> c = int r \<and> r \<le> 127) \<or> (w = 1 \<and> r = 0 \<and> c = - 1)"
  by (induction rule: borrow_trace.induct) (auto simp: borrow_counter_defs split: if_splits)

text \<open>
  C30. References to an account are exclusive: along every sequence of borrows and drops there is at
  most one reference for writing, never together with one for reading, and at most 127 references
  for reading; the counter never saturates, so that it is back at zero exactly when every
  reference was dropped.
\<close>

theorem borrows_exclusive:
  assumes "borrow_trace readers writers counter"
  shows "writers \<le> 1 \<and> (writers = 1 \<longrightarrow> readers = 0) \<and> readers \<le> 127 \<and>
    (counter = 0 \<longleftrightarrow> readers = 0 \<and> writers = 0) \<and> (bc_is_writing counter \<longleftrightarrow> writers = 1)"
  using borrow_trace_counter [OF assms] by (auto simp: bc_is_writing_def)

theorem borrows_exclusive_witness:
  "borrow_trace 2 0 2 \<and> \<not> bc_is_writing 2"
proof -
  have "borrow_trace 1 0 1"
    using borrow_trace.borrow [OF borrow_trace.fresh, of 1] by (simp add: borrow_counter_defs)
  then have t: "borrow_trace 2 0 2"
    using borrow_trace.borrow [of 1 0 1 2] by (simp add: borrow_counter_defs numeral_2_eq_2)
  then show ?thesis
    using borrows_exclusive [OF t] by simp
qed

end
