(* ===== verification/Borrowed_Account.thy ===== *)
theory Borrowed_Account
  imports Transaction_Accounts
begin

section \<open>Accounts borrowed by an instruction\<close>

text \<open>
  The operations a program has on an account of its instruction, from
  \<open>src/transaction-context/src/instruction_accounts.rs\<close>. They are the place where the runtime
  enforces its rules: who may spend lamports, change data, resize, or assign a new owner. A
  borrowed account is a view on one index of the accounts of the transaction, so each operation
  takes the view and the accounts and returns the accounts. An index is within the accounts for
  as long as the account is borrowed.
\<close>

record instruction_account =
  ia_index_in_transaction :: index_of_account
  ia_is_signer :: u8
  ia_is_writable :: u8

definition instruction_account_new :: "index_of_account \<Rightarrow> bool \<Rightarrow> bool \<Rightarrow> instruction_account" where
  "instruction_account_new index is_signer is_writable = \<lparr>
     ia_index_in_transaction = index,
     ia_is_signer = of_bool is_signer,
     ia_is_writable = of_bool is_writable\<rparr>"

definition ia_signer :: "instruction_account \<Rightarrow> bool" where
  "ia_signer ia \<longleftrightarrow> ia_is_signer ia \<noteq> 0"

definition ia_writable :: "instruction_account \<Rightarrow> bool" where
  "ia_writable ia \<longleftrightarrow> ia_is_writable ia \<noteq> 0"

definition ia_set_is_signer :: "bool \<Rightarrow> instruction_account \<Rightarrow> instruction_account" where
  "ia_set_is_signer v ia = ia\<lparr>ia_is_signer := of_bool v\<rparr>"

definition ia_set_is_writable :: "bool \<Rightarrow> instruction_account \<Rightarrow> instruction_account" where
  "ia_set_is_writable v ia = ia\<lparr>ia_is_writable := of_bool v\<rparr>"

record borrowed_account =
  ba_instruction_account :: instruction_account
  ba_program_index :: index_of_account

abbreviation ba_index :: "borrowed_account \<Rightarrow> nat" where
  "ba_index b \<equiv> unat (ia_index_in_transaction (ba_instruction_account b))"

abbreviation shared_at :: "transaction_accounts \<Rightarrow> nat \<Rightarrow> account_shared_fields" where
  "shared_at ta i \<equiv> ta_shared ta ! i"

abbreviation private_at :: "transaction_accounts \<Rightarrow> nat \<Rightarrow> account_private_fields" where
  "private_at ta i \<equiv> ta_private ta ! i"

definition upd_shared :: "nat \<Rightarrow> (account_shared_fields \<Rightarrow> account_shared_fields) \<Rightarrow> transaction_accounts \<Rightarrow> transaction_accounts" where
  "upd_shared i f ta = ta\<lparr>ta_shared := (ta_shared ta)[i := f (shared_at ta i)]\<rparr>"

definition upd_private :: "nat \<Rightarrow> (account_private_fields \<Rightarrow> account_private_fields) \<Rightarrow> transaction_accounts \<Rightarrow> transaction_accounts" where
  "upd_private i f ta = ta\<lparr>ta_private := (ta_private ta)[i := f (private_at ta i)]\<rparr>"

subsection \<open>Reading\<close>

definition get_key :: "borrowed_account \<Rightarrow> transaction_accounts \<Rightarrow> pubkey" where
  "get_key b ta = sf_key (shared_at ta (ba_index b))"

definition get_owner :: "borrowed_account \<Rightarrow> transaction_accounts \<Rightarrow> pubkey" where
  "get_owner b ta = sf_owner (shared_at ta (ba_index b))"

definition get_lamports :: "borrowed_account \<Rightarrow> transaction_accounts \<Rightarrow> u64" where
  "get_lamports b ta = sf_lamports (shared_at ta (ba_index b))"

definition get_data :: "borrowed_account \<Rightarrow> transaction_accounts \<Rightarrow> u8 list" where
  "get_data b ta = pf_payload (private_at ta (ba_index b))"

definition is_executable :: "borrowed_account \<Rightarrow> transaction_accounts \<Rightarrow> bool" where
  "is_executable b ta = pf_executable (private_at ta (ba_index b))"

definition get_rent_epoch :: "borrowed_account \<Rightarrow> transaction_accounts \<Rightarrow> u64" where
  "get_rent_epoch b ta = pf_rent_epoch (private_at ta (ba_index b))"

definition is_signer :: "borrowed_account \<Rightarrow> bool" where
  "is_signer b \<longleftrightarrow> ia_signer (ba_instruction_account b)"

definition is_writable :: "borrowed_account \<Rightarrow> bool" where
  "is_writable b \<longleftrightarrow> ia_writable (ba_instruction_account b)"

definition is_owned_by_current_program :: "borrowed_account \<Rightarrow> transaction_accounts \<Rightarrow> bool" where
  "is_owned_by_current_program b ta =
     (case account_key (ba_program_index b) ta of
        None \<Rightarrow> False
      | Some program_key \<Rightarrow> program_key = get_owner b ta)"

definition can_data_be_changed :: "borrowed_account \<Rightarrow> transaction_accounts \<Rightarrow> unit result" where
  "can_data_be_changed b ta =
     (if \<not> is_writable b then Inl ReadonlyDataModified
      else if \<not> is_owned_by_current_program b ta then Inl ExternalAccountDataModified
      else Inr ())"

definition ba_can_data_be_resized :: "borrowed_account \<Rightarrow> nat \<Rightarrow> transaction_accounts \<Rightarrow> unit result" where
  "ba_can_data_be_resized b new_len ta =
     and_then (can_data_be_resized (length (get_data b ta)) new_len ta) (\<lambda>_. can_data_be_changed b ta)"

definition is_rent_exempt_at_data_length ::
  "(u64 \<Rightarrow> nat \<Rightarrow> bool) \<Rightarrow> borrowed_account \<Rightarrow> nat \<Rightarrow> transaction_accounts \<Rightarrow> bool" where
  "is_rent_exempt_at_data_length is_exempt b data_length ta = is_exempt (get_lamports b ta) data_length"

text \<open>The check for zeroed data compares blocks of 1024 bytes and then the rest.\<close>

definition zeros_len :: nat where
  "zeros_len = 1024"

function as_chunks :: "u8 list \<Rightarrow> u8 list list \<times> u8 list" where
  "as_chunks buf =
     (if length buf < zeros_len then ([], buf)
      else let (chunks, remainder) = as_chunks (drop zeros_len buf)
           in (take zeros_len buf # chunks, remainder))"
  by auto
termination
  by (relation "measure length") (auto simp: zeros_len_def)

declare as_chunks.simps [simp del]

definition is_zeroed :: "u8 list \<Rightarrow> bool" where
  "is_zeroed buf =
     (let (chunks, remainder) = as_chunks buf
      in list_all (\<lambda>chunk. chunk = replicate zeros_len 0) chunks \<and>
         remainder = take (length remainder) (replicate zeros_len 0))"

subsection \<open>Writing\<close>

definition ba_touch :: "borrowed_account \<Rightarrow> transaction_accounts \<Rightarrow> transaction_accounts result" where
  "ba_touch b ta = touch (ia_index_in_transaction (ba_instruction_account b)) ta"

definition ba_update_accounts_resize_delta :: "borrowed_account \<Rightarrow> nat \<Rightarrow> transaction_accounts \<Rightarrow> transaction_accounts result" where
  "ba_update_accounts_resize_delta b new_len ta =
     update_accounts_resize_delta (length (get_data b ta)) new_len ta"

definition set_owner :: "borrowed_account \<Rightarrow> pubkey \<Rightarrow> transaction_accounts \<Rightarrow> transaction_accounts result" where
  "set_owner b pubkey ta =
     (if \<not> is_owned_by_current_program b ta then Inl ModifiedProgramId
      else if \<not> is_writable b then Inl ModifiedProgramId
      else if \<not> is_zeroed (get_data b ta) then Inl ModifiedProgramId
      else if get_owner b ta = pubkey then Inr ta
      else and_then (ba_touch b ta) (\<lambda>ta.
        Inr (upd_shared (ba_index b) (sf_owner_update (\<lambda>_. pubkey)) ta)))"

definition set_lamports :: "borrowed_account \<Rightarrow> u64 \<Rightarrow> transaction_accounts \<Rightarrow> transaction_accounts result" where
  "set_lamports b lamports ta =
     (if \<not> is_owned_by_current_program b ta \<and> lamports < get_lamports b ta
      then Inl ExternalAccountLamportSpend
      else if \<not> is_writable b then Inl ReadonlyLamportChange
      else if get_lamports b ta = lamports then Inr ta
      else and_then (add_lamports_delta (uint lamports - uint (get_lamports b ta)) ta) (\<lambda>ta.
           and_then (ba_touch b ta) (\<lambda>ta.
             Inr (upd_shared (ba_index b) (sf_lamports_update (\<lambda>_. lamports)) ta))))"

definition checked_add_lamports :: "borrowed_account \<Rightarrow> u64 \<Rightarrow> transaction_accounts \<Rightarrow> transaction_accounts result" where
  "checked_add_lamports b lamports ta =
     and_then (ok_or ArithmeticOverflow (checked_add (get_lamports b ta) lamports)) (\<lambda>v.
     set_lamports b v ta)"

definition checked_sub_lamports :: "borrowed_account \<Rightarrow> u64 \<Rightarrow> transaction_accounts \<Rightarrow> transaction_accounts result" where
  "checked_sub_lamports b lamports ta =
     and_then (ok_or ArithmeticOverflow (checked_sub (get_lamports b ta) lamports)) (\<lambda>v.
     set_lamports b v ta)"

text \<open>Storing a payload of another length also stores the length for the program.\<close>

definition store_payload :: "nat \<Rightarrow> u8 list \<Rightarrow> transaction_accounts \<Rightarrow> transaction_accounts" where
  "store_payload i data ta =
     upd_shared i (sf_payload_update (vm_slice_set_len (of_nat (length data))))
       (upd_private i (pf_payload_update (\<lambda>_. data)) ta)"

definition get_data_mut :: "borrowed_account \<Rightarrow> transaction_accounts \<Rightarrow> transaction_accounts result" where
  "get_data_mut b ta = and_then (can_data_be_changed b ta) (\<lambda>_. ba_touch b ta)"

definition set_data_from_slice :: "borrowed_account \<Rightarrow> u8 list \<Rightarrow> transaction_accounts \<Rightarrow> transaction_accounts result" where
  "set_data_from_slice b data ta =
     and_then (ba_can_data_be_resized b (length data) ta) (\<lambda>_.
     and_then (ba_touch b ta) (\<lambda>ta.
     and_then (ba_update_accounts_resize_delta b (length data) ta) (\<lambda>ta.
     Inr (store_payload (ba_index b) data ta))))"

definition resize_payload :: "nat \<Rightarrow> u8 list \<Rightarrow> u8 list" where
  "resize_payload new_len data = take new_len data @ replicate (new_len - length data) 0"

definition set_data_length :: "borrowed_account \<Rightarrow> nat \<Rightarrow> transaction_accounts \<Rightarrow> transaction_accounts result" where
  "set_data_length b new_length ta =
     and_then (ba_can_data_be_resized b new_length ta) (\<lambda>_.
     if length (get_data b ta) = new_length then Inr ta
     else and_then (ba_touch b ta) (\<lambda>ta.
          and_then (ba_update_accounts_resize_delta b new_length ta) (\<lambda>ta.
          Inr (store_payload (ba_index b) (resize_payload new_length (get_data b ta)) ta))))"

definition extend_from_slice :: "borrowed_account \<Rightarrow> u8 list \<Rightarrow> transaction_accounts \<Rightarrow> transaction_accounts result" where
  "extend_from_slice b data ta =
     (let new_len = length (get_data b ta) + length data
      in and_then (ba_can_data_be_resized b new_len ta) (\<lambda>_.
         if data = [] then Inr ta
         else and_then (ba_touch b ta) (\<lambda>ta.
              and_then (ba_update_accounts_resize_delta b new_len ta) (\<lambda>ta.
              Inr (store_payload (ba_index b) (get_data b ta @ data) ta)))))"

definition set_executable ::
  "(u64 \<Rightarrow> nat \<Rightarrow> bool) \<Rightarrow> borrowed_account \<Rightarrow> bool \<Rightarrow> transaction_accounts \<Rightarrow> transaction_accounts result" where
  "set_executable is_exempt b executable ta =
     (if \<not> is_exempt (get_lamports b ta) (length (get_data b ta)) then Inl ExecutableAccountNotRentExempt
      else if \<not> is_owned_by_current_program b ta then Inl ExecutableModified
      else if \<not> is_writable b then Inl ExecutableModified
      else if is_executable b ta = executable then Inr ta
      else and_then (ba_touch b ta) (\<lambda>ta.
        Inr (upd_private (ba_index b) (pf_executable_update (\<lambda>_. executable)) ta)))"

text \<open>
  A state is stored with the crate \<open>bincode\<close>: \<open>deserialize\<close> gives no value for bytes that are not
  a state, \<open>serialize\<close> none for a state that cannot be written.
\<close>

definition get_state :: "(u8 list \<Rightarrow> 'a option) \<Rightarrow> borrowed_account \<Rightarrow> transaction_accounts \<Rightarrow> 'a result" where
  "get_state deserialize b ta = ok_or InvalidAccountData (deserialize (get_data b ta))"

definition set_state :: "('a \<Rightarrow> u8 list option) \<Rightarrow> borrowed_account \<Rightarrow> 'a \<Rightarrow> transaction_accounts \<Rightarrow> transaction_accounts result" where
  "set_state serialize b state ta =
     and_then (get_data_mut b ta) (\<lambda>ta.
     and_then (ok_or GenericError (serialize state)) (\<lambda>bytes.
     if length (get_data b ta) < length bytes then Inl AccountDataTooSmall
     else Inr (upd_private (ba_index b)
            (pf_payload_update (\<lambda>data. bytes @ drop (length bytes) data)) ta)))"

end
