(* ===== verification/Account_Rules.thy ===== *)
theory Account_Rules
  imports Borrowed_Account
begin

section \<open>What a program can do to the accounts of its instruction\<close>

text \<open>
  A program changes the accounts only through the operations on borrowed accounts. This theory
  collects them in one step relation and proves what every sequence of steps of one program
  keeps: the rules of the runtime on spending, writing and owning, the balance of the lamports
  and the bound on the growth of the data.
\<close>

subsection \<open>Zeroed data\<close>

lemma as_chunks_concat: "as_chunks buf = (chunks, remainder) \<Longrightarrow>
    buf = concat chunks @ remainder \<and> length remainder < zeros_len"
proof (induction buf arbitrary: chunks remainder rule: as_chunks.induct)
  case (1 buf)
  show ?case
  proof (cases "length buf < zeros_len")
    case True
    then show ?thesis
      using "1.prems" by (simp add: as_chunks.simps)
  next
    case False
    obtain cs r where rest: "as_chunks (drop zeros_len buf) = (cs, r)"
      by fastforce
    with False "1.prems" have "chunks = take zeros_len buf # cs" "remainder = r"
      by (auto simp: as_chunks.simps [of buf])
    moreover have "drop zeros_len buf = concat cs @ r \<and> length r < zeros_len"
      by (rule "1.IH" [OF False rest])
    ultimately show ?thesis
      by (metis append.assoc append_take_drop_id concat.simps(2))
  qed
qed

lemma as_chunks_length: "as_chunks buf = (chunks, remainder) \<Longrightarrow> c \<in> set chunks \<Longrightarrow> length c = zeros_len"
proof (induction buf arbitrary: chunks remainder rule: as_chunks.induct)
  case (1 buf)
  show ?case
  proof (cases "length buf < zeros_len")
    case True
    then show ?thesis
      using "1.prems" by (simp add: as_chunks.simps)
  next
    case False
    obtain cs r where rest: "as_chunks (drop zeros_len buf) = (cs, r)"
      by fastforce
    with False "1.prems"(1) have "chunks = take zeros_len buf # cs"
      by (auto simp: as_chunks.simps [of buf])
    with "1.prems"(2) consider "c = take zeros_len buf" | "c \<in> set cs"
      by auto
    then show ?thesis
      using False "1.IH" [OF False rest] by cases auto
  qed
qed

lemma all_zero_replicate: "set xs \<subseteq> {0} \<longleftrightarrow> xs = replicate (length xs) (0 :: 'a :: zero)"
  by (induction xs) auto

text \<open>
  The check for zeroed data, which compares whole blocks of 1024 bytes, accepts exactly the
  buffers whose bytes are all zero, for every length.
\<close>

lemma is_zeroed_correct: "is_zeroed buf \<longleftrightarrow> set buf \<subseteq> {0}"
proof -
  obtain chunks remainder where split: "as_chunks buf = (chunks, remainder)"
    by fastforce
  note parts = as_chunks_concat [OF split]
  have "list_all (\<lambda>c. c = replicate zeros_len 0) chunks \<longleftrightarrow> (\<forall>c \<in> set chunks. set c \<subseteq> {0})"
    using as_chunks_length [OF split] by (simp add: list_all_iff all_zero_replicate)
  moreover have "remainder = take (length remainder) (replicate zeros_len 0) \<longleftrightarrow> set remainder \<subseteq> {0}"
    using parts by (simp add: all_zero_replicate min_def)
  moreover have "is_zeroed buf \<longleftrightarrow> list_all (\<lambda>c. c = replicate zeros_len 0) chunks \<and>
      remainder = take (length remainder) (replicate zeros_len 0)"
    by (simp add: is_zeroed_def split)
  moreover have "set buf = \<Union> (set ` set chunks) \<union> set remainder"
    using parts by simp
  ultimately show ?thesis
    by blast
qed

subsection \<open>Well-formed accounts and their totals\<close>

definition ta_wf :: "transaction_accounts \<Rightarrow> bool" where
  "ta_wf ta \<longleftrightarrow>
     length (ta_private ta) = length (ta_shared ta) \<and>
     length (ta_borrow_counters ta) = length (ta_shared ta) \<and>
     length (ta_touched_flags ta) = length (ta_shared ta) \<and>
     (\<forall>i < length (ta_shared ta).
        vs_len (sf_payload (shared_at ta i)) = of_nat (length (pf_payload (private_at ta i))))"

definition total_lamports :: "transaction_accounts \<Rightarrow> int" where
  "total_lamports ta = (\<Sum>sf \<leftarrow> ta_shared ta. uint (sf_lamports sf))"

definition initial_lamports :: "transaction_accounts \<Rightarrow> int" where
  "initial_lamports ta = total_lamports ta - ta_lamports_delta ta"

definition total_data :: "transaction_accounts \<Rightarrow> int" where
  "total_data ta = (\<Sum>pf \<leftarrow> ta_private ta. int (length (pf_payload pf)))"

definition data_bounded :: "int \<Rightarrow> transaction_accounts \<Rightarrow> bool" where
  "data_bounded initial ta \<longleftrightarrow>
     total_data ta = initial + ta_resize_delta ta \<and> initial < 2 ^ 62 \<and>
     ta_resize_delta ta \<le> max_account_data_growth_per_transaction"

lemma sum_map_update:
  "i < length xs \<Longrightarrow> (\<Sum>x \<leftarrow> xs[i := y]. f x) = (\<Sum>x \<leftarrow> xs. f x) + f y - (f (xs ! i) :: int)"
  by (induction xs arbitrary: i) (auto split: nat.splits)

lemma member_le_sum: "i < length xs \<Longrightarrow> (\<And>x. 0 \<le> f x) \<Longrightarrow> f (xs ! i) \<le> (\<Sum>x \<leftarrow> xs. f x :: int)"
  by (metis (no_types, lifting) imageE image_set length_map member_le_sum_list nth_map nth_mem)

lemma total_data_nonneg: "0 \<le> total_data ta"
  by (auto simp: total_data_def intro!: sum_list_nonneg)

subsection \<open>Steps of a program\<close>

text \<open>
  One call of an operation on the borrowed account \<open>b\<close> that succeeds. Writing through the slice
  that \<open>get_data_mut\<close> gives can store any bytes of the same length.
\<close>

inductive account_step :: "(u64 \<Rightarrow> nat \<Rightarrow> bool) \<Rightarrow> borrowed_account \<Rightarrow> transaction_accounts \<Rightarrow> transaction_accounts \<Rightarrow> bool"
  for is_exempt b where
  step_owner: "set_owner b pk ta = Inr ta' \<Longrightarrow> account_step is_exempt b ta ta'"
| step_lamports: "set_lamports b l ta = Inr ta' \<Longrightarrow> account_step is_exempt b ta ta'"
| step_data: "set_data_from_slice b bytes ta = Inr ta' \<Longrightarrow> account_step is_exempt b ta ta'"
| step_length: "set_data_length b n ta = Inr ta' \<Longrightarrow> account_step is_exempt b ta ta'"
| step_extend: "extend_from_slice b bytes ta = Inr ta' \<Longrightarrow> account_step is_exempt b ta ta'"
| step_executable: "set_executable is_exempt b e ta = Inr ta' \<Longrightarrow> account_step is_exempt b ta ta'"
| step_write: "get_data_mut b ta = Inr ta1 \<Longrightarrow> length bytes = length (get_data b ta1) \<Longrightarrow>
    account_step is_exempt b ta (upd_private (ba_index b) (pf_payload_update (\<lambda>_. bytes)) ta1)"

definition same_shape :: "transaction_accounts \<Rightarrow> transaction_accounts \<Rightarrow> bool" where
  "same_shape ta ta' \<longleftrightarrow>
     map sf_key (ta_shared ta') = map sf_key (ta_shared ta) \<and>
     map pf_rent_epoch (ta_private ta') = map pf_rent_epoch (ta_private ta) \<and>
     ta_borrow_counters ta' = ta_borrow_counters ta"

text \<open>What a step may change, by the rights that the program has on the account.\<close>

definition obeys_rules :: "borrowed_account \<Rightarrow> transaction_accounts \<Rightarrow> transaction_accounts \<Rightarrow> bool" where
  "obeys_rules b ta ta' \<longleftrightarrow>
     same_shape ta ta' \<and>
     (\<forall>i. i \<noteq> ba_index b \<or> \<not> is_writable b \<longrightarrow> shared_at ta' i = shared_at ta i \<and> private_at ta' i = private_at ta i) \<and>
     (\<not> is_owned_by_current_program b ta \<longrightarrow>
        private_at ta' (ba_index b) = private_at ta (ba_index b) \<and>
        get_owner b ta' = get_owner b ta \<and> get_lamports b ta \<le> get_lamports b ta') \<and>
     (get_owner b ta' \<noteq> get_owner b ta \<longrightarrow> set (get_data b ta') \<subseteq> {0})"

definition keeps_totals :: "transaction_accounts \<Rightarrow> transaction_accounts \<Rightarrow> bool" where
  "keeps_totals ta ta' \<longleftrightarrow>
     ta_wf ta' \<and> initial_lamports ta' = initial_lamports ta \<and>
     (\<forall>initial. data_bounded initial ta \<longrightarrow> data_bounded initial ta')"

subsection \<open>The effect of one step\<close>

definition account_effect ::
  "borrowed_account \<Rightarrow> transaction_accounts \<Rightarrow> transaction_accounts \<Rightarrow> account_shared_fields \<Rightarrow> account_private_fields \<Rightarrow> bool" where
  "account_effect b ta ta' sf pf \<longleftrightarrow>
     is_writable b \<and>
     ta_shared ta' = (ta_shared ta)[ba_index b := sf] \<and>
     ta_private ta' = (ta_private ta)[ba_index b := pf] \<and>
     ta_borrow_counters ta' = ta_borrow_counters ta \<and>
     length (ta_touched_flags ta') = length (ta_touched_flags ta) \<and>
     (sf = shared_at ta (ba_index b) \<and> pf = private_at ta (ba_index b) \<and> ta_touched_flags ta' = ta_touched_flags ta \<or>
      ta_touched_flags ta' = (ta_touched_flags ta)[ba_index b := True]) \<and>
     sf_key sf = sf_key (shared_at ta (ba_index b)) \<and>
     pf_rent_epoch pf = pf_rent_epoch (private_at ta (ba_index b)) \<and>
     vs_len (sf_payload sf) = of_nat (length (pf_payload pf)) \<and>
     ta_lamports_delta ta' = ta_lamports_delta ta + (uint (sf_lamports sf) - uint (get_lamports b ta)) \<and>
     (\<not> is_owned_by_current_program b ta \<longrightarrow>
        pf = private_at ta (ba_index b) \<and> sf_owner sf = get_owner b ta \<and> get_lamports b ta \<le> sf_lamports sf) \<and>
     (sf_owner sf \<noteq> get_owner b ta \<longrightarrow> set (pf_payload pf) \<subseteq> {0}) \<and>
     (ta_resize_delta ta' = ta_resize_delta ta \<and> length (pf_payload pf) = length (get_data b ta) \<or>
      can_data_be_resized (length (get_data b ta)) (length (pf_payload pf)) ta = Inr () \<and>
      ta_resize_delta ta' =
        sat_i64 (ta_resize_delta ta + sat_i64 (int (length (pf_payload pf)) - int (length (get_data b ta)))))"

lemmas reading_defs = get_key_def get_owner_def get_lamports_def get_data_def is_executable_def

lemmas writing_defs = upd_shared_def upd_private_def store_payload_def vm_slice_set_len_def
  ba_touch_def touch_def ba_update_accounts_resize_delta_def update_accounts_resize_delta_def

lemma wf_payload: "ta_wf ta \<Longrightarrow> i < length (ta_shared ta) \<Longrightarrow>
    vs_len (sf_payload (shared_at ta i)) = of_nat (length (pf_payload (private_at ta i)))"
  by (simp add: ta_wf_def)

lemma no_effect:
  assumes "ta_wf ta" "ba_index b < length (ta_shared ta)" "is_writable b"
  shows "account_effect b ta ta (shared_at ta (ba_index b)) (private_at ta (ba_index b))"
  using assms(3) wf_payload [OF assms(1,2)] by (simp add: account_effect_def reading_defs)

lemma set_owner_effect:
  assumes "ta_wf ta" "ba_index b < length (ta_shared ta)" "set_owner b pk ta = Inr ta'"
  shows "\<exists>sf pf. account_effect b ta ta' sf pf"
proof (cases "get_owner b ta = pk")
  case True
  then show ?thesis
    using assms no_effect [OF assms(1,2)] by (auto simp: set_owner_def split: if_splits)
next
  case False
  have "account_effect b ta ta' ((shared_at ta (ba_index b))\<lparr>sf_owner := pk\<rparr>) (private_at ta (ba_index b))"
    using assms(3) False wf_payload [OF assms(1,2)]
    by (auto simp: set_owner_def account_effect_def reading_defs writing_defs is_zeroed_correct result_ops
        split: if_splits)
  then show ?thesis
    by blast
qed

lemma set_lamports_effect:
  assumes "ta_wf ta" "ba_index b < length (ta_shared ta)" "set_lamports b l ta = Inr ta'"
  shows "\<exists>sf pf. account_effect b ta ta' sf pf"
proof (cases "get_lamports b ta = l")
  case True
  then show ?thesis
    using assms no_effect [OF assms(1,2)] by (auto simp: set_lamports_def split: if_splits)
next
  case False
  have "account_effect b ta ta' ((shared_at ta (ba_index b))\<lparr>sf_lamports := l\<rparr>) (private_at ta (ba_index b))"
    using assms(3) False wf_payload [OF assms(1,2)]
    by (auto simp: set_lamports_def add_lamports_delta_def account_effect_def reading_defs writing_defs result_ops
        not_less split: if_splits)
  then show ?thesis
    by blast
qed

lemma resized_effect:
  assumes "ba_can_data_be_resized b (length data) ta = Inr ()" "ba_touch b ta = Inr ta1"
    and "ba_update_accounts_resize_delta b (length data) ta1 = Inr ta2"
  shows "\<exists>sf pf. account_effect b ta (store_payload (ba_index b) data ta2) sf pf"
proof -
  let ?sf = "sf_payload_update (vm_slice_set_len (of_nat (length data))) (shared_at ta (ba_index b))"
  have "account_effect b ta (store_payload (ba_index b) data ta2) ?sf ((private_at ta (ba_index b))\<lparr>pf_payload := data\<rparr>)"
    using assms
    by (auto simp: ba_can_data_be_resized_def can_data_be_changed_def account_effect_def reading_defs
        writing_defs result_ops split: if_splits)
  then show ?thesis
    by blast
qed

lemma touch_payload: "ba_touch b ta = Inr ta1 \<Longrightarrow> get_data b ta1 = get_data b ta"
  by (auto simp: reading_defs writing_defs split: if_splits)

lemma resize_delta_payload: "ba_update_accounts_resize_delta b n ta = Inr ta1 \<Longrightarrow> get_data b ta1 = get_data b ta"
  by (auto simp: reading_defs writing_defs)

lemma prepared_payload:
  "ba_touch b ta = Inr ta1 \<Longrightarrow> ba_update_accounts_resize_delta b n ta1 = Inr ta2 \<Longrightarrow> get_data b ta2 = get_data b ta"
  using touch_payload resize_delta_payload by simp

lemma length_resize_payload [simp]: "length (resize_payload n data) = n"
  by (simp add: resize_payload_def)

lemma can_resize_writable: "ba_can_data_be_resized b n ta = Inr u \<Longrightarrow> is_writable b"
  by (auto simp: ba_can_data_be_resized_def can_data_be_changed_def result_ops split: if_splits)

lemma set_data_from_slice_effect:
  assumes "set_data_from_slice b bytes ta = Inr ta'"
  shows "\<exists>sf pf. account_effect b ta ta' sf pf"
  using assms resized_effect by (auto simp: set_data_from_slice_def result_ops)

lemma set_data_length_effect:
  assumes "ta_wf ta" "ba_index b < length (ta_shared ta)" "set_data_length b n ta = Inr ta'"
  shows "\<exists>sf pf. account_effect b ta ta' sf pf"
proof (cases "length (get_data b ta) = n")
  case True
  then show ?thesis
    using assms no_effect [OF assms(1,2)] can_resize_writable by (fastforce simp: set_data_length_def result_ops)
next
  case False
  then show ?thesis
    using assms(3) resized_effect [of b "resize_payload n (get_data b ta)" ta]
    by (auto simp: set_data_length_def result_ops prepared_payload)
qed

lemma extend_from_slice_effect:
  assumes "ta_wf ta" "ba_index b < length (ta_shared ta)" "extend_from_slice b bytes ta = Inr ta'"
  shows "\<exists>sf pf. account_effect b ta ta' sf pf"
proof (cases "bytes = []")
  case True
  then show ?thesis
    using assms no_effect [OF assms(1,2)] can_resize_writable
    by (fastforce simp: extend_from_slice_def Let_def result_ops)
next
  case False
  then show ?thesis
    using assms(3) resized_effect [of b "get_data b ta @ bytes" ta]
    by (auto simp: extend_from_slice_def Let_def result_ops prepared_payload)
qed

lemma set_executable_effect:
  assumes "ta_wf ta" "ba_index b < length (ta_shared ta)" "set_executable is_exempt b e ta = Inr ta'"
  shows "\<exists>sf pf. account_effect b ta ta' sf pf"
proof (cases "is_executable b ta = e")
  case True
  then show ?thesis
    using assms no_effect [OF assms(1,2)] by (auto simp: set_executable_def split: if_splits)
next
  case False
  have "account_effect b ta ta' (shared_at ta (ba_index b)) ((private_at ta (ba_index b))\<lparr>pf_executable := e\<rparr>)"
    using assms(3) False wf_payload [OF assms(1,2)]
    by (auto simp: set_executable_def account_effect_def reading_defs writing_defs result_ops split: if_splits)
  then show ?thesis
    by blast
qed

lemma write_effect:
  assumes "ta_wf ta" "ba_index b < length (ta_shared ta)" "get_data_mut b ta = Inr ta1"
    and "length bytes = length (get_data b ta1)"
  shows "\<exists>sf pf. account_effect b ta (upd_private (ba_index b) (pf_payload_update (\<lambda>_. bytes)) ta1) sf pf"
proof -
  have "account_effect b ta (upd_private (ba_index b) (pf_payload_update (\<lambda>_. bytes)) ta1)
      (shared_at ta (ba_index b)) ((private_at ta (ba_index b))\<lparr>pf_payload := bytes\<rparr>)"
    using assms(3,4) wf_payload [OF assms(1,2)]
    by (auto simp: get_data_mut_def can_data_be_changed_def account_effect_def reading_defs writing_defs
        result_ops split: if_splits)
  then show ?thesis
    by blast
qed

lemmas effect_lemmas = set_owner_effect set_lamports_effect set_data_length_effect
  extend_from_slice_effect set_executable_effect write_effect

lemma account_step_effect:
  assumes "account_step is_exempt b ta ta'" "ta_wf ta" "ba_index b < length (ta_shared ta)"
  shows "\<exists>sf pf. account_effect b ta ta' sf pf"
  using assms(1) by cases (blast intro: effect_lemmas [OF assms(2,3)] set_data_from_slice_effect)+

subsection \<open>What the steps keep\<close>

lemma effect_obeys_rules:
  assumes "account_effect b ta ta' sf pf" "ta_wf ta" "ba_index b < length (ta_shared ta)"
  shows "obeys_rules b ta ta'"
proof -
  have priv: "ba_index b < length (ta_private ta)"
    using assms(2,3) by (simp add: ta_wf_def)
  have "map sf_key (ta_shared ta') = map sf_key (ta_shared ta)"
    "map pf_rent_epoch (ta_private ta') = map pf_rent_epoch (ta_private ta)"
    using assms(1,3) priv by (simp_all add: account_effect_def map_update list_update_same_conv)
  then have "same_shape ta ta'"
    using assms(1) by (simp add: same_shape_def account_effect_def)
  then show ?thesis
    using assms(1,3) priv by (auto simp: obeys_rules_def account_effect_def reading_defs)
qed

lemma effect_wf:
  assumes "account_effect b ta ta' sf pf" "ta_wf ta"
  shows "ta_wf ta'"
proof -
  have "ta_shared ta' = (ta_shared ta)[ba_index b := sf]" "ta_private ta' = (ta_private ta)[ba_index b := pf]"
    "ta_borrow_counters ta' = ta_borrow_counters ta" "length (ta_touched_flags ta') = length (ta_touched_flags ta)"
    "vs_len (sf_payload sf) = of_nat (length (pf_payload pf))"
    using assms(1) by (simp_all add: account_effect_def)
  then show ?thesis
    using assms(2) by (cases "ba_index b < length (ta_shared ta)") (auto simp: ta_wf_def nth_list_update)
qed

lemma effect_lamports:
  assumes "account_effect b ta ta' sf pf" "ba_index b < length (ta_shared ta)"
  shows "initial_lamports ta' = initial_lamports ta"
  using assms by (simp add: initial_lamports_def total_lamports_def account_effect_def sum_map_update get_lamports_def)

lemma effect_data:
  assumes "account_effect b ta ta' sf pf" "ba_index b < length (ta_private ta)" "data_bounded initial ta"
  shows "data_bounded initial ta'"
proof -
  let ?old = "int (length (get_data b ta))" and ?new = "int (length (pf_payload pf))"
  have total: "total_data ta' = total_data ta + ?new - ?old"
    using assms(1,2) by (simp add: total_data_def account_effect_def sum_map_update get_data_def)
  have old: "?old \<le> total_data ta"
    using member_le_sum [OF assms(2), of "\<lambda>pf. int (length (pf_payload pf))"] by (simp add: total_data_def get_data_def)
  have base: "total_data ta = initial + ta_resize_delta ta" "initial < 2 ^ 62"
    "ta_resize_delta ta \<le> max_account_data_growth_per_transaction"
    using assms(3) by (auto simp: data_bounded_def)
  note limits = max_account_data_growth_per_transaction_def max_account_data_len_def
  consider (same) "ta_resize_delta ta' = ta_resize_delta ta" "?new = ?old"
    | (resized) "can_data_be_resized (length (get_data b ta)) (length (pf_payload pf)) ta = Inr ()"
      "ta_resize_delta ta' = sat_i64 (ta_resize_delta ta + sat_i64 (?new - ?old))"
    using assms(1) by (auto simp: account_effect_def)
  then show ?thesis
  proof cases
    case same
    then show ?thesis
      using total base by (simp add: data_bounded_def)
  next
    case resized
    have new: "?new \<le> 10485760"
      and grow: "sat_i64 (ta_resize_delta ta + sat_i64 (?new - ?old)) \<le> max_account_data_growth_per_transaction"
      using resized(1) by (auto simp: can_data_be_resized_def limits split: if_splits)
    have "sat_i64 (?new - ?old) = ?new - ?old"
      using new old base by (intro sat_i64_id) (auto simp: limits)
    moreover have "sat_i64 (ta_resize_delta ta + (?new - ?old)) = ta_resize_delta ta + (?new - ?old)"
      using new old base total_data_nonneg [of ta] by (intro sat_i64_id) (auto simp: limits)
    ultimately show ?thesis
      using resized(2) grow total base by (simp add: data_bounded_def)
  qed
qed

text \<open>An account that is changed is marked as touched.\<close>

definition marked :: "transaction_accounts \<Rightarrow> transaction_accounts \<Rightarrow> bool" where
  "marked ta ta' \<longleftrightarrow>
     length (ta_touched_flags ta') = length (ta_touched_flags ta) \<and>
     (\<forall>i < length (ta_touched_flags ta). (ta_touched_flags ta ! i \<longrightarrow> ta_touched_flags ta' ! i) \<and>
        (\<not> ta_touched_flags ta' ! i \<longrightarrow> shared_at ta' i = shared_at ta i \<and> private_at ta' i = private_at ta i))"

lemma marked_trans: "marked ta ta1 \<Longrightarrow> marked ta1 ta2 \<Longrightarrow> marked ta ta2"
  by (auto simp: marked_def)

lemma effect_marked:
  assumes "account_effect b ta ta' sf pf"
  shows "marked ta ta'"
proof -
  have eff: "ta_shared ta' = (ta_shared ta)[ba_index b := sf]" "ta_private ta' = (ta_private ta)[ba_index b := pf]"
    and flags: "sf = shared_at ta (ba_index b) \<and> pf = private_at ta (ba_index b) \<and> ta_touched_flags ta' = ta_touched_flags ta \<or>
      ta_touched_flags ta' = (ta_touched_flags ta)[ba_index b := True]"
    using assms by (simp_all add: account_effect_def)
  from flags show ?thesis
  proof
    assume touched: "ta_touched_flags ta' = (ta_touched_flags ta)[ba_index b := True]"
    have at: "ta_touched_flags ta' ! i \<longleftrightarrow> i = ba_index b \<or> ta_touched_flags ta ! i"
      if "i < length (ta_touched_flags ta)" for i
      using that by (cases "i = ba_index b") (simp_all add: touched)
    have "length (ta_touched_flags ta') = length (ta_touched_flags ta)"
      by (simp add: touched)
    then show ?thesis
      by (simp add: marked_def at eff)
  qed (simp add: marked_def eff)
qed

lemma account_step_rules:
  assumes "account_step is_exempt b ta ta'" "ta_wf ta" "ba_index b < length (ta_shared ta)"
  shows "obeys_rules b ta ta'" "keeps_totals ta ta'" "marked ta ta'"
proof -
  obtain sf pf where eff: "account_effect b ta ta' sf pf"
    using account_step_effect [OF assms] by blast
  have priv: "ba_index b < length (ta_private ta)"
    using assms(2,3) by (simp add: ta_wf_def)
  show "obeys_rules b ta ta'"
    by (rule effect_obeys_rules [OF eff assms(2,3)])
  show "marked ta ta'"
    by (rule effect_marked [OF eff])
  show "keeps_totals ta ta'"
    using effect_wf [OF eff assms(2)] effect_lamports [OF eff assms(3)] effect_data [OF eff priv]
    by (simp add: keeps_totals_def)
qed

text \<open>The steps of the program at index \<open>p\<close> on the accounts \<open>accs\<close> of its instruction.\<close>

definition program_step ::
  "(u64 \<Rightarrow> nat \<Rightarrow> bool) \<Rightarrow> index_of_account \<Rightarrow> instruction_account list \<Rightarrow> transaction_accounts \<Rightarrow> transaction_accounts \<Rightarrow> bool" where
  "program_step is_exempt p accs ta ta' \<longleftrightarrow>
     (\<exists>b. ba_program_index b = p \<and> ba_instruction_account b \<in> set accs \<and>
        ba_index b < length (ta_shared ta) \<and> account_step is_exempt b ta ta')"

definition owned_by_program :: "index_of_account \<Rightarrow> transaction_accounts \<Rightarrow> nat \<Rightarrow> bool" where
  "owned_by_program p ta i \<longleftrightarrow> account_key p ta = Some (sf_owner (shared_at ta i))"

definition writable_in :: "instruction_account list \<Rightarrow> nat \<Rightarrow> bool" where
  "writable_in accs i \<longleftrightarrow> (\<exists>ia \<in> set accs. unat (ia_index_in_transaction ia) = i \<and> ia_writable ia)"

definition protected :: "nat \<Rightarrow> transaction_accounts \<Rightarrow> transaction_accounts \<Rightarrow> bool" where
  "protected i ta ta' \<longleftrightarrow>
     private_at ta' i = private_at ta i \<and> sf_owner (shared_at ta' i) = sf_owner (shared_at ta i) \<and>
     sf_lamports (shared_at ta i) \<le> sf_lamports (shared_at ta' i)"

lemma same_shape_key:
  assumes "same_shape ta ta'"
  shows "account_key p ta' = account_key p ta"
proof -
  have "length (ta_shared ta') = length (ta_shared ta)"
    using assms map_eq_imp_length_eq by (auto simp: same_shape_def)
  moreover have "map sf_key (ta_shared ta') ! unat p = map sf_key (ta_shared ta) ! unat p"
    using assms by (simp add: same_shape_def)
  ultimately show ?thesis
    by (auto simp: account_key_def slice_get_def)
qed

lemma same_shape_trans: "same_shape ta ta1 \<Longrightarrow> same_shape ta1 ta2 \<Longrightarrow> same_shape ta ta2"
  by (simp add: same_shape_def)

lemma program_step_protects:
  assumes "program_step is_exempt p accs ta ta'" "ta_wf ta"
  shows "same_shape ta ta'" "keeps_totals ta ta'"
    and "\<not> writable_in accs i \<Longrightarrow> shared_at ta' i = shared_at ta i \<and> private_at ta' i = private_at ta i"
    and "\<not> owned_by_program p ta i \<Longrightarrow> protected i ta ta'"
proof -
  obtain b where b: "ba_program_index b = p" "ba_instruction_account b \<in> set accs"
    "ba_index b < length (ta_shared ta)" "account_step is_exempt b ta ta'"
    using assms(1) by (auto simp: program_step_def)
  note rules = account_step_rules [OF b(4) assms(2) b(3)]
  show "same_shape ta ta'" "keeps_totals ta ta'"
    using rules by (auto simp: obeys_rules_def)
  show "shared_at ta' i = shared_at ta i \<and> private_at ta' i = private_at ta i" if "\<not> writable_in accs i"
    using rules(1) that b(2) by (auto simp: obeys_rules_def writable_in_def is_writable_def)
  show "protected i ta ta'" if foreign: "\<not> owned_by_program p ta i"
  proof (cases "i = ba_index b")
    case True
    then have "\<not> is_owned_by_current_program b ta"
      using foreign b(1) by (auto simp: is_owned_by_current_program_def owned_by_program_def get_owner_def split: option.splits)
    then show ?thesis
      using rules(1) True by (simp add: obeys_rules_def protected_def reading_defs)
  next
    case False
    then show ?thesis
      using rules(1) by (simp add: obeys_rules_def protected_def)
  qed
qed

lemma program_steps_protect:
  assumes "(program_step is_exempt p accs)\<^sup>*\<^sup>* ta ta'" "ta_wf ta"
  shows "same_shape ta ta' \<and> keeps_totals ta ta' \<and>
    (\<not> writable_in accs i \<longrightarrow> shared_at ta' i = shared_at ta i \<and> private_at ta' i = private_at ta i) \<and>
    (\<not> owned_by_program p ta i \<longrightarrow> protected i ta ta')"
  using assms(1)
proof induction
  case base
  then show ?case
    using assms(2) by (simp add: same_shape_def keeps_totals_def protected_def)
next
  case (step ta1 ta2)
  have wf: "ta_wf ta1"
    using step.IH by (simp add: keeps_totals_def)
  note one = program_step_protects [OF step.hyps(2) wf]
  have "protected i ta ta2" if "\<not> owned_by_program p ta i"
  proof -
    have prot: "protected i ta ta1"
      using step.IH that by blast
    then have "\<not> owned_by_program p ta1 i"
      using that same_shape_key [of ta ta1 p] step.IH by (simp add: owned_by_program_def protected_def)
    then show ?thesis
      using one(4) prot by (fastforce simp: protected_def)
  qed
  moreover have "same_shape ta ta2"
    using same_shape_trans step.IH one(1) by blast
  moreover have "keeps_totals ta ta2"
    using step.IH one(2) by (simp add: keeps_totals_def)
  ultimately show ?case
    using step.IH one(3) by simp
qed

text \<open>An example: a system account with 100 lamports, an empty one, a foreign one, and the program.\<close>

definition example_account :: "pubkey \<Rightarrow> u64 \<Rightarrow> u8 list \<Rightarrow> account_shared_data" where
  "example_account owner lamports data = \<lparr>acc_lamports = lamports, acc_data = data, acc_owner = owner,
     acc_executable = False, acc_rent_epoch = 0\<rparr>"

definition example_accounts :: transaction_accounts where
  "example_accounts = transaction_accounts_new
     [(11, example_account 0 100 []), (12, example_account 0 0 []),
      (13, example_account 99 50 [7]), (0, example_account 5 1 [])]"

definition example_instruction_accounts :: "instruction_account list" where
  "example_instruction_accounts =
     [instruction_account_new 0 True True, instruction_account_new 1 True True, instruction_account_new 2 False True]"

lemma example_accounts_simps:
  "example_accounts = \<lparr>
     ta_shared =
       [\<lparr>sf_key = 11, sf_owner = 0, sf_lamports = 100, sf_payload = \<lparr>vs_ptr = 34359738368, vs_len = 0\<rparr>\<rparr>,
        \<lparr>sf_key = 12, sf_owner = 0, sf_lamports = 0, sf_payload = \<lparr>vs_ptr = 38654705664, vs_len = 0\<rparr>\<rparr>,
        \<lparr>sf_key = 13, sf_owner = 99, sf_lamports = 50, sf_payload = \<lparr>vs_ptr = 42949672960, vs_len = 1\<rparr>\<rparr>,
        \<lparr>sf_key = 0, sf_owner = 5, sf_lamports = 1, sf_payload = \<lparr>vs_ptr = 47244640256, vs_len = 0\<rparr>\<rparr>],
     ta_private =
       [\<lparr>pf_rent_epoch = 0, pf_executable = False, pf_payload = []\<rparr>,
        \<lparr>pf_rent_epoch = 0, pf_executable = False, pf_payload = []\<rparr>,
        \<lparr>pf_rent_epoch = 0, pf_executable = False, pf_payload = [7]\<rparr>,
        \<lparr>pf_rent_epoch = 0, pf_executable = False, pf_payload = []\<rparr>],
     ta_borrow_counters = [0, 0, 0, 0],
     ta_touched_flags = [False, False, False, False],
     ta_resize_delta = 0,
     ta_lamports_delta = 0\<rparr>"
  by (simp add: example_accounts_def transaction_accounts_new_def example_account_def
      guest_account_payload_base_address_def guest_region_size_def saturating_add_def saturating_mul_def)

lemma example_accounts_wf: "ta_wf example_accounts"
  by (auto simp: ta_wf_def example_accounts_simps less_Suc_eq)

text \<open>The program moves 30 lamports out of its first account.\<close>

definition example_debited :: transaction_accounts where
  "example_debited = example_accounts\<lparr>
     ta_shared := (ta_shared example_accounts)[0 := (shared_at example_accounts 0)\<lparr>sf_lamports := 70\<rparr>],
     ta_touched_flags := [True, False, False, False], ta_lamports_delta := - 30\<rparr>"

lemma example_program_step:
  "program_step (\<lambda>_ _. True) 3 example_instruction_accounts example_accounts example_debited"
proof -
  let ?b = "\<lparr>ba_instruction_account = instruction_account_new 0 True True, ba_program_index = 3\<rparr>"
  have "set_lamports ?b 70 example_accounts = Inr example_debited"
    by (simp add: set_lamports_def example_debited_def example_accounts_simps reading_defs writing_defs
        is_owned_by_current_program_def account_key_def slice_get_def is_writable_def ia_writable_def
        instruction_account_new_def add_lamports_delta_def in_i128_def)
  then show ?thesis
    by (auto simp: program_step_def example_instruction_accounts_def instruction_account_new_def example_accounts_simps
        intro!: exI [of _ ?b] account_step.step_lamports)
qed

text \<open>
  C12. A program is confined to its rights: whatever sequence of operations it performs on the
  accounts of its instruction, the keys and their order stay; an account that is not writable in
  the instruction is unchanged; an account that the program does not own keeps its owner, its data
  and its flags and never loses lamports.
\<close>

theorem program_confined:
  assumes "(program_step is_exempt p accs)\<^sup>*\<^sup>* ta ta'" and "ta_wf ta"
  shows "map sf_key (ta_shared ta') = map sf_key (ta_shared ta) \<and>
    (\<not> writable_in accs i \<longrightarrow> shared_at ta' i = shared_at ta i \<and> private_at ta' i = private_at ta i) \<and>
    (\<not> owned_by_program p ta i \<longrightarrow> protected i ta ta')"
  using program_steps_protect [OF assms, of i] by (simp add: same_shape_def)

theorem program_confined_witness:
  "protected 2 example_accounts example_debited \<and>
   shared_at example_debited 3 = shared_at example_accounts 3"
proof -
  have foreign: "\<not> owned_by_program 3 example_accounts 2" "\<not> writable_in example_instruction_accounts 3"
    by (simp_all add: owned_by_program_def account_key_def slice_get_def example_accounts_simps
        writable_in_def example_instruction_accounts_def instruction_account_new_def)
  then show ?thesis
    using program_confined [OF r_into_rtranclp, OF example_program_step example_accounts_wf, of 2]
      program_confined [OF r_into_rtranclp, OF example_program_step example_accounts_wf, of 3] by blast
qed

subsection \<open>The totals of a transaction\<close>

text \<open>A step of any program of the transaction.\<close>

definition transaction_step :: "(u64 \<Rightarrow> nat \<Rightarrow> bool) \<Rightarrow> transaction_accounts \<Rightarrow> transaction_accounts \<Rightarrow> bool" where
  "transaction_step is_exempt ta ta' \<longleftrightarrow> (\<exists>p accs. program_step is_exempt p accs ta ta')"

lemma transaction_steps_totals:
  assumes "(transaction_step is_exempt)\<^sup>*\<^sup>* ta ta'" "ta_wf ta"
  shows "same_shape ta ta' \<and> keeps_totals ta ta'"
  using assms(1)
proof induction
  case base
  then show ?case
    using assms(2) by (simp add: same_shape_def keeps_totals_def)
next
  case (step ta1 ta2)
  then obtain p accs where one: "program_step is_exempt p accs ta1 ta2"
    by (auto simp: transaction_step_def)
  have wf: "ta_wf ta1"
    using step.IH by (simp add: keeps_totals_def)
  show ?case
    using step.IH program_step_protects(1,2) [OF one wf] same_shape_trans by (auto simp: keeps_totals_def)
qed

lemma new_accounts_shape:
  "length (ta_shared (transaction_accounts_new accounts)) = length accounts"
  "length (ta_private (transaction_accounts_new accounts)) = length accounts"
  by (simp_all add: transaction_accounts_new_def)

lemma new_accounts_nth:
  assumes "i < length accounts"
  shows "sf_key (shared_at (transaction_accounts_new accounts) i) = fst (accounts ! i)"
    "create_from_existing (shared_at (transaction_accounts_new accounts) i)
       (private_at (transaction_accounts_new accounts) i) = snd (accounts ! i)"
    "vs_len (sf_payload (shared_at (transaction_accounts_new accounts) i)) =
       of_nat (length (pf_payload (private_at (transaction_accounts_new accounts) i)))"
  using assms by (simp_all add: transaction_accounts_new_def nth_enumerate_eq create_from_existing_def split: prod.splits)

lemma new_accounts_wf: "ta_wf (transaction_accounts_new accounts)"
  using new_accounts_nth(3) by (simp add: ta_wf_def new_accounts_shape) (simp add: transaction_accounts_new_def)

text \<open>
  C27. The totals of a transaction are tracked exactly: after any interleaving of operations of any
  programs, the recorded change of lamports is the difference between the lamports of all accounts
  now and at the start, and the recorded change of the data length is the difference between the
  lengths of the data. The data of all accounts together never grows by more than 20 MiB.
\<close>

theorem transaction_totals:
  assumes "(transaction_step is_exempt)\<^sup>*\<^sup>* (transaction_accounts_new accounts) ta"
    and "total_data (transaction_accounts_new accounts) < 2 ^ 62"
  shows "ta_lamports_delta ta = total_lamports ta - total_lamports (transaction_accounts_new accounts) \<and>
    ta_resize_delta ta = total_data ta - total_data (transaction_accounts_new accounts) \<and>
    total_data ta \<le> total_data (transaction_accounts_new accounts) + 2 * 10 * 1024 * 1024"
proof -
  let ?new = "transaction_accounts_new accounts"
  have start: "ta_lamports_delta ?new = 0" "ta_resize_delta ?new = 0"
    by (simp_all add: transaction_accounts_new_def)
  have "data_bounded (total_data ?new) ?new"
    using assms(2) start by (simp add: data_bounded_def max_account_data_growth_per_transaction_def)
  then have "data_bounded (total_data ?new) ta" "initial_lamports ta = initial_lamports ?new"
    using transaction_steps_totals [OF assms(1) new_accounts_wf] by (auto simp: keeps_totals_def)
  then show ?thesis
    using start by (simp add: data_bounded_def initial_lamports_def max_account_data_growth_per_transaction_def
        max_account_data_len_def)
qed

theorem transaction_totals_witness:
  "ta_lamports_delta example_debited = - 30 \<and>
   total_lamports example_debited = total_lamports example_accounts - 30"
proof -
  have "(transaction_step (\<lambda>_ _. True))\<^sup>*\<^sup>* example_accounts example_debited"
    using example_program_step by (blast intro: r_into_rtranclp transaction_step_def [THEN iffD2])
  moreover have "total_data example_accounts < 2 ^ 62"
    by (simp add: total_data_def example_accounts_simps)
  ultimately have "ta_lamports_delta example_debited = total_lamports example_debited - total_lamports example_accounts"
    unfolding example_accounts_def by (intro transaction_totals [THEN conjunct1])
  then show ?thesis
    by (simp add: example_debited_def)
qed

text \<open>
  Loading the accounts of a transaction and taking them back loses nothing: without an operation
  in between, the same keys and accounts come out in the same order, none is marked as touched and
  no growth is recorded.
\<close>

lemma take_accounts_new:
  "take_accounts (transaction_accounts_new accounts) = (accounts, replicate (length accounts) False, 0)"
proof -
  have "deconstruct_into_keyed_account_shared_data (transaction_accounts_new accounts) = accounts"
    by (rule nth_equalityI)
      (simp_all add: deconstruct_into_keyed_account_shared_data_def new_accounts_shape new_accounts_nth)
  then show ?thesis
    by (simp add: take_accounts_def) (simp add: transaction_accounts_new_def)
qed

end
