(* ===== verification/Transaction_Context.thy ===== *)
theory Transaction_Context
  imports Account_Rules
begin

section \<open>Instructions of a transaction\<close>

text \<open>
  The stack and the trace of the instructions of a transaction, from
  \<open>src/transaction-context/src/transaction.rs\<close>, and the view that a program has on its own
  instruction, from \<open>src/transaction-context/src/instruction.rs\<close>. The trace starts with one frame per
  top-level instruction and one placeholder; a call of another program uses the placeholder and
  appends the next one.

  \<^item> \<open>push_instruction\<close> and \<open>pop_instruction\<close> change the state even when they return an error, so they
    return both.
  \<^item> The instructions sysvar belongs to crates outside the repository: its address, the owner of
    sysvars and the function that stores the current index are the record \<open>instructions_sysvar\<close>.
  \<^item> The handler for access violations of the virtual machine is not modelled.
\<close>

record instruction_frame =
  if_reserved :: u16
  if_program_account_index_in_tx :: u16
  if_nesting_level :: u16
  if_index_of_caller_instruction :: u16
  if_instruction_accounts :: vm_slice
  if_instruction_data :: vm_slice

definition instruction_frame_default :: instruction_frame where
  "instruction_frame_default = \<lparr>
     if_reserved = 0, if_program_account_index_in_tx = 0, if_nesting_level = 0,
     if_index_of_caller_instruction = - 1,
     if_instruction_accounts = \<lparr>vs_ptr = 0, vs_len = 0\<rparr>,
     if_instruction_data = \<lparr>vs_ptr = 0, vs_len = 0\<rparr>\<rparr>"

definition guest_instruction_data_base_address :: u64 where
  "guest_instruction_data_base_address = 264 * guest_region_size"

definition guest_instruction_account_base_address :: u64 where
  "guest_instruction_account_base_address = 328 * guest_region_size"

definition return_data_scratchpad :: u64 where
  "return_data_scratchpad = 7 * guest_region_size"

definition configure_vm_slices :: "u64 \<Rightarrow> nat \<Rightarrow> u64 \<Rightarrow> instruction_frame \<Rightarrow> instruction_frame" where
  "configure_vm_slices instruction_index accounts_len data_len frame =
     (let common_offset = saturating_mul guest_region_size instruction_index
      in frame\<lparr>
        if_instruction_data := \<lparr>vs_ptr = saturating_add guest_instruction_data_base_address common_offset, vs_len = data_len\<rparr>,
        if_instruction_accounts :=
          \<lparr>vs_ptr = saturating_add guest_instruction_account_base_address common_offset, vs_len = of_nat accounts_len\<rparr>\<rparr>)"

record transaction_frame =
  tf_return_data_pubkey :: pubkey
  tf_return_data_scratchpad :: vm_slice
  tf_cpi_data_scratchpad :: vm_slice
  tf_cpi_accounts_scratchpad :: vm_slice
  tf_current_executing_instruction :: u16
  tf_total_number_of_instructions_in_trace :: u16
  tf_number_of_cpis_in_trace :: u16
  tf_number_of_transaction_accounts :: u16

record transaction_context =
  tc_accounts :: transaction_accounts
  tc_instruction_stack_capacity :: nat
  tc_instruction_trace_capacity :: nat
  tc_instruction_stack :: "nat list"
  tc_instruction_trace :: "instruction_frame list"
  tc_transaction_frame :: transaction_frame
  tc_return_data_bytes :: "u8 list"
  tc_next_top_level_instruction_index :: nat
  tc_deduplication_maps :: "u16 list list"
  tc_instruction_accounts :: "instruction_account list list"
  tc_instruction_data :: "u8 list list"

record instruction_context =
  ic_index_in_trace :: nat
  ic_nesting_level :: nat
  ic_index_of_caller_instruction :: nat
  ic_program_account_index_in_tx :: index_of_account
  ic_instruction_accounts :: "instruction_account list"
  ic_dedup_map :: "u16 list"
  ic_instruction_data :: "u8 list"

record instructions_sysvar =
  instructions_id :: pubkey
  sysvar_id :: pubkey
  store_current_index_checked :: "u8 list \<Rightarrow> u16 \<Rightarrow> u8 list result"

subsection \<open>The view of a program on its instruction\<close>

definition get_stack_height :: "instruction_context \<Rightarrow> nat" where
  "get_stack_height ic = ic_nesting_level ic + 1"

definition get_number_of_instruction_accounts :: "instruction_context \<Rightarrow> index_of_account" where
  "get_number_of_instruction_accounts ic = of_nat (length (ic_instruction_accounts ic))"

definition check_number_of_instruction_accounts :: "instruction_context \<Rightarrow> index_of_account \<Rightarrow> unit result" where
  "check_number_of_instruction_accounts ic expected_at_least =
     (if get_number_of_instruction_accounts ic < expected_at_least then Inl MissingAccount else Inr ())"

definition get_index_of_program_account_in_transaction :: "instruction_context \<Rightarrow> index_of_account result" where
  "get_index_of_program_account_in_transaction ic =
     (if ic_program_account_index_in_tx ic = - 1 then Inl MissingAccount
      else Inr (ic_program_account_index_in_tx ic))"

definition get_index_of_instruction_account_in_transaction ::
  "instruction_context \<Rightarrow> index_of_account \<Rightarrow> index_of_account result" where
  "get_index_of_instruction_account_in_transaction ic i =
     and_then (ok_or MissingAccount (slice_get (ic_instruction_accounts ic) (unat i))) (\<lambda>ia.
     Inr (ia_index_in_transaction ia))"

definition get_index_of_account_in_instruction ::
  "instruction_context \<Rightarrow> index_of_account \<Rightarrow> index_of_account result" where
  "get_index_of_account_in_instruction ic index_in_transaction =
     ok_or MissingAccount (Option.bind (slice_get (ic_dedup_map ic) (unat index_in_transaction)) (\<lambda>idx.
       if length (ic_instruction_accounts ic) \<le> unat idx then None else Some idx))"

definition is_instruction_account_duplicate ::
  "instruction_context \<Rightarrow> index_of_account \<Rightarrow> index_of_account option result" where
  "is_instruction_account_duplicate ic i =
     and_then (get_index_of_instruction_account_in_transaction ic i) (\<lambda>index_in_transaction.
     and_then (get_index_of_account_in_instruction ic index_in_transaction) (\<lambda>first_index.
     Inr (if first_index = i then None else Some first_index)))"

definition get_key_of_account_at_index :: "transaction_accounts \<Rightarrow> index_of_account \<Rightarrow> pubkey result" where
  "get_key_of_account_at_index ta i = ok_or MissingAccount (account_key i ta)"

definition get_program_key :: "instruction_context \<Rightarrow> transaction_accounts \<Rightarrow> pubkey result" where
  "get_program_key ic ta =
     and_then (get_index_of_program_account_in_transaction ic) (get_key_of_account_at_index ta)"

definition get_program_owner :: "instruction_context \<Rightarrow> transaction_accounts \<Rightarrow> pubkey result" where
  "get_program_owner ic ta =
     and_then (get_index_of_program_account_in_transaction ic) (\<lambda>i.
     and_then (try_borrow i ta) (\<lambda>ta. Inr (sf_owner (shared_at ta (unat i)))))"

definition try_borrow_instruction_account ::
  "instruction_context \<Rightarrow> index_of_account \<Rightarrow> transaction_accounts \<Rightarrow> (borrowed_account \<times> transaction_accounts) result" where
  "try_borrow_instruction_account ic i ta =
     and_then (ok_or MissingAccount (slice_get (ic_instruction_accounts ic) (unat i))) (\<lambda>ia.
     and_then (try_borrow_mut (ia_index_in_transaction ia) ta) (\<lambda>ta.
     Inr (\<lparr>ba_instruction_account = ia, ba_program_index = ic_program_account_index_in_tx ic\<rparr>, ta)))"

definition is_instruction_account_signer :: "instruction_context \<Rightarrow> index_of_account \<Rightarrow> bool result" where
  "is_instruction_account_signer ic i =
     and_then (ok_or MissingAccount (slice_get (ic_instruction_accounts ic) (unat i))) (\<lambda>ia. Inr (ia_signer ia))"

definition is_instruction_account_writable :: "instruction_context \<Rightarrow> index_of_account \<Rightarrow> bool result" where
  "is_instruction_account_writable ic i =
     and_then (ok_or MissingAccount (slice_get (ic_instruction_accounts ic) (unat i))) (\<lambda>ia. Inr (ia_writable ia))"

fun signers_loop :: "transaction_accounts \<Rightarrow> instruction_account list \<Rightarrow> pubkey set \<Rightarrow> pubkey set result" where
  "signers_loop ta [] signers = Inr signers"
| "signers_loop ta (ia # ias) signers =
     (if ia_signer ia
      then and_then (get_key_of_account_at_index ta (ia_index_in_transaction ia)) (\<lambda>key.
           signers_loop ta ias (insert key signers))
      else signers_loop ta ias signers)"

definition get_signers :: "instruction_context \<Rightarrow> transaction_accounts \<Rightarrow> pubkey set result" where
  "get_signers ic ta = signers_loop ta (ic_instruction_accounts ic) {}"

definition get_key_of_instruction_account :: "instruction_context \<Rightarrow> index_of_account \<Rightarrow> transaction_accounts \<Rightarrow> pubkey result" where
  "get_key_of_instruction_account ic i ta =
     and_then (get_index_of_instruction_account_in_transaction ic i) (get_key_of_account_at_index ta)"

subsection \<open>The stack and the trace\<close>

definition transaction_context_new ::
  "(pubkey \<times> account_shared_data) list \<Rightarrow> nat \<Rightarrow> nat \<Rightarrow> nat \<Rightarrow> transaction_context" where
  "transaction_context_new accounts stack_capacity trace_capacity top_level = \<lparr>
     tc_accounts = transaction_accounts_new accounts,
     tc_instruction_stack_capacity = stack_capacity,
     tc_instruction_trace_capacity = trace_capacity,
     tc_instruction_stack = [],
     tc_instruction_trace = replicate (top_level + 1) instruction_frame_default,
     tc_transaction_frame = \<lparr>
       tf_return_data_pubkey = 0,
       tf_return_data_scratchpad = \<lparr>vs_ptr = return_data_scratchpad, vs_len = 0\<rparr>,
       tf_cpi_data_scratchpad =
         \<lparr>vs_ptr = saturating_add guest_instruction_data_base_address
            (saturating_mul guest_region_size (of_nat top_level)), vs_len = 0\<rparr>,
       tf_cpi_accounts_scratchpad =
         \<lparr>vs_ptr = saturating_add guest_instruction_account_base_address
            (saturating_mul guest_region_size (of_nat top_level)), vs_len = 0\<rparr>,
       tf_current_executing_instruction = 0,
       tf_total_number_of_instructions_in_trace = of_nat top_level,
       tf_number_of_cpis_in_trace = 0,
       tf_number_of_transaction_accounts = of_nat (length accounts)\<rparr>,
     tc_return_data_bytes = [],
     tc_next_top_level_instruction_index = 0,
     tc_deduplication_maps = [],
     tc_instruction_accounts = [],
     tc_instruction_data = []\<rparr>"

definition deconstruct_without_keys :: "transaction_context \<Rightarrow> account_shared_data list result" where
  "deconstruct_without_keys tc =
     (if tc_instruction_stack tc \<noteq> [] then Inl CallDepth
      else Inr (deconstruct_into_account_shared_data (tc_accounts tc)))"

fun find_position :: "pubkey \<Rightarrow> nat \<Rightarrow> account_shared_fields list \<Rightarrow> nat option" where
  "find_position key i [] = None"
| "find_position key i (sf # sfs) = (if sf_key sf = key then Some i else find_position key (i + 1) sfs)"

definition find_index_of_account :: "pubkey \<Rightarrow> transaction_context \<Rightarrow> index_of_account option" where
  "find_index_of_account key tc = map_option of_nat (find_position key 0 (ta_shared (tc_accounts tc)))"

definition get_instruction_trace_length :: "transaction_context \<Rightarrow> nat" where
  "get_instruction_trace_length tc = length (tc_instruction_trace tc) - 1"

definition get_or_default :: "'a list list \<Rightarrow> nat \<Rightarrow> 'a list" where
  "get_or_default xs i = (case slice_get xs i of None \<Rightarrow> [] | Some x \<Rightarrow> x)"

definition get_instruction_context_at_index_in_trace :: "transaction_context \<Rightarrow> nat \<Rightarrow> instruction_context result" where
  "get_instruction_context_at_index_in_trace tc index_in_trace =
     and_then (ok_or CallDepth (slice_get (tc_instruction_trace tc) index_in_trace)) (\<lambda>instruction.
     Inr \<lparr>
       ic_index_in_trace = index_in_trace,
       ic_nesting_level = unat (if_nesting_level instruction),
       ic_index_of_caller_instruction = unat (if_index_of_caller_instruction instruction),
       ic_program_account_index_in_tx = if_program_account_index_in_tx instruction,
       ic_instruction_accounts = get_or_default (tc_instruction_accounts tc) index_in_trace,
       ic_dedup_map = get_or_default (tc_deduplication_maps tc) index_in_trace,
       ic_instruction_data = get_or_default (tc_instruction_data tc) index_in_trace\<rparr>)"

definition get_instruction_context_at_nesting_level :: "transaction_context \<Rightarrow> nat \<Rightarrow> instruction_context result" where
  "get_instruction_context_at_nesting_level tc nesting_level =
     and_then (ok_or CallDepth (slice_get (tc_instruction_stack tc) nesting_level))
       (get_instruction_context_at_index_in_trace tc)"

definition get_current_instruction_index :: "transaction_context \<Rightarrow> nat result" where
  "get_current_instruction_index tc =
     (if tc_instruction_stack tc = [] then Inl CallDepth else Inr (last (tc_instruction_stack tc)))"

definition get_current_instruction_context :: "transaction_context \<Rightarrow> instruction_context result" where
  "get_current_instruction_context tc =
     and_then (get_current_instruction_index tc) (get_instruction_context_at_index_in_trace tc)"

definition get_next_instruction_context :: "transaction_context \<Rightarrow> instruction_context result" where
  "get_next_instruction_context tc =
     (if tc_instruction_stack tc = []
      then get_instruction_context_at_index_in_trace tc (tc_next_top_level_instruction_index tc)
      else if tc_instruction_trace tc = [] then Inl CallDepth
      else get_instruction_context_at_index_in_trace tc (length (tc_instruction_trace tc) - 1))"

definition next_scratchpad :: "vm_slice \<Rightarrow> vm_slice" where
  "next_scratchpad s = \<lparr>vs_ptr = saturating_add (vs_ptr s) guest_region_size, vs_len = 0\<rparr>"

definition configure_cpi :: "transaction_frame \<Rightarrow> transaction_frame" where
  "configure_cpi frame = frame\<lparr>
     tf_total_number_of_instructions_in_trace := saturating_add (tf_total_number_of_instructions_in_trace frame) 1,
     tf_cpi_data_scratchpad := next_scratchpad (tf_cpi_data_scratchpad frame),
     tf_cpi_accounts_scratchpad := next_scratchpad (tf_cpi_accounts_scratchpad frame)\<rparr>"

definition configure_instruction_at_index ::
  "nat \<Rightarrow> index_of_account \<Rightarrow> instruction_account list \<Rightarrow> u16 list \<Rightarrow> u8 list \<Rightarrow> u16 option \<Rightarrow>
   transaction_context \<Rightarrow> transaction_context result" where
  "configure_instruction_at_index instruction_index program_index accounts dedup_map data caller_index tc =
     and_then (ok_or MaxInstructionTraceLengthExceeded (slice_get (tc_instruction_trace tc) instruction_index)) (\<lambda>frame.
     let frame1 = (case caller_index of
           None \<Rightarrow> frame
         | Some caller \<Rightarrow> frame\<lparr>if_index_of_caller_instruction := caller\<rparr>);
         frame2 = configure_vm_slices (of_nat instruction_index) (length accounts) (of_nat (length data))
           (frame1\<lparr>if_program_account_index_in_tx := program_index\<rparr>)
     in Inr (tc\<lparr>
       tc_transaction_frame := (if caller_index = None then tc_transaction_frame tc
                                else configure_cpi (tc_transaction_frame tc)),
       tc_instruction_trace := (tc_instruction_trace tc)[instruction_index := frame2],
       tc_deduplication_maps := tc_deduplication_maps tc @ [dedup_map],
       tc_instruction_accounts := tc_instruction_accounts tc @ [accounts],
       tc_instruction_data := tc_instruction_data tc @ [data]\<rparr>))"

definition number_of_called_instructions_in_trace :: "transaction_context \<Rightarrow> nat" where
  "number_of_called_instructions_in_trace tc =
     tc_next_top_level_instruction_index tc + unat (tf_number_of_cpis_in_trace (tc_transaction_frame tc))"

text \<open>The index of the pushed instruction, that of its top-level instruction, and the new trace.\<close>

definition enter_instruction :: "transaction_context \<Rightarrow> nat \<times> nat \<times> transaction_context" where
  "enter_instruction tc =
     (if tc_instruction_stack tc = []
      then let index = tc_next_top_level_instruction_index tc
           in (index, index, tc\<lparr>tc_next_top_level_instruction_index := index + 1\<rparr>)
      else (get_instruction_trace_length tc, tc_next_top_level_instruction_index tc - 1,
            tc\<lparr>tc_transaction_frame := (tc_transaction_frame tc)\<lparr>tf_number_of_cpis_in_trace :=
                 saturating_add (tf_number_of_cpis_in_trace (tc_transaction_frame tc)) 1\<rparr>,
               tc_instruction_trace := tc_instruction_trace tc @ [instruction_frame_default]\<rparr>))"

definition store_instructions_sysvar ::
  "instructions_sysvar \<Rightarrow> nat \<Rightarrow> transaction_context \<Rightarrow> unit result \<times> transaction_context" where
  "store_instructions_sysvar si top_level_instruction tc =
     (case find_index_of_account (instructions_id si) tc of
        None \<Rightarrow> (Inr (), tc)
      | Some i \<Rightarrow>
          (case try_borrow_mut i (tc_accounts tc) of
             Inl e \<Rightarrow> (Inl e, tc)
           | Inr ta \<Rightarrow>
               if sf_owner (shared_at ta (unat i)) \<noteq> sysvar_id si
               then (Inl InvalidAccountOwner, tc\<lparr>tc_accounts := drop_account_ref_mut i ta\<rparr>)
               else (case store_current_index_checked si (pf_payload (private_at ta (unat i))) (of_nat top_level_instruction) of
                       Inl e \<Rightarrow> (Inl e, tc\<lparr>tc_accounts := drop_account_ref_mut i ta\<rparr>)
                     | Inr data \<Rightarrow> (Inr (), tc\<lparr>tc_accounts := drop_account_ref_mut i
                         (upd_private (unat i) (pf_payload_update (\<lambda>_. data)) ta)\<rparr>))))"

definition push_instruction :: "instructions_sysvar \<Rightarrow> transaction_context \<Rightarrow> unit result \<times> transaction_context" where
  "push_instruction si tc =
     (let nesting_level = length (tc_instruction_stack tc)
      in if tc_instruction_stack tc \<noteq> [] \<and> ta_lamports_delta (tc_accounts tc) \<noteq> 0
         then (Inl UnbalancedInstruction, tc)
         else if tc_instruction_trace tc = [] then (Inl CallDepth, tc)
         else let tc = tc\<lparr>tc_instruction_trace := (tc_instruction_trace tc)[length (tc_instruction_trace tc) - 1 :=
                    (last (tc_instruction_trace tc))\<lparr>if_nesting_level := of_nat nesting_level\<rparr>]\<rparr>
              in if tc_instruction_trace_capacity tc \<le> number_of_called_instructions_in_trace tc
                 then (Inl MaxInstructionTraceLengthExceeded, tc)
                 else let (index_in_trace, top_level_instruction, tc) = enter_instruction tc
                      in if tc_instruction_stack_capacity tc \<le> nesting_level then (Inl CallDepth, tc)
                         else store_instructions_sysvar si top_level_instruction (tc\<lparr>
                           tc_transaction_frame := (tc_transaction_frame tc)\<lparr>
                             tf_current_executing_instruction := of_nat index_in_trace\<rparr>,
                           tc_instruction_stack := tc_instruction_stack tc @ [index_in_trace]\<rparr>))"

text \<open>The check before the pop; the borrow of the program account ends at once.\<close>

definition detect_unbalanced_instruction :: "transaction_context \<Rightarrow> bool result" where
  "detect_unbalanced_instruction tc =
     and_then (get_current_instruction_context tc) (\<lambda>ic.
     and_then (get_index_of_program_account_in_transaction ic) (\<lambda>i.
     case try_borrow_mut i (tc_accounts tc) of
       Inl e \<Rightarrow> Inl (if e = AccountBorrowFailed then AccountBorrowOutstanding else e)
     | Inr _ \<Rightarrow> Inr (ta_lamports_delta (tc_accounts tc) \<noteq> 0)))"

definition pop_instruction :: "transaction_context \<Rightarrow> unit result \<times> transaction_context" where
  "pop_instruction tc =
     (if tc_instruction_stack tc = [] then (Inl CallDepth, tc)
      else let detected = detect_unbalanced_instruction tc;
               stack = butlast (tc_instruction_stack tc);
               tc = tc\<lparr>tc_instruction_stack := stack,
                 tc_transaction_frame := (if stack = [] then tc_transaction_frame tc
                   else (tc_transaction_frame tc)\<lparr>tf_current_executing_instruction := of_nat (last stack)\<rparr>)\<rparr>
           in (and_then detected (\<lambda>unbalanced. if unbalanced then Inl UnbalancedInstruction else Inr ()), tc))"

definition set_return_data :: "pubkey \<Rightarrow> u8 list \<Rightarrow> transaction_context \<Rightarrow> transaction_context" where
  "set_return_data program_id data tc = tc\<lparr>
     tc_transaction_frame := (tc_transaction_frame tc)\<lparr>
       tf_return_data_pubkey := program_id,
       tf_return_data_scratchpad := vm_slice_set_len (of_nat (length data))
         (tf_return_data_scratchpad (tc_transaction_frame tc))\<rparr>,
     tc_return_data_bytes := data\<rparr>"

definition get_return_data :: "transaction_context \<Rightarrow> pubkey \<times> u8 list" where
  "get_return_data tc = (tf_return_data_pubkey (tc_transaction_frame tc), tc_return_data_bytes tc)"

record execution_record =
  er_accounts :: "(pubkey \<times> account_shared_data) list"
  er_return_data :: "pubkey \<times> u8 list"
  er_touched_flags :: "bool list"
  er_accounts_resize_delta :: int

definition execution_record_from :: "transaction_context \<Rightarrow> execution_record" where
  "execution_record_from tc =
     (let (accounts, touched_flags, resize_delta) = take_accounts (tc_accounts tc)
      in \<lparr>er_accounts = accounts, er_return_data = get_return_data tc,
          er_touched_flags = touched_flags, er_accounts_resize_delta = resize_delta\<rparr>)"

end
