(* ===== verification/System_Program.thy ===== *)
theory System_Program
  imports Transaction_Context
begin

section \<open>The system program\<close>

text \<open>
  The program that creates accounts, moves lamports between them and keeps durable nonces:
  \<open>src/programs/system/src/system_processor.rs\<close> and \<open>system_instruction.rs\<close>. An account is borrowed,
  used and dropped where the source does so.

  The interface crates of the program are outside the repository. Their types are the datatypes
  and records below; their functions and constants, the sysvars and the environment of the
  invocation are the fields of the record \<open>system_env\<close>. Instructions are taken after decoding, and
  log messages are left out.
\<close>

datatype system_error =
    AccountAlreadyInUse
  | ResultWithNegativeLamports
  | InvalidAccountDataLength
  | AddressWithSeedMismatch
  | NonceNoRecentBlockhashes
  | NonceBlockhashNotExpired

datatype authorize_nonce_error =
    NonceMissingRequiredSignature pubkey
  | NonceNotInitialized

record nonce_data =
  nd_authority :: pubkey
  nd_durable_nonce :: hash
  nd_lamports_per_signature :: u64

datatype nonce_state =
    NonceUninitialized
  | NonceInitialized nonce_data

datatype nonce_versions =
    NonceLegacy nonce_state
  | NonceCurrent nonce_state

record system_env =
  system_program_id :: pubkey
  max_permitted_data_length :: u64
  system_error_code :: "system_error \<Rightarrow> u32"
  create_with_seed :: "pubkey \<Rightarrow> u8 list \<Rightarrow> pubkey \<Rightarrow> pubkey result"
  nonce_state_of :: "nonce_versions \<Rightarrow> nonce_state"
  nonce_versions_new :: "nonce_state \<Rightarrow> nonce_versions"
  nonce_upgrade :: "nonce_versions \<Rightarrow> nonce_versions option"
  nonce_authorize :: "nonce_versions \<Rightarrow> pubkey set \<Rightarrow> pubkey \<Rightarrow> authorize_nonce_error + nonce_versions"
  nonce_deserialize :: "u8 list \<Rightarrow> nonce_versions option"
  nonce_serialize :: "nonce_versions \<Rightarrow> u8 list option"
  durable_nonce_from_blockhash :: "hash \<Rightarrow> hash"
  env_blockhash :: hash
  env_blockhash_lamports_per_signature :: u64
  recent_blockhashes_id :: pubkey
  recent_blockhashes_sysvar :: "hash list result"
  rent_id :: pubkey
  rent_minimum_balance :: "(nat \<Rightarrow> u64) result"
  create_account_allow_prefund_feature :: bool

datatype system_instruction =
    CreateAccount u64 u64 pubkey
  | Assign pubkey
  | Transfer u64
  | CreateAccountWithSeed pubkey "u8 list" u64 u64 pubkey
  | AdvanceNonceAccount
  | WithdrawNonceAccount u64
  | InitializeNonceAccount pubkey
  | AuthorizeNonceAccount pubkey
  | Allocate u64
  | AllocateWithSeed pubkey "u8 list" u64 pubkey
  | AssignWithSeed pubkey "u8 list" pubkey
  | TransferWithSeed u64 "u8 list" pubkey
  | UpgradeNonceAccount
  | CreateAccountAllowPrefund u64 u64 pubkey

definition system_err :: "system_env \<Rightarrow> system_error \<Rightarrow> instruction_error" where
  "system_err env e = Custom (system_error_code env e)"

text \<open>Borrowing an account for the extent of a block.\<close>

definition with_account ::
  "instruction_context \<Rightarrow> index_of_account \<Rightarrow>
   (borrowed_account \<Rightarrow> transaction_accounts \<Rightarrow> transaction_accounts result) \<Rightarrow>
   transaction_accounts \<Rightarrow> transaction_accounts result" where
  "with_account ic i block ta =
     and_then (try_borrow_instruction_account ic i ta) (\<lambda>(b, ta).
     and_then (block b ta) (\<lambda>ta.
     Inr (drop_account_ref_mut (ia_index_in_transaction (ba_instruction_account b)) ta)))"

subsection \<open>Addresses\<close>

record address =
  addr_address :: pubkey
  addr_base :: "pubkey option"

definition address_is_signer :: "address \<Rightarrow> pubkey set \<Rightarrow> bool" where
  "address_is_signer a signers =
     (case addr_base a of Some base \<Rightarrow> base \<in> signers | None \<Rightarrow> addr_address a \<in> signers)"

definition address_create ::
  "system_env \<Rightarrow> pubkey \<Rightarrow> (pubkey \<times> u8 list \<times> pubkey) option \<Rightarrow> address result" where
  "address_create env addr with_seed =
     (case with_seed of
        None \<Rightarrow> Inr \<lparr>addr_address = addr, addr_base = None\<rparr>
      | Some (base, seed, owner) \<Rightarrow>
          and_then (create_with_seed env base seed owner) (\<lambda>derived.
          if addr \<noteq> derived then Inl (system_err env AddressWithSeedMismatch)
          else Inr \<lparr>addr_address = addr, addr_base = Some base\<rparr>))"

subsection \<open>Accounts\<close>

definition allocate ::
  "system_env \<Rightarrow> borrowed_account \<Rightarrow> address \<Rightarrow> u64 \<Rightarrow> pubkey set \<Rightarrow> transaction_accounts \<Rightarrow> transaction_accounts result" where
  "allocate env account a space signers ta =
     (if \<not> address_is_signer a signers then Inl MissingRequiredSignature
      else if get_data account ta \<noteq> [] \<or> get_owner account ta \<noteq> system_program_id env
      then Inl (system_err env AccountAlreadyInUse)
      else if max_permitted_data_length env < space then Inl (system_err env InvalidAccountDataLength)
      else set_data_length account (unat space) ta)"

definition assign ::
  "borrowed_account \<Rightarrow> address \<Rightarrow> pubkey \<Rightarrow> pubkey set \<Rightarrow> transaction_accounts \<Rightarrow> transaction_accounts result" where
  "assign account a owner signers ta =
     (if get_owner account ta = owner then Inr ta
      else if \<not> address_is_signer a signers then Inl MissingRequiredSignature
      else set_owner account owner ta)"

definition allocate_and_assign ::
  "system_env \<Rightarrow> borrowed_account \<Rightarrow> address \<Rightarrow> u64 \<Rightarrow> pubkey \<Rightarrow> pubkey set \<Rightarrow> transaction_accounts \<Rightarrow> transaction_accounts result" where
  "allocate_and_assign env account a space owner signers ta =
     and_then (allocate env account a space signers ta) (assign account a owner signers)"

definition transfer_verified ::
  "system_env \<Rightarrow> instruction_context \<Rightarrow> index_of_account \<Rightarrow> index_of_account \<Rightarrow> u64 \<Rightarrow> transaction_accounts \<Rightarrow> transaction_accounts result" where
  "transfer_verified env ic from_index to_index lamports ta =
     and_then (with_account ic from_index (\<lambda>acct ta.
       if get_data acct ta \<noteq> [] then Inl InvalidArgument
       else if get_lamports acct ta < lamports then Inl (system_err env ResultWithNegativeLamports)
       else checked_sub_lamports acct lamports ta) ta)
     (with_account ic to_index (\<lambda>acct. checked_add_lamports acct lamports))"

definition transfer ::
  "system_env \<Rightarrow> instruction_context \<Rightarrow> index_of_account \<Rightarrow> index_of_account \<Rightarrow> u64 \<Rightarrow> transaction_accounts \<Rightarrow> transaction_accounts result" where
  "transfer env ic from_index to_index lamports ta =
     and_then (is_instruction_account_signer ic from_index) (\<lambda>signed.
     if \<not> signed then Inl MissingRequiredSignature
     else transfer_verified env ic from_index to_index lamports ta)"

definition transfer_with_seed ::
  "system_env \<Rightarrow> instruction_context \<Rightarrow> index_of_account \<Rightarrow> index_of_account \<Rightarrow> u8 list \<Rightarrow> pubkey \<Rightarrow>
   index_of_account \<Rightarrow> u64 \<Rightarrow> transaction_accounts \<Rightarrow> transaction_accounts result" where
  "transfer_with_seed env ic from_index base_index from_seed from_owner to_index lamports ta =
     and_then (is_instruction_account_signer ic base_index) (\<lambda>signed.
     if \<not> signed then Inl MissingRequiredSignature
     else
       and_then (get_key_of_instruction_account ic base_index ta) (\<lambda>base.
       and_then (create_with_seed env base from_seed from_owner) (\<lambda>derived.
       and_then (get_key_of_instruction_account ic from_index ta) (\<lambda>from_key.
       if from_key \<noteq> derived then Inl (system_err env AddressWithSeedMismatch)
       else transfer_verified env ic from_index to_index lamports ta))))"

definition create_account ::
  "system_env \<Rightarrow> instruction_context \<Rightarrow> index_of_account \<Rightarrow> index_of_account \<Rightarrow> address \<Rightarrow> u64 \<Rightarrow> u64 \<Rightarrow> pubkey \<Rightarrow>
   pubkey set \<Rightarrow> transaction_accounts \<Rightarrow> transaction_accounts result" where
  "create_account env ic from_index to_index to_address lamports space owner signers ta =
     and_then (with_account ic to_index (\<lambda>to ta.
       if 0 < get_lamports to ta then Inl (system_err env AccountAlreadyInUse)
       else allocate_and_assign env to to_address space owner signers ta) ta)
     (transfer env ic from_index to_index lamports)"

definition create_account_allow_prefund ::
  "system_env \<Rightarrow> instruction_context \<Rightarrow> index_of_account \<Rightarrow> address \<Rightarrow> (index_of_account \<times> u64) option \<Rightarrow> u64 \<Rightarrow> pubkey \<Rightarrow>
   pubkey set \<Rightarrow> transaction_accounts \<Rightarrow> transaction_accounts result" where
  "create_account_allow_prefund env ic to_index to_address from_and_lamports space owner signers ta =
     and_then (with_account ic to_index (\<lambda>to. allocate_and_assign env to to_address space owner signers) ta) (\<lambda>ta.
     case from_and_lamports of
       Some (from_index, lamports) \<Rightarrow>
         if 0 < lamports then transfer env ic from_index to_index lamports ta else Inr ta
     | None \<Rightarrow> Inr ta)"

subsection \<open>Durable nonces\<close>

definition nonce_checked_add :: "u64 \<Rightarrow> u64 \<Rightarrow> u64 result" where
  "nonce_checked_add a b = ok_or InsufficientFunds (checked_add a b)"

definition next_nonce_data :: "system_env \<Rightarrow> pubkey \<Rightarrow> nonce_data" where
  "next_nonce_data env authority = \<lparr>
     nd_authority = authority,
     nd_durable_nonce = durable_nonce_from_blockhash env (env_blockhash env),
     nd_lamports_per_signature = env_blockhash_lamports_per_signature env\<rparr>"

definition advance_nonce_account ::
  "system_env \<Rightarrow> borrowed_account \<Rightarrow> pubkey set \<Rightarrow> transaction_accounts \<Rightarrow> transaction_accounts result" where
  "advance_nonce_account env account signers ta =
     (if \<not> is_writable account then Inl InvalidArgument
      else and_then (get_state (nonce_deserialize env) account ta) (\<lambda>state.
        case nonce_state_of env state of
          NonceInitialized data \<Rightarrow>
            if nd_authority data \<notin> signers then Inl MissingRequiredSignature
            else if nd_durable_nonce data = durable_nonce_from_blockhash env (env_blockhash env)
            then Inl (system_err env NonceBlockhashNotExpired)
            else set_state (nonce_serialize env) account
                   (nonce_versions_new env (NonceInitialized (next_nonce_data env (nd_authority data)))) ta
        | NonceUninitialized \<Rightarrow> Inl InvalidAccountData))"

definition check_signer :: "pubkey set \<Rightarrow> pubkey \<Rightarrow> unit result" where
  "check_signer signers signer = ensure (signer \<in> signers) MissingRequiredSignature"

text \<open>The checks of a withdrawal, which reset the nonce when the account is emptied.\<close>

definition withdraw_nonce_checks ::
  "system_env \<Rightarrow> u64 \<Rightarrow> (nat \<Rightarrow> u64) \<Rightarrow> pubkey set \<Rightarrow> borrowed_account \<Rightarrow> transaction_accounts \<Rightarrow> transaction_accounts result" where
  "withdraw_nonce_checks env lamports minimum_balance signers acct ta =
     and_then (get_state (nonce_deserialize env) acct ta) (\<lambda>state.
     case nonce_state_of env state of
       NonceUninitialized \<Rightarrow>
         if get_lamports acct ta < lamports then Inl InsufficientFunds
         else and_then (check_signer signers (get_key acct ta)) (\<lambda>_. Inr ta)
     | NonceInitialized data \<Rightarrow>
         if lamports = get_lamports acct ta
         then (if nd_durable_nonce data = durable_nonce_from_blockhash env (env_blockhash env)
               then Inl (system_err env NonceBlockhashNotExpired)
               else and_then (check_signer signers (nd_authority data)) (\<lambda>_.
                    set_state (nonce_serialize env) acct (nonce_versions_new env NonceUninitialized) ta))
         else and_then (nonce_checked_add lamports (minimum_balance (length (get_data acct ta)))) (\<lambda>amount.
              if get_lamports acct ta < amount then Inl InsufficientFunds
              else and_then (check_signer signers (nd_authority data)) (\<lambda>_. Inr ta)))"

definition withdraw_nonce_account ::
  "system_env \<Rightarrow> instruction_context \<Rightarrow> index_of_account \<Rightarrow> u64 \<Rightarrow> index_of_account \<Rightarrow> (nat \<Rightarrow> u64) \<Rightarrow> pubkey set \<Rightarrow>
   transaction_accounts \<Rightarrow> transaction_accounts result" where
  "withdraw_nonce_account env ic from_index lamports to_index minimum_balance signers ta =
     and_then (with_account ic from_index (\<lambda>acct ta.
       if \<not> is_writable acct then Inl InvalidArgument
       else and_then (withdraw_nonce_checks env lamports minimum_balance signers acct ta) (\<lambda>ta.
            checked_sub_lamports acct lamports ta)) ta)
     (with_account ic to_index (\<lambda>acct. checked_add_lamports acct lamports))"

definition initialize_nonce_account ::
  "system_env \<Rightarrow> borrowed_account \<Rightarrow> pubkey \<Rightarrow> (nat \<Rightarrow> u64) \<Rightarrow> transaction_accounts \<Rightarrow> transaction_accounts result" where
  "initialize_nonce_account env account nonce_authority minimum_balance ta =
     (if \<not> is_writable account then Inl InvalidArgument
      else and_then (get_state (nonce_deserialize env) account ta) (\<lambda>state.
        case nonce_state_of env state of
          NonceUninitialized \<Rightarrow>
            if get_lamports account ta < minimum_balance (length (get_data account ta)) then Inl InsufficientFunds
            else set_state (nonce_serialize env) account
                   (nonce_versions_new env (NonceInitialized (next_nonce_data env nonce_authority))) ta
        | NonceInitialized _ \<Rightarrow> Inl InvalidAccountData))"

definition authorize_nonce_account ::
  "system_env \<Rightarrow> borrowed_account \<Rightarrow> pubkey \<Rightarrow> pubkey set \<Rightarrow> transaction_accounts \<Rightarrow> transaction_accounts result" where
  "authorize_nonce_account env account nonce_authority signers ta =
     (if \<not> is_writable account then Inl InvalidArgument
      else and_then (get_state (nonce_deserialize env) account ta) (\<lambda>state.
        case nonce_authorize env state signers nonce_authority of
          Inr versions \<Rightarrow> set_state (nonce_serialize env) account versions ta
        | Inl NonceNotInitialized \<Rightarrow> Inl InvalidAccountData
        | Inl (NonceMissingRequiredSignature _) \<Rightarrow> Inl MissingRequiredSignature))"

definition upgrade_nonce_account ::
  "system_env \<Rightarrow> borrowed_account \<Rightarrow> transaction_accounts \<Rightarrow> transaction_accounts result" where
  "upgrade_nonce_account env account ta =
     (if get_owner account ta \<noteq> system_program_id env then Inl InvalidAccountOwner
      else if \<not> is_writable account then Inl InvalidArgument
      else and_then (get_state (nonce_deserialize env) account ta) (\<lambda>state.
        case nonce_upgrade env state of
          None \<Rightarrow> Inl InvalidArgument
        | Some versions \<Rightarrow> set_state (nonce_serialize env) account versions ta))"

subsection \<open>The entry point\<close>

definition check_sysvar_account ::
  "pubkey \<Rightarrow> instruction_context \<Rightarrow> index_of_account \<Rightarrow> transaction_accounts \<Rightarrow> unit result" where
  "check_sysvar_account sysvar ic i ta =
     and_then (get_key_of_instruction_account ic i ta) (\<lambda>key. ensure (key = sysvar) InvalidArgument)"

definition recent_blockhashes ::
  "system_env \<Rightarrow> instruction_context \<Rightarrow> index_of_account \<Rightarrow> transaction_accounts \<Rightarrow> hash list result" where
  "recent_blockhashes env ic i ta =
     and_then (check_sysvar_account (recent_blockhashes_id env) ic i ta) (\<lambda>_. recent_blockhashes_sysvar env)"

definition rent_with_account_check ::
  "system_env \<Rightarrow> instruction_context \<Rightarrow> index_of_account \<Rightarrow> transaction_accounts \<Rightarrow> (nat \<Rightarrow> u64) result" where
  "rent_with_account_check env ic i ta =
     and_then (check_sysvar_account (rent_id env) ic i ta) (\<lambda>_. rent_minimum_balance env)"

text \<open>The address of an instruction account, optionally derived from a seed.\<close>

definition instruction_address ::
  "system_env \<Rightarrow> instruction_context \<Rightarrow> index_of_account \<Rightarrow> (pubkey \<times> u8 list \<times> pubkey) option \<Rightarrow>
   transaction_accounts \<Rightarrow> address result" where
  "instruction_address env ic i with_seed ta =
     and_then (get_key_of_instruction_account ic i ta) (\<lambda>key. address_create env key with_seed)"

fun dispatch_instruction ::
  "system_env \<Rightarrow> instruction_context \<Rightarrow> pubkey set \<Rightarrow> system_instruction \<Rightarrow> transaction_accounts \<Rightarrow> transaction_accounts result" where
  "dispatch_instruction env ic signers (CreateAccount lamports space owner) ta =
     and_then (check_number_of_instruction_accounts ic 2) (\<lambda>_.
     and_then (instruction_address env ic 1 None ta) (\<lambda>to_address.
     create_account env ic 0 1 to_address lamports space owner signers ta))"
| "dispatch_instruction env ic signers (CreateAccountWithSeed base seed lamports space owner) ta =
     and_then (check_number_of_instruction_accounts ic 2) (\<lambda>_.
     and_then (instruction_address env ic 1 (Some (base, seed, owner)) ta) (\<lambda>to_address.
     create_account env ic 0 1 to_address lamports space owner signers ta))"
| "dispatch_instruction env ic signers (Assign owner) ta =
     and_then (check_number_of_instruction_accounts ic 1) (\<lambda>_.
     with_account ic 0 (\<lambda>account ta.
       and_then (instruction_address env ic 0 None ta) (\<lambda>a. assign account a owner signers ta)) ta)"
| "dispatch_instruction env ic signers (Transfer lamports) ta =
     and_then (check_number_of_instruction_accounts ic 2) (\<lambda>_. transfer env ic 0 1 lamports ta)"
| "dispatch_instruction env ic signers (TransferWithSeed lamports from_seed from_owner) ta =
     and_then (check_number_of_instruction_accounts ic 3) (\<lambda>_.
     transfer_with_seed env ic 0 1 from_seed from_owner 2 lamports ta)"
| "dispatch_instruction env ic signers AdvanceNonceAccount ta =
     and_then (check_number_of_instruction_accounts ic 1) (\<lambda>_.
     with_account ic 0 (\<lambda>me ta.
       and_then (recent_blockhashes env ic 1 ta) (\<lambda>hashes.
       if hashes = [] then Inl (system_err env NonceNoRecentBlockhashes)
       else advance_nonce_account env me signers ta)) ta)"
| "dispatch_instruction env ic signers (WithdrawNonceAccount lamports) ta =
     and_then (check_number_of_instruction_accounts ic 2) (\<lambda>_.
     and_then (recent_blockhashes env ic 2 ta) (\<lambda>_.
     and_then (rent_with_account_check env ic 3 ta) (\<lambda>minimum_balance.
     withdraw_nonce_account env ic 0 lamports 1 minimum_balance signers ta)))"
| "dispatch_instruction env ic signers (InitializeNonceAccount authorized) ta =
     and_then (check_number_of_instruction_accounts ic 1) (\<lambda>_.
     with_account ic 0 (\<lambda>me ta.
       and_then (recent_blockhashes env ic 1 ta) (\<lambda>hashes.
       if hashes = [] then Inl (system_err env NonceNoRecentBlockhashes)
       else and_then (rent_with_account_check env ic 2 ta) (\<lambda>minimum_balance.
            initialize_nonce_account env me authorized minimum_balance ta))) ta)"
| "dispatch_instruction env ic signers (AuthorizeNonceAccount nonce_authority) ta =
     and_then (check_number_of_instruction_accounts ic 1) (\<lambda>_.
     with_account ic 0 (\<lambda>me. authorize_nonce_account env me nonce_authority signers) ta)"
| "dispatch_instruction env ic signers UpgradeNonceAccount ta =
     and_then (check_number_of_instruction_accounts ic 1) (\<lambda>_.
     with_account ic 0 (upgrade_nonce_account env) ta)"
| "dispatch_instruction env ic signers (Allocate space) ta =
     and_then (check_number_of_instruction_accounts ic 1) (\<lambda>_.
     with_account ic 0 (\<lambda>account ta.
       and_then (instruction_address env ic 0 None ta) (\<lambda>a. allocate env account a space signers ta)) ta)"
| "dispatch_instruction env ic signers (AllocateWithSeed base seed space owner) ta =
     and_then (check_number_of_instruction_accounts ic 1) (\<lambda>_.
     with_account ic 0 (\<lambda>account ta.
       and_then (instruction_address env ic 0 (Some (base, seed, owner)) ta) (\<lambda>a.
       allocate_and_assign env account a space owner signers ta)) ta)"
| "dispatch_instruction env ic signers (AssignWithSeed base seed owner) ta =
     and_then (check_number_of_instruction_accounts ic 1) (\<lambda>_.
     with_account ic 0 (\<lambda>account ta.
       and_then (instruction_address env ic 0 (Some (base, seed, owner)) ta) (\<lambda>a.
       assign account a owner signers ta)) ta)"
| "dispatch_instruction env ic signers (CreateAccountAllowPrefund lamports space owner) ta =
     (if \<not> create_account_allow_prefund_feature env then Inl InvalidInstructionData
      else and_then (check_number_of_instruction_accounts ic (if 0 < lamports then 2 else 1)) (\<lambda>_.
           and_then (instruction_address env ic 0 None ta) (\<lambda>to_address.
           create_account_allow_prefund env ic 0 to_address (if 0 < lamports then Some (1, lamports) else None)
             space owner signers ta)))"

definition system_process_instruction ::
  "system_env \<Rightarrow> instruction_context \<Rightarrow> system_instruction \<Rightarrow> transaction_accounts \<Rightarrow> transaction_accounts result" where
  "system_process_instruction env ic instruction ta =
     and_then (get_signers ic ta) (\<lambda>signers. dispatch_instruction env ic signers instruction ta)"

end
