(* ===== verification/Vote_Account.thy ===== *)
theory Vote_Account
  imports Vote_Update System_Program
begin

section \<open>Operations on vote accounts\<close>

text \<open>
  The operations of the vote program on the account that stores a vote state: the account part of
  \<open>src/programs/vote/src/vote_state/handler.rs\<close> and the operations of \<open>vote_state/mod.rs\<close> that the
  processor calls, up to the withdrawal and the three kinds of votes.

  The functions of the crates outside the repository that these operations call (the versions of
  the vote state and their encoding, the map of authorized voters, the BLS signatures, the sysvars)
  and the features of the invocation are the fields of the record \<open>vote_env\<close>. An operation that can
  panic has an optional result.
\<close>

record clock =
  clock_slot :: slot
  clock_epoch :: epoch
  clock_leader_schedule_epoch :: epoch

record epoch_schedule =
  es_first_normal_slot :: slot
  es_slots_per_epoch :: u64

record vote_init =
  init_node_pubkey :: pubkey
  init_authorized_voter :: pubkey
  init_authorized_withdrawer :: pubkey
  init_commission :: u8

record vote_init_v2 =
  init2_node_pubkey :: pubkey
  init2_authorized_voter :: pubkey
  init2_authorized_voter_bls_pubkey :: bls_pubkey
  init2_authorized_voter_bls_proof_of_possession :: "u8 list"
  init2_authorized_withdrawer :: pubkey
  init2_inflation_rewards_commission_bps :: u16
  init2_block_revenue_commission_bps :: u16

datatype vote_authorize =
    Voter
  | Withdrawer
  | VoterWithBLS bls_pubkey "u8 list"

datatype commission_kind = InflationRewards | BlockRevenue

record vote_env =
  vote_interface_of :: vote_interface
  vote_program_id :: pubkey
  vote_system_program_id :: pubkey
  vote_error_code :: "vote_error \<Rightarrow> u32"
  vote_create_with_seed :: "pubkey \<Rightarrow> u8 list \<Rightarrow> pubkey \<Rightarrow> pubkey result"
  versions_deserialize :: "u8 list \<Rightarrow> vote_state_versions result"
  versions_bincode_deserialize :: "u8 list \<Rightarrow> vote_state_versions option"
  versions_serialize :: "vote_state_versions \<Rightarrow> u8 list option"
  versions_is_uninitialized :: "vote_state_versions \<Rightarrow> bool"
  vote_state_v4_size_of :: nat
  vote_state_v4_new_with_defaults :: "pubkey \<Rightarrow> vote_init \<Rightarrow> clock \<Rightarrow> vote_state_v4"
  vote_state_v4_new :: "vote_init_v2 \<Rightarrow> pubkey \<Rightarrow> pubkey \<Rightarrow> clock \<Rightarrow> vote_state_v4"
  av_get_and_cache :: "epoch \<Rightarrow> authorized_voters \<Rightarrow> pubkey option \<times> authorized_voters"
  av_purge :: "epoch \<Rightarrow> authorized_voters \<Rightarrow> authorized_voters"
  av_contains :: "epoch \<Rightarrow> authorized_voters \<Rightarrow> bool"
  av_insert :: "epoch \<Rightarrow> pubkey \<Rightarrow> authorized_voters \<Rightarrow> authorized_voters"
  bls_verify :: "u8 list \<Rightarrow> bls_pubkey \<Rightarrow> u8 list \<Rightarrow> bool"
  transaction_rent :: rent
  compute_meter :: u64
  clock_id :: pubkey
  clock_sysvar :: "clock result"
  rent_sysvar_id :: pubkey
  rent_sysvar :: "rent result"
  slot_hashes_id :: pubkey
  slot_hashes_sysvar :: "slot_hashes result"
  epoch_schedule_sysvar :: "epoch_schedule result"
  bls_pubkey_management_in_vote_account :: bool
  commission_rate_in_basis_points :: bool
  custom_commission_collector :: bool
  block_revenue_sharing :: bool
  vote_account_initialize_v2 :: bool
  delay_commission_updates :: bool
  deprecate_legacy_vote_ixs :: bool
  alpenglow_migration_succeeded :: bool

definition vote_err :: "vote_env \<Rightarrow> vote_error \<Rightarrow> instruction_error" where
  "vote_err env e = Custom (vote_error_code env e)"

text \<open>The next computation of an operation that can panic.\<close>

definition and_then_some :: "'a result \<Rightarrow> ('a \<Rightarrow> 'b result option) \<Rightarrow> 'b result option" where
  "and_then_some m k = (case m of Inl e \<Rightarrow> Some (Inl e) | Inr x \<Rightarrow> k x)"

lemma and_then_some_Some_Inr [result_ops]:
  "and_then_some m k = Some (Inr y) \<longleftrightarrow> (\<exists>x. m = Inr x \<and> k x = Some (Inr y))"
  by (auto simp: and_then_some_def split: sum.splits)

subsection \<open>The vote state in its account\<close>

definition verify_authorized_signer :: "pubkey \<Rightarrow> pubkey set \<Rightarrow> unit result" where
  "verify_authorized_signer authorized signers =
     (if authorized \<in> signers then Inr () else Inl MissingRequiredSignature)"

definition get_and_update_authorized_voter ::
  "vote_env \<Rightarrow> epoch \<Rightarrow> vote_state_v4 \<Rightarrow> (pubkey \<times> vote_state_v4) result" where
  "get_and_update_authorized_voter env epoch self =
     (let (found, voters) = av_get_and_cache env epoch (v4_authorized_voters self)
      in and_then (ok_or InvalidAccountData found) (\<lambda>pubkey.
         Inr (pubkey, self\<lparr>v4_authorized_voters := av_purge env (saturating_sub epoch 1) voters\<rparr>)))"

definition set_new_authorized_voter ::
  "vote_env \<Rightarrow> pubkey \<Rightarrow> epoch \<Rightarrow> epoch \<Rightarrow> bls_pubkey option \<Rightarrow> (pubkey \<Rightarrow> unit result) \<Rightarrow>
   vote_state_v4 \<Rightarrow> vote_state_v4 result" where
  "set_new_authorized_voter env authorized_pubkey epoch target_epoch bls verify self =
     and_then (get_and_update_authorized_voter env epoch self) (\<lambda>(epoch_authorized_voter, self).
     and_then (verify epoch_authorized_voter) (\<lambda>_.
     if av_contains env target_epoch (v4_authorized_voters self) then Inl (vote_err env TooSoonToReauthorize)
     else
       let self = self\<lparr>v4_authorized_voters :=
             av_insert env target_epoch authorized_pubkey (v4_authorized_voters self)\<rparr>
       in Inr (if bls \<noteq> None then self\<lparr>v4_bls_pubkey_compressed := bls\<rparr> else self)))"

definition set_vote_account_state ::
  "vote_env \<Rightarrow> borrowed_account \<Rightarrow> vote_state_v4 \<Rightarrow> transaction_accounts \<Rightarrow> transaction_accounts result" where
  "set_vote_account_state env vote_account v4 ta =
     (let size = vote_state_v4_size_of env;
          grown =
            (if length (get_data vote_account ta) < size
             then if \<not> is_rent_exempt_at_data_length (rent_is_exempt (transaction_rent env)) vote_account size ta
                  then Inl AccountNotRentExempt
                  else (case set_data_length vote_account size ta of
                          Inl _ \<Rightarrow> Inl AccountNotRentExempt
                        | Inr ta \<Rightarrow> Inr ta)
             else Inr ta)
      in and_then grown (set_state (versions_serialize env) vote_account (V4 v4)))"

definition init_vote_account_state ::
  "vote_env \<Rightarrow> borrowed_account \<Rightarrow> vote_init \<Rightarrow> clock \<Rightarrow> transaction_accounts \<Rightarrow> transaction_accounts result" where
  "init_vote_account_state env vote_account init clk ta =
     set_vote_account_state env vote_account
       (vote_state_v4_new_with_defaults env (get_key vote_account ta) init clk) ta"

definition init_vote_account_state_v2 ::
  "vote_env \<Rightarrow> borrowed_account \<Rightarrow> vote_init_v2 \<Rightarrow> pubkey \<Rightarrow> pubkey \<Rightarrow> clock \<Rightarrow>
   transaction_accounts \<Rightarrow> transaction_accounts result" where
  "init_vote_account_state_v2 env vote_account init inflation_collector block_collector clk ta =
     set_vote_account_state env vote_account (vote_state_v4_new env init inflation_collector block_collector clk) ta"

definition deinitialize_vote_account_state ::
  "borrowed_account \<Rightarrow> transaction_accounts \<Rightarrow> transaction_accounts result" where
  "deinitialize_vote_account_state vote_account ta =
     and_then (get_data_mut vote_account ta) (\<lambda>ta.
     Inr (upd_private (ba_index vote_account) (pf_payload_update (\<lambda>data. replicate (length data) 0)) ta))"

definition check_vote_account_length ::
  "vote_env \<Rightarrow> borrowed_account \<Rightarrow> transaction_accounts \<Rightarrow> unit result" where
  "check_vote_account_length env vote_account ta =
     (if length (get_data vote_account ta) \<noteq> vote_state_v4_size_of env then Inl InvalidAccountData else Inr ())"

fun try_new_from_vote_state_versions :: "vote_state_versions \<Rightarrow> vote_state_v4 result" where
  "try_new_from_vote_state_versions (V4 state) = Inr state"
| "try_new_from_vote_state_versions (V3 _) = Inl InvalidAccountData"
| "try_new_from_vote_state_versions (V1_14_11 _) = Inl InvalidAccountData"
| "try_new_from_vote_state_versions Uninitialized = Inl InvalidAccountData"

definition serialize_into :: "vote_env \<Rightarrow> vote_state_v4 \<Rightarrow> u8 list \<Rightarrow> u8 list result" where
  "serialize_into env self data =
     and_then (ok_or InvalidAccountData (versions_serialize env (V4 self))) (\<lambda>bytes.
     if length data < length bytes then Inl InvalidAccountData else Inr (bytes @ drop (length bytes) data))"

definition get_vote_state_handler_checked ::
  "vote_env \<Rightarrow> borrowed_account \<Rightarrow> transaction_accounts \<Rightarrow> vote_state_v4 result" where
  "get_vote_state_handler_checked env vote_account ta =
     and_then (versions_deserialize env (get_data vote_account ta)) (\<lambda>versioned.
     if versions_is_uninitialized env versioned then Inl UninitializedAccount
     else ok_or UninitializedAccount
            (try_convert_to_vote_state_v4 (vote_interface_of env) versioned (get_key vote_account ta)))"


subsection \<open>Authorities\<close>

text \<open>The bytes of a key, the most significant first.\<close>

definition pubkey_bytes :: "pubkey \<Rightarrow> u8 list" where
  "pubkey_bytes key = map (\<lambda>i. ucast (drop_bit (8 * (31 - i)) key)) [0..<32]"

definition generate_pop_message :: "pubkey \<Rightarrow> u8 list" where
  "generate_pop_message vote_account_pubkey =
     map of_char ''ALPENGLOW'' @ pubkey_bytes vote_account_pubkey"

definition bls_proof_of_possession_verification_compute_units :: u64 where
  "bls_proof_of_possession_verification_compute_units = 34500"

text \<open>
  The units for one proof are compared with those that are left. The meter is not carried on, since an
  instruction verifies at most one proof and nothing later in it reads the meter.
\<close>

definition consume_pop_compute_units :: "vote_env \<Rightarrow> unit result" where
  "consume_pop_compute_units env =
     (if compute_meter env < bls_proof_of_possession_verification_compute_units
      then Inl ComputationalBudgetExceeded else Inr ())"

definition verify_bls_proof_of_possession :: "vote_env \<Rightarrow> pubkey \<Rightarrow> bls_pubkey \<Rightarrow> u8 list \<Rightarrow> unit result" where
  "verify_bls_proof_of_possession env vote_account_pubkey bls proof =
     and_then (consume_pop_compute_units env) (\<lambda>_.
     ensure (bls_verify env proof bls (generate_pop_message vote_account_pubkey)) InvalidArgument)"

text \<open>The voter of the epoch agrees to its successor unless the withdrawer does.\<close>

definition authorize_voter ::
  "vote_env \<Rightarrow> pubkey \<Rightarrow> pubkey set \<Rightarrow> clock \<Rightarrow> bls_pubkey option \<Rightarrow> bool \<Rightarrow> vote_state_v4 \<Rightarrow> vote_state_v4 result" where
  "authorize_voter env authorized signers clk bls authorized_withdrawer_signer vote_state =
     and_then (ok_or InvalidAccountData (checked_add (clock_leader_schedule_epoch clk) 1)) (\<lambda>target_epoch.
     set_new_authorized_voter env authorized (clock_epoch clk) target_epoch bls
       (\<lambda>epoch_authorized_voter.
          if authorized_withdrawer_signer then Inr () else verify_authorized_signer epoch_authorized_voter signers)
       vote_state)"

definition is_ok :: "'a result \<Rightarrow> bool" where
  "is_ok r = (case r of Inl _ \<Rightarrow> False | Inr _ \<Rightarrow> True)"

definition authorize_state ::
  "vote_env \<Rightarrow> pubkey \<Rightarrow> pubkey \<Rightarrow> vote_authorize \<Rightarrow> pubkey set \<Rightarrow> clock \<Rightarrow> bool \<Rightarrow> vote_state_v4 \<Rightarrow> vote_state_v4 result" where
  "authorize_state env vote_key authorized kind signers clk is_bls_enabled vote_state =
     (let withdrawer_check = verify_authorized_signer (authorized_withdrawer vote_state) signers in
      case kind of
        Voter \<Rightarrow>
          if is_bls_enabled \<and> has_bls_pubkey vote_state then Inl InvalidInstructionData
          else authorize_voter env authorized signers clk None (is_ok withdrawer_check) vote_state
      | Withdrawer \<Rightarrow>
          and_then withdrawer_check (\<lambda>_. Inr (set_authorized_withdrawer authorized vote_state))
      | VoterWithBLS bls proof \<Rightarrow>
          if \<not> is_bls_enabled then Inl InvalidInstructionData
          else and_then (verify_bls_proof_of_possession env vote_key bls proof) (\<lambda>_.
               authorize_voter env authorized signers clk (Some bls) (is_ok withdrawer_check) vote_state))"

definition authorize ::
  "vote_env \<Rightarrow> borrowed_account \<Rightarrow> pubkey \<Rightarrow> vote_authorize \<Rightarrow> pubkey set \<Rightarrow> clock \<Rightarrow> bool \<Rightarrow>
   transaction_accounts \<Rightarrow> transaction_accounts result" where
  "authorize env vote_account authorized kind signers clk is_bls_enabled ta =
     and_then (get_vote_state_handler_checked env vote_account ta) (\<lambda>vote_state.
     and_then (authorize_state env (get_key vote_account ta) authorized kind signers clk is_bls_enabled vote_state)
       (\<lambda>vote_state. set_vote_account_state env vote_account vote_state ta))"

definition update_validator_identity ::
  "vote_env \<Rightarrow> borrowed_account \<Rightarrow> pubkey \<Rightarrow> pubkey set \<Rightarrow> bool \<Rightarrow> transaction_accounts \<Rightarrow> transaction_accounts result" where
  "update_validator_identity env vote_account node_pubkey signers custom_collector_enabled ta =
     and_then (get_vote_state_handler_checked env vote_account ta) (\<lambda>vote_state.
     and_then (verify_authorized_signer (authorized_withdrawer vote_state) signers) (\<lambda>_.
     and_then (verify_authorized_signer node_pubkey signers) (\<lambda>_.
     let vote_state = set_node_pubkey node_pubkey vote_state;
         vote_state = (if \<not> custom_collector_enabled then set_block_revenue_collector node_pubkey vote_state
                       else vote_state)
     in set_vote_account_state env vote_account vote_state ta)))"

subsection \<open>Commissions\<close>

definition is_commission_update_allowed :: "slot \<Rightarrow> epoch_schedule \<Rightarrow> bool" where
  "is_commission_update_allowed slot schedule =
     (if es_slots_per_epoch schedule = 0 then True
      else let relative_slot = saturating_sub slot (es_first_normal_slot schedule) mod es_slots_per_epoch schedule
           in saturating_mul relative_slot 2 \<le> es_slots_per_epoch schedule)"

definition update_commission ::
  "vote_env \<Rightarrow> borrowed_account \<Rightarrow> u8 \<Rightarrow> pubkey set \<Rightarrow> epoch_schedule \<Rightarrow> clock \<Rightarrow> bool \<Rightarrow>
   transaction_accounts \<Rightarrow> transaction_accounts result" where
  "update_commission env vote_account new_commission signers schedule clk disable_commission_update_rule ta =
     (let vote_state_result = get_vote_state_handler_checked env vote_account ta;
          enforce_commission_update_rule = (\<not> disable_commission_update_rule \<and>
            (case vote_state_result of
               Inr decoded \<Rightarrow> new_commission > commission decoded
             | Inl _ \<Rightarrow> True))
      in if enforce_commission_update_rule \<and> \<not> is_commission_update_allowed (clock_slot clk) schedule
         then Inl (vote_err env CommissionUpdateTooLate)
         else and_then vote_state_result (\<lambda>vote_state.
              and_then (verify_authorized_signer (authorized_withdrawer vote_state) signers) (\<lambda>_.
              set_vote_account_state env vote_account (set_commission new_commission vote_state) ta)))"

definition update_commission_bps ::
  "vote_env \<Rightarrow> borrowed_account \<Rightarrow> u16 \<Rightarrow> commission_kind \<Rightarrow> pubkey set \<Rightarrow> bool \<Rightarrow>
   transaction_accounts \<Rightarrow> transaction_accounts result" where
  "update_commission_bps env vote_account commission_bps kind signers block_revenue_sharing_enabled ta =
     (if kind = BlockRevenue \<and> \<not> block_revenue_sharing_enabled then Inl InvalidInstructionData
      else and_then (get_vote_state_handler_checked env vote_account ta) (\<lambda>vote_state.
           and_then (verify_authorized_signer (authorized_withdrawer vote_state) signers) (\<lambda>_.
           set_vote_account_state env vote_account
             (case kind of
                InflationRewards \<Rightarrow> set_inflation_rewards_commission_bps commission_bps vote_state
              | BlockRevenue \<Rightarrow> set_block_revenue_commission_bps commission_bps vote_state) ta)))"

datatype new_commission_collector =
    VoteAccount
  | NewAccount borrowed_account

definition validate_and_resolve_key ::
  "vote_env \<Rightarrow> new_commission_collector \<Rightarrow> borrowed_account \<Rightarrow> rent \<Rightarrow> transaction_accounts \<Rightarrow> pubkey result" where
  "validate_and_resolve_key env self vote_account r ta =
     (case self of
        VoteAccount \<Rightarrow> Inr (get_key vote_account ta)
      | NewAccount collector_account \<Rightarrow>
          if get_owner collector_account ta \<noteq> vote_system_program_id env then Inl InvalidAccountOwner
          else if \<not> rent_is_exempt r (get_lamports collector_account ta) (length (get_data collector_account ta))
          then Inl InsufficientFunds
          else if \<not> is_writable collector_account then Inl InvalidArgument
          else Inr (get_key collector_account ta))"

definition update_commission_collector ::
  "vote_env \<Rightarrow> borrowed_account \<Rightarrow> new_commission_collector \<Rightarrow> commission_kind \<Rightarrow> pubkey set \<Rightarrow> rent \<Rightarrow>
   transaction_accounts \<Rightarrow> transaction_accounts result" where
  "update_commission_collector env vote_account new_collector kind signers r ta =
     and_then (get_vote_state_handler_checked env vote_account ta) (\<lambda>vote_state.
     and_then (verify_authorized_signer (authorized_withdrawer vote_state) signers) (\<lambda>_.
     and_then (validate_and_resolve_key env new_collector vote_account r ta) (\<lambda>new_collector_key.
     set_vote_account_state env vote_account
       (case kind of
          InflationRewards \<Rightarrow> set_inflation_rewards_collector new_collector_key vote_state
        | BlockRevenue \<Rightarrow> set_block_revenue_collector new_collector_key vote_state) ta)))"


subsection \<open>Rewards of delegators\<close>

text \<open>
  The deposit calls the system program to transfer the lamports. The call is the argument
  \<open>cpi source destination lamports\<close>, a change of the accounts.
\<close>

definition deposit_delegator_rewards ::
  "(pubkey \<Rightarrow> pubkey \<Rightarrow> u64 \<Rightarrow> transaction_accounts \<Rightarrow> transaction_accounts result) \<Rightarrow>
   vote_env \<Rightarrow> instruction_context \<Rightarrow> index_of_account \<Rightarrow> index_of_account \<Rightarrow> u64 \<Rightarrow> pubkey set \<Rightarrow>
   transaction_accounts \<Rightarrow> transaction_accounts result" where
  "deposit_delegator_rewards cpi env ic vote_account_index sender_account_index deposit signers ta =
     and_then (get_key_of_instruction_account ic vote_account_index ta) (\<lambda>vote_address.
     and_then (get_key_of_instruction_account ic sender_account_index ta) (\<lambda>source_address.
     and_then (verify_authorized_signer source_address signers) (\<lambda>_.
     and_then (try_borrow_instruction_account ic vote_account_index ta) (\<lambda>(vote_account, ta).
     and_then (versions_deserialize env (get_data vote_account ta)) (\<lambda>versioned.
     and_then (case versioned of V4 vote_state \<Rightarrow> Inr vote_state | _ \<Rightarrow> Inl InvalidAccountData) (\<lambda>vote_state.
     and_then (cpi source_address vote_address deposit
         (drop_account_ref_mut (ia_index_in_transaction (ba_instruction_account vote_account)) ta)) (\<lambda>ta.
     with_account ic vote_account_index (\<lambda>vote_account ta.
       and_then (ok_or ArithmeticOverflow (add_pending_delegator_rewards deposit vote_state)) (\<lambda>vote_state.
       set_vote_account_state env vote_account vote_state ta)) ta)))))))"

subsection \<open>Withdrawal and initialization\<close>

text \<open>A validator with credits in this epoch or the one before is active.\<close>

definition reject_active_vote_account_close :: "clock \<Rightarrow> vote_state_v4 \<Rightarrow> bool" where
  "reject_active_vote_account_close clk vote_state =
     (case rev (v4_epoch_credits vote_state) of
        [] \<Rightarrow> False
      | (last_epoch_with_credits, _, _) # _ \<Rightarrow> saturating_sub (clock_epoch clk) last_epoch_with_credits < 2)"

definition withdraw_from_vote_account ::
  "vote_env \<Rightarrow> u64 \<Rightarrow> pubkey set \<Rightarrow> rent \<Rightarrow> clock \<Rightarrow> borrowed_account \<Rightarrow> transaction_accounts \<Rightarrow> transaction_accounts result" where
  "withdraw_from_vote_account env lamports signers r clk vote_account ta =
     and_then (get_vote_state_handler_checked env vote_account ta) (\<lambda>vote_state.
     and_then (verify_authorized_signer (authorized_withdrawer vote_state) signers) (\<lambda>_.
     and_then (ok_or InsufficientFunds (checked_sub (get_lamports vote_account ta) lamports)) (\<lambda>remaining_balance.
     and_then
       (if remaining_balance = 0
        then if 0 < pending_delegator_rewards vote_state then Inl InsufficientFunds
             else if reject_active_vote_account_close clk vote_state then Inl (vote_err env ActiveVoteAccountClose)
             else deinitialize_vote_account_state vote_account ta
        else and_then (ok_or ArithmeticOverflow
                 (checked_add (rent_min_balance r (length (get_data vote_account ta)))
                    (pending_delegator_rewards vote_state))) (\<lambda>min_balance.
             if remaining_balance < min_balance then Inl InsufficientFunds else Inr ta))
       (\<lambda>ta. checked_sub_lamports vote_account lamports ta))))"

definition withdraw ::
  "vote_env \<Rightarrow> instruction_context \<Rightarrow> index_of_account \<Rightarrow> u64 \<Rightarrow> index_of_account \<Rightarrow> pubkey set \<Rightarrow> rent \<Rightarrow> clock \<Rightarrow>
   transaction_accounts \<Rightarrow> transaction_accounts result" where
  "withdraw env ic vote_account_index lamports to_account_index signers r clk ta =
     and_then (with_account ic vote_account_index (withdraw_from_vote_account env lamports signers r clk) ta) (\<lambda>ta.
     with_account ic to_account_index (\<lambda>to_account. checked_add_lamports to_account lamports) ta)"

definition check_uninitialized :: "vote_env \<Rightarrow> borrowed_account \<Rightarrow> transaction_accounts \<Rightarrow> unit result" where
  "check_uninitialized env vote_account ta =
     and_then (check_vote_account_length env vote_account ta) (\<lambda>_.
     and_then (get_state (versions_bincode_deserialize env) vote_account ta) (\<lambda>versioned.
     if \<not> versions_is_uninitialized env versioned then Inl AccountAlreadyInitialized else Inr ()))"

definition initialize_account_v2 ::
  "vote_env \<Rightarrow> borrowed_account \<Rightarrow> vote_init_v2 \<Rightarrow> new_commission_collector \<Rightarrow> new_commission_collector \<Rightarrow>
   pubkey set \<Rightarrow> clock \<Rightarrow> rent \<Rightarrow> transaction_accounts \<Rightarrow> transaction_accounts result" where
  "initialize_account_v2 env vote_account init inflation_rewards_collector block_revenue_collector signers clk r ta =
     and_then (check_uninitialized env vote_account ta) (\<lambda>_.
     and_then (verify_authorized_signer (init2_node_pubkey init) signers) (\<lambda>_.
     and_then (validate_and_resolve_key env inflation_rewards_collector vote_account r ta) (\<lambda>inflation_key.
     and_then (validate_and_resolve_key env block_revenue_collector vote_account r ta) (\<lambda>block_key.
     and_then (verify_bls_proof_of_possession env (get_key vote_account ta)
         (init2_authorized_voter_bls_pubkey init) (init2_authorized_voter_bls_proof_of_possession init)) (\<lambda>_.
     init_vote_account_state_v2 env vote_account init inflation_key block_key clk ta)))))"

definition initialize_account ::
  "vote_env \<Rightarrow> borrowed_account \<Rightarrow> vote_init \<Rightarrow> pubkey set \<Rightarrow> clock \<Rightarrow> transaction_accounts \<Rightarrow> transaction_accounts result" where
  "initialize_account env vote_account init signers clk ta =
     and_then (check_uninitialized env vote_account ta) (\<lambda>_.
     and_then (verify_authorized_signer (init_node_pubkey init) signers) (\<lambda>_.
     init_vote_account_state env vote_account init clk ta))"

subsection \<open>Votes\<close>

text \<open>The state of the account and the check of the voter, which all kinds of votes begin with.\<close>

definition voting_state ::
  "vote_env \<Rightarrow> borrowed_account \<Rightarrow> clock \<Rightarrow> pubkey set \<Rightarrow> transaction_accounts \<Rightarrow> vote_state_v4 result" where
  "voting_state env vote_account clk signers ta =
     and_then (get_vote_state_handler_checked env vote_account ta) (\<lambda>vote_state.
     and_then (get_and_update_authorized_voter env (clock_epoch clk) vote_state) (\<lambda>(authorized_voter, vote_state).
     and_then (verify_authorized_signer authorized_voter signers) (\<lambda>_. Inr vote_state)))"

definition or_vote_err :: "vote_env \<Rightarrow> vote_error + 'a \<Rightarrow> 'a result" where
  "or_vote_err env r = (case r of Inl e \<Rightarrow> Inl (vote_err env e) | Inr x \<Rightarrow> Inr x)"

definition vote_process_timestamp :: "vote \<Rightarrow> vote_state_v4 \<Rightarrow> vote_error + vote_state_v4" where
  "vote_process_timestamp v vote_state =
     (case vote_timestamp v of
        None \<Rightarrow> Inr vote_state
      | Some timestamp \<Rightarrow>
          if vote_slots v = [] then Inl EmptySlots
          else process_timestamp (Max (set (vote_slots v))) timestamp vote_state)"

definition process_vote_with_account ::
  "vote_env \<Rightarrow> borrowed_account \<Rightarrow> slot_hashes \<Rightarrow> clock \<Rightarrow> vote \<Rightarrow> pubkey set \<Rightarrow>
   transaction_accounts \<Rightarrow> transaction_accounts result option" where
  "process_vote_with_account env vote_account hashes clk v signers ta =
     and_then_some (voting_state env vote_account clk signers ta) (\<lambda>vote_state.
     Option.bind (process_vote (vote_interface_of env) vote_state v hashes (clock_epoch clk) (clock_slot clk)) (\<lambda>r.
     Some (and_then (or_vote_err env r) (\<lambda>vote_state.
           and_then (or_vote_err env (vote_process_timestamp v vote_state)) (\<lambda>vote_state.
           set_vote_account_state env vote_account vote_state ta)))))"

definition process_vote_state_update ::
  "vote_env \<Rightarrow> borrowed_account \<Rightarrow> slot_hashes \<Rightarrow> clock \<Rightarrow> vote_state_update \<Rightarrow> pubkey set \<Rightarrow>
   transaction_accounts \<Rightarrow> transaction_accounts result option" where
  "process_vote_state_update env vote_account hashes clk update signers ta =
     and_then_some (voting_state env vote_account clk signers ta) (\<lambda>vote_state.
     Option.bind (do_process_vote_state_update (vote_interface_of env) vote_state hashes
         (clock_epoch clk) (clock_slot clk) update) (\<lambda>r.
     Some (and_then (or_vote_err env r) (\<lambda>vote_state. set_vote_account_state env vote_account vote_state ta))))"

definition process_tower_sync ::
  "vote_env \<Rightarrow> borrowed_account \<Rightarrow> slot_hashes \<Rightarrow> clock \<Rightarrow> tower_sync \<Rightarrow> pubkey set \<Rightarrow>
   transaction_accounts \<Rightarrow> transaction_accounts result option" where
  "process_tower_sync env vote_account hashes clk sync signers ta =
     and_then_some (voting_state env vote_account clk signers ta) (\<lambda>vote_state.
     Option.bind (do_process_tower_sync (vote_interface_of env) vote_state hashes
         (clock_epoch clk) (clock_slot clk) sync) (\<lambda>r.
     Some (and_then (or_vote_err env r) (\<lambda>vote_state. set_vote_account_state env vote_account vote_state ta))))"

end
