(* ===== verification/Instruction_Stack.thy ===== *)
theory Instruction_Stack
  imports Transaction_Context
begin

section \<open>The run of a transaction\<close>

text \<open>
  Every state that a transaction can be in between the calls of the runtime: a new context, after
  which instructions are configured, pushed and popped, and programs change the accounts. A
  transaction whose push fails ends, so only successful pushes are followed. The invariant relates
  the stack to the trace and the lamports to those at the start.
\<close>

inductive context_trace ::
  "instructions_sysvar \<Rightarrow> (u64 \<Rightarrow> nat \<Rightarrow> bool) \<Rightarrow> (pubkey \<times> account_shared_data) list \<Rightarrow> nat \<Rightarrow> nat \<Rightarrow> nat \<Rightarrow>
   transaction_context \<Rightarrow> bool"
  for si is_exempt accounts stack_capacity trace_capacity top_level where
  start: "context_trace si is_exempt accounts stack_capacity trace_capacity top_level
     (transaction_context_new accounts stack_capacity trace_capacity top_level)"
| configure: "context_trace si is_exempt accounts stack_capacity trace_capacity top_level tc \<Longrightarrow>
     configure_instruction_at_index i program ias dedup data caller tc = Inr tc' \<Longrightarrow>
     context_trace si is_exempt accounts stack_capacity trace_capacity top_level tc'"
| pushed: "context_trace si is_exempt accounts stack_capacity trace_capacity top_level tc \<Longrightarrow>
     tc_instruction_stack tc = [] \<longrightarrow> tc_next_top_level_instruction_index tc < top_level \<Longrightarrow>
     push_instruction si tc = (Inr (), tc') \<Longrightarrow>
     context_trace si is_exempt accounts stack_capacity trace_capacity top_level tc'"
| popped: "context_trace si is_exempt accounts stack_capacity trace_capacity top_level tc \<Longrightarrow>
     pop_instruction tc = (r, tc') \<Longrightarrow>
     context_trace si is_exempt accounts stack_capacity trace_capacity top_level tc'"
| program: "context_trace si is_exempt accounts stack_capacity trace_capacity top_level tc \<Longrightarrow>
     transaction_step is_exempt (tc_accounts tc) ta \<Longrightarrow>
     context_trace si is_exempt accounts stack_capacity trace_capacity top_level (tc\<lparr>tc_accounts := ta\<rparr>)"

abbreviation cpis :: "transaction_context \<Rightarrow> nat" where
  "cpis tc \<equiv> unat (tf_number_of_cpis_in_trace (tc_transaction_frame tc))"

definition stack_inv :: "nat \<Rightarrow> nat \<Rightarrow> transaction_context \<Rightarrow> bool" where
  "stack_inv stack_capacity top_level tc \<longleftrightarrow>
     tc_instruction_stack_capacity tc = stack_capacity \<and>
     length (tc_instruction_stack tc) \<le> stack_capacity \<and>
     length (tc_instruction_trace tc) = top_level + cpis tc + 1 \<and>
     sorted_wrt (<) (tc_instruction_stack tc) \<and>
     (\<forall>x \<in> set (tc_instruction_stack tc). x < top_level + cpis tc) \<and>
     (\<forall>k < top_level. if_nesting_level (tc_instruction_trace tc ! k) = 0) \<and>
     (\<forall>j < length (tc_instruction_stack tc).
        if_nesting_level (tc_instruction_trace tc ! (tc_instruction_stack tc ! j)) = of_nat j)"

definition trace_inv :: "nat \<Rightarrow> nat \<Rightarrow> transaction_context \<Rightarrow> bool" where
  "trace_inv trace_capacity top_level tc \<longleftrightarrow>
     tc_instruction_trace_capacity tc = trace_capacity \<and>
     number_of_called_instructions_in_trace tc \<le> trace_capacity \<and>
     tc_next_top_level_instruction_index tc \<le> top_level \<and>
     (tc_instruction_stack tc \<noteq> [] \<longrightarrow> tc_next_top_level_instruction_index tc = hd (tc_instruction_stack tc) + 1)"

definition accounts_inv :: "transaction_accounts \<Rightarrow> transaction_context \<Rightarrow> bool" where
  "accounts_inv initial tc \<longleftrightarrow>
     ta_wf (tc_accounts tc) \<and> initial_lamports (tc_accounts tc) = total_lamports initial"

subsection \<open>The accounts\<close>

lemma wf_drop_ref_mut:
  assumes "length (ta_private ta) = length (ta_shared ta)" "length (ta_borrow_counters ta) = length (ta_shared ta)"
    "length (ta_touched_flags ta) = length (ta_shared ta)"
    and "\<forall>k < length (ta_shared ta). k \<noteq> unat i \<longrightarrow>
      vs_len (sf_payload (shared_at ta k)) = of_nat (length (pf_payload (private_at ta k)))"
  shows "ta_wf (drop_account_ref_mut i ta)"
  using assms
  by (cases "unat i < length (ta_shared ta)")
    (auto simp: ta_wf_def drop_account_ref_mut_def vm_slice_set_len_def nth_list_update list_update_beyond)

lemma drop_ref_mut_lamports: "initial_lamports (drop_account_ref_mut i ta) = initial_lamports ta"
proof (cases "unat i < length (ta_shared ta)")
  case True
  then show ?thesis
    by (simp add: initial_lamports_def total_lamports_def drop_account_ref_mut_def sum_map_update)
next
  case False
  then show ?thesis
    by (simp add: initial_lamports_def total_lamports_def drop_account_ref_mut_def list_update_beyond not_less)
qed

lemma try_borrow_mut_same:
  "try_borrow_mut i ta = Inr ta' \<Longrightarrow> ta_shared ta' = ta_shared ta \<and> ta_private ta' = ta_private ta \<and>
     ta_lamports_delta ta' = ta_lamports_delta ta \<and> ta_touched_flags ta' = ta_touched_flags ta \<and>
     ta_resize_delta ta' = ta_resize_delta ta \<and>
     length (ta_borrow_counters ta') = length (ta_borrow_counters ta)"
  by (auto simp: try_borrow_mut_def result_ops)

lemma stored_accounts:
  assumes "try_borrow_mut i ta = Inr ta1" "ta_wf ta"
  shows "ta_wf (drop_account_ref_mut i (upd_private (unat i) f ta1))"
    and "initial_lamports (drop_account_ref_mut i (upd_private (unat i) f ta1)) = initial_lamports ta"
proof -
  note same = try_borrow_mut_same [OF assms(1)]
  show "ta_wf (drop_account_ref_mut i (upd_private (unat i) f ta1))"
    by (rule wf_drop_ref_mut) (use same assms(2) in \<open>auto simp: ta_wf_def upd_private_def\<close>)
  show "initial_lamports (drop_account_ref_mut i (upd_private (unat i) f ta1)) = initial_lamports ta"
    using same by (simp add: drop_ref_mut_lamports) (simp add: initial_lamports_def total_lamports_def upd_private_def)
qed

lemma store_instructions_sysvar_ok:
  assumes "store_instructions_sysvar si k tc = (Inr (), tc')"
  shows "\<exists>ta. tc' = tc\<lparr>tc_accounts := ta\<rparr> \<and>
    (ta_wf (tc_accounts tc) \<longrightarrow> ta_wf ta \<and> initial_lamports ta = initial_lamports (tc_accounts tc))"
proof (cases "find_index_of_account (instructions_id si) tc")
  case None
  then show ?thesis
    using assms by (intro exI [of _ "tc_accounts tc"]) (simp add: store_instructions_sysvar_def)
next
  case (Some i)
  with assms obtain ta1 data where borrow: "try_borrow_mut i (tc_accounts tc) = Inr ta1"
    and tc': "tc' = tc\<lparr>tc_accounts := drop_account_ref_mut i (upd_private (unat i) (pf_payload_update (\<lambda>_. data)) ta1)\<rparr>"
    by (auto simp: store_instructions_sysvar_def split: sum.splits if_splits)
  then show ?thesis
    using stored_accounts [OF borrow] by blast
qed

subsection \<open>Pushing and popping\<close>

definition set_placeholder :: "nat \<Rightarrow> instruction_frame list \<Rightarrow> instruction_frame list" where
  "set_placeholder n frames = frames[length frames - 1 := (last frames)\<lparr>if_nesting_level := of_nat n\<rparr>]"

text \<open>The state after a successful push, for a top-level instruction and for a nested one.\<close>

lemma push_ok:
  assumes "push_instruction si tc = (Inr (), tc')"
  shows "length (tc_instruction_stack tc) < tc_instruction_stack_capacity tc \<and>
    number_of_called_instructions_in_trace tc < tc_instruction_trace_capacity tc \<and>
    tc_instruction_trace tc \<noteq> [] \<and>
    tc_instruction_stack_capacity tc' = tc_instruction_stack_capacity tc \<and>
    tc_instruction_trace_capacity tc' = tc_instruction_trace_capacity tc \<and>
    (ta_wf (tc_accounts tc) \<longrightarrow> ta_wf (tc_accounts tc') \<and>
       initial_lamports (tc_accounts tc') = initial_lamports (tc_accounts tc)) \<and>
    (if tc_instruction_stack tc = []
     then tc_instruction_stack tc' = [tc_next_top_level_instruction_index tc] \<and>
       tc_next_top_level_instruction_index tc' = tc_next_top_level_instruction_index tc + 1 \<and>
       tc_instruction_trace tc' = set_placeholder 0 (tc_instruction_trace tc) \<and> cpis tc' = cpis tc
     else ta_lamports_delta (tc_accounts tc) = 0 \<and>
       tc_instruction_stack tc' = tc_instruction_stack tc @ [length (tc_instruction_trace tc) - 1] \<and>
       tc_next_top_level_instruction_index tc' = tc_next_top_level_instruction_index tc \<and>
       tc_instruction_trace tc' = set_placeholder (length (tc_instruction_stack tc)) (tc_instruction_trace tc) @
         [instruction_frame_default] \<and>
       cpis tc' = min (cpis tc + 1) (2 ^ 16 - 1))"
proof (cases "tc_instruction_stack tc = []")
  case True
  with assms obtain tc1 where store: "store_instructions_sysvar si (tc_next_top_level_instruction_index tc) tc1 = (Inr (), tc')"
    and tc1: "tc_instruction_stack tc1 = [tc_next_top_level_instruction_index tc]"
      "tc_next_top_level_instruction_index tc1 = tc_next_top_level_instruction_index tc + 1"
      "tc_instruction_trace tc1 = set_placeholder 0 (tc_instruction_trace tc)" "cpis tc1 = cpis tc"
      "tc_instruction_stack_capacity tc1 = tc_instruction_stack_capacity tc"
      "tc_instruction_trace_capacity tc1 = tc_instruction_trace_capacity tc" "tc_accounts tc1 = tc_accounts tc"
    and guards: "0 < tc_instruction_stack_capacity tc" "tc_instruction_trace tc \<noteq> []"
      "number_of_called_instructions_in_trace tc < tc_instruction_trace_capacity tc"
    by (auto simp: push_instruction_def enter_instruction_def Let_def set_placeholder_def
        number_of_called_instructions_in_trace_def not_le split: if_splits)
  show ?thesis
    using store_instructions_sysvar_ok [OF store] tc1 guards True by auto
next
  case False
  with assms obtain top tc1 where store: "store_instructions_sysvar si top tc1 = (Inr (), tc')"
    and tc1: "tc_instruction_stack tc1 = tc_instruction_stack tc @ [length (tc_instruction_trace tc) - 1]"
      "tc_next_top_level_instruction_index tc1 = tc_next_top_level_instruction_index tc"
      "tc_instruction_trace tc1 = set_placeholder (length (tc_instruction_stack tc)) (tc_instruction_trace tc) @
         [instruction_frame_default]"
      "cpis tc1 = min (cpis tc + 1) (2 ^ 16 - 1)"
      "tc_instruction_stack_capacity tc1 = tc_instruction_stack_capacity tc"
      "tc_instruction_trace_capacity tc1 = tc_instruction_trace_capacity tc" "tc_accounts tc1 = tc_accounts tc"
    and guards: "length (tc_instruction_stack tc) < tc_instruction_stack_capacity tc" "tc_instruction_trace tc \<noteq> []"
      "number_of_called_instructions_in_trace tc < tc_instruction_trace_capacity tc"
      "ta_lamports_delta (tc_accounts tc) = 0"
    by (auto simp: push_instruction_def enter_instruction_def Let_def set_placeholder_def get_instruction_trace_length_def
        number_of_called_instructions_in_trace_def not_le unat_saturating_add split: if_splits)
  show ?thesis
    using store_instructions_sysvar_ok [OF store] tc1 guards False by auto
qed

lemma set_placeholder_nth:
  "frames \<noteq> [] \<Longrightarrow> k < length frames \<Longrightarrow> set_placeholder n frames ! k =
     (if k = length frames - 1 then (last frames)\<lparr>if_nesting_level := of_nat n\<rparr> else frames ! k)"
  by (auto simp: set_placeholder_def nth_list_update)

lemma length_set_placeholder [simp]: "length (set_placeholder n frames) = length frames"
  by (simp add: set_placeholder_def)

lemma pop_state:
  assumes "pop_instruction tc = (r, tc')"
  shows "tc_instruction_stack tc' = butlast (tc_instruction_stack tc)"
    "tc_instruction_trace tc' = tc_instruction_trace tc" "cpis tc' = cpis tc"
    "tc_instruction_stack_capacity tc' = tc_instruction_stack_capacity tc"
    "tc_instruction_trace_capacity tc' = tc_instruction_trace_capacity tc"
    "tc_next_top_level_instruction_index tc' = tc_next_top_level_instruction_index tc"
    "tc_accounts tc' = tc_accounts tc"
  using assms by (auto simp: pop_instruction_def Let_def split: if_splits)

lemma push_top_inv:
  assumes "push_instruction si tc = (Inr (), tc')" "stack_inv stack_capacity top_level tc"
    and "tc_instruction_stack tc = []" "tc_next_top_level_instruction_index tc < top_level"
  shows "stack_inv stack_capacity top_level tc'"
proof -
  note pushed = push_ok [OF assms(1)]
  have tc': "tc_instruction_stack tc' = [tc_next_top_level_instruction_index tc]"
    "tc_instruction_trace tc' = set_placeholder 0 (tc_instruction_trace tc)" "cpis tc' = cpis tc"
    "tc_instruction_stack_capacity tc' = tc_instruction_stack_capacity tc"
    "0 < tc_instruction_stack_capacity tc" "tc_instruction_trace tc \<noteq> []"
    using pushed assms(3) by auto
  have inv: "tc_instruction_stack_capacity tc = stack_capacity"
    "length (tc_instruction_trace tc) = top_level + cpis tc + 1"
    "\<forall>k < top_level. if_nesting_level (tc_instruction_trace tc ! k) = 0"
    using assms(2) by (auto simp: stack_inv_def)
  have "\<forall>k < top_level. if_nesting_level (tc_instruction_trace tc' ! k) = 0"
    using inv tc'(2,6) by (simp add: set_placeholder_nth)
  then show ?thesis
    using tc' inv assms(4) by (simp add: stack_inv_def)
qed

lemma push_nested_inv:
  assumes "push_instruction si tc = (Inr (), tc')" "stack_inv stack_capacity top_level tc"
    and "tc_instruction_stack tc \<noteq> []" "cpis tc + 1 < 2 ^ 16"
  shows "stack_inv stack_capacity top_level tc'"
proof -
  let ?trace = "tc_instruction_trace tc" and ?stack = "tc_instruction_stack tc"
  have tc': "tc_instruction_stack tc' = ?stack @ [length ?trace - 1]"
    "tc_instruction_trace tc' = set_placeholder (length ?stack) ?trace @ [instruction_frame_default]"
    "cpis tc' = cpis tc + 1" "tc_instruction_stack_capacity tc' = tc_instruction_stack_capacity tc"
    "length ?stack < tc_instruction_stack_capacity tc" "?trace \<noteq> []"
    using push_ok [OF assms(1)] assms(3,4) by auto
  have inv: "tc_instruction_stack_capacity tc = stack_capacity" "length ?trace = top_level + cpis tc + 1"
    "sorted_wrt (<) ?stack" "\<forall>x \<in> set ?stack. x < top_level + cpis tc"
    "\<forall>k < top_level. if_nesting_level (?trace ! k) = 0"
    "\<forall>j < length ?stack. if_nesting_level (?trace ! (?stack ! j)) = of_nat j"
    using assms(2) by (auto simp: stack_inv_def)
  have old: "tc_instruction_trace tc' ! k = ?trace ! k" if "k < top_level + cpis tc" for k
    using that tc'(2,6) inv(2) by (simp add: nth_append set_placeholder_nth)
  have "if_nesting_level (tc_instruction_trace tc' ! (length ?trace - 1)) = of_nat (length ?stack)"
    using tc'(2,6) inv(2) by (simp add: nth_append set_placeholder_nth)
  moreover have "if_nesting_level (tc_instruction_trace tc' ! (?stack ! j)) = of_nat j" if "j < length ?stack" for j
    using inv(4,6) that old by (metis nth_mem)
  ultimately have "\<forall>j < length (tc_instruction_stack tc').
      if_nesting_level (tc_instruction_trace tc' ! (tc_instruction_stack tc' ! j)) = of_nat j"
    by (auto simp: tc'(1) nth_append less_Suc_eq)
  moreover have "sorted_wrt (<) (tc_instruction_stack tc')"
    using inv(2-4) by (simp add: tc'(1) sorted_wrt_append)
  moreover have "\<forall>x \<in> set (tc_instruction_stack tc'). x < top_level + cpis tc'"
    using inv(2,4) by (auto simp: tc'(1,3))
  ultimately show ?thesis
    using tc' inv old by (simp add: stack_inv_def)
qed

lemma pop_inv:
  assumes "pop_instruction tc = (r, tc')" "stack_inv stack_capacity top_level tc"
  shows "stack_inv stack_capacity top_level tc'"
proof -
  have "sorted_wrt (<) (butlast (tc_instruction_stack tc))"
    using assms(2) by (simp add: stack_inv_def butlast_conv_take sorted_wrt_take)
  then show ?thesis
    using assms(2) by (auto simp: stack_inv_def pop_state [OF assms(1)] nth_butlast dest: in_set_butlastD)
qed

lemma configure_state:
  assumes "configure_instruction_at_index i program ias dedup data caller tc = Inr tc'"
  shows "tc_instruction_stack tc' = tc_instruction_stack tc" "cpis tc' = cpis tc"
    "map if_nesting_level (tc_instruction_trace tc') = map if_nesting_level (tc_instruction_trace tc)"
    "tc_instruction_stack_capacity tc' = tc_instruction_stack_capacity tc"
    "tc_instruction_trace_capacity tc' = tc_instruction_trace_capacity tc"
    "tc_next_top_level_instruction_index tc' = tc_next_top_level_instruction_index tc"
    "tc_accounts tc' = tc_accounts tc"
  using assms
  by (auto simp: configure_instruction_at_index_def result_ops Let_def configure_cpi_def configure_vm_slices_def
      map_update list_update_same_conv split: option.splits)

lemma configure_inv:
  assumes "configure_instruction_at_index i program ias dedup data caller tc = Inr tc'"
    and "stack_inv stack_capacity top_level tc"
  shows "stack_inv stack_capacity top_level tc'"
proof -
  note same = configure_state [OF assms(1)]
  have len: "length (tc_instruction_trace tc') = length (tc_instruction_trace tc)"
    using same(3) map_eq_imp_length_eq by blast
  have "if_nesting_level (tc_instruction_trace tc' ! k) = if_nesting_level (tc_instruction_trace tc ! k)"
    if "k < length (tc_instruction_trace tc)" for k
    using same(3) that len by (metis nth_map)
  moreover have "tc_instruction_stack tc ! j < length (tc_instruction_trace tc)"
    if "j < length (tc_instruction_stack tc)" for j
    using assms(2) that nth_mem by (fastforce simp: stack_inv_def)
  ultimately show ?thesis
    using assms(2) len by (simp add: stack_inv_def same)
qed

lemma new_context_inv:
  "stack_inv stack_capacity top_level (transaction_context_new accounts stack_capacity trace_capacity top_level)"
  by (simp add: stack_inv_def transaction_context_new_def instruction_frame_default_def nth_append
      del: replicate.simps)

lemma push_trace_inv:
  assumes "push_instruction si tc = (Inr (), tc')" "trace_inv trace_capacity top_level tc" "trace_capacity < 2 ^ 16"
    and "tc_instruction_stack tc = [] \<longrightarrow> tc_next_top_level_instruction_index tc < top_level"
  shows "trace_inv trace_capacity top_level tc'"
  using push_ok [OF assms(1)] assms(2-4)
  by (cases "tc_instruction_stack tc = []") (auto simp: trace_inv_def number_of_called_instructions_in_trace_def)

lemma pop_trace_inv:
  assumes "pop_instruction tc = (r, tc')" "trace_inv trace_capacity top_level tc"
  shows "trace_inv trace_capacity top_level tc'"
proof -
  have "hd (butlast xs) = hd xs" if "butlast xs \<noteq> []" for xs :: "nat list"
    using that by (cases xs) auto
  then show ?thesis
    using assms(2)
    by (auto simp: trace_inv_def number_of_called_instructions_in_trace_def pop_state [OF assms(1)])
qed

lemma new_accounts_lamports:
  "initial_lamports (transaction_accounts_new accounts) = total_lamports (transaction_accounts_new accounts)"
  by (simp add: initial_lamports_def transaction_accounts_new_def)

lemma context_trace_inv:
  assumes "context_trace si is_exempt accounts stack_capacity trace_capacity top_level tc" "trace_capacity < 2 ^ 16"
  shows "stack_inv stack_capacity top_level tc \<and> trace_inv trace_capacity top_level tc \<and>
    accounts_inv (transaction_accounts_new accounts) tc"
  using assms(1)
proof induction
  case start
  have "trace_inv trace_capacity top_level (transaction_context_new accounts stack_capacity trace_capacity top_level)"
    "accounts_inv (transaction_accounts_new accounts) (transaction_context_new accounts stack_capacity trace_capacity top_level)"
    using new_accounts_wf new_accounts_lamports
    by (simp_all add: trace_inv_def accounts_inv_def transaction_context_new_def number_of_called_instructions_in_trace_def)
  then show ?case
    using new_context_inv by blast
next
  case (configure tc i program ias dedup data caller tc')
  note same = configure_state [OF configure.hyps(2)]
  have "trace_inv trace_capacity top_level tc'" "accounts_inv (transaction_accounts_new accounts) tc'"
    using configure.IH by (simp_all add: trace_inv_def accounts_inv_def number_of_called_instructions_in_trace_def same)
  then show ?case
    using configure_inv [OF configure.hyps(2)] configure.IH by blast
next
  case (pushed tc tc')
  have "cpis tc + 1 < 2 ^ 16"
    using push_ok [OF pushed.hyps(3)] pushed.IH assms(2)
    by (auto simp: trace_inv_def number_of_called_instructions_in_trace_def)
  then have "stack_inv stack_capacity top_level tc'"
    using push_top_inv [OF pushed.hyps(3)] push_nested_inv [OF pushed.hyps(3)] pushed.IH pushed.hyps(2) by blast
  moreover have "trace_inv trace_capacity top_level tc'"
    using push_trace_inv [OF pushed.hyps(3) _ assms(2) pushed.hyps(2)] pushed.IH by blast
  moreover have "accounts_inv (transaction_accounts_new accounts) tc'"
    using push_ok [OF pushed.hyps(3)] pushed.IH by (simp add: accounts_inv_def)
  ultimately show ?case
    by blast
next
  case (popped tc r tc')
  have "accounts_inv (transaction_accounts_new accounts) tc'"
    using popped.IH by (simp add: accounts_inv_def pop_state [OF popped.hyps(2)])
  then show ?case
    using pop_inv [OF popped.hyps(2)] pop_trace_inv [OF popped.hyps(2)] popped.IH by blast
next
  case (program tc ta)
  obtain p accs where step: "program_step is_exempt p accs (tc_accounts tc) ta"
    using program.hyps(2) by (auto simp: transaction_step_def)
  have "keeps_totals (tc_accounts tc) ta"
    using program_step_protects(2) [OF step] program.IH by (simp add: accounts_inv_def)
  then show ?case
    using program.IH
    by (simp add: stack_inv_def trace_inv_def accounts_inv_def keeps_totals_def number_of_called_instructions_in_trace_def)
qed

lemma detect_balanced:
  assumes "detect_unbalanced_instruction tc = Inr False"
  shows "ta_lamports_delta (tc_accounts tc) = 0"
proof -
  obtain i where "(case try_borrow_mut i (tc_accounts tc) of
       Inl e \<Rightarrow> Inl (if e = AccountBorrowFailed then AccountBorrowOutstanding else e)
     | Inr _ \<Rightarrow> Inr (ta_lamports_delta (tc_accounts tc) \<noteq> 0)) = Inr False"
    using assms by (auto simp: detect_unbalanced_instruction_def and_then_Inr)
  then show ?thesis
    by (cases "try_borrow_mut i (tc_accounts tc)") simp_all
qed

text \<open>An example: a transaction with one instruction, which is pushed and calls nothing.\<close>

definition example_sysvar :: instructions_sysvar where
  "example_sysvar = \<lparr>instructions_id = 77, sysvar_id = 78, store_current_index_checked = (\<lambda>data _. Inr data)\<rparr>"

definition example_pushed :: transaction_context where
  "example_pushed = snd (push_instruction example_sysvar (transaction_context_new [(11, example_account 0 100 [])] 5 64 1))"

lemma example_pushed_trace:
  "context_trace example_sysvar (\<lambda>_ _. True) [(11, example_account 0 100 [])] 5 64 1 example_pushed"
  "tc_instruction_stack example_pushed = [0]" "ta_lamports_delta (tc_accounts example_pushed) = 0"
  "pop_instruction example_pushed = (Inr (), snd (pop_instruction example_pushed))"
proof -
  let ?tc = "transaction_context_new [(11, example_account 0 100 [])] 5 64 1"
  have ok: "fst (push_instruction example_sysvar ?tc) = Inr ()"
    and stack: "tc_instruction_stack example_pushed = [0]"
    and delta: "ta_lamports_delta (tc_accounts example_pushed) = 0"
    and pop: "fst (pop_instruction example_pushed) = Inr ()"
    by (simp_all add: example_pushed_def push_instruction_def enter_instruction_def Let_def transaction_context_new_def
        number_of_called_instructions_in_trace_def store_instructions_sysvar_def find_index_of_account_def
        transaction_accounts_new_def example_sysvar_def pop_instruction_def detect_unbalanced_instruction_def
        get_current_instruction_context_def get_current_instruction_index_def slice_get_def
        get_instruction_context_at_index_in_trace_def get_index_of_program_account_in_transaction_def
        instruction_frame_default_def try_borrow_mut_def borrow_counter_defs)
  show "context_trace example_sysvar (\<lambda>_ _. True) [(11, example_account 0 100 [])] 5 64 1 example_pushed"
  proof (rule context_trace.pushed [OF context_trace.start])
    show "push_instruction example_sysvar ?tc = (Inr (), example_pushed)"
      using ok by (metis example_pushed_def prod.collapse)
  qed (simp add: transaction_context_new_def)
  show "tc_instruction_stack example_pushed = [0]" "ta_lamports_delta (tc_accounts example_pushed) = 0"
    by (fact stack delta)+
  show "pop_instruction example_pushed = (Inr (), snd (pop_instruction example_pushed))"
    using pop by (metis prod.collapse)
qed

text \<open>
  C28. The stack of a running transaction is consistent with its trace: it is never deeper than its
  capacity, no more instructions are called than the trace may hold, and the instruction found at
  a nesting level is recorded with exactly that level, as the debug assertion of
  \<open>get_instruction_context_at_nesting_level\<close> demands.
\<close>

theorem nesting_levels_consistent:
  assumes "context_trace si is_exempt accounts stack_capacity trace_capacity top_level tc"
    and "trace_capacity < 2 ^ 16" and "stack_capacity \<le> 2 ^ 16" and "j < length (tc_instruction_stack tc)"
  shows "length (tc_instruction_stack tc) \<le> stack_capacity \<and>
    number_of_called_instructions_in_trace tc \<le> trace_capacity \<and>
    (\<exists>ic. get_instruction_context_at_nesting_level tc j = Inr ic \<and> ic_nesting_level ic = j)"
proof -
  note inv = context_trace_inv [OF assms(1,2)]
  have stack: "length (tc_instruction_stack tc) \<le> stack_capacity"
    "length (tc_instruction_trace tc) = top_level + cpis tc + 1"
    "\<forall>x \<in> set (tc_instruction_stack tc). x < top_level + cpis tc"
    "if_nesting_level (tc_instruction_trace tc ! (tc_instruction_stack tc ! j)) = of_nat j"
    using inv assms(4) by (simp_all add: stack_inv_def)
  then have bound: "length (tc_instruction_stack tc) \<le> stack_capacity"
    "tc_instruction_stack tc ! j < length (tc_instruction_trace tc)"
    "if_nesting_level (tc_instruction_trace tc ! (tc_instruction_stack tc ! j)) = of_nat j"
    using bspec [OF stack(3) nth_mem [OF assms(4)]] by simp_all
  have "unat (of_nat j :: u16) = j"
    using assms(3,4) bound(1) by (simp add: unat_of_nat)
  then show ?thesis
    using inv bound assms(4)
    by (simp add: get_instruction_context_at_nesting_level_def get_instruction_context_at_index_in_trace_def
        slice_get_def trace_inv_def)
qed

theorem nesting_levels_consistent_witness:
  "\<exists>ic. get_instruction_context_at_nesting_level example_pushed 0 = Inr ic \<and> ic_nesting_level ic = 0"
  using nesting_levels_consistent [OF example_pushed_trace(1), of 0] example_pushed_trace(2) by simp

text \<open>
  C5. Lamports are neither created nor destroyed: whenever an instruction ends successfully, all
  accounts together hold exactly the lamports they held when the transaction started, whatever
  programs did in between; the same holds when a program calls another one.
\<close>

theorem instructions_conserve_lamports:
  assumes "context_trace si is_exempt accounts stack_capacity trace_capacity top_level tc" and "trace_capacity < 2 ^ 16"
    and "pop_instruction tc = (Inr (), tc') \<or>
      tc_instruction_stack tc \<noteq> [] \<and> push_instruction si tc = (Inr (), tc')"
  shows "total_lamports (tc_accounts tc) = total_lamports (transaction_accounts_new accounts)"
proof -
  have "ta_lamports_delta (tc_accounts tc) = 0"
    using assms(3)
  proof
    assume "pop_instruction tc = (Inr (), tc')"
    then show ?thesis
      using detect_balanced [of tc] by (auto simp: pop_instruction_def Let_def and_then_Inr split: if_splits)
  next
    assume "tc_instruction_stack tc \<noteq> [] \<and> push_instruction si tc = (Inr (), tc')"
    then show ?thesis
      using push_ok [of si tc tc'] by simp
  qed
  then show ?thesis
    using context_trace_inv [OF assms(1,2)] by (simp add: accounts_inv_def initial_lamports_def)
qed

theorem instructions_conserve_lamports_witness:
  "total_lamports (tc_accounts example_pushed) =
   total_lamports (transaction_accounts_new [(11, example_account 0 100 [])])"
  by (rule instructions_conserve_lamports [OF example_pushed_trace(1) _ disjI1, OF _ example_pushed_trace(4)]) simp

end
