(* ===== verification/Account_Contract.thy ===== *)
theory Account_Contract
  imports Instruction_Stack System_Program
begin

section \<open>Contracts of programs\<close>

text \<open>
  A built-in program is code that borrows accounts of its instruction, operates on them and drops
  them. A contract is a relation between the accounts before and after that holds for each of these
  actions and can be chained; the locale proves once how it extends to blocks of code. Its
  interpretation is the confinement of a program to its rights.
\<close>

lemma payload_update_const: "pf_payload_update f r = r\<lparr>pf_payload := f (pf_payload r)\<rparr>"
  by (cases r) simp

locale account_contract =
  fixes is_exempt :: "u64 \<Rightarrow> nat \<Rightarrow> bool" and p :: index_of_account and accs :: "instruction_account list"
    and R :: "transaction_accounts \<Rightarrow> transaction_accounts \<Rightarrow> bool"
  assumes R_refl: "ta_wf ta \<Longrightarrow> R ta ta"
    and R_trans: "R ta ta1 \<Longrightarrow> R ta1 ta2 \<Longrightarrow> R ta ta2"
    and R_wf: "R ta ta' \<Longrightarrow> ta_wf ta'"
    and R_length: "R ta ta' \<Longrightarrow> length (ta_shared ta') = length (ta_shared ta)"
    and R_borrow: "ta_wf ta \<Longrightarrow> try_borrow_mut i ta = Inr ta' \<Longrightarrow> R ta ta'"
    and R_drop: "ta_wf ta \<Longrightarrow> R ta (drop_account_ref_mut i ta)"
    and R_step: "ta_wf ta \<Longrightarrow> ba_program_index b = p \<Longrightarrow> ba_instruction_account b \<in> set accs \<Longrightarrow>
      ba_index b < length (ta_shared ta) \<Longrightarrow> account_step is_exempt b ta ta' \<Longrightarrow> R ta ta'"
begin

definition usable :: "borrowed_account \<Rightarrow> transaction_accounts \<Rightarrow> bool" where
  "usable b ta \<longleftrightarrow> ba_program_index b = p \<and> ba_instruction_account b \<in> set accs \<and>
     ba_index b < length (ta_shared ta) \<and> ta_wf ta"

definition keeps :: "(borrowed_account \<Rightarrow> transaction_accounts \<Rightarrow> transaction_accounts result) \<Rightarrow> bool" where
  "keeps block \<longleftrightarrow> (\<forall>b ta ta'. usable b ta \<longrightarrow> block b ta = Inr ta' \<longrightarrow> R ta ta')"

definition of_program :: "instruction_context \<Rightarrow> bool" where
  "of_program ic \<longleftrightarrow> ic_program_account_index_in_tx ic = p \<and> ic_instruction_accounts ic = accs"

lemma keepsI: "(\<And>b ta ta'. usable b ta \<Longrightarrow> block b ta = Inr ta' \<Longrightarrow> R ta ta') \<Longrightarrow> keeps block"
  by (simp add: keeps_def)

lemma keepsD: "keeps block \<Longrightarrow> usable b ta \<Longrightarrow> block b ta = Inr ta' \<Longrightarrow> R ta ta'"
  by (simp add: keeps_def)

lemma usable_after: "usable b ta \<Longrightarrow> R ta ta' \<Longrightarrow> usable b ta'"
  using R_wf R_length by (auto simp: usable_def)

lemma step_keeps: "usable b ta \<Longrightarrow> account_step is_exempt b ta ta' \<Longrightarrow> R ta ta'"
  by (auto simp: usable_def intro: R_step)

lemma nothing_keeps: "usable b ta \<Longrightarrow> R ta ta"
  by (simp add: usable_def R_refl)

lemma keeps_return: "keeps (\<lambda>b. Inr)"
  by (auto intro!: keepsI nothing_keeps)

lemma keeps_seq: "keeps f \<Longrightarrow> keeps g \<Longrightarrow> keeps (\<lambda>b ta. and_then (f b ta) (g b))"
  by (rule keepsI) (auto simp: and_then_Inr intro: R_trans dest: keepsD usable_after)

lemma keeps_bind: "(\<And>x. keeps (\<lambda>b ta. g x b ta)) \<Longrightarrow> keeps (\<lambda>b ta. and_then (f b ta) (\<lambda>x. g x b ta))"
  by (rule keepsI) (auto simp: and_then_Inr dest: keepsD)

lemma keeps_error: "keeps (\<lambda>b ta. Inl (e b ta))"
  by (simp add: keeps_def)

lemma keeps_if: "keeps f \<Longrightarrow> keeps g \<Longrightarrow> keeps (\<lambda>b ta. if c b ta then f b ta else g b ta)"
  by (simp add: keeps_def)

lemma keeps_set_owner: "keeps (\<lambda>b. set_owner b pk)"
  by (rule keepsI) (blast intro: step_keeps account_step.step_owner)

lemma keeps_set_lamports: "keeps (\<lambda>b. set_lamports b l)"
  by (rule keepsI) (blast intro: step_keeps account_step.step_lamports)

lemma keeps_set_data_length: "keeps (\<lambda>b. set_data_length b n)"
  by (rule keepsI) (blast intro: step_keeps account_step.step_length)

lemma keeps_set_data_from_slice: "keeps (\<lambda>b. set_data_from_slice b bytes)"
  by (rule keepsI) (blast intro: step_keeps account_step.step_data)

lemma keeps_checked_add_lamports: "keeps (\<lambda>b. checked_add_lamports b l)"
  by (rule keepsI) (auto simp: checked_add_lamports_def result_ops dest: keepsD [OF keeps_set_lamports])

lemma keeps_checked_sub_lamports: "keeps (\<lambda>b. checked_sub_lamports b l)"
  by (rule keepsI) (auto simp: checked_sub_lamports_def result_ops dest: keepsD [OF keeps_set_lamports])

lemma keeps_set_state: "keeps (\<lambda>b. set_state serialize b state)"
proof (rule keepsI)
  fix b ta ta'
  assume u: "usable b ta" and set: "set_state serialize b state ta = Inr ta'"
  obtain ta1 bytes where ta1: "get_data_mut b ta = Inr ta1" "length bytes \<le> length (get_data b ta1)"
    and ta': "ta' = upd_private (ba_index b) (pf_payload_update (\<lambda>data. bytes @ drop (length bytes) data)) ta1"
    using set by (auto simp: set_state_def result_ops not_less split: if_splits)
  let ?data = "bytes @ drop (length bytes) (get_data b ta1)"
  have "ta' = upd_private (ba_index b) (pf_payload_update (\<lambda>_. ?data)) ta1"
    by (simp add: ta' upd_private_def get_data_def payload_update_const [of "\<lambda>data. bytes @ drop (length bytes) data"])
  moreover have "length ?data = length (get_data b ta1)"
    using ta1(2) by simp
  ultimately show "R ta ta'"
    using step_keeps [OF u account_step.step_write [OF ta1(1)]] by simp
qed

lemmas keeps_operations = keeps_return keeps_error keeps_if keeps_set_owner keeps_set_lamports
  keeps_set_data_length keeps_set_data_from_slice keeps_checked_add_lamports keeps_checked_sub_lamports
  keeps_set_state

lemma keeps_fill: "keeps (\<lambda>b ta. and_then (get_data_mut b ta) (\<lambda>ta.
    Inr (upd_private (ba_index b) (pf_payload_update (\<lambda>data. replicate (length data) c)) ta)))"
proof (rule keepsI)
  fix b ta ta'
  assume u: "usable b ta" and fill: "and_then (get_data_mut b ta) (\<lambda>ta.
    Inr (upd_private (ba_index b) (pf_payload_update (\<lambda>data. replicate (length data) c)) ta)) = Inr ta'"
  then obtain ta1 where ta1: "get_data_mut b ta = Inr ta1"
    and ta': "ta' = upd_private (ba_index b) (pf_payload_update (\<lambda>data. replicate (length data) c)) ta1"
    by (auto simp: and_then_Inr)
  have "ta' = upd_private (ba_index b) (pf_payload_update (\<lambda>_. replicate (length (get_data b ta1)) c)) ta1"
    by (simp add: ta' upd_private_def get_data_def payload_update_const [of "\<lambda>data. replicate (length data) c"])
  then show "R ta ta'"
    using step_keeps [OF u account_step.step_write [OF ta1]] by simp
qed

lemma borrow_keeps:
  assumes "of_program ic" "ta_wf ta" "try_borrow_instruction_account ic i ta = Inr (b, ta1)"
  shows "R ta ta1" "usable b ta1"
proof -
  have mut: "try_borrow_mut (ia_index_in_transaction (ba_instruction_account b)) ta = Inr ta1"
    and b: "ba_program_index b = p" "ba_instruction_account b \<in> set accs"
    using assms(1,3) by (auto simp: try_borrow_instruction_account_def result_ops of_program_def)
  show R1: "R ta ta1"
    by (rule R_borrow [OF assms(2) mut])
  have "ba_index b < length (ta_shared ta)"
    using mut assms(2) by (auto simp: try_borrow_mut_def result_ops ta_wf_def)
  then show "usable b ta1"
    using b R_wf [OF R1] R_length [OF R1] by (simp add: usable_def)
qed

lemma with_account_keeps:
  assumes "of_program ic" "keeps block" "ta_wf ta" "with_account ic i block ta = Inr ta'"
  shows "R ta ta'"
proof -
  obtain b ta1 ta2 where borrow: "try_borrow_instruction_account ic i ta = Inr (b, ta1)"
    and block: "block b ta1 = Inr ta2"
    and ta': "ta' = drop_account_ref_mut (ia_index_in_transaction (ba_instruction_account b)) ta2"
    using assms(4) by (auto simp: with_account_def and_then_Inr)
  note R1 = borrow_keeps [OF assms(1,3) borrow]
  have R2: "R ta1 ta2"
    by (rule keepsD [OF assms(2) R1(2) block])
  show ?thesis
    unfolding ta' by (intro R_trans [OF R1(1)] R_trans [OF R2] R_drop R_wf [OF R2])
qed

end

subsection \<open>The system program keeps every contract\<close>

context account_contract
begin

lemma keeps_allocate: "keeps (\<lambda>b. allocate env b a space signers)"
  unfolding allocate_def by (intro keeps_operations)

lemma keeps_assign: "keeps (\<lambda>b. assign b a owner signers)"
  unfolding assign_def by (intro keeps_operations)

lemma keeps_allocate_and_assign: "keeps (\<lambda>b. allocate_and_assign env b a space owner signers)"
  unfolding allocate_and_assign_def by (intro keeps_seq keeps_allocate keeps_assign)

lemma keeps_case_state:
  "keeps f \<Longrightarrow> (\<And>d. keeps (g d)) \<Longrightarrow>
   keeps (\<lambda>b ta. case s of NonceUninitialized \<Rightarrow> f b ta | NonceInitialized d \<Rightarrow> g d b ta)"
  by (cases s) simp_all

lemma keeps_case_option:
  "keeps f \<Longrightarrow> (\<And>d. keeps (g d)) \<Longrightarrow> keeps (\<lambda>b ta. case s of None \<Rightarrow> f b ta | Some d \<Rightarrow> g d b ta)"
  by (cases s) simp_all

lemma keeps_case_sum:
  "(\<And>e. keeps (f e)) \<Longrightarrow> (\<And>d. keeps (g d)) \<Longrightarrow> keeps (\<lambda>b ta. case s of Inl e \<Rightarrow> f e b ta | Inr d \<Rightarrow> g d b ta)"
  by (cases s) simp_all

lemma keeps_case_authorize_error:
  "(\<And>k. keeps (f k)) \<Longrightarrow> keeps g \<Longrightarrow>
   keeps (\<lambda>b ta. case e of NonceMissingRequiredSignature k \<Rightarrow> f k b ta | NonceNotInitialized \<Rightarrow> g b ta)"
  by (cases e) simp_all

lemmas keeps_cases = keeps_bind keeps_case_state keeps_case_option keeps_case_sum keeps_case_authorize_error

lemma keeps_advance_nonce: "keeps (\<lambda>b. advance_nonce_account env b signers)"
  unfolding advance_nonce_account_def by (intro keeps_if keeps_error keeps_cases keeps_set_state)

lemma keeps_initialize_nonce: "keeps (\<lambda>b. initialize_nonce_account env b authority minimum_balance)"
  unfolding initialize_nonce_account_def by (intro keeps_if keeps_error keeps_cases keeps_set_state)

lemma keeps_authorize_nonce: "keeps (\<lambda>b. authorize_nonce_account env b authority signers)"
  unfolding authorize_nonce_account_def by (intro keeps_if keeps_error keeps_cases keeps_set_state)

lemma keeps_upgrade_nonce: "keeps (upgrade_nonce_account env)"
  unfolding upgrade_nonce_account_def by (intro keeps_if keeps_error keeps_cases keeps_set_state)

lemma keeps_withdraw_checks: "keeps (withdraw_nonce_checks env lamports minimum_balance signers)"
  unfolding withdraw_nonce_checks_def by (intro keeps_if keeps_error keeps_cases keeps_set_state keeps_return)

lemma transfer_verified_keeps:
  assumes "of_program ic" "ta_wf ta" "transfer_verified env ic from_index to_index lamports ta = Inr ta'"
  shows "R ta ta'"
proof -
  have debit: "keeps (\<lambda>acct ta. if get_data acct ta \<noteq> [] then Inl InvalidArgument
      else if get_lamports acct ta < lamports then Inl (system_err env ResultWithNegativeLamports)
      else checked_sub_lamports acct lamports ta)"
    by (intro keeps_operations)
  obtain ta1 where ta1: "R ta ta1"
    and credit: "with_account ic to_index (\<lambda>acct. checked_add_lamports acct lamports) ta1 = Inr ta'"
    using assms(3) with_account_keeps [OF assms(1) debit assms(2)] by (auto simp: transfer_verified_def and_then_Inr)
  show ?thesis
    using R_trans [OF ta1 with_account_keeps [OF assms(1) keeps_checked_add_lamports R_wf [OF ta1] credit]] .
qed

lemma transfer_keeps:
  assumes "of_program ic" "ta_wf ta" "transfer env ic from_index to_index lamports ta = Inr ta'"
  shows "R ta ta'"
  using assms transfer_verified_keeps by (auto simp: transfer_def result_ops split: if_splits)

lemma transfer_with_seed_keeps:
  assumes "of_program ic" "ta_wf ta" "transfer_with_seed env ic from_index base_index seed owner to_index lamports ta = Inr ta'"
  shows "R ta ta'"
  using assms transfer_verified_keeps by (auto simp: transfer_with_seed_def result_ops split: if_splits)

lemma create_account_keeps:
  assumes "of_program ic" "ta_wf ta" "create_account env ic from_index to_index a lamports space owner signers ta = Inr ta'"
  shows "R ta ta'"
proof -
  have "keeps (\<lambda>to ta. if 0 < get_lamports to ta then Inl (system_err env AccountAlreadyInUse)
      else allocate_and_assign env to a space owner signers ta)"
    by (intro keeps_operations keeps_allocate_and_assign)
  then obtain ta1 where ta1: "R ta ta1" "transfer env ic from_index to_index lamports ta1 = Inr ta'"
    using assms(3) with_account_keeps [OF assms(1) _ assms(2)] by (auto simp: create_account_def and_then_Inr)
  show ?thesis
    using R_trans [OF ta1(1) transfer_keeps [OF assms(1) R_wf [OF ta1(1)] ta1(2)]] .
qed

lemma create_account_allow_prefund_keeps:
  assumes "of_program ic" "ta_wf ta"
    and "create_account_allow_prefund env ic to_index a from_and_lamports space owner signers ta = Inr ta'"
  shows "R ta ta'"
proof -
  obtain ta1 where ta1: "R ta ta1"
    and rest: "(case from_and_lamports of
       Some (from_index, lamports) \<Rightarrow> if 0 < lamports then transfer env ic from_index to_index lamports ta1 else Inr ta1
     | None \<Rightarrow> Inr ta1) = Inr ta'"
    using assms(3) with_account_keeps [OF assms(1) keeps_allocate_and_assign assms(2)]
    unfolding create_account_allow_prefund_def and_then_Inr by blast
  then show ?thesis
    using R_trans [OF ta1 transfer_keeps [OF assms(1) R_wf [OF ta1]]]
    by (auto split: option.splits prod.splits if_splits)
qed

lemma withdraw_nonce_keeps:
  assumes "of_program ic" "ta_wf ta"
    and "withdraw_nonce_account env ic from_index lamports to_index minimum_balance signers ta = Inr ta'"
  shows "R ta ta'"
proof -
  have "keeps (\<lambda>acct ta. if \<not> is_writable acct then Inl InvalidArgument
      else and_then (withdraw_nonce_checks env lamports minimum_balance signers acct ta) (\<lambda>ta. checked_sub_lamports acct lamports ta))"
    by (intro keeps_operations keeps_seq keeps_withdraw_checks)
  then obtain ta1 where ta1: "R ta ta1"
    and credit: "with_account ic to_index (\<lambda>acct. checked_add_lamports acct lamports) ta1 = Inr ta'"
    using assms(3) with_account_keeps [OF assms(1) _ assms(2)] by (auto simp: withdraw_nonce_account_def and_then_Inr)
  show ?thesis
    using R_trans [OF ta1 with_account_keeps [OF assms(1) keeps_checked_add_lamports R_wf [OF ta1] credit]] .
qed

lemma keeps_with_address: "(\<And>a. keeps (\<lambda>b ta. f a b ta)) \<Longrightarrow>
    keeps (\<lambda>b ta. and_then (instruction_address env ic i seed ta) (\<lambda>a. f a b ta))"
  by (rule keeps_bind)

lemma dispatch_keeps:
  assumes "of_program ic" "ta_wf ta" "dispatch_instruction env ic signers instruction ta = Inr ta'"
  shows "R ta ta'"
proof -
  note block = with_account_keeps [OF assms(1) _ assms(2)]
  note calls = create_account_keeps [OF assms(1,2)] transfer_keeps [OF assms(1,2)]
    transfer_with_seed_keeps [OF assms(1,2)] create_account_allow_prefund_keeps [OF assms(1,2)]
    withdraw_nonce_keeps [OF assms(1,2)]
  show ?thesis
  proof (cases instruction)
    case (Assign owner)
    have "keeps (\<lambda>account ta. and_then (instruction_address env ic 0 None ta) (\<lambda>a. assign account a owner signers ta))"
      by (intro keeps_with_address keeps_assign)
    then show ?thesis
      using assms(3) Assign block by (auto simp: and_then_Inr)
  next
    case AdvanceNonceAccount
    have "keeps (\<lambda>me ta. and_then (recent_blockhashes env ic 1 ta) (\<lambda>hashes.
        if hashes = [] then Inl (system_err env NonceNoRecentBlockhashes) else advance_nonce_account env me signers ta))"
      by (intro keeps_bind keeps_if keeps_error keeps_advance_nonce)
    then show ?thesis
      using assms(3) AdvanceNonceAccount block by (auto simp: and_then_Inr)
  next
    case (InitializeNonceAccount authorized)
    have "keeps (\<lambda>me ta. and_then (recent_blockhashes env ic 1 ta) (\<lambda>hashes.
        if hashes = [] then Inl (system_err env NonceNoRecentBlockhashes)
        else and_then (rent_with_account_check env ic 2 ta) (\<lambda>minimum_balance.
            initialize_nonce_account env me authorized minimum_balance ta)))"
      by (intro keeps_bind keeps_if keeps_error keeps_initialize_nonce)
    then show ?thesis
      using assms(3) InitializeNonceAccount block by (auto simp: and_then_Inr)
  next
    case (AuthorizeNonceAccount authority)
    then show ?thesis
      using assms(3) block [OF keeps_authorize_nonce] by (auto simp: and_then_Inr)
  next
    case UpgradeNonceAccount
    then show ?thesis
      using assms(3) block [OF keeps_upgrade_nonce] by (auto simp: and_then_Inr)
  next
    case (Allocate space)
    have "keeps (\<lambda>account ta. and_then (instruction_address env ic 0 None ta) (\<lambda>a. allocate env account a space signers ta))"
      by (intro keeps_with_address keeps_allocate)
    then show ?thesis
      using assms(3) Allocate block by (auto simp: and_then_Inr)
  next
    case (AllocateWithSeed base seed space owner)
    have "keeps (\<lambda>account ta. and_then (instruction_address env ic 0 (Some (base, seed, owner)) ta) (\<lambda>a.
        allocate_and_assign env account a space owner signers ta))"
      by (intro keeps_with_address keeps_allocate_and_assign)
    then show ?thesis
      using assms(3) AllocateWithSeed block by (auto simp: and_then_Inr)
  next
    case (AssignWithSeed base seed owner)
    have "keeps (\<lambda>account ta. and_then (instruction_address env ic 0 (Some (base, seed, owner)) ta) (\<lambda>a.
        assign account a owner signers ta))"
      by (intro keeps_with_address keeps_assign)
    then show ?thesis
      using assms(3) AssignWithSeed block by (auto simp: and_then_Inr)
  qed (use assms(3) calls in \<open>auto simp: and_then_Inr split: if_splits\<close>)
qed

lemma system_process_keeps:
  assumes "of_program ic" "ta_wf ta" "system_process_instruction env ic instruction ta = Inr ta'"
  shows "R ta ta'"
  using assms dispatch_keeps by (auto simp: system_process_instruction_def and_then_Inr)

end

subsection \<open>Confinement as a contract\<close>

definition confined :: "index_of_account \<Rightarrow> instruction_account list \<Rightarrow> transaction_accounts \<Rightarrow> transaction_accounts \<Rightarrow> bool" where
  "confined p accs ta ta' \<longleftrightarrow>
     ta_wf ta' \<and> map sf_key (ta_shared ta') = map sf_key (ta_shared ta) \<and>
     keeps_totals ta ta' \<and> marked ta ta' \<and>
     (\<forall>i. \<not> writable_in accs i \<longrightarrow> shared_at ta' i = shared_at ta i \<and> private_at ta' i = private_at ta i) \<and>
     (\<forall>i. \<not> owned_by_program p ta i \<longrightarrow> protected i ta ta')"

lemma drop_ref_mut_same:
  assumes "ta_wf ta"
  shows "ta_shared (drop_account_ref_mut i ta) = ta_shared ta" "ta_private (drop_account_ref_mut i ta) = ta_private ta"
    "ta_lamports_delta (drop_account_ref_mut i ta) = ta_lamports_delta ta"
    "ta_resize_delta (drop_account_ref_mut i ta) = ta_resize_delta ta"
    "ta_touched_flags (drop_account_ref_mut i ta) = ta_touched_flags ta"
    "length (ta_borrow_counters (drop_account_ref_mut i ta)) = length (ta_borrow_counters ta)"
proof -
  show "ta_shared (drop_account_ref_mut i ta) = ta_shared ta"
  proof (cases "unat i < length (ta_shared ta)")
    case True
    then show ?thesis
      using wf_payload [OF assms True]
      by (simp add: drop_account_ref_mut_def vm_slice_set_len_def list_update_same_conv)
  next
    case False
    then show ?thesis
      by (simp add: drop_account_ref_mut_def list_update_beyond not_less)
  qed
qed (simp_all add: drop_account_ref_mut_def)

text \<open>States that differ only in their borrow counters are confined to each other.\<close>

lemma confined_counters:
  assumes "ta_wf ta" "ta_shared ta' = ta_shared ta" "ta_private ta' = ta_private ta"
    "ta_lamports_delta ta' = ta_lamports_delta ta" "ta_resize_delta ta' = ta_resize_delta ta"
    "ta_touched_flags ta' = ta_touched_flags ta" "length (ta_borrow_counters ta') = length (ta_borrow_counters ta)"
  shows "confined p accs ta ta'"
proof -
  have "ta_wf ta'"
    using assms by (simp add: ta_wf_def)
  moreover have "keeps_totals ta ta'"
    using assms calculation
    by (simp add: keeps_totals_def initial_lamports_def total_lamports_def data_bounded_def total_data_def)
  ultimately show ?thesis
    using assms(2,3,6) by (simp add: confined_def protected_def marked_def)
qed

lemma confined_key: "confined p accs ta ta' \<Longrightarrow> account_key q ta' = account_key q ta"
  using map_eq_imp_length_eq [of sf_key "ta_shared ta'" sf_key "ta_shared ta"]
  by (auto simp: confined_def account_key_def slice_get_def dest: map_eq_imp_length_eq) (metis nth_map)

lemma confined_trans:
  assumes "confined p accs ta ta1" "confined p accs ta1 ta2"
  shows "confined p accs ta ta2"
proof -
  have "protected i ta ta2" if foreign: "\<not> owned_by_program p ta i" for i
  proof -
    have first: "protected i ta ta1"
      using assms(1) foreign by (simp add: confined_def)
    then have "\<not> owned_by_program p ta1 i"
      using foreign confined_key [OF assms(1)] by (simp add: owned_by_program_def protected_def)
    then have "protected i ta1 ta2"
      using assms(2) by (simp add: confined_def)
    then show ?thesis
      using first by (fastforce simp: protected_def)
  qed
  moreover have "keeps_totals ta ta2"
    using assms by (simp add: confined_def keeps_totals_def)
  moreover have "marked ta ta2"
    using assms marked_trans by (auto simp: confined_def)
  ultimately show ?thesis
    using assms unfolding confined_def by auto
qed

interpretation confined: account_contract is_exempt p accs "confined p accs" for is_exempt p accs
proof unfold_locales
  fix ta ta1 ta2 ta' i b
  show "confined p accs ta ta" if "ta_wf ta"
    using that by (rule confined_counters) simp_all
  show "confined p accs ta ta2" if "confined p accs ta ta1" "confined p accs ta1 ta2"
    using that by (rule confined_trans)
  show "ta_wf ta'" if "confined p accs ta ta'"
    using that by (simp add: confined_def)
  show "length (ta_shared ta') = length (ta_shared ta)" if "confined p accs ta ta'"
    using that map_eq_imp_length_eq by (auto simp: confined_def)
  show "confined p accs ta ta'" if wf: "ta_wf ta" and b: "try_borrow_mut i ta = Inr ta'"
    by (rule confined_counters [OF wf]) (use try_borrow_mut_same [OF b] in simp_all)
  show "confined p accs ta (drop_account_ref_mut i ta)" if wf: "ta_wf ta"
    by (rule confined_counters [OF wf]) (rule drop_ref_mut_same [OF wf])+
  show "confined p accs ta ta'"
    if wf: "ta_wf ta" and b: "ba_program_index b = p" "ba_instruction_account b \<in> set accs"
      "ba_index b < length (ta_shared ta)" and step: "account_step is_exempt b ta ta'"
  proof -
    have "program_step is_exempt p accs ta ta'"
      using b step by (auto simp: program_step_def)
    note one = program_step_protects [OF this wf]
    then show ?thesis
      using account_step_rules(3) [OF step wf b(3)] by (simp add: confined_def keeps_totals_def same_shape_def)
  qed
qed

end
