(* ===== verification/Vote_Program.thy ===== *)
theory Vote_Program
  imports Vote_Account Account_Contract
begin

section \<open>The vote program\<close>

text \<open>
  The processor of the vote program, \<open>src/programs/vote/src/vote_processor.rs\<close>, and the proof that it
  keeps every contract on accounts. Instructions are taken after decoding. The account of the vote
  state, the first of the instruction, is borrowed for the whole instruction, except that a
  withdrawal and a deposit drop it and borrow it again.
\<close>

datatype vote_instruction =
    InitializeAccount vote_init
  | Authorize pubkey vote_authorize
  | AuthorizeWithSeed vote_authorize pubkey "u8 list" pubkey
  | AuthorizeCheckedWithSeed vote_authorize pubkey "u8 list"
  | UpdateValidatorIdentity
  | UpdateCommission u8
  | Vote vote
  | VoteSwitch vote hash
  | UpdateVoteState vote_state_update
  | UpdateVoteStateSwitch vote_state_update hash
  | CompactUpdateVoteState vote_state_update
  | CompactUpdateVoteStateSwitch vote_state_update hash
  | TowerSync tower_sync
  | TowerSyncSwitch tower_sync hash
  | Withdraw u64
  | AuthorizeChecked vote_authorize
  | InitializeAccountV2 vote_init_v2
  | UpdateCommissionBps u16 commission_kind
  | UpdateCommissionCollector commission_kind
  | DepositDelegatorRewards u64

definition clock_with_account_check ::
  "vote_env \<Rightarrow> instruction_context \<Rightarrow> index_of_account \<Rightarrow> transaction_accounts \<Rightarrow> clock result" where
  "clock_with_account_check env ic i ta =
     and_then (check_sysvar_account (clock_id env) ic i ta) (\<lambda>_. clock_sysvar env)"

definition vote_rent_with_account_check ::
  "vote_env \<Rightarrow> instruction_context \<Rightarrow> index_of_account \<Rightarrow> transaction_accounts \<Rightarrow> rent result" where
  "vote_rent_with_account_check env ic i ta =
     and_then (check_sysvar_account (rent_sysvar_id env) ic i ta) (\<lambda>_. rent_sysvar env)"

definition slot_hashes_with_account_check ::
  "vote_env \<Rightarrow> instruction_context \<Rightarrow> index_of_account \<Rightarrow> transaction_accounts \<Rightarrow> slot_hashes result" where
  "slot_hashes_with_account_check env ic i ta =
     and_then (check_sysvar_account (slot_hashes_id env) ic i ta) (\<lambda>_. slot_hashes_sysvar env)"

definition process_authorize_with_seed_instruction ::
  "vote_env \<Rightarrow> instruction_context \<Rightarrow> borrowed_account \<Rightarrow> pubkey \<Rightarrow> vote_authorize \<Rightarrow> pubkey \<Rightarrow> u8 list \<Rightarrow> bool \<Rightarrow>
   transaction_accounts \<Rightarrow> transaction_accounts result" where
  "process_authorize_with_seed_instruction env ic vote_account new_authority kind owner seed is_bls_enabled ta =
     and_then (clock_with_account_check env ic 1 ta) (\<lambda>clk.
     and_then (is_instruction_account_signer ic 2) (\<lambda>signed.
     and_then
       (if signed
        then and_then (get_key_of_instruction_account ic 2 ta) (\<lambda>base_pubkey.
             and_then (vote_create_with_seed env base_pubkey seed owner) (\<lambda>key. Inr {key}))
        else Inr {})
       (\<lambda>expected_authority_keys.
          authorize env vote_account new_authority kind expected_authority_keys clk is_bls_enabled ta)))"

definition is_init_account_v2_enabled :: "vote_env \<Rightarrow> bool" where
  "is_init_account_v2_enabled env \<longleftrightarrow>
     bls_pubkey_management_in_vote_account env \<and> commission_rate_in_basis_points env \<and>
     custom_commission_collector env \<and> block_revenue_sharing env \<and> vote_account_initialize_v2 env"

definition is_vote_authorize_with_bls_enabled :: "vote_env \<Rightarrow> bool" where
  "is_vote_authorize_with_bls_enabled env \<longleftrightarrow> bls_pubkey_management_in_vote_account env"

definition should_reject_legacy_vote_instructions :: "vote_env \<Rightarrow> bool" where
  "should_reject_legacy_vote_instructions env \<longleftrightarrow>
     deprecate_legacy_vote_ixs env \<or> alpenglow_migration_succeeded env"

text \<open>The collector, if it is not the vote account, is borrowed until the operation ends.\<close>

definition with_new_collector_account ::
  "instruction_context \<Rightarrow> borrowed_account \<Rightarrow> index_of_account \<Rightarrow>
   (new_commission_collector \<Rightarrow> transaction_accounts \<Rightarrow> transaction_accounts result) \<Rightarrow>
   transaction_accounts \<Rightarrow> transaction_accounts result" where
  "with_new_collector_account ic vote_account i block ta =
     and_then (get_key_of_instruction_account ic i ta) (\<lambda>key.
     if key = get_key vote_account ta then block VoteAccount ta
     else with_account ic i (\<lambda>collector_account. block (NewAccount collector_account)) ta)"

definition drop_borrowed :: "borrowed_account \<Rightarrow> transaction_accounts \<Rightarrow> transaction_accounts" where
  "drop_borrowed b ta = drop_account_ref_mut (ia_index_in_transaction (ba_instruction_account b)) ta"

subsection \<open>The instructions\<close>

definition on_initialize_account ::
  "vote_env \<Rightarrow> instruction_context \<Rightarrow> pubkey set \<Rightarrow> vote_init \<Rightarrow> borrowed_account \<Rightarrow>
   transaction_accounts \<Rightarrow> transaction_accounts result" where
  "on_initialize_account env ic signers init me ta =
     and_then (vote_rent_with_account_check env ic 1 ta) (\<lambda>r.
     if \<not> rent_is_exempt r (get_lamports me ta) (length (get_data me ta)) then Inl InsufficientFunds
     else and_then (clock_with_account_check env ic 2 ta) (\<lambda>clk. initialize_account env me init signers clk ta))"

definition on_authorize ::
  "vote_env \<Rightarrow> instruction_context \<Rightarrow> pubkey set \<Rightarrow> pubkey \<Rightarrow> vote_authorize \<Rightarrow> borrowed_account \<Rightarrow>
   transaction_accounts \<Rightarrow> transaction_accounts result" where
  "on_authorize env ic signers voter_pubkey kind me ta =
     and_then (clock_with_account_check env ic 1 ta) (\<lambda>clk.
     authorize env me voter_pubkey kind signers clk (is_vote_authorize_with_bls_enabled env) ta)"

definition on_authorize_with_seed ::
  "vote_env \<Rightarrow> instruction_context \<Rightarrow> pubkey set \<Rightarrow> vote_authorize \<Rightarrow> pubkey \<Rightarrow> u8 list \<Rightarrow> pubkey \<Rightarrow> borrowed_account \<Rightarrow>
   transaction_accounts \<Rightarrow> transaction_accounts result" where
  "on_authorize_with_seed env ic signers kind owner seed new_authority me ta =
     and_then (check_number_of_instruction_accounts ic 3) (\<lambda>_.
     process_authorize_with_seed_instruction env ic me new_authority kind owner seed
       (is_vote_authorize_with_bls_enabled env) ta)"

definition on_authorize_checked_with_seed ::
  "vote_env \<Rightarrow> instruction_context \<Rightarrow> pubkey set \<Rightarrow> vote_authorize \<Rightarrow> pubkey \<Rightarrow> u8 list \<Rightarrow> borrowed_account \<Rightarrow>
   transaction_accounts \<Rightarrow> transaction_accounts result" where
  "on_authorize_checked_with_seed env ic signers kind owner seed me ta =
     and_then (check_number_of_instruction_accounts ic 4) (\<lambda>_.
     and_then (get_key_of_instruction_account ic 3 ta) (\<lambda>new_authority.
     and_then (is_instruction_account_signer ic 3) (\<lambda>signed.
     if \<not> signed then Inl MissingRequiredSignature
     else process_authorize_with_seed_instruction env ic me new_authority kind owner seed
            (is_vote_authorize_with_bls_enabled env) ta)))"

definition on_update_validator_identity ::
  "vote_env \<Rightarrow> instruction_context \<Rightarrow> pubkey set \<Rightarrow> borrowed_account \<Rightarrow>
   transaction_accounts \<Rightarrow> transaction_accounts result" where
  "on_update_validator_identity env ic signers me ta =
     and_then (check_number_of_instruction_accounts ic 2) (\<lambda>_.
     and_then (get_key_of_instruction_account ic 1 ta) (\<lambda>node_pubkey.
     update_validator_identity env me node_pubkey signers (custom_commission_collector env) ta))"

definition on_update_commission ::
  "vote_env \<Rightarrow> instruction_context \<Rightarrow> pubkey set \<Rightarrow> u8 \<Rightarrow> borrowed_account \<Rightarrow>
   transaction_accounts \<Rightarrow> transaction_accounts result" where
  "on_update_commission env ic signers new_commission me ta =
     and_then (epoch_schedule_sysvar env) (\<lambda>schedule.
     and_then (clock_sysvar env) (\<lambda>clk.
     update_commission env me new_commission signers schedule clk (delay_commission_updates env) ta))"

definition on_vote ::
  "vote_env \<Rightarrow> instruction_context \<Rightarrow> pubkey set \<Rightarrow> vote \<Rightarrow> borrowed_account \<Rightarrow>
   transaction_accounts \<Rightarrow> transaction_accounts result option" where
  "on_vote env ic signers v me ta =
     (if should_reject_legacy_vote_instructions env then Some (Inl InvalidInstructionData)
      else and_then_some (slot_hashes_with_account_check env ic 1 ta) (\<lambda>hashes.
           and_then_some (clock_with_account_check env ic 2 ta) (\<lambda>clk.
           process_vote_with_account env me hashes clk v signers ta)))"

definition on_update_vote_state ::
  "vote_env \<Rightarrow> instruction_context \<Rightarrow> pubkey set \<Rightarrow> vote_state_update \<Rightarrow> borrowed_account \<Rightarrow>
   transaction_accounts \<Rightarrow> transaction_accounts result option" where
  "on_update_vote_state env ic signers v me ta =
     (if should_reject_legacy_vote_instructions env then Some (Inl InvalidInstructionData)
      else and_then_some (slot_hashes_sysvar env) (\<lambda>hashes.
           and_then_some (clock_sysvar env) (\<lambda>clk.
           process_vote_state_update env me hashes clk v signers ta)))"

definition on_compact_update_vote_state ::
  "vote_env \<Rightarrow> instruction_context \<Rightarrow> pubkey set \<Rightarrow> vote_state_update \<Rightarrow> borrowed_account \<Rightarrow>
   transaction_accounts \<Rightarrow> transaction_accounts result option" where
  "on_compact_update_vote_state env ic signers v me ta =
     (if should_reject_legacy_vote_instructions env then Some (Inl InvalidInstructionData)
      else and_then_some (slot_hashes_sysvar env) (\<lambda>hashes.
           and_then_some (clock_sysvar env) (\<lambda>clk.
           process_vote_state_update env me hashes clk v signers ta)))"

definition on_tower_sync ::
  "vote_env \<Rightarrow> instruction_context \<Rightarrow> pubkey set \<Rightarrow> tower_sync \<Rightarrow> borrowed_account \<Rightarrow>
   transaction_accounts \<Rightarrow> transaction_accounts result option" where
  "on_tower_sync env ic signers v me ta =
     (if alpenglow_migration_succeeded env then Some (Inl InvalidInstructionData)
      else and_then_some (slot_hashes_sysvar env) (\<lambda>hashes.
           and_then_some (clock_sysvar env) (\<lambda>clk.
           process_tower_sync env me hashes clk v signers ta)))"

definition on_withdraw ::
  "vote_env \<Rightarrow> instruction_context \<Rightarrow> pubkey set \<Rightarrow> u64 \<Rightarrow> borrowed_account \<Rightarrow>
   transaction_accounts \<Rightarrow> transaction_accounts result" where
  "on_withdraw env ic signers lamports me ta =
     and_then (check_number_of_instruction_accounts ic 2) (\<lambda>_.
     and_then (rent_sysvar env) (\<lambda>r.
     and_then (clock_sysvar env) (\<lambda>clk.
     withdraw env ic 0 lamports 1 signers r clk (drop_borrowed me ta))))"

definition on_authorize_checked ::
  "vote_env \<Rightarrow> instruction_context \<Rightarrow> pubkey set \<Rightarrow> vote_authorize \<Rightarrow> borrowed_account \<Rightarrow>
   transaction_accounts \<Rightarrow> transaction_accounts result" where
  "on_authorize_checked env ic signers kind me ta =
     and_then (check_number_of_instruction_accounts ic 4) (\<lambda>_.
     and_then (get_key_of_instruction_account ic 3 ta) (\<lambda>voter_pubkey.
     and_then (is_instruction_account_signer ic 3) (\<lambda>signed.
     if \<not> signed then Inl MissingRequiredSignature
     else and_then (clock_with_account_check env ic 1 ta) (\<lambda>clk.
          authorize env me voter_pubkey kind signers clk (is_vote_authorize_with_bls_enabled env) ta))))"

definition on_initialize_account_v2 ::
  "vote_env \<Rightarrow> instruction_context \<Rightarrow> pubkey set \<Rightarrow> vote_init_v2 \<Rightarrow> borrowed_account \<Rightarrow>
   transaction_accounts \<Rightarrow> transaction_accounts result" where
  "on_initialize_account_v2 env ic signers init me ta =
     (if \<not> is_init_account_v2_enabled env then Inl InvalidInstructionData
      else and_then (check_number_of_instruction_accounts ic 4) (\<lambda>_.
           with_new_collector_account ic me 2 (\<lambda>inflation_rewards_collector.
           with_new_collector_account ic me 3 (\<lambda>block_revenue_collector ta.
             and_then (clock_sysvar env) (\<lambda>clk.
             and_then (rent_sysvar env) (\<lambda>r.
             initialize_account_v2 env me init inflation_rewards_collector block_revenue_collector
               signers clk r ta)))) ta))"

definition on_update_commission_bps ::
  "vote_env \<Rightarrow> instruction_context \<Rightarrow> pubkey set \<Rightarrow> u16 \<Rightarrow> commission_kind \<Rightarrow> borrowed_account \<Rightarrow>
   transaction_accounts \<Rightarrow> transaction_accounts result" where
  "on_update_commission_bps env ic signers commission_bps kind me ta =
     (if \<not> commission_rate_in_basis_points env \<or> \<not> delay_commission_updates env then Inl InvalidInstructionData
      else update_commission_bps env me commission_bps kind signers (block_revenue_sharing env) ta)"

definition on_update_commission_collector ::
  "vote_env \<Rightarrow> instruction_context \<Rightarrow> pubkey set \<Rightarrow> commission_kind \<Rightarrow> borrowed_account \<Rightarrow>
   transaction_accounts \<Rightarrow> transaction_accounts result" where
  "on_update_commission_collector env ic signers kind me ta =
     (if \<not> custom_commission_collector env then Inl InvalidInstructionData
      else and_then (check_number_of_instruction_accounts ic 3) (\<lambda>_.
           with_new_collector_account ic me 1 (\<lambda>new_collector ta.
             and_then (rent_sysvar env) (\<lambda>r.
             update_commission_collector env me new_collector kind signers r ta)) ta))"

definition on_deposit_delegator_rewards ::
  "(pubkey \<Rightarrow> pubkey \<Rightarrow> u64 \<Rightarrow> transaction_accounts \<Rightarrow> transaction_accounts result) \<Rightarrow>
   vote_env \<Rightarrow> instruction_context \<Rightarrow> pubkey set \<Rightarrow> u64 \<Rightarrow> borrowed_account \<Rightarrow>
   transaction_accounts \<Rightarrow> transaction_accounts result" where
  "on_deposit_delegator_rewards cpi env ic signers deposit me ta =
     (if \<not> commission_rate_in_basis_points env \<or> \<not> custom_commission_collector env \<or> \<not> block_revenue_sharing env
      then Inl InvalidInstructionData
      else and_then (check_number_of_instruction_accounts ic 2) (\<lambda>_.
           deposit_delegator_rewards cpi env ic 0 1 deposit signers (drop_borrowed me ta)))"

text \<open>The vote account is dropped where the instruction ends.\<close>

definition completed :: "borrowed_account \<Rightarrow> transaction_accounts result \<Rightarrow> transaction_accounts result option" where
  "completed me r = Some (and_then r (\<lambda>ta. Inr (drop_borrowed me ta)))"

definition completed_vote ::
  "borrowed_account \<Rightarrow> transaction_accounts result option \<Rightarrow> transaction_accounts result option" where
  "completed_vote me r = Option.bind r (completed me)"

fun vote_dispatch ::
  "(pubkey \<Rightarrow> pubkey \<Rightarrow> u64 \<Rightarrow> transaction_accounts \<Rightarrow> transaction_accounts result) \<Rightarrow>
   vote_env \<Rightarrow> instruction_context \<Rightarrow> pubkey set \<Rightarrow> vote_instruction \<Rightarrow> borrowed_account \<Rightarrow>
   transaction_accounts \<Rightarrow> transaction_accounts result option" where
  "vote_dispatch cpi env ic signers (InitializeAccount init) me ta = completed me (on_initialize_account env ic signers init me ta)"
| "vote_dispatch cpi env ic signers (Authorize voter_pubkey kind) me ta = completed me (on_authorize env ic signers voter_pubkey kind me ta)"
| "vote_dispatch cpi env ic signers (AuthorizeWithSeed kind owner seed new_authority) me ta = completed me (on_authorize_with_seed env ic signers kind owner seed new_authority me ta)"
| "vote_dispatch cpi env ic signers (AuthorizeCheckedWithSeed kind owner seed) me ta = completed me (on_authorize_checked_with_seed env ic signers kind owner seed me ta)"
| "vote_dispatch cpi env ic signers UpdateValidatorIdentity me ta = completed me (on_update_validator_identity env ic signers me ta)"
| "vote_dispatch cpi env ic signers (UpdateCommission new_commission) me ta = completed me (on_update_commission env ic signers new_commission me ta)"
| "vote_dispatch cpi env ic signers (Vote v) me ta = completed_vote me (on_vote env ic signers v me ta)"
| "vote_dispatch cpi env ic signers (VoteSwitch v _) me ta = completed_vote me (on_vote env ic signers v me ta)"
| "vote_dispatch cpi env ic signers (UpdateVoteState v) me ta = completed_vote me (on_update_vote_state env ic signers v me ta)"
| "vote_dispatch cpi env ic signers (UpdateVoteStateSwitch v _) me ta = completed_vote me (on_update_vote_state env ic signers v me ta)"
| "vote_dispatch cpi env ic signers (CompactUpdateVoteState v) me ta = completed_vote me (on_compact_update_vote_state env ic signers v me ta)"
| "vote_dispatch cpi env ic signers (CompactUpdateVoteStateSwitch v _) me ta = completed_vote me (on_compact_update_vote_state env ic signers v me ta)"
| "vote_dispatch cpi env ic signers (TowerSync v) me ta = completed_vote me (on_tower_sync env ic signers v me ta)"
| "vote_dispatch cpi env ic signers (TowerSyncSwitch v _) me ta = completed_vote me (on_tower_sync env ic signers v me ta)"
| "vote_dispatch cpi env ic signers (Withdraw lamports) me ta = Some (on_withdraw env ic signers lamports me ta)"
| "vote_dispatch cpi env ic signers (AuthorizeChecked kind) me ta = completed me (on_authorize_checked env ic signers kind me ta)"
| "vote_dispatch cpi env ic signers (InitializeAccountV2 init) me ta = completed me (on_initialize_account_v2 env ic signers init me ta)"
| "vote_dispatch cpi env ic signers (UpdateCommissionBps commission_bps kind) me ta = completed me (on_update_commission_bps env ic signers commission_bps kind me ta)"
| "vote_dispatch cpi env ic signers (UpdateCommissionCollector kind) me ta = completed me (on_update_commission_collector env ic signers kind me ta)"
| "vote_dispatch cpi env ic signers (DepositDelegatorRewards deposit) me ta =
     Some (on_deposit_delegator_rewards cpi env ic signers deposit me ta)"

definition vote_process_instruction ::
  "(pubkey \<Rightarrow> pubkey \<Rightarrow> u64 \<Rightarrow> transaction_accounts \<Rightarrow> transaction_accounts result) \<Rightarrow>
   vote_env \<Rightarrow> instruction_context \<Rightarrow> vote_instruction \<Rightarrow> transaction_accounts \<Rightarrow> transaction_accounts result option" where
  "vote_process_instruction cpi env ic instruction ta =
     and_then_some (try_borrow_instruction_account ic 0 ta) (\<lambda>(me, ta).
     if get_owner me ta \<noteq> vote_program_id env then Some (Inl InvalidAccountOwner)
     else and_then_some (get_signers ic ta) (\<lambda>signers.
          vote_dispatch cpi env ic signers instruction me ta))"


subsection \<open>What the votes store\<close>

lemma voting_state_Inr:
  "voting_state env b clk signers ta = Inr st \<longleftrightarrow>
     (\<exists>s voter. get_vote_state_handler_checked env b ta = Inr s \<and>
        get_and_update_authorized_voter env (clock_epoch clk) s = Inr (voter, st) \<and> voter \<in> signers)"
  by (auto simp: voting_state_def verify_authorized_signer_def and_then_Inr split: if_splits)

lemma or_vote_err_Inr [simp]: "or_vote_err env r = Inr x \<longleftrightarrow> r = Inr x"
  by (auto simp: or_vote_err_def split: sum.splits)

lemma process_vote_stores:
  assumes "process_vote_with_account env b hashes clk v signers ta = Some (Inr ta')"
  obtains s s1 st where "voting_state env b clk signers ta = Inr s"
    "process_vote (vote_interface_of env) s v hashes (clock_epoch clk) (clock_slot clk) = Some (Inr s1)"
    "vote_process_timestamp v s1 = Inr st" "set_vote_account_state env b st ta = Inr ta'"
  using assms by (auto simp: process_vote_with_account_def result_ops bind_eq_Some_conv)

lemma process_vote_state_update_stores:
  assumes "process_vote_state_update env b hashes clk u signers ta = Some (Inr ta')"
  obtains s st where "voting_state env b clk signers ta = Inr s"
    "do_process_vote_state_update (vote_interface_of env) s hashes (clock_epoch clk) (clock_slot clk) u = Some (Inr st)"
    "set_vote_account_state env b st ta = Inr ta'"
  using assms by (auto simp: process_vote_state_update_def result_ops bind_eq_Some_conv)

lemma process_tower_sync_stores:
  assumes "process_tower_sync env b hashes clk t signers ta = Some (Inr ta')"
  obtains s st where "voting_state env b clk signers ta = Inr s"
    "do_process_tower_sync (vote_interface_of env) s hashes (clock_epoch clk) (clock_slot clk) t = Some (Inr st)"
    "set_vote_account_state env b st ta = Inr ta'"
  using assms by (auto simp: process_tower_sync_def result_ops bind_eq_Some_conv)

lemmas on_votes = on_vote_def on_update_vote_state_def on_compact_update_vote_state_def on_tower_sync_def

subsection \<open>The vote program keeps every contract\<close>

context account_contract
begin

lemma keeps_set_vote_account_state: "keeps (\<lambda>b ta. set_vote_account_state env b (v4 b ta) ta)"
proof (rule keepsI)
  fix b ta ta'
  assume u: "usable b ta" and set: "set_vote_account_state env b (v4 b ta) ta = Inr ta'"
  obtain ta1 where "ta1 = ta \<or> set_data_length b (vote_state_v4_size_of env) ta = Inr ta1"
    and state: "set_state (versions_serialize env) b (V4 (v4 b ta)) ta1 = Inr ta'"
    using set by (auto simp: set_vote_account_state_def result_ops Let_def split: if_splits sum.splits)
  then have R1: "R ta ta1"
    using keepsD [OF keeps_set_data_length u] nothing_keeps [OF u] by blast
  show "R ta ta'"
    using R_trans [OF R1 keepsD [OF keeps_set_state usable_after [OF u R1] state]] .
qed

lemma keeps_deinitialize: "keeps deinitialize_vote_account_state"
  unfolding deinitialize_vote_account_state_def by (rule keeps_fill)

lemmas keeps_vote = keeps_bind keeps_if keeps_error keeps_set_vote_account_state

lemma keeps_authorize: "keeps (\<lambda>b. authorize env b authorized kind signers clk enabled)"
  unfolding authorize_def by (intro keeps_vote)

lemma keeps_update_validator_identity: "keeps (\<lambda>b. update_validator_identity env b node signers enabled)"
  unfolding update_validator_identity_def Let_def by (intro keeps_vote)

lemma keeps_update_commission: "keeps (\<lambda>b. update_commission env b c signers schedule clk disable)"
  unfolding update_commission_def Let_def by (intro keeps_vote)

lemma keeps_update_commission_bps: "keeps (\<lambda>b. update_commission_bps env b c kind signers enabled)"
  unfolding update_commission_bps_def by (intro keeps_vote)

lemma keeps_update_commission_collector: "keeps (\<lambda>b. update_commission_collector env b collector kind signers r)"
  unfolding update_commission_collector_def by (intro keeps_vote)

lemma keeps_initialize_account: "keeps (\<lambda>b. initialize_account env b init signers clk)"
  unfolding initialize_account_def init_vote_account_state_def by (intro keeps_vote)

lemma keeps_initialize_account_v2: "keeps (\<lambda>b. initialize_account_v2 env b init c1 c2 signers clk r)"
  unfolding initialize_account_v2_def init_vote_account_state_v2_def by (intro keeps_vote)

lemma collector_keeps:
  assumes "of_program ic" "usable me ta" "with_new_collector_account ic me i block ta = Inr ta'"
    and block: "\<And>collector ta ta'. usable me ta \<Longrightarrow> block collector ta = Inr ta' \<Longrightarrow> R ta ta'"
  shows "R ta ta'"
proof -
  obtain key where key: "get_key_of_instruction_account ic i ta = Inr key"
    using assms(3) by (auto simp: with_new_collector_account_def and_then_Inr)
  show ?thesis
  proof (cases "key = get_key me ta")
    case True
    then show ?thesis
      using assms(2,3) key block by (auto simp: with_new_collector_account_def and_then_Inr)
  next
    case False
    then obtain b ta1 ta2 where borrow: "try_borrow_instruction_account ic i ta = Inr (b, ta1)"
      and run: "block (NewAccount b) ta1 = Inr ta2"
      and ta': "ta' = drop_account_ref_mut (ia_index_in_transaction (ba_instruction_account b)) ta2"
      using assms(3) key by (auto simp: with_new_collector_account_def with_account_def and_then_Inr)
    have wf: "ta_wf ta"
      using assms(2) by (simp add: usable_def)
    have R1: "R ta ta1"
      by (rule borrow_keeps(1) [OF assms(1) wf borrow])
    have R2: "R ta1 ta2"
      by (rule block [OF usable_after [OF assms(2) R1] run])
    show ?thesis
      unfolding ta' by (intro R_trans [OF R1] R_trans [OF R2] R_drop R_wf [OF R2])
  qed
qed

lemma keeps_withdraw_from_vote_account: "keeps (withdraw_from_vote_account env lamports signers r clk)"
  unfolding withdraw_from_vote_account_def
  by (intro keeps_bind keeps_seq keeps_if keeps_error keeps_return keeps_deinitialize keeps_checked_sub_lamports)

lemma withdraw_keeps:
  assumes "of_program ic" "ta_wf ta" "withdraw env ic i lamports j signers r clk ta = Inr ta'"
  shows "R ta ta'"
proof -
  obtain ta1 where ta1: "with_account ic i (withdraw_from_vote_account env lamports signers r clk) ta = Inr ta1"
    and ta': "with_account ic j (\<lambda>acct. checked_add_lamports acct lamports) ta1 = Inr ta'"
    using assms(3) by (auto simp: withdraw_def and_then_Inr)
  have R1: "R ta ta1"
    by (rule with_account_keeps [OF assms(1) keeps_withdraw_from_vote_account assms(2) ta1])
  show ?thesis
    using R_trans [OF R1 with_account_keeps [OF assms(1) keeps_checked_add_lamports R_wf [OF R1] ta']] .
qed

lemma deposit_keeps:
  assumes "of_program ic" "ta_wf ta" "deposit_delegator_rewards cpi env ic i j deposit signers ta = Inr ta'"
    and cpi: "\<And>src dst n ta ta'. ta_wf ta \<Longrightarrow> cpi src dst n ta = Inr ta' \<Longrightarrow> R ta ta'"
  shows "R ta ta'"
proof -
  obtain b ta1 ta2 src dst vote_state where borrow: "try_borrow_instruction_account ic i ta = Inr (b, ta1)"
    and call: "cpi src dst deposit (drop_account_ref_mut (ia_index_in_transaction (ba_instruction_account b)) ta1) = Inr ta2"
    and store: "with_account ic i (\<lambda>vote_account ta.
       and_then (ok_or ArithmeticOverflow (add_pending_delegator_rewards deposit vote_state)) (\<lambda>vote_state.
       set_vote_account_state env vote_account vote_state ta)) ta2 = Inr ta'"
    using assms(3) unfolding deposit_delegator_rewards_def and_then_Inr by (auto simp: and_then_Inr)
  have R1: "R ta ta1"
    by (rule borrow_keeps(1) [OF assms(1,2) borrow])
  let ?ta1 = "drop_account_ref_mut (ia_index_in_transaction (ba_instruction_account b)) ta1"
  have R2: "R ta1 ?ta1"
    by (rule R_drop [OF R_wf [OF R1]])
  have R3: "R ?ta1 ta2"
    by (rule cpi [OF R_wf [OF R2] call])
  have "keeps (\<lambda>vote_account ta.
       and_then (ok_or ArithmeticOverflow (add_pending_delegator_rewards deposit vote_state)) (\<lambda>vote_state.
       set_vote_account_state env vote_account vote_state ta))"
    by (intro keeps_vote)
  then have R4: "R ta2 ta'"
    by (rule with_account_keeps [OF assms(1) _ R_wf [OF R3] store])
  show ?thesis
    by (intro R_trans [OF R1] R_trans [OF R2] R_trans [OF R3] R4)
qed

lemma keepsD_store: "set_vote_account_state env b st ta = Inr ta' \<Longrightarrow> usable b ta \<Longrightarrow> R ta ta'"
  using keepsD [OF keeps_set_vote_account_state, of _ _ env "\<lambda>_ _. st"] by simp

lemma votes_keep:
  assumes "usable b ta"
  shows "on_vote env ic signers v b ta = Some (Inr ta') \<Longrightarrow> R ta ta'"
    and "on_update_vote_state env ic signers u b ta = Some (Inr ta') \<Longrightarrow> R ta ta'"
    and "on_compact_update_vote_state env ic signers u b ta = Some (Inr ta') \<Longrightarrow> R ta ta'"
    and "on_tower_sync env ic signers t b ta = Some (Inr ta') \<Longrightarrow> R ta ta'"
  by (auto simp: on_votes result_ops split: if_splits intro: keepsD_store [OF _ assms]
      elim!: process_vote_stores process_vote_state_update_stores process_tower_sync_stores)

lemma keeps_on_initialize_account: "keeps (on_initialize_account env ic signers init)"
  unfolding on_initialize_account_def by (intro keeps_vote keeps_initialize_account)

lemma keeps_on_authorize: "keeps (on_authorize env ic signers voter kind)"
  unfolding on_authorize_def by (intro keeps_vote keeps_authorize)

lemma keeps_authorize_with_seed:
  "keeps (\<lambda>b. process_authorize_with_seed_instruction env ic b authority kind owner seed enabled)"
  unfolding process_authorize_with_seed_instruction_def by (intro keeps_vote keeps_authorize)

lemma keeps_on_authorize_with_seed: "keeps (on_authorize_with_seed env ic signers kind owner seed authority)"
  unfolding on_authorize_with_seed_def by (intro keeps_vote keeps_authorize_with_seed)

lemma keeps_on_authorize_checked_with_seed: "keeps (on_authorize_checked_with_seed env ic signers kind owner seed)"
  unfolding on_authorize_checked_with_seed_def by (intro keeps_vote keeps_authorize_with_seed)

lemma keeps_on_update_validator_identity: "keeps (on_update_validator_identity env ic signers)"
  unfolding on_update_validator_identity_def by (intro keeps_vote keeps_update_validator_identity)

lemma keeps_on_update_commission: "keeps (on_update_commission env ic signers c)"
  unfolding on_update_commission_def by (intro keeps_vote keeps_update_commission)

lemma keeps_on_authorize_checked: "keeps (on_authorize_checked env ic signers kind)"
  unfolding on_authorize_checked_def by (intro keeps_vote keeps_authorize)

lemma keeps_on_update_commission_bps: "keeps (on_update_commission_bps env ic signers c kind)"
  unfolding on_update_commission_bps_def by (intro keeps_vote keeps_update_commission_bps)

lemma keeps_on_update_commission_collector:
  assumes "of_program ic"
  shows "keeps (on_update_commission_collector env ic signers kind)"
proof (rule keepsI)
  fix b ta ta'
  assume u: "usable b ta" and run: "on_update_commission_collector env ic signers kind b ta = Inr ta'"
  obtain r where "with_new_collector_account ic b 1 (\<lambda>collector ta. and_then (rent_sysvar env) (\<lambda>r.
      update_commission_collector env b collector kind signers r ta)) ta = Inr ta'"
    using run by (auto simp: on_update_commission_collector_def result_ops split: if_splits)
  then show "R ta ta'"
    by (rule collector_keeps [OF assms u]) (auto simp: and_then_Inr dest: keepsD [OF keeps_update_commission_collector])
qed

lemma keeps_on_initialize_account_v2:
  assumes "of_program ic"
  shows "keeps (on_initialize_account_v2 env ic signers init)"
proof (rule keepsI)
  fix b ta ta'
  assume u: "usable b ta" and run: "on_initialize_account_v2 env ic signers init b ta = Inr ta'"
  let ?block = "\<lambda>c1 c2 ta. and_then (clock_sysvar env) (\<lambda>clk. and_then (rent_sysvar env) (\<lambda>r.
      initialize_account_v2 env b init c1 c2 signers clk r ta))"
  have "R ta ta'" if "usable b ta" "with_new_collector_account ic b 3 (?block c1) ta = Inr ta'" for c1 ta ta'
    by (rule collector_keeps [OF assms that])
      (auto simp: and_then_Inr dest: keepsD [OF keeps_initialize_account_v2])
  moreover have "with_new_collector_account ic b 2 (\<lambda>c1. with_new_collector_account ic b 3 (?block c1)) ta = Inr ta'"
    using run by (auto simp: on_initialize_account_v2_def result_ops split: if_splits)
  ultimately show "R ta ta'"
    using collector_keeps [OF assms u] by blast
qed

lemmas keeps_instructions = keeps_on_initialize_account keeps_on_authorize keeps_on_authorize_with_seed
  keeps_on_authorize_checked_with_seed keeps_on_update_validator_identity keeps_on_update_commission
  keeps_on_authorize_checked keeps_on_update_commission_bps

lemma drop_keeps: "R ta ta1 \<Longrightarrow> R ta (drop_borrowed b ta1)"
  unfolding drop_borrowed_def by (intro R_trans [OF _ R_drop] R_wf)

lemma completed_keeps: "keeps block \<Longrightarrow> usable me ta \<Longrightarrow> completed me (block me ta) = Some (Inr ta') \<Longrightarrow> R ta ta'"
  by (auto simp: completed_def and_then_Inr intro!: drop_keeps dest: keepsD)

lemma completed_vote_keeps:
  "completed_vote me r = Some (Inr ta') \<Longrightarrow> (\<And>ta'. r = Some (Inr ta') \<Longrightarrow> R ta ta') \<Longrightarrow> R ta ta'"
  by (auto simp: completed_vote_def completed_def and_then_Inr bind_eq_Some_conv intro!: drop_keeps)

lemma vote_dispatch_keeps:
  assumes ic: "of_program ic" and u: "usable me ta"
    and run: "vote_dispatch cpi env ic signers instruction me ta = Some (Inr ta')"
    and cpi: "\<And>src dst n ta ta'. ta_wf ta \<Longrightarrow> cpi src dst n ta = Inr ta' \<Longrightarrow> R ta ta'"
  shows "R ta ta'"
proof -
  have wf: "ta_wf ta"
    using u by (simp add: usable_def)
  have dropped: "R ta (drop_borrowed me ta)"
    by (rule drop_keeps [OF R_refl [OF wf]])
  note keep = keeps_instructions [THEN completed_keeps, OF u]
    keeps_on_update_commission_collector [OF ic, THEN completed_keeps, OF u]
    keeps_on_initialize_account_v2 [OF ic, THEN completed_keeps, OF u]
  show ?thesis
  proof (cases instruction)
    case (Withdraw lamports)
    then have "\<exists>r clk. withdraw env ic 0 lamports 1 signers r clk (drop_borrowed me ta) = Inr ta'"
      using run by (auto simp: on_withdraw_def and_then_Inr)
    then show ?thesis
      using R_trans [OF dropped withdraw_keeps [OF ic R_wf [OF dropped]]] by blast
  next
    case (DepositDelegatorRewards deposit)
    then have "deposit_delegator_rewards cpi env ic 0 1 deposit signers (drop_borrowed me ta) = Inr ta'"
      using run by (auto simp: on_deposit_delegator_rewards_def and_then_Inr split: if_splits)
    then have "R (drop_borrowed me ta) ta'"
      by (rule deposit_keeps [OF ic R_wf [OF dropped]]) (rule cpi)
    then show ?thesis
      by (rule R_trans [OF dropped])
  qed (use run keep completed_vote_keeps [OF _ votes_keep(1) [OF u]] completed_vote_keeps [OF _ votes_keep(2) [OF u]]
      completed_vote_keeps [OF _ votes_keep(3) [OF u]] completed_vote_keeps [OF _ votes_keep(4) [OF u]] in simp_all)
qed

lemma vote_process_keeps:
  assumes "of_program ic" "ta_wf ta" "vote_process_instruction cpi env ic instruction ta = Some (Inr ta')"
    and "\<And>src dst n ta ta'. ta_wf ta \<Longrightarrow> cpi src dst n ta = Inr ta' \<Longrightarrow> R ta ta'"
  shows "R ta ta'"
proof -
  obtain me ta1 signers where "try_borrow_instruction_account ic 0 ta = Inr (me, ta1)"
    and run: "vote_dispatch cpi env ic signers instruction me ta1 = Some (Inr ta')"
    using assms(3) by (auto simp: vote_process_instruction_def result_ops split: if_splits)
  note R1 = borrow_keeps [OF assms(1,2) this(1)]
  have "R ta1 ta'"
    by (rule vote_dispatch_keeps [OF assms(1) R1(2) run]) (rule assms(4))
  then show ?thesis
    by (rule R_trans [OF R1(1)])
qed

end

end
