(* ===== verification/System_Safety.thy ===== *)
theory System_Safety
  imports Account_Contract
begin

section \<open>Safety of the system program\<close>

text \<open>
  Who may spend lamports and assign owners through the system program, and that it is balanced.
  The relation \<open>spends\<close> records which accounts lose lamports, which change their owner, and by how
  much the recorded lamports change; the operations have their own instance of it and it can be
  chained.
\<close>

definition spends :: "nat set \<Rightarrow> nat set \<Rightarrow> int \<Rightarrow> transaction_accounts \<Rightarrow> transaction_accounts \<Rightarrow> bool" where
  "spends L W d ta ta' \<longleftrightarrow>
     ta_lamports_delta ta' = ta_lamports_delta ta + d \<and>
     (\<forall>i. sf_lamports (shared_at ta' i) < sf_lamports (shared_at ta i) \<longrightarrow> i \<in> L) \<and>
     (\<forall>i. sf_owner (shared_at ta' i) \<noteq> sf_owner (shared_at ta i) \<longrightarrow> i \<in> W)"

lemma spends_trans:
  assumes "spends L W d ta ta1" "spends L' W' d' ta1 ta2"
  shows "spends (L \<union> L') (W \<union> W') (d + d') ta ta2"
proof -
  have "i \<in> L \<union> L'" if less: "sf_lamports (shared_at ta2 i) < sf_lamports (shared_at ta i)" for i
  proof (cases "sf_lamports (shared_at ta1 i) < sf_lamports (shared_at ta i)")
    case True
    then show ?thesis
      using assms(1) by (simp add: spends_def)
  next
    case False
    then have "sf_lamports (shared_at ta2 i) < sf_lamports (shared_at ta1 i)"
      using less by (simp add: not_less)
    then show ?thesis
      using assms(2) by (simp add: spends_def)
  qed
  moreover have "i \<in> W \<union> W'" if "sf_owner (shared_at ta2 i) \<noteq> sf_owner (shared_at ta i)" for i
    using assms that by (cases "sf_owner (shared_at ta1 i) = sf_owner (shared_at ta i)") (auto simp: spends_def)
  ultimately show ?thesis
    using assms by (simp add: spends_def)
qed

lemma spends_mono: "spends L W d ta ta' \<Longrightarrow> L \<subseteq> L' \<Longrightarrow> W \<subseteq> W' \<Longrightarrow> spends L' W' d ta ta'"
  by (auto simp: spends_def)

lemma spends_same:
  "ta_shared ta' = ta_shared ta \<Longrightarrow> ta_lamports_delta ta' = ta_lamports_delta ta \<Longrightarrow> spends {} {} 0 ta ta'"
  by (simp add: spends_def)

subsection \<open>The operations\<close>

lemma spends_drop: "spends {} {} 0 ta (drop_account_ref_mut i ta)"
  by (simp add: spends_def drop_account_ref_mut_def nth_update_field [of sf_lamports] nth_update_field [of sf_owner])

lemma spends_set_lamports:
  assumes "set_lamports b l ta = Inr ta'"
  shows "spends (if get_lamports b ta \<le> l then {} else {ba_index b}) {} (uint l - uint (get_lamports b ta)) ta ta'"
  using assms
  by (auto simp: set_lamports_def spends_def add_lamports_delta_def writing_defs get_lamports_def result_ops
      nth_update_field [of sf_lamports] nth_update_field [of sf_owner] split: if_splits)

lemma spends_checked_add:
  assumes "checked_add_lamports b l ta = Inr ta'"
  shows "spends {} {} (uint l) ta ta'"
proof -
  obtain v where v: "checked_add (get_lamports b ta) l = Some v" "set_lamports b v ta = Inr ta'"
    using assms by (auto simp: checked_add_lamports_def result_ops)
  have "unat v = unat (get_lamports b ta) + unat l"
    using v(1) by (simp add: checked_add_Some)
  then have "get_lamports b ta \<le> v" "int (unat v) = int (unat (get_lamports b ta)) + int (unat l)"
    by (simp_all only: word_le_nat_alt le_add1 of_nat_add)
  then have "get_lamports b ta \<le> v" "uint v - uint (get_lamports b ta) = uint l"
    by simp_all
  then show ?thesis
    using spends_set_lamports [OF v(2)] by simp
qed

lemma spends_checked_sub:
  assumes "checked_sub_lamports b l ta = Inr ta'"
  shows "spends {ba_index b} {} (- uint l) ta ta'"
proof -
  obtain v where v: "checked_sub (get_lamports b ta) l = Some v" "set_lamports b v ta = Inr ta'"
    using assms by (auto simp: checked_sub_lamports_def result_ops)
  have "unat l \<le> unat (get_lamports b ta)" "unat v = unat (get_lamports b ta) - unat l"
    using v(1) by (simp_all add: checked_sub_Some)
  then have "int (unat v) = int (unat (get_lamports b ta)) - int (unat l)"
    by (simp only: of_nat_diff)
  then have "uint v - uint (get_lamports b ta) = - uint l"
    by simp
  then show ?thesis
    using spends_mono [OF spends_set_lamports [OF v(2)]] by (auto split: if_splits)
qed

lemma spends_set_owner:
  assumes "set_owner b pk ta = Inr ta'"
  shows "spends {} {ba_index b} 0 ta ta'"
  using assms
  by (auto simp: set_owner_def spends_def writing_defs result_ops nth_update_field [of sf_lamports]
      nth_update_field [of sf_owner] split: if_splits)

lemma spends_set_data_length:
  assumes "set_data_length b n ta = Inr ta'"
  shows "spends {} {} 0 ta ta'"
  using assms
  by (auto simp: set_data_length_def spends_def writing_defs result_ops nth_update_field [of sf_lamports]
      nth_update_field [of sf_owner] split: if_splits)

lemma spends_set_state:
  assumes "set_state serialize b state ta = Inr ta'"
  shows "spends {} {} 0 ta ta'"
  using assms by (auto simp: set_state_def get_data_mut_def spends_def writing_defs result_ops split: if_splits)

text \<open>A block that borrows an account. The account is the one the instruction lists at the index.\<close>

definition borrowed_from :: "instruction_context \<Rightarrow> index_of_account \<Rightarrow> borrowed_account" where
  "borrowed_from ic i = \<lparr>ba_instruction_account = ic_instruction_accounts ic ! unat i,
     ba_program_index = ic_program_account_index_in_tx ic\<rparr>"

lemma with_account_cases:
  assumes "with_account ic i block ta = Inr ta'"
  obtains ta1 ta2 where "unat i < length (ic_instruction_accounts ic)"
    "ba_index (borrowed_from ic i) < length (ta_borrow_counters ta)"
    "ta_shared ta1 = ta_shared ta" "ta_private ta1 = ta_private ta" "ta_lamports_delta ta1 = ta_lamports_delta ta"
    "block (borrowed_from ic i) ta1 = Inr ta2"
    "ta' = drop_account_ref_mut (ia_index_in_transaction (ic_instruction_accounts ic ! unat i)) ta2"
proof -
  let ?ia = "ic_instruction_accounts ic ! unat i"
  obtain ta1 ta2 where i: "unat i < length (ic_instruction_accounts ic)"
    and mut: "try_borrow_mut (ia_index_in_transaction ?ia) ta = Inr ta1"
    and block: "block (borrowed_from ic i) ta1 = Inr ta2"
    and ta': "ta' = drop_account_ref_mut (ia_index_in_transaction ?ia) ta2"
    using assms by (auto simp: with_account_def try_borrow_instruction_account_def result_ops borrowed_from_def)
  have "ba_index (borrowed_from ic i) < length (ta_borrow_counters ta)"
    using mut by (auto simp: try_borrow_mut_def result_ops borrowed_from_def)
  then show thesis
    using that [OF i] try_borrow_mut_same [OF mut] block ta' by blast
qed

lemma with_account_spends:
  assumes "with_account ic i block ta = Inr ta'"
    and "\<forall>ta1 ta2. ta_shared ta1 = ta_shared ta \<longrightarrow> ta_private ta1 = ta_private ta \<longrightarrow>
      block (borrowed_from ic i) ta1 = Inr ta2 \<longrightarrow> spends L W d ta1 ta2"
  shows "spends L W d ta ta'"
proof (rule with_account_cases [OF assms(1)])
  fix ta1 ta2
  assume ta1: "ta_shared ta1 = ta_shared ta" "ta_private ta1 = ta_private ta" "ta_lamports_delta ta1 = ta_lamports_delta ta"
    and block: "block (borrowed_from ic i) ta1 = Inr ta2"
    and ta': "ta' = drop_account_ref_mut (ia_index_in_transaction (ic_instruction_accounts ic ! unat i)) ta2"
  have "spends L W d ta1 ta2"
    using assms(2) ta1 block by blast
  then show ?thesis
    unfolding ta'
    using spends_trans [OF spends_trans [OF spends_same [OF ta1(1,3)]] spends_drop] by simp
qed

subsection \<open>Authority over an account\<close>

definition may_assign :: "system_env \<Rightarrow> pubkey set \<Rightarrow> transaction_accounts \<Rightarrow> nat \<Rightarrow> bool" where
  "may_assign env signers ta i \<longleftrightarrow>
     sf_key (shared_at ta i) \<in> signers \<or>
     (\<exists>base \<in> signers. \<exists>seed owner. create_with_seed env base seed owner = Inr (sf_key (shared_at ta i)))"

definition may_spend :: "system_env \<Rightarrow> pubkey set \<Rightarrow> transaction_accounts \<Rightarrow> nat \<Rightarrow> bool" where
  "may_spend env signers ta i \<longleftrightarrow>
     may_assign env signers ta i \<or>
     (\<exists>versions data. nonce_deserialize env (pf_payload (private_at ta i)) = Some versions \<and>
        nonce_state_of env versions = NonceInitialized data \<and> nd_authority data \<in> signers)"

lemma may_cong:
  "ta_shared ta1 = ta_shared ta \<Longrightarrow> may_assign env signers ta1 i = may_assign env signers ta i"
  "ta_shared ta1 = ta_shared ta \<Longrightarrow> ta_private ta1 = ta_private ta \<Longrightarrow>
     may_spend env signers ta1 i = may_spend env signers ta i"
  by (simp_all add: may_assign_def may_spend_def)

lemma signers_loop_mono: "signers_loop ta ias acc = Inr signers \<Longrightarrow> acc \<subseteq> signers"
  by (induction ias arbitrary: acc) (auto simp: and_then_Inr split: if_splits)

lemma signers_loop_member:
  "signers_loop ta ias acc = Inr signers \<Longrightarrow> ia \<in> set ias \<Longrightarrow> ia_signer ia \<Longrightarrow>
     sf_key (shared_at ta (unat (ia_index_in_transaction ia))) \<in> signers"
proof (induction ias arbitrary: acc)
  case (Cons x xs)
  show ?case
  proof (cases "x = ia")
    case True
    obtain key where key: "get_key_of_account_at_index ta (ia_index_in_transaction ia) = Inr key"
      and loop: "signers_loop ta xs (insert key acc) = Inr signers"
      using Cons.prems True by (auto simp: and_then_Inr)
    have "key = sf_key (shared_at ta (unat (ia_index_in_transaction ia)))"
      using key by (auto simp: get_key_of_account_at_index_def account_key_def result_ops)
    then show ?thesis
      using signers_loop_mono [OF loop] by simp
  next
    case False
    then have "\<exists>acc'. signers_loop ta xs acc' = Inr signers" "ia \<in> set xs"
      using Cons.prems by (auto simp: and_then_Inr split: if_splits)
    then show ?thesis
      using Cons.IH Cons.prems(3) by blast
  qed
qed simp

lemma signer_may_assign:
  assumes "get_signers ic ta = Inr signers" "is_instruction_account_signer ic i = Inr True"
  shows "may_assign env signers ta (ba_index (borrowed_from ic i))"
  using assms signers_loop_member [of ta "ic_instruction_accounts ic" "{}" signers]
  by (auto simp: get_signers_def is_instruction_account_signer_def result_ops may_assign_def borrowed_from_def)

lemma instruction_key:
  assumes "get_key_of_instruction_account ic i ta = Inr key"
  shows "key = sf_key (shared_at ta (ba_index (borrowed_from ic i)))"
  using assms
  by (auto simp: get_key_of_instruction_account_def get_index_of_instruction_account_in_transaction_def
      get_key_of_account_at_index_def account_key_def result_ops borrowed_from_def)

lemma address_may_assign:
  assumes "instruction_address env ic i with_seed ta = Inr a" "address_is_signer a signers"
  shows "may_assign env signers ta (ba_index (borrowed_from ic i))"
proof -
  let ?key = "sf_key (shared_at ta (ba_index (borrowed_from ic i)))"
  have "address_create env ?key with_seed = Inr a"
    using assms(1) instruction_key [of ic i ta] by (auto simp: instruction_address_def and_then_Inr)
  then show ?thesis
    using assms(2)
    by (auto simp: address_create_def address_is_signer_def may_assign_def result_ops split: option.splits if_splits)
qed

subsection \<open>The functions of the program\<close>

lemma spends_allocate:
  assumes "allocate env b a space signers ta = Inr ta'"
  shows "spends {} {} 0 ta ta'"
  using assms spends_set_data_length by (auto simp: allocate_def split: if_splits)

lemma spends_assign:
  assumes "assign b a owner signers ta = Inr ta'"
  shows "spends {} {i. i = ba_index b \<and> address_is_signer a signers} 0 ta ta'"
  using assms spends_set_owner [of b owner ta ta'] spends_same [of ta ta]
  by (auto simp: assign_def spends_def split: if_splits)

lemma spends_allocate_and_assign:
  assumes "allocate_and_assign env b a space owner signers ta = Inr ta'"
  shows "spends {} {i. i = ba_index b \<and> address_is_signer a signers} 0 ta ta'"
  using assms spends_trans [OF spends_allocate spends_assign] by (fastforce simp: allocate_and_assign_def and_then_Inr)

lemma spends_transfer_verified:
  assumes "transfer_verified env ic from_index to_index lamports ta = Inr ta'"
  shows "spends {ba_index (borrowed_from ic from_index)} {} 0 ta ta'"
proof -
  obtain ta1 where debit: "with_account ic from_index (\<lambda>acct ta.
       if get_data acct ta \<noteq> [] then Inl InvalidArgument
       else if get_lamports acct ta < lamports then Inl (system_err env ResultWithNegativeLamports)
       else checked_sub_lamports acct lamports ta) ta = Inr ta1"
    and credit: "with_account ic to_index (\<lambda>acct. checked_add_lamports acct lamports) ta1 = Inr ta'"
    using assms by (auto simp: transfer_verified_def and_then_Inr)
  have "spends {ba_index (borrowed_from ic from_index)} {} (- uint lamports) ta ta1"
    by (rule with_account_spends [OF debit]) (auto simp: spends_checked_sub split: if_splits)
  moreover have "spends {} {} (uint lamports) ta1 ta'"
    by (rule with_account_spends [OF credit]) (simp add: spends_checked_add)
  ultimately show ?thesis
    using spends_trans by fastforce
qed

lemma spends_transfer:
  assumes "transfer env ic from_index to_index lamports ta = Inr ta'" "get_signers ic ta0 = Inr signers"
  shows "spends {i. may_assign env signers ta0 i} {} 0 ta ta'"
proof -
  have "is_instruction_account_signer ic from_index = Inr True"
    and go: "transfer_verified env ic from_index to_index lamports ta = Inr ta'"
    using assms(1) by (auto simp: transfer_def and_then_Inr split: if_splits)
  then show ?thesis
    using signer_may_assign [OF assms(2)] by (intro spends_mono [OF spends_transfer_verified [OF go]]) auto
qed

lemma spends_transfer_with_seed:
  assumes "transfer_with_seed env ic from_index base_index seed owner to_index lamports ta = Inr ta'"
    and "get_signers ic ta = Inr signers"
  shows "spends {i. may_assign env signers ta i} {} 0 ta ta'"
proof -
  obtain base from_key where signed: "is_instruction_account_signer ic base_index = Inr True"
    and base: "get_key_of_instruction_account ic base_index ta = Inr base"
    and derived: "create_with_seed env base seed owner = Inr from_key"
    and key: "get_key_of_instruction_account ic from_index ta = Inr from_key"
    and go: "transfer_verified env ic from_index to_index lamports ta = Inr ta'"
    using assms(1) by (auto simp: transfer_with_seed_def and_then_Inr split: if_splits)
  have "base \<in> signers"
    using assms(2) signed signers_loop_member [of ta "ic_instruction_accounts ic" "{}" signers] instruction_key [OF base]
    by (auto simp: get_signers_def is_instruction_account_signer_def result_ops borrowed_from_def)
  then have "may_assign env signers ta (ba_index (borrowed_from ic from_index))"
    using derived instruction_key [OF key] by (auto simp: may_assign_def)
  then show ?thesis
    by (intro spends_mono [OF spends_transfer_verified [OF go]]) auto
qed

lemma spends_withdraw_checks:
  assumes "withdraw_nonce_checks env lamports minimum_balance signers b ta = Inr ta'"
  shows "spends {} {} 0 ta ta' \<and> may_spend env signers ta (ba_index b)"
proof -
  obtain versions where versions: "nonce_deserialize env (get_data b ta) = Some versions"
    using assms by (auto simp: withdraw_nonce_checks_def get_state_def result_ops)
  show ?thesis
  proof (cases "nonce_state_of env versions")
    case NonceUninitialized
    then show ?thesis
      using assms versions spends_same [of ta ta]
      by (auto simp: withdraw_nonce_checks_def get_state_def check_signer_def result_ops may_spend_def may_assign_def
          get_key_def split: if_splits)
  next
    case (NonceInitialized data)
    then have "nd_authority data \<in> signers \<and> spends {} {} 0 ta ta'"
      using assms versions spends_same [of ta ta]
      by (auto simp: withdraw_nonce_checks_def get_state_def check_signer_def result_ops
          dest: spends_set_state split: if_splits)
    then show ?thesis
      using versions NonceInitialized by (auto simp: may_spend_def get_data_def)
  qed
qed

lemma spends_withdraw_nonce:
  assumes "withdraw_nonce_account env ic from_index lamports to_index minimum_balance signers ta = Inr ta'"
  shows "spends {i. may_spend env signers ta i} {} 0 ta ta'"
proof -
  obtain ta1 where debit: "with_account ic from_index (\<lambda>acct ta.
       if \<not> is_writable acct then Inl InvalidArgument
       else and_then (withdraw_nonce_checks env lamports minimum_balance signers acct ta) (\<lambda>ta.
            checked_sub_lamports acct lamports ta)) ta = Inr ta1"
    and credit: "with_account ic to_index (\<lambda>acct. checked_add_lamports acct lamports) ta1 = Inr ta'"
    using assms by (auto simp: withdraw_nonce_account_def and_then_Inr)
  have "spends {i. may_spend env signers ta i} {} (- uint lamports) ta ta1"
  proof (rule with_account_spends [OF debit], intro allI impI)
    fix ta2 ta3
    let ?b = "borrowed_from ic from_index"
    assume same: "ta_shared ta2 = ta_shared ta" "ta_private ta2 = ta_private ta"
      and "(if \<not> is_writable ?b then Inl InvalidArgument
       else and_then (withdraw_nonce_checks env lamports minimum_balance signers ?b ta2) (\<lambda>ta.
            checked_sub_lamports ?b lamports ta)) = Inr ta3"
    then obtain ta4 where checks: "withdraw_nonce_checks env lamports minimum_balance signers ?b ta2 = Inr ta4"
      and sub: "checked_sub_lamports ?b lamports ta4 = Inr ta3"
      by (auto simp: and_then_Inr split: if_splits)
    have "may_spend env signers ta (ba_index ?b)"
      using spends_withdraw_checks [OF checks] may_cong(2) [OF same] by simp
    moreover have "spends {ba_index ?b} {} (- uint lamports) ta2 ta3"
      using spends_trans [OF conjunct1 [OF spends_withdraw_checks [OF checks]] spends_checked_sub [OF sub]] by simp
    ultimately show "spends {i. may_spend env signers ta i} {} (- uint lamports) ta2 ta3"
      by (auto intro: spends_mono)
  qed
  moreover have "spends {} {} (uint lamports) ta1 ta'"
    by (rule with_account_spends [OF credit]) (simp add: spends_checked_add)
  ultimately show ?thesis
    using spends_trans by fastforce
qed

lemma spends_allocating:
  assumes "with_account ic i block ta = Inr ta'" "instruction_address env ic i with_seed ta = Inr a"
    and "\<And>ta1 ta2. block (borrowed_from ic i) ta1 = Inr ta2 \<Longrightarrow>
      spends {} {j. j = ba_index (borrowed_from ic i) \<and> address_is_signer a signers} 0 ta1 ta2"
  shows "spends {} {j. may_assign env signers ta j} 0 ta ta'"
proof (rule with_account_spends [OF assms(1)], intro allI impI)
  fix ta1 ta2
  assume block: "block (borrowed_from ic i) ta1 = Inr ta2"
  show "spends {} {j. may_assign env signers ta j} 0 ta1 ta2"
    by (rule spends_mono [OF assms(3) [OF block]]) (use address_may_assign [OF assms(2)] in auto)
qed

lemma spends_create_account:
  assumes "create_account env ic from_index to_index a lamports space owner signers ta = Inr ta'"
    and "instruction_address env ic to_index with_seed ta = Inr a" "get_signers ic ta = Inr signers"
  shows "spends {i. may_assign env signers ta i} {i. may_assign env signers ta i} 0 ta ta'"
proof -
  obtain ta1 where alloc: "with_account ic to_index (\<lambda>to ta.
       if 0 < get_lamports to ta then Inl (system_err env AccountAlreadyInUse)
       else allocate_and_assign env to a space owner signers ta) ta = Inr ta1"
    and go: "transfer env ic from_index to_index lamports ta1 = Inr ta'"
    using assms(1) by (auto simp: create_account_def and_then_Inr)
  have "spends {} {i. may_assign env signers ta i} 0 ta ta1"
    by (rule spends_allocating [OF alloc assms(2)]) (auto simp: spends_allocate_and_assign split: if_splits)
  then show ?thesis
    using spends_trans [OF _ spends_transfer [OF go assms(3)]] by fastforce
qed

lemma spends_create_account_allow_prefund:
  assumes "create_account_allow_prefund env ic to_index a from_and_lamports space owner signers ta = Inr ta'"
    and "instruction_address env ic to_index with_seed ta = Inr a" "get_signers ic ta = Inr signers"
  shows "spends {i. may_assign env signers ta i} {i. may_assign env signers ta i} 0 ta ta'"
proof -
  obtain ta1 where alloc: "with_account ic to_index (\<lambda>to. allocate_and_assign env to a space owner signers) ta = Inr ta1"
    and rest: "(case from_and_lamports of
       Some (from_index, lamports) \<Rightarrow> if 0 < lamports then transfer env ic from_index to_index lamports ta1 else Inr ta1
     | None \<Rightarrow> Inr ta1) = Inr ta'"
    using assms(1) unfolding create_account_allow_prefund_def and_then_Inr by blast
  have first: "spends {} {i. may_assign env signers ta i} 0 ta ta1"
    by (rule spends_allocating [OF alloc assms(2)]) (rule spends_allocate_and_assign)
  have "spends {i. may_assign env signers ta i} {} 0 ta1 ta'"
    using rest spends_transfer [OF _ assms(3)] spends_mono [OF spends_same [of ta1 ta1]]
    by (auto split: option.splits prod.splits if_splits)
  then show ?thesis
    using spends_trans [OF first] by fastforce
qed

lemma spends_advance_nonce:
  assumes "advance_nonce_account env b signers ta = Inr ta'"
  shows "spends {} {} 0 ta ta'"
proof -
  obtain state where "(case nonce_state_of env state of
      NonceInitialized data \<Rightarrow>
        if nd_authority data \<notin> signers then Inl MissingRequiredSignature
        else if nd_durable_nonce data = durable_nonce_from_blockhash env (env_blockhash env)
        then Inl (system_err env NonceBlockhashNotExpired)
        else set_state (nonce_serialize env) b
               (nonce_versions_new env (NonceInitialized (next_nonce_data env (nd_authority data)))) ta
    | NonceUninitialized \<Rightarrow> Inl InvalidAccountData) = Inr ta'"
    using assms unfolding advance_nonce_account_def and_then_Inr by (cases "is_writable b") (auto simp: and_then_Inr)
  then show ?thesis
    by (cases "nonce_state_of env state") (auto dest: spends_set_state split: if_splits)
qed

lemma spends_initialize_nonce:
  assumes "initialize_nonce_account env b authority minimum_balance ta = Inr ta'"
  shows "spends {} {} 0 ta ta'"
proof -
  obtain state where "(case nonce_state_of env state of
      NonceUninitialized \<Rightarrow>
        if get_lamports b ta < minimum_balance (length (get_data b ta)) then Inl InsufficientFunds
        else set_state (nonce_serialize env) b
               (nonce_versions_new env (NonceInitialized (next_nonce_data env authority))) ta
    | NonceInitialized _ \<Rightarrow> Inl InvalidAccountData) = Inr ta'"
    using assms unfolding initialize_nonce_account_def by (cases "is_writable b") (auto simp only: and_then_Inr if_True if_False not_True_eq_False not_False_eq_True sum.simps)
  then show ?thesis
    by (cases "nonce_state_of env state") (auto dest: spends_set_state split: if_splits)
qed

lemma spends_authorize_nonce:
  assumes "authorize_nonce_account env b authority signers ta = Inr ta'"
  shows "spends {} {} 0 ta ta'"
proof -
  obtain state where "(case nonce_authorize env state signers authority of
      Inr versions \<Rightarrow> set_state (nonce_serialize env) b versions ta
    | Inl NonceNotInitialized \<Rightarrow> Inl InvalidAccountData
    | Inl (NonceMissingRequiredSignature _) \<Rightarrow> Inl MissingRequiredSignature) = Inr ta'"
    using assms unfolding authorize_nonce_account_def by (cases "is_writable b") (auto simp: and_then_Inr)
  then show ?thesis
    by (cases "nonce_authorize env state signers authority")
      (auto dest: spends_set_state split: authorize_nonce_error.splits)
qed

lemma spends_upgrade_nonce:
  assumes "upgrade_nonce_account env b ta = Inr ta'"
  shows "spends {} {} 0 ta ta'"
proof -
  obtain state where "(case nonce_upgrade env state of
      None \<Rightarrow> Inl InvalidArgument
    | Some versions \<Rightarrow> set_state (nonce_serialize env) b versions ta) = Inr ta'"
    using assms unfolding upgrade_nonce_account_def by (auto simp: and_then_Inr split: if_splits)
  then show ?thesis
    by (cases "nonce_upgrade env state") (auto dest: spends_set_state)
qed

lemmas spends_nonce_update = spends_advance_nonce spends_initialize_nonce spends_authorize_nonce spends_upgrade_nonce

text \<open>A block that reads the address of its own account, which borrowing does not change.\<close>

lemma instruction_address_cong:
  "ta_shared ta1 = ta_shared ta \<Longrightarrow> instruction_address env ic i with_seed ta1 = instruction_address env ic i with_seed ta"
proof -
  assume "ta_shared ta1 = ta_shared ta"
  then have "get_key_of_account_at_index ta1 = get_key_of_account_at_index ta"
    by (simp add: get_key_of_account_at_index_def account_key_def fun_eq_iff)
  then show ?thesis
    by (simp add: instruction_address_def get_key_of_instruction_account_def)
qed

lemma spends_addressed:
  assumes "with_account ic i (\<lambda>b ta. and_then (instruction_address env ic i with_seed ta) (\<lambda>a. f a b ta)) ta = Inr ta'"
    and "\<And>a b ta1 ta2. f a b ta1 = Inr ta2 \<Longrightarrow> spends {} {j. j = ba_index b \<and> address_is_signer a signers} 0 ta1 ta2"
  shows "spends {} {j. may_assign env signers ta j} 0 ta ta'"
proof (rule with_account_spends [OF assms(1)], intro allI impI)
  fix ta1 ta2
  assume same: "ta_shared ta1 = ta_shared ta"
    and "and_then (instruction_address env ic i with_seed ta1) (\<lambda>a. f a (borrowed_from ic i) ta1) = Inr ta2"
  then obtain a where a: "instruction_address env ic i with_seed ta = Inr a" and f: "f a (borrowed_from ic i) ta1 = Inr ta2"
    by (auto simp: and_then_Inr instruction_address_cong [OF same])
  show "spends {} {j. may_assign env signers ta j} 0 ta1 ta2"
    by (rule spends_mono [OF assms(2) [OF f]]) (use address_may_assign [OF a] in auto)
qed

lemma may_assign_spend: "{i. may_assign env signers ta i} \<subseteq> {i. may_spend env signers ta i}"
  by (auto simp: may_spend_def)

lemma dispatch_spends:
  assumes "dispatch_instruction env ic signers instruction ta = Inr ta'" "get_signers ic ta = Inr signers"
  shows "spends {i. may_spend env signers ta i} {i. may_assign env signers ta i} 0 ta ta'"
proof -
  let ?S = "{i. may_spend env signers ta i}" and ?A = "{i. may_assign env signers ta i}"
  have none: "spends ?S ?A 0 ta ta'" if "spends {} {} 0 ta ta'"
    using that by (rule spends_mono) auto
  have assigned: "spends ?S ?A 0 ta ta'" if "spends {} ?A 0 ta ta'"
    using that by (rule spends_mono) auto
  have paid: "spends ?S ?A 0 ta ta'" if "spends ?A ?A 0 ta ta'"
    using that may_assign_spend by (rule spends_mono) auto
  have moved: "spends ?S ?A 0 ta ta'" if "spends ?A {} 0 ta ta'"
    using that may_assign_spend by (rule spends_mono) auto
  have allocate: "spends {} {j. j = ba_index b \<and> address_is_signer a signers} 0 ta1 ta2"
    if "allocate env b a space signers ta1 = Inr ta2" for a b space ta1 ta2
    using spends_mono [OF spends_allocate [OF that]] by auto
  show ?thesis
  proof (cases instruction)
    case (CreateAccount lamports space owner)
    then show ?thesis
      using assms spends_create_account by (auto simp: and_then_Inr intro!: paid)
  next
    case (CreateAccountWithSeed base seed lamports space owner)
    then show ?thesis
      using assms spends_create_account by (auto simp: and_then_Inr intro!: paid)
  next
    case (CreateAccountAllowPrefund lamports space owner)
    then show ?thesis
      using assms spends_create_account_allow_prefund by (auto simp: and_then_Inr intro!: paid split: if_splits)
  next
    case (Transfer lamports)
    then show ?thesis
      using assms spends_transfer by (auto simp: and_then_Inr intro!: moved)
  next
    case (TransferWithSeed lamports seed owner)
    then show ?thesis
      using assms spends_transfer_with_seed by (auto simp: and_then_Inr intro!: moved)
  next
    case (WithdrawNonceAccount lamports)
    then obtain minimum_balance where "withdraw_nonce_account env ic 0 lamports 1 minimum_balance signers ta = Inr ta'"
      using assms by (auto simp: and_then_Inr)
    from spends_withdraw_nonce [OF this] show ?thesis
      by (rule spends_mono) auto
  next
    case (Assign owner)
    then show ?thesis
      using assms(1) by (auto simp: and_then_Inr intro!: assigned spends_addressed [OF _ spends_assign])
  next
    case (AssignWithSeed base seed owner)
    then show ?thesis
      using assms(1) by (auto simp: and_then_Inr intro!: assigned spends_addressed [OF _ spends_assign])
  next
    case (Allocate space)
    then show ?thesis
      using assms(1) by (auto simp: and_then_Inr intro!: assigned spends_addressed [OF _ allocate])
  next
    case (AllocateWithSeed base seed space owner)
    then show ?thesis
      using assms(1) by (auto simp: and_then_Inr intro!: assigned spends_addressed [OF _ spends_allocate_and_assign])
  qed (use assms(1) in \<open>auto simp: and_then_Inr intro!: none elim!: with_account_spends dest: spends_nonce_update split: if_splits\<close>)
qed

subsection \<open>Properties of the program\<close>

text \<open>An example of the environment, with a nonce stored in the first byte of the data.\<close>

definition example_env :: system_env where
  "example_env = \<lparr>
     system_program_id = 0,
     max_permitted_data_length = 10485760,
     system_error_code = (\<lambda>_. 0),
     create_with_seed = (\<lambda>base seed owner. Inr (base + owner)),
     nonce_state_of = (\<lambda>v. case v of NonceLegacy s \<Rightarrow> s | NonceCurrent s \<Rightarrow> s),
     nonce_versions_new = NonceCurrent,
     nonce_upgrade = (\<lambda>_. None),
     nonce_authorize = (\<lambda>v _ _. Inr v),
     nonce_deserialize = (\<lambda>data. case data of
         a # h # _ \<Rightarrow> Some (NonceCurrent (NonceInitialized
           \<lparr>nd_authority = ucast a, nd_durable_nonce = ucast h, nd_lamports_per_signature = 5\<rparr>))
       | _ \<Rightarrow> None),
     nonce_serialize = (\<lambda>v. case v of
         NonceCurrent (NonceInitialized d) \<Rightarrow>
           if d = \<lparr>nd_authority = ucast (ucast (nd_authority d) :: u8),
                  nd_durable_nonce = ucast (ucast (nd_durable_nonce d) :: u8), nd_lamports_per_signature = 5\<rparr>
           then Some [ucast (nd_authority d), ucast (nd_durable_nonce d)] else None
       | _ \<Rightarrow> None),
     durable_nonce_from_blockhash = (\<lambda>h. h),
     env_blockhash = 9,
     env_blockhash_lamports_per_signature = 5,
     recent_blockhashes_id = 70,
     recent_blockhashes_sysvar = Inr [9],
     rent_id = 71,
     rent_minimum_balance = Inr (\<lambda>_. 1),
     create_account_allow_prefund_feature = True\<rparr>"

definition example_ic :: instruction_context where
  "example_ic = \<lparr>ic_index_in_trace = 0, ic_nesting_level = 0, ic_index_of_caller_instruction = 0,
     ic_program_account_index_in_tx = 3, ic_instruction_accounts = example_instruction_accounts,
     ic_dedup_map = [0, 1, 2, 255], ic_instruction_data = []\<rparr>"

definition example_transferred :: transaction_accounts where
  "example_transferred = example_accounts\<lparr>
     ta_shared := (ta_shared example_accounts)
       [0 := (shared_at example_accounts 0)\<lparr>sf_lamports := 70\<rparr>,
        1 := (shared_at example_accounts 1)\<lparr>sf_lamports := 30\<rparr>],
     ta_touched_flags := [True, True, False, False]\<rparr>"

lemmas example_run_simps = example_ic_def example_instruction_accounts_def instruction_account_new_def
  example_accounts_simps example_env_def with_account_def try_borrow_instruction_account_def slice_get_def
  try_borrow_mut_def borrow_counter_defs drop_account_ref_mut_def check_number_of_instruction_accounts_def
  get_number_of_instruction_accounts_def get_key_of_instruction_account_def
  get_index_of_instruction_account_in_transaction_def get_key_of_account_at_index_def account_key_def
  is_instruction_account_signer_def get_signers_def ia_signer_def ia_writable_def is_writable_def
  reading_defs writing_defs is_owned_by_current_program_def set_lamports_def checked_add_lamports_def
  checked_sub_lamports_def checked_add_def checked_sub_def add_lamports_delta_def in_i128_def

lemma example_signers: "get_signers example_ic example_accounts = Inr {11, 12}"
  by (auto simp: example_run_simps)

lemma example_transfer:
  "system_process_instruction example_env example_ic (Transfer 30) example_accounts = Inr example_transferred"
  by (simp add: system_process_instruction_def example_signers transfer_def transfer_verified_def
      example_run_simps example_transferred_def)

text \<open>
  C4. The system program spends and assigns only with authority: after any instruction that
  succeeds, an account that lost lamports has signed, or is derived from a base that has signed, or
  is a nonce account whose authority has signed; an account with a new owner has signed or is
  derived from a base that has. Every instruction is balanced, so it passes the runtime's check.
\<close>

theorem system_debits_authorized:
  assumes "system_process_instruction env ic instruction ta = Inr ta'" and "get_signers ic ta = Inr signers"
  shows "ta_lamports_delta ta' = ta_lamports_delta ta \<and>
    (sf_lamports (shared_at ta' i) < sf_lamports (shared_at ta i) \<longrightarrow> may_spend env signers ta i) \<and>
    (sf_owner (shared_at ta' i) \<noteq> sf_owner (shared_at ta i) \<longrightarrow> may_assign env signers ta i)"
  using dispatch_spends [of env ic signers instruction ta ta'] assms
  by (auto simp: system_process_instruction_def spends_def)

theorem system_debits_authorized_witness:
  "may_spend example_env {11, 12} example_accounts 0 \<and> sf_lamports (shared_at example_transferred 0) = 70"
proof -
  have "sf_lamports (shared_at example_transferred 0) < sf_lamports (shared_at example_accounts 0)"
    "sf_lamports (shared_at example_transferred 0) = 70"
    by (simp_all add: example_transferred_def example_accounts_simps)
  then show ?thesis
    using system_debits_authorized [OF example_transfer example_signers, of 0] by blast
qed

text \<open>
  C37. The system program stays within the rules of the runtime and conserves lamports: after any
  instruction that succeeds the accounts are well formed, together hold as many lamports as before,
  an account that is not writable is unchanged, and an account that the program does not own keeps
  its owner and data and loses no lamports.
\<close>

theorem system_program_confined:
  assumes "system_process_instruction env ic instruction ta = Inr ta'" and "ta_wf ta"
  shows "ta_wf ta' \<and> total_lamports ta' = total_lamports ta \<and>
    (\<not> writable_in (ic_instruction_accounts ic) i \<longrightarrow>
       shared_at ta' i = shared_at ta i \<and> private_at ta' i = private_at ta i) \<and>
    (\<not> owned_by_program (ic_program_account_index_in_tx ic) ta i \<longrightarrow> protected i ta ta')"
proof -
  obtain signers where signers: "get_signers ic ta = Inr signers"
    and run: "dispatch_instruction env ic signers instruction ta = Inr ta'"
    using assms(1) by (auto simp: system_process_instruction_def and_then_Inr)
  have conf: "confined (ic_program_account_index_in_tx ic) (ic_instruction_accounts ic) ta ta'"
    by (rule confined.system_process_keeps [OF _ assms(2,1)]) (simp add: confined.of_program_def)
  have "ta_lamports_delta ta' = ta_lamports_delta ta"
    using dispatch_spends [OF run signers] by (simp add: spends_def)
  then have "total_lamports ta' = total_lamports ta"
    using conf by (simp add: confined_def keeps_totals_def initial_lamports_def)
  then show ?thesis
    using conf by (simp add: confined_def)
qed

theorem system_program_confined_witness:
  "total_lamports example_transferred = total_lamports example_accounts \<and>
   protected 2 example_accounts example_transferred"
proof -
  have "\<not> owned_by_program (ic_program_account_index_in_tx example_ic) example_accounts 2"
    by (simp add: owned_by_program_def example_run_simps)
  then show ?thesis
    using system_program_confined [OF example_transfer example_accounts_wf, of 2] by blast
qed

subsection \<open>Creating an account\<close>

lemma set_lamports_result:
  assumes "set_lamports b l ta = Inr ta'"
  shows "ta_shared ta' = (ta_shared ta)[ba_index b := (shared_at ta (ba_index b))\<lparr>sf_lamports := l\<rparr>]"
    "ta_private ta' = ta_private ta"
  using assms
  by (auto simp: set_lamports_def get_lamports_def writing_defs add_lamports_delta_def result_ops split: if_splits)

lemma checked_sub_result:
  assumes "checked_sub_lamports b l ta = Inr ta'" "ba_index b < length (ta_shared ta)"
  shows "unat (get_lamports b ta) = unat (get_lamports b ta') + unat l" "ta_private ta' = ta_private ta"
    "j \<noteq> ba_index b \<Longrightarrow> shared_at ta' j = shared_at ta j"
    "sf_owner (shared_at ta' j) = sf_owner (shared_at ta j)"
proof -
  obtain v where v: "checked_sub (get_lamports b ta) l = Some v" "set_lamports b v ta = Inr ta'"
    using assms(1) by (auto simp: checked_sub_lamports_def result_ops)
  show "unat (get_lamports b ta) = unat (get_lamports b ta') + unat l"
    using v(1) set_lamports_result [OF v(2)] assms(2) by (simp add: checked_sub_Some get_lamports_def)
  show "ta_private ta' = ta_private ta" "j \<noteq> ba_index b \<Longrightarrow> shared_at ta' j = shared_at ta j"
    "sf_owner (shared_at ta' j) = sf_owner (shared_at ta j)"
    using set_lamports_result [OF v(2)] by (simp_all add: nth_update_field [of sf_owner])
qed

lemma checked_add_result:
  assumes "checked_add_lamports b l ta = Inr ta'" "ba_index b < length (ta_shared ta)"
  shows "unat (get_lamports b ta') = unat (get_lamports b ta) + unat l" "ta_private ta' = ta_private ta"
    "j \<noteq> ba_index b \<Longrightarrow> shared_at ta' j = shared_at ta j"
    "sf_owner (shared_at ta' j) = sf_owner (shared_at ta j)"
proof -
  obtain v where v: "checked_add (get_lamports b ta) l = Some v" "set_lamports b v ta = Inr ta'"
    using assms(1) by (auto simp: checked_add_lamports_def result_ops)
  show "unat (get_lamports b ta') = unat (get_lamports b ta) + unat l"
    using v(1) set_lamports_result [OF v(2)] assms(2) by (simp add: checked_add_Some get_lamports_def)
  show "ta_private ta' = ta_private ta" "j \<noteq> ba_index b \<Longrightarrow> shared_at ta' j = shared_at ta j"
    "sf_owner (shared_at ta' j) = sf_owner (shared_at ta j)"
    using set_lamports_result [OF v(2)] by (simp_all add: nth_update_field [of sf_owner])
qed

lemma resize_payload_same: "resize_payload (length data) data = data"
  by (simp add: resize_payload_def)

lemma set_data_length_result:
  assumes "set_data_length b n ta = Inr ta'" "ba_index b < length (ta_private ta)"
  shows "get_data b ta' = resize_payload n (get_data b ta)"
    "sf_lamports (shared_at ta' j) = sf_lamports (shared_at ta j)"
    "sf_owner (shared_at ta' j) = sf_owner (shared_at ta j)"
    "length (ta_private ta') = length (ta_private ta)" "length (ta_shared ta') = length (ta_shared ta)"
  using assms
  by (auto simp: set_data_length_def get_data_def writing_defs result_ops resize_payload_same
      nth_update_field [of sf_lamports] nth_update_field [of sf_owner] split: if_splits)

lemma set_owner_result:
  assumes "set_owner b pk ta = Inr ta'" "ba_index b < length (ta_shared ta)"
  shows "get_owner b ta' = pk" "ta_private ta' = ta_private ta"
    "sf_lamports (shared_at ta' j) = sf_lamports (shared_at ta j)" "length (ta_shared ta') = length (ta_shared ta)"
  using assms
  by (auto simp: set_owner_def get_owner_def writing_defs result_ops nth_update_field [of sf_lamports] split: if_splits)

end
