(* ===== verification/System_Accounts.thy ===== *)
theory System_Accounts
  imports System_Safety
begin

section \<open>New accounts and nonces\<close>

text \<open>
  What creating an account leaves behind, and that a durable nonce can be used only once per
  blockhash. The serialized form of a nonce is outside the repository; the proofs rely on reading
  back what was written and on the accessor of the versions, stated as \<open>nonce_laws\<close>.
\<close>

subsection \<open>Creating an account\<close>

lemma drop_fields:
  "sf_lamports (shared_at (drop_account_ref_mut i ta) j) = sf_lamports (shared_at ta j)"
  "sf_owner (shared_at (drop_account_ref_mut i ta) j) = sf_owner (shared_at ta j)"
  "ta_private (drop_account_ref_mut i ta) = ta_private ta"
  "length (ta_shared (drop_account_ref_mut i ta)) = length (ta_shared ta)"
  by (simp_all add: drop_account_ref_mut_def nth_update_field [of sf_lamports] nth_update_field [of sf_owner])

lemma allocate_and_assign_result:
  assumes "allocate_and_assign env b a space owner signers ta = Inr ta'"
    and "ba_index b < length (ta_shared ta)" "ba_index b < length (ta_private ta)"
  shows "get_owner b ta = system_program_id env" "get_data b ta = []" "address_is_signer a signers"
    "get_data b ta' = replicate (unat space) 0" "get_owner b ta' = owner"
    "sf_lamports (shared_at ta' j) = sf_lamports (shared_at ta j)"
    "length (ta_shared ta') = length (ta_shared ta)"
proof -
  obtain ta1 where ta1: "allocate env b a space signers ta = Inr ta1" "assign b a owner signers ta1 = Inr ta'"
    using assms(1) by (auto simp: allocate_and_assign_def and_then_Inr)
  have len: "set_data_length b (unat space) ta = Inr ta1" and pre: "get_owner b ta = system_program_id env"
    "get_data b ta = []" "address_is_signer a signers"
    using ta1(1) by (auto simp: allocate_def split: if_splits)
  note sized = set_data_length_result [OF len assms(3)]
  have data1: "get_data b ta1 = replicate (unat space) 0"
    using sized(1) pre(2) by (simp add: resize_payload_def)
  have idx1: "ba_index b < length (ta_shared ta1)"
    using sized(5) assms(2) by simp
  have "get_data b ta' = get_data b ta1 \<and> get_owner b ta' = owner \<and>
      sf_lamports (shared_at ta' j) = sf_lamports (shared_at ta1 j) \<and> length (ta_shared ta') = length (ta_shared ta1)"
  proof (cases "get_owner b ta1 = owner")
    case True
    then have "ta' = ta1"
      using ta1(2) by (simp add: assign_def)
    with True show ?thesis
      by simp
  next
    case False
    then have set: "set_owner b owner ta1 = Inr ta'"
      using ta1(2) pre(3) by (simp add: assign_def)
    then show ?thesis
      using set_owner_result [OF set idx1] by (simp add: get_data_def)
  qed
  then show "get_owner b ta = system_program_id env" "get_data b ta = []" "address_is_signer a signers"
    "get_data b ta' = replicate (unat space) 0" "get_owner b ta' = owner"
    "sf_lamports (shared_at ta' j) = sf_lamports (shared_at ta j)" "length (ta_shared ta') = length (ta_shared ta)"
    using pre data1 sized(2,5) by auto
qed

lemma transfer_verified_result:
  assumes "transfer_verified env ic from_index to_index lamports ta = Inr ta'"
    and "ba_index (borrowed_from ic from_index) \<noteq> ba_index (borrowed_from ic to_index)"
    and "ba_index (borrowed_from ic from_index) < length (ta_shared ta)"
    and "ba_index (borrowed_from ic to_index) < length (ta_shared ta)"
  shows "unat (get_lamports (borrowed_from ic from_index) ta) =
      unat (get_lamports (borrowed_from ic from_index) ta') + unat lamports"
    "unat (get_lamports (borrowed_from ic to_index) ta') =
      unat (get_lamports (borrowed_from ic to_index) ta) + unat lamports"
    "ta_private ta' = ta_private ta" "sf_owner (shared_at ta' j) = sf_owner (shared_at ta j)"
proof -
  let ?f = "borrowed_from ic from_index" and ?t = "borrowed_from ic to_index"
  obtain ta1 where debit: "with_account ic from_index (\<lambda>acct ta.
       if get_data acct ta \<noteq> [] then Inl InvalidArgument
       else if get_lamports acct ta < lamports then Inl (system_err env ResultWithNegativeLamports)
       else checked_sub_lamports acct lamports ta) ta = Inr ta1"
    and credit: "with_account ic to_index (\<lambda>acct. checked_add_lamports acct lamports) ta1 = Inr ta'"
    using assms(1) by (auto simp: transfer_verified_def and_then_Inr)
  obtain ta2 ta3 where ta2: "ta_shared ta2 = ta_shared ta" "ta_private ta2 = ta_private ta"
    and sub: "checked_sub_lamports ?f lamports ta2 = Inr ta3"
    and ta1: "ta1 = drop_account_ref_mut (ia_index_in_transaction (ic_instruction_accounts ic ! unat from_index)) ta3"
    by (rule with_account_cases [OF debit]) (auto split: if_splits)
  obtain ta4 ta5 where ta4: "ta_shared ta4 = ta_shared ta1" "ta_private ta4 = ta_private ta1"
    and add: "checked_add_lamports ?t lamports ta4 = Inr ta5"
    and ta': "ta' = drop_account_ref_mut (ia_index_in_transaction (ic_instruction_accounts ic ! unat to_index)) ta5"
    by (rule with_account_cases [OF credit]) auto
  have sub': "unat (get_lamports ?f ta2) = unat (get_lamports ?f ta3) + unat lamports" "ta_private ta3 = ta_private ta2"
    "\<And>j. j \<noteq> ba_index ?f \<Longrightarrow> shared_at ta3 j = shared_at ta2 j"
    "\<And>j. sf_owner (shared_at ta3 j) = sf_owner (shared_at ta2 j)"
    using checked_sub_result [OF sub] assms(3) ta2(1) by auto
  have len: "length (ta_shared ta3) = length (ta_shared ta)"
    using sub ta2(1) set_lamports_result by (auto simp: checked_sub_lamports_def result_ops)
  have add': "unat (get_lamports ?t ta5) = unat (get_lamports ?t ta4) + unat lamports" "ta_private ta5 = ta_private ta4"
    "\<And>j. j \<noteq> ba_index ?t \<Longrightarrow> shared_at ta5 j = shared_at ta4 j"
    "\<And>j. sf_owner (shared_at ta5 j) = sf_owner (shared_at ta4 j)"
    using checked_add_result [OF add] assms(4) ta4(1) len by (auto simp: ta1 drop_fields)
  show "unat (get_lamports ?f ta) = unat (get_lamports ?f ta') + unat lamports"
    using sub'(1) add'(3) [OF assms(2)] ta2 ta4 by (simp add: get_lamports_def ta' ta1 drop_fields)
  show "unat (get_lamports ?t ta') = unat (get_lamports ?t ta) + unat lamports"
    using add'(1) sub'(3) [OF assms(2) [symmetric]] ta2 ta4 by (simp add: get_lamports_def ta' ta1 drop_fields)
  show "ta_private ta' = ta_private ta" "sf_owner (shared_at ta' j) = sf_owner (shared_at ta j)"
    using sub' add' ta2 ta4 by (simp_all add: ta' ta1 drop_fields)
qed

lemma create_alloc_wf:
  assumes "with_account ic to_index (\<lambda>to ta.
       if 0 < get_lamports to ta then Inl (system_err env AccountAlreadyInUse)
       else allocate_and_assign env to a space owner signers ta) ta = Inr ta1" "ta_wf ta"
  shows "ta_wf ta1"
proof -
  let ?p = "ic_program_account_index_in_tx ic" and ?accs = "ic_instruction_accounts ic"
  have "confined.of_program ?p ?accs ic"
    by (simp add: confined.of_program_def)
  moreover have "confined.keeps ?p ?accs (\<lambda>to ta.
       if 0 < get_lamports to ta then Inl (system_err env AccountAlreadyInUse)
       else allocate_and_assign env to a space owner signers ta)"
    by (intro confined.keeps_if confined.keeps_error confined.keeps_allocate_and_assign)
  ultimately have "confined ?p ?accs ta ta1"
    by (rule confined.with_account_keeps [OF _ _ assms(2,1)])
  then show ?thesis
    by (simp add: confined_def)
qed

text \<open>
  C38. An account that was created is as requested: the instruction succeeds only if the new account
  was an empty system account without lamports that authorised its use; afterwards it holds exactly
  the requested lamports and as many zero bytes as requested and belongs to the requested
  owner, and the funding account holds exactly that much less.
\<close>

theorem create_account_result:
  assumes "create_account env ic from_index to_index a lamports space owner signers ta = Inr ta'"
    and "ta_wf ta" and "ba_index (borrowed_from ic from_index) \<noteq> ba_index (borrowed_from ic to_index)"
  shows "get_lamports (borrowed_from ic to_index) ta = 0 \<and> get_data (borrowed_from ic to_index) ta = [] \<and>
    get_owner (borrowed_from ic to_index) ta = system_program_id env \<and> address_is_signer a signers \<and>
    get_lamports (borrowed_from ic to_index) ta' = lamports \<and>
    get_data (borrowed_from ic to_index) ta' = replicate (unat space) 0 \<and>
    get_owner (borrowed_from ic to_index) ta' = owner \<and>
    unat (get_lamports (borrowed_from ic from_index) ta) =
      unat (get_lamports (borrowed_from ic from_index) ta') + unat lamports"
proof -
  let ?f = "borrowed_from ic from_index" and ?t = "borrowed_from ic to_index"
  obtain ta1 where alloc: "with_account ic to_index (\<lambda>to ta.
       if 0 < get_lamports to ta then Inl (system_err env AccountAlreadyInUse)
       else allocate_and_assign env to a space owner signers ta) ta = Inr ta1"
    and go: "transfer_verified env ic from_index to_index lamports ta1 = Inr ta'"
    using assms(1) by (auto simp: create_account_def transfer_def and_then_Inr split: if_splits)
  obtain ta2 ta3 where ta2: "ba_index ?t < length (ta_borrow_counters ta)" "ta_shared ta2 = ta_shared ta"
    "ta_private ta2 = ta_private ta" and zero: "get_lamports ?t ta2 = 0"
    and made: "allocate_and_assign env ?t a space owner signers ta2 = Inr ta3"
    and ta1: "ta1 = drop_account_ref_mut (ia_index_in_transaction (ic_instruction_accounts ic ! unat to_index)) ta3"
    by (rule with_account_cases [OF alloc]) (auto simp: word_gt_0 split: if_splits)
  have t: "ba_index ?t < length (ta_shared ta2)" "ba_index ?t < length (ta_private ta2)"
    using ta2 assms(2) by (simp_all add: ta_wf_def)
  note made_facts = allocate_and_assign_result [OF made t]
  have "length (ta_shared ta1) = length (ta_shared ta)"
    using made_facts(7) ta2(2) by (simp add: ta1 drop_fields)
  moreover have "ba_index ?f < length (ta_shared ta1)"
  proof -
    have "ba_index ?f < length (ta_borrow_counters ta1)"
      using go by (auto simp: transfer_verified_def and_then_Inr elim: with_account_cases)
    moreover have "ta_wf ta1"
      by (rule create_alloc_wf [OF alloc assms(2)])
    ultimately show ?thesis
      by (simp add: ta_wf_def)
  qed
  ultimately have moved: "unat (get_lamports ?f ta1) = unat (get_lamports ?f ta') + unat lamports"
    "unat (get_lamports ?t ta') = unat (get_lamports ?t ta1) + unat lamports"
    "ta_private ta' = ta_private ta1" "\<And>j. sf_owner (shared_at ta' j) = sf_owner (shared_at ta1 j)"
    using transfer_verified_result [OF go assms(3)] t(1) ta2(2) by auto
  have "get_lamports ?t ta1 = 0" "get_lamports ?f ta1 = get_lamports ?f ta"
    using zero made_facts(6) ta2(2) by (simp_all add: get_lamports_def ta1 drop_fields)
  then show ?thesis
    using made_facts moved zero ta2(2,3)
    by (simp add: get_lamports_def get_data_def get_owner_def ta1 drop_fields word_unat_eq_iff)
qed

definition example_created :: transaction_accounts where
  "example_created = example_accounts\<lparr>
     ta_shared := (ta_shared example_accounts)
       [0 := (shared_at example_accounts 0)\<lparr>sf_lamports := 60\<rparr>,
        1 := \<lparr>sf_key = 12, sf_owner = 77, sf_lamports = 40, sf_payload = \<lparr>vs_ptr = 38654705664, vs_len = 2\<rparr>\<rparr>],
     ta_private := (ta_private example_accounts)[1 := (private_at example_accounts 1)\<lparr>pf_payload := [0, 0]\<rparr>],
     ta_touched_flags := [True, True, False, False], ta_resize_delta := 2\<rparr>"

lemmas example_create_simps = example_ic_def example_instruction_accounts_def instruction_account_new_def
  example_accounts_simps example_env_def with_account_def try_borrow_instruction_account_def slice_get_def
  try_borrow_mut_def borrow_counter_defs drop_account_ref_mut_def account_key_def
  is_instruction_account_signer_def ia_signer_def ia_writable_def is_writable_def
  reading_defs upd_shared_def upd_private_def store_payload_def vm_slice_set_len_def ba_touch_def touch_def
  ba_update_accounts_resize_delta_def is_owned_by_current_program_def set_lamports_def
  checked_add_lamports_def checked_sub_lamports_def checked_add_def checked_sub_def add_lamports_delta_def in_i128_def

lemma example_create:
  "create_account example_env example_ic 0 1 \<lparr>addr_address = 12, addr_base = None\<rparr> 40 2 77 {11, 12} example_accounts =
   Inr example_created"
proof -
  have zeros: "is_zeroed [0, 0]" "replicate 2 (0 :: u8) = [0, 0]" "resize_payload 2 [] = [0, 0]"
    by (simp_all add: is_zeroed_correct resize_payload_def numeral_2_eq_2)
  have room: "can_data_be_resized 0 2 ta = Inr ()" "update_accounts_resize_delta 0 2 ta = Inr (ta\<lparr>ta_resize_delta := 2\<rparr>)"
    if "ta_resize_delta ta = 0" for ta
    using that by (simp_all add: can_data_be_resized_def update_accounts_resize_delta_def sat_i64_def
        max_account_data_len_def max_account_data_growth_per_transaction_def)
  show ?thesis
    by (simp add: zeros room create_account_def allocate_and_assign_def allocate_def assign_def transfer_def transfer_verified_def
        address_is_signer_def set_data_length_def set_owner_def ba_can_data_be_resized_def
        can_data_be_changed_def example_create_simps example_created_def)
qed

theorem create_account_result_witness:
  "get_lamports (borrowed_from example_ic 1) example_created = 40 \<and>
   get_data (borrowed_from example_ic 1) example_created = [0, 0] \<and>
   get_owner (borrowed_from example_ic 1) example_created = 77"
proof -
  have "ba_index (borrowed_from example_ic 0) \<noteq> ba_index (borrowed_from example_ic 1)"
    by (simp add: borrowed_from_def example_ic_def example_instruction_accounts_def instruction_account_new_def)
  note result = create_account_result [OF example_create example_accounts_wf this]
  have "replicate 2 (0 :: u8) = [0, 0]"
    by (simp add: numeral_2_eq_2)
  then show ?thesis
    using result by simp
qed

subsection \<open>Durable nonces\<close>

definition nonce_laws :: "system_env \<Rightarrow> bool" where
  "nonce_laws env \<longleftrightarrow>
     (\<forall>v bytes rest. nonce_serialize env v = Some bytes \<longrightarrow> nonce_deserialize env (bytes @ rest) = Some v) \<and>
     (\<forall>s. nonce_state_of env (nonce_versions_new env s) = s)"

lemma set_state_result:
  assumes "set_state serialize b state ta = Inr ta'" "ba_index b < length (ta_private ta)"
  shows "\<exists>bytes rest. serialize state = Some bytes \<and> get_data b ta' = bytes @ rest"
  using assms
  by (auto simp: set_state_def get_data_mut_def get_data_def writing_defs result_ops split: if_splits)

text \<open>
  C39. A durable nonce advances at most once per blockhash: an advance that succeeds needs the
  signature of the nonce's authority, replaces the nonce by the one of the current blockhash, which
  differs from the one before, and keeps the authority; a second advance under the same blockhash
  is refused.
\<close>

theorem nonce_advances_once:
  assumes "advance_nonce_account env b signers ta = Inr ta'" and "nonce_laws env"
    and "ba_index b < length (ta_private ta)"
  shows "\<exists>before data. nonce_deserialize env (get_data b ta) = Some before \<and>
    nonce_state_of env before = NonceInitialized data \<and> nd_authority data \<in> signers \<and>
    nd_durable_nonce data \<noteq> durable_nonce_from_blockhash env (env_blockhash env) \<and>
    map_option (nonce_state_of env) (nonce_deserialize env (get_data b ta')) =
      Some (NonceInitialized (next_nonce_data env (nd_authority data))) \<and>
    advance_nonce_account env b signers ta' = Inl (system_err env NonceBlockhashNotExpired)"
proof -
  obtain before where before: "is_writable b" "nonce_deserialize env (get_data b ta) = Some before"
    and run: "(case nonce_state_of env before of
      NonceInitialized data \<Rightarrow>
        if nd_authority data \<notin> signers then Inl MissingRequiredSignature
        else if nd_durable_nonce data = durable_nonce_from_blockhash env (env_blockhash env)
        then Inl (system_err env NonceBlockhashNotExpired)
        else set_state (nonce_serialize env) b
               (nonce_versions_new env (NonceInitialized (next_nonce_data env (nd_authority data)))) ta
    | NonceUninitialized \<Rightarrow> Inl InvalidAccountData) = Inr ta'"
    using assms(1) unfolding advance_nonce_account_def get_state_def
    by (cases "is_writable b") (auto simp: and_then_Inr ok_or_Inr)
  obtain data where data: "nonce_state_of env before = NonceInitialized data" "nd_authority data \<in> signers"
    "nd_durable_nonce data \<noteq> durable_nonce_from_blockhash env (env_blockhash env)"
    and set: "set_state (nonce_serialize env) b
        (nonce_versions_new env (NonceInitialized (next_nonce_data env (nd_authority data)))) ta = Inr ta'"
    using run by (cases "nonce_state_of env before") (auto split: if_splits)
  have stored: "nonce_deserialize env (get_data b ta') =
      Some (nonce_versions_new env (NonceInitialized (next_nonce_data env (nd_authority data))))"
    using set_state_result [OF set assms(3)] assms(2) by (auto simp: nonce_laws_def)
  then have "advance_nonce_account env b signers ta' = Inl (system_err env NonceBlockhashNotExpired)"
    using before(1) data(2) assms(2)
    by (simp add: advance_nonce_account_def get_state_def nonce_laws_def next_nonce_data_def)
  then show ?thesis
    using before data stored assms(2) by (simp add: nonce_laws_def)
qed

lemma example_nonce_laws: "nonce_laws example_env"
  by (auto simp: nonce_laws_def example_env_def split: nonce_versions.splits nonce_state.splits if_splits)

definition example_nonce_accounts :: transaction_accounts where
  "example_nonce_accounts = example_accounts\<lparr>
     ta_private := (ta_private example_accounts)[0 := (private_at example_accounts 0)\<lparr>pf_payload := [11, 8]\<rparr>]\<rparr>"

theorem nonce_advances_once_witness:
  "\<exists>ta'. advance_nonce_account example_env (borrowed_from example_ic 0) {11} example_nonce_accounts = Inr ta' \<and>
     advance_nonce_account example_env (borrowed_from example_ic 0) {11} ta' =
       Inl (system_err example_env NonceBlockhashNotExpired)"
proof -
  obtain ta' where run: "advance_nonce_account example_env (borrowed_from example_ic 0) {11} example_nonce_accounts = Inr ta'"
    by (simp add: advance_nonce_account_def get_state_def set_state_def get_data_mut_def can_data_be_changed_def
        next_nonce_data_def borrowed_from_def example_nonce_accounts_def example_run_simps)
  have "ba_index (borrowed_from example_ic 0) < length (ta_private example_nonce_accounts)"
    by (simp add: borrowed_from_def example_nonce_accounts_def example_run_simps)
  then show ?thesis
    using run nonce_advances_once [OF run example_nonce_laws] by blast
qed

end
