(* ===== verification/Vote_Safety.thy ===== *)
theory Vote_Safety
  imports Vote_Program System_Accounts
begin

section \<open>Safety of the vote program\<close>

text \<open>
  Who may change a vote account. The proofs rely on the documented behaviour of the vote state's
  encoding, stated in \<open>vote_state_laws\<close>: a stored state of the current version is read back whatever
  bytes follow it and counts as initialized, and the two decoders agree where both accept.
\<close>

definition vote_state_laws :: "vote_env \<Rightarrow> bool" where
  "vote_state_laws env \<longleftrightarrow>
     (\<forall>s bytes rest. versions_serialize env (V4 s) = Some bytes \<longrightarrow> versions_deserialize env (bytes @ rest) = Inr (V4 s)) \<and>
     (\<forall>s. \<not> versions_is_uninitialized env (V4 s)) \<and>
     (\<forall>bytes v w. versions_deserialize env bytes = Inr v \<longrightarrow> versions_bincode_deserialize env bytes = Some w \<longrightarrow> v = w)"

subsection \<open>The stored vote state\<close>

lemma handler_checked_cong:
  assumes "get_data b ta' = get_data b ta" "get_key b ta' = get_key b ta"
  shows "get_vote_state_handler_checked env b ta' = get_vote_state_handler_checked env b ta"
  unfolding get_vote_state_handler_checked_def assms ..

lemma drop_key: "sf_key (shared_at (drop_account_ref_mut i ta) j) = sf_key (shared_at ta j)"
  by (simp add: drop_account_ref_mut_def nth_update_field [of sf_key])

lemma handler_checked_drop [simp]:
  "get_vote_state_handler_checked env b (drop_account_ref_mut i ta) = get_vote_state_handler_checked env b ta"
  by (rule handler_checked_cong) (simp_all add: get_data_def get_key_def drop_fields drop_key)

lemma set_vote_account_state_result:
  assumes "vote_state_laws env" "set_vote_account_state env b st ta = Inr ta'"
    and "ba_index b < length (ta_private ta)"
  shows "get_vote_state_handler_checked env b ta' = Inr st"
proof -
  obtain ta1 where "ta1 = ta \<or> set_data_length b (vote_state_v4_size_of env) ta = Inr ta1"
    and state: "set_state (versions_serialize env) b (V4 st) ta1 = Inr ta'"
    using assms(2) by (auto simp: set_vote_account_state_def result_ops Let_def split: if_splits sum.splits)
  then have "length (ta_private ta1) = length (ta_private ta)"
    using set_data_length_result(4) [OF _ assms(3)] by blast
  then obtain bytes rest where "versions_serialize env (V4 st) = Some bytes" "get_data b ta' = bytes @ rest"
    using set_state_result [OF state] assms(3) by auto
  then show ?thesis
    using assms(1) by (simp add: get_vote_state_handler_checked_def vote_state_laws_def and_then_def ok_or_def)
qed

lemma initialized_not_reinitialized:
  assumes "vote_state_laws env" "get_vote_state_handler_checked env b ta = Inr s"
  shows "check_uninitialized env b ta \<noteq> Inr u"
proof
  assume "check_uninitialized env b ta = Inr u"
  then obtain w where w: "versions_bincode_deserialize env (get_data b ta) = Some w" "versions_is_uninitialized env w"
    by (auto simp: check_uninitialized_def get_state_def result_ops split: if_splits)
  obtain v where v: "versions_deserialize env (get_data b ta) = Inr v" "\<not> versions_is_uninitialized env v"
    using assms(2) by (auto simp: get_vote_state_handler_checked_def result_ops split: if_splits)
  have "v = w"
    using assms(1) v(1) w(1) unfolding vote_state_laws_def by blast
  then show False
    using v(2) w(2) by simp
qed

subsection \<open>The settings of a vote account\<close>

text \<open>What only the withdrawer may set.\<close>

definition settings :: "vote_state_v4 \<Rightarrow> (pubkey \<times> pubkey) \<times> (pubkey \<times> pubkey) \<times> u16 \<times> u16" where
  "settings s = ((v4_node_pubkey s, v4_authorized_withdrawer s),
     (v4_inflation_rewards_collector s, v4_block_revenue_collector s),
     v4_inflation_rewards_commission_bps s, v4_block_revenue_commission_bps s)"

lemma settings_updates [simp]:
  "settings (s\<lparr>v4_votes := x1\<rparr>) = settings s"
  "settings (s\<lparr>v4_root_slot := x2\<rparr>) = settings s"
  "settings (s\<lparr>v4_authorized_voters := x3\<rparr>) = settings s"
  "settings (s\<lparr>v4_epoch_credits := x4\<rparr>) = settings s"
  "settings (s\<lparr>v4_last_timestamp := x5\<rparr>) = settings s"
  "settings (s\<lparr>v4_bls_pubkey_compressed := x6\<rparr>) = settings s"
  "settings (s\<lparr>v4_pending_delegator_rewards := x7\<rparr>) = settings s"
  by (simp_all add: settings_def)

lemma settings_increment_credits: "increment_credits vi epoch n s = Some s' \<Longrightarrow> settings s' = settings s"
  by (auto simp: increment_credits_def Let_def split: if_splits option.splits prod.splits list.splits)

lemma settings_process_timestamp: "process_timestamp slot t s = Inr s' \<Longrightarrow> settings s' = settings s"
  by (auto simp: process_timestamp_def Let_def split: if_splits)

lemma settings_next_vote: "process_next_vote_slot vi slot epoch current s = Some s' \<Longrightarrow> settings s' = settings s"
  by (auto simp: process_next_vote_slot_def root_oldest_vote_def pop_expired_votes_def double_lockouts_def Let_def
      set_votes_def set_root_slot_def bind_eq_Some_conv dest!: settings_increment_credits
      split: if_splits option.splits list.splits)

lemma settings_foldM:
  "foldM (\<lambda>s st. process_next_vote_slot vi s epoch current st) slots s = Some s' \<Longrightarrow> settings s' = settings s"
proof (induction slots arbitrary: s)
  case (Cons slot slots)
  then show ?case
    by (auto simp: bind_eq_Some_conv dest!: settings_next_vote)
qed auto

lemma settings_unfiltered:
  assumes "process_vote_unfiltered vi s slots v hashes epoch current = Some (Inr s')"
  shows "settings s' = settings s"
proof -
  have "foldM (\<lambda>s st. process_next_vote_slot vi s epoch current st) slots s = Some s'"
    using assms unfolding process_vote_unfiltered_def by (simp split: option.splits sum.splits unit.splits)
  then show ?thesis
    by (rule settings_foldM)
qed

lemma settings_process_vote:
  "process_vote vi s v hashes epoch current = Some (Inr s') \<Longrightarrow> settings s' = settings s"
  unfolding process_vote_def Let_def by (simp add: settings_unfiltered split: if_splits)

lemma settings_new_vote_state:
  assumes "process_new_vote_state vi s new_state root t epoch slot = Some (Inr s')"
  shows "settings s' = settings s"
proof (rule update_stages [OF assms])
  fix i earned ns' st1 st2
  assume st1: "(if root_slot s \<noteq> root then increment_credits vi epoch earned s else Some s) = Some st1"
    and st2: "(case t of None \<Rightarrow> Inr st1
      | Some t \<Rightarrow> process_timestamp (vote_slot (last (map (set_latency slot) ns'))) t st1) = Inr st2"
    and s': "s' = set_votes (map (set_latency slot) ns') (set_root_slot root st2)"
  have "settings st1 = settings s"
    using st1 settings_increment_credits by (auto split: if_splits)
  moreover have "settings st2 = settings st1"
    using st2 settings_process_timestamp by (auto split: option.splits)
  ultimately show ?thesis
    by (simp add: s' set_votes_def set_root_slot_def)
qed

lemma settings_check_and_apply:
  "check_and_apply vi s hashes epoch slot lockouts root h t = Some (Inr s') \<Longrightarrow> settings s' = settings s"
  by (auto simp: check_and_apply_def dest!: settings_new_vote_state split: option.splits sum.splits)


subsection \<open>Authorized changes\<close>

text \<open>The keys that have authorized an instruction: its signers, or a key derived from a signed base.\<close>

definition seed_keys :: "vote_env \<Rightarrow> instruction_context \<Rightarrow> pubkey \<Rightarrow> u8 list \<Rightarrow> transaction_accounts \<Rightarrow> pubkey set" where
  "seed_keys env ic owner seed ta =
     {key. is_instruction_account_signer ic 2 = Inr True \<and>
        (\<exists>base. get_key_of_instruction_account ic 2 ta = Inr base \<and> vote_create_with_seed env base seed owner = Inr key)}"

definition authority_keys ::
  "vote_env \<Rightarrow> instruction_context \<Rightarrow> vote_instruction \<Rightarrow> transaction_accounts \<Rightarrow> pubkey set" where
  "authority_keys env ic instruction ta =
     (case instruction of
        AuthorizeWithSeed _ owner seed _ \<Rightarrow> seed_keys env ic owner seed ta
      | AuthorizeCheckedWithSeed _ owner seed \<Rightarrow> seed_keys env ic owner seed ta
      | _ \<Rightarrow> (case get_signers ic ta of Inl _ \<Rightarrow> {} | Inr signers \<Rightarrow> signers))"

text \<open>The voter of the current epoch is among the keys.\<close>

definition voter_agrees :: "vote_env \<Rightarrow> vote_state_v4 \<Rightarrow> pubkey set \<Rightarrow> bool" where
  "voter_agrees env s keys \<longleftrightarrow>
     (\<exists>clk voter. clock_sysvar env = Inr clk \<and>
        fst (av_get_and_cache env (clock_epoch clk) (v4_authorized_voters s)) = Some voter \<and> voter \<in> keys)"

definition authorized_change :: "vote_env \<Rightarrow> pubkey set \<Rightarrow> vote_state_v4 \<Rightarrow> vote_state_v4 result \<Rightarrow> bool" where
  "authorized_change env keys s after \<longleftrightarrow>
     v4_authorized_withdrawer s \<in> keys \<or>
     (\<exists>s'. after = Inr s' \<and> settings s' = settings s \<and>
        (voter_agrees env s keys \<or> (\<exists>rewards. s' = s\<lparr>v4_pending_delegator_rewards := rewards\<rparr>)))"

lemma authorized_by_withdrawer: "authorized_withdrawer s \<in> keys \<Longrightarrow> authorized_change env keys s after"
  by (simp add: authorized_change_def authorized_withdrawer_def)

lemma verify_signer_Inr [result_ops]: "verify_authorized_signer key signers = Inr u \<longleftrightarrow> key \<in> signers"
  by (simp add: verify_authorized_signer_def)

lemma authorized_voter_Inr:
  assumes "get_and_update_authorized_voter env epoch s = Inr (voter, st)"
  shows "fst (av_get_and_cache env epoch (v4_authorized_voters s)) = Some voter" "settings st = settings s"
  using assms by (auto simp: get_and_update_authorized_voter_def result_ops split: prod.splits)

lemma set_new_voter_Inr:
  assumes "set_new_authorized_voter env key epoch target bls verify s = Inr st"
  obtains voter where "fst (av_get_and_cache env epoch (v4_authorized_voters s)) = Some voter"
    "verify voter = Inr ()" "settings st = settings s"
proof -
  obtain voter s1 where voter: "get_and_update_authorized_voter env epoch s = Inr (voter, s1)"
    and verify: "verify voter = Inr ()"
    and st: "settings st = settings s1"
    using assms by (auto simp: set_new_authorized_voter_def result_ops Let_def split: if_splits)
  show thesis
    using that [OF authorized_voter_Inr(1) [OF voter] verify] st authorized_voter_Inr(2) [OF voter] by simp
qed

lemma authorize_voter_change:
  assumes "authorize_voter env key keys clk bls (is_ok (verify_authorized_signer (authorized_withdrawer s) keys)) s = Inr st"
    and "clock_sysvar env = Inr clk"
  shows "authorized_change env keys s (Inr st)"
proof (cases "authorized_withdrawer s \<in> keys")
  case False
  then have "is_ok (verify_authorized_signer (authorized_withdrawer s) keys) = False"
    by (simp add: is_ok_def verify_authorized_signer_def)
  then obtain target where "set_new_authorized_voter env key (clock_epoch clk) target bls
      (\<lambda>voter. verify_authorized_signer voter keys) s = Inr st"
    using assms(1) by (auto simp: authorize_voter_def and_then_Inr)
  then show ?thesis
    using assms(2) by (elim set_new_voter_Inr) (auto simp: authorized_change_def voter_agrees_def verify_signer_Inr)
qed (rule authorized_by_withdrawer)

lemma authorize_state_change:
  assumes "authorize_state env vote_key key kind keys clk enabled s = Inr st" "clock_sysvar env = Inr clk"
  shows "authorized_change env keys s (Inr st)"
  using assms authorize_voter_change [OF _ assms(2)]
  by (auto simp: authorize_state_def Let_def result_ops authorized_by_withdrawer
      split: vote_authorize.splits if_splits)

lemma authorize_change:
  assumes "vote_state_laws env" "authorize env b key kind keys clk enabled ta = Inr ta'" "clock_sysvar env = Inr clk"
    and "get_vote_state_handler_checked env b ta = Inr s" "ba_index b < length (ta_private ta)"
  shows "authorized_change env keys s (get_vote_state_handler_checked env b ta')"
proof -
  obtain st where "authorize_state env (get_key b ta) key kind keys clk enabled s = Inr st"
    and store: "set_vote_account_state env b st ta = Inr ta'"
    using assms(2,4) by (auto simp: authorize_def and_then_Inr)
  then show ?thesis
    using authorize_state_change [OF _ assms(3)] set_vote_account_state_result [OF assms(1) store assms(5)] by simp
qed

lemma voting_state_change:
  assumes "voting_state env b clk keys ta = Inr s1" "get_vote_state_handler_checked env b ta = Inr s"
    "clock_sysvar env = Inr clk" "settings st = settings s1"
  shows "authorized_change env keys s (Inr st)"
  using assms authorized_voter_Inr
  by (fastforce simp: voting_state_Inr authorized_change_def voter_agrees_def)


subsection \<open>The instructions\<close>

lemma handler_checked_drop_borrowed [simp]:
  "get_vote_state_handler_checked env b (drop_borrowed b' ta) = get_vote_state_handler_checked env b ta"
  by (simp add: drop_borrowed_def)

lemma handler_checked_same:
  "ta_shared ta' = ta_shared ta \<Longrightarrow> ta_private ta' = ta_private ta \<Longrightarrow>
   get_vote_state_handler_checked env b ta' = get_vote_state_handler_checked env b ta"
  by (rule handler_checked_cong) (simp_all add: get_data_def get_key_def)

lemma collector_cases:
  assumes "with_new_collector_account ic me i block ta = Inr ta'"
  obtains collector ta1 ta2 where "block collector ta1 = Inr ta2" "ta_shared ta1 = ta_shared ta"
    "ta_private ta1 = ta_private ta" "ta_lamports_delta ta1 = ta_lamports_delta ta"
    "ta' = ta2 \<or> (\<exists>k. ta' = drop_account_ref_mut k ta2)"
proof -
  obtain key where key: "get_key_of_instruction_account ic i ta = Inr key"
    using assms by (auto simp: with_new_collector_account_def and_then_Inr)
  show thesis
  proof (cases "key = get_key me ta")
    case True
    then show thesis
      using assms key that [of VoteAccount ta] by (auto simp: with_new_collector_account_def and_then_Inr)
  next
    case False
    then have "with_account ic i (\<lambda>b. block (NewAccount b)) ta = Inr ta'"
      using assms key by (simp add: with_new_collector_account_def and_then_Inr)
    then show thesis
      by (rule with_account_cases) (use that in blast)
  qed
qed

lemma initialize_impossible:
  assumes "vote_state_laws env" "get_vote_state_handler_checked env me ta = Inr s"
  shows "on_initialize_account env ic signers init me ta \<noteq> Inr ta'"
    and "on_initialize_account_v2 env ic signers init2 me ta \<noteq> Inr ta'"
proof -
  note no = initialized_not_reinitialized [OF assms(1)]
  show "on_initialize_account env ic signers init me ta \<noteq> Inr ta'"
    using no [OF assms(2)] by (auto simp: on_initialize_account_def initialize_account_def and_then_Inr split: if_splits)
  show "on_initialize_account_v2 env ic signers init2 me ta \<noteq> Inr ta'"
  proof
    assume "on_initialize_account_v2 env ic signers init2 me ta = Inr ta'"
    then have "with_new_collector_account ic me 2 (\<lambda>c1. with_new_collector_account ic me 3 (\<lambda>c2 ta.
        and_then (clock_sysvar env) (\<lambda>clk. and_then (rent_sysvar env) (\<lambda>r.
        initialize_account_v2 env me init2 c1 c2 signers clk r ta)))) ta = Inr ta'"
      by (auto simp: on_initialize_account_v2_def and_then_Inr split: if_splits)
    then obtain c1 ta1 ta2 where "with_new_collector_account ic me 3 (\<lambda>c2 ta.
        and_then (clock_sysvar env) (\<lambda>clk. and_then (rent_sysvar env) (\<lambda>r.
        initialize_account_v2 env me init2 c1 c2 signers clk r ta))) ta1 = Inr ta2"
      and ta1: "ta_shared ta1 = ta_shared ta" "ta_private ta1 = ta_private ta"
      by (rule collector_cases)
    then obtain c2 ta3 ta4 clk r where "initialize_account_v2 env me init2 c1 c2 signers clk r ta3 = Inr ta4"
      and ta3: "ta_shared ta3 = ta_shared ta1" "ta_private ta3 = ta_private ta1"
      by (elim collector_cases) (auto simp: and_then_Inr)
    then obtain u where "check_uninitialized env me ta3 = Inr u"
      by (auto simp: initialize_account_v2_def and_then_Inr)
    moreover have "get_vote_state_handler_checked env me ta3 = Inr s"
      using handler_checked_same [of ta3 ta] ta1 ta3 assms(2) by simp
    ultimately show False
      using no by blast
  qed
qed

lemma withdrawer_instructions:
  assumes "get_vote_state_handler_checked env me ta = Inr s"
  shows "on_update_validator_identity env ic signers me ta = Inr ta' \<Longrightarrow> authorized_withdrawer s \<in> signers"
    and "on_update_commission env ic signers c me ta = Inr ta' \<Longrightarrow> authorized_withdrawer s \<in> signers"
    and "on_update_commission_bps env ic signers bps kind me ta = Inr ta' \<Longrightarrow> authorized_withdrawer s \<in> signers"
  using assms
  by (auto simp: on_update_validator_identity_def update_validator_identity_def on_update_commission_def
      update_commission_def on_update_commission_bps_def update_commission_bps_def result_ops Let_def split: if_splits)

lemma withdrawer_collector:
  assumes "on_update_commission_collector env ic signers kind me ta = Inr ta'"
    and "get_vote_state_handler_checked env me ta = Inr s"
  shows "authorized_withdrawer s \<in> signers"
proof -
  have "with_new_collector_account ic me 1 (\<lambda>collector ta. and_then (rent_sysvar env) (\<lambda>r.
      update_commission_collector env me collector kind signers r ta)) ta = Inr ta'"
    using assms(1) by (auto simp: on_update_commission_collector_def and_then_Inr split: if_splits)
  then obtain collector ta1 ta2 r where "update_commission_collector env me collector kind signers r ta1 = Inr ta2"
    and ta1: "ta_shared ta1 = ta_shared ta" "ta_private ta1 = ta_private ta"
    by (elim collector_cases) (auto simp: and_then_Inr)
  then show ?thesis
    using handler_checked_same [OF ta1] assms(2) by (auto simp: update_commission_collector_def result_ops)
qed

lemma withdrawer_withdraw:
  assumes "on_withdraw env ic signers lamports me ta = Inr ta'"
    and "get_vote_state_handler_checked env (borrowed_from ic 0) ta = Inr s"
  shows "authorized_withdrawer s \<in> signers"
proof -
  obtain r clk ta1 where "with_account ic 0 (withdraw_from_vote_account env lamports signers r clk) (drop_borrowed me ta) = Inr ta1"
    using assms(1) by (auto simp: on_withdraw_def withdraw_def and_then_Inr)
  then obtain ta2 ta3 where "withdraw_from_vote_account env lamports signers r clk (borrowed_from ic 0) ta2 = Inr ta3"
    and ta2: "ta_shared ta2 = ta_shared (drop_borrowed me ta)" "ta_private ta2 = ta_private (drop_borrowed me ta)"
    by (rule with_account_cases)
  moreover have "get_vote_state_handler_checked env (borrowed_from ic 0) ta2 = Inr s"
    using handler_checked_same [OF ta2] assms(2) by simp
  ultimately show ?thesis
    by (auto simp: withdraw_from_vote_account_def result_ops)
qed


lemma clock_check_Inr: "clock_with_account_check env ic i ta = Inr clk \<Longrightarrow> clock_sysvar env = Inr clk"
  by (auto simp: clock_with_account_check_def and_then_Inr)

lemma authorize_with_seed_change:
  assumes "vote_state_laws env"
    and "process_authorize_with_seed_instruction env ic b key kind owner seed enabled ta = Inr ta'"
    and "get_vote_state_handler_checked env b ta = Inr s" "ba_index b < length (ta_private ta)"
  shows "authorized_change env (seed_keys env ic owner seed ta) s (get_vote_state_handler_checked env b ta')"
proof -
  obtain clk signed keys where clk: "clock_sysvar env = Inr clk"
    and signed: "is_instruction_account_signer ic 2 = Inr signed"
    and derived: "(if signed
        then and_then (get_key_of_instruction_account ic 2 ta) (\<lambda>base_pubkey.
             and_then (vote_create_with_seed env base_pubkey seed owner) (\<lambda>key. Inr {key}))
        else Inr {}) = Inr keys"
    and run: "authorize env b key kind keys clk enabled ta = Inr ta'"
    using assms(2) unfolding process_authorize_with_seed_instruction_def and_then_Inr
    using clock_check_Inr by blast
  have keys: "keys \<subseteq> seed_keys env ic owner seed ta"
    using signed derived by (auto simp: and_then_Inr seed_keys_def split: if_splits)
  have "authorized_change env keys s (get_vote_state_handler_checked env b ta')"
    using authorize_change [OF assms(1) run clk assms(3,4)] by simp
  then show ?thesis
    using keys unfolding authorized_change_def voter_agrees_def by blast
qed

lemma authorize_instructions:
  assumes "vote_state_laws env" "get_vote_state_handler_checked env me ta = Inr s" "ba_index me < length (ta_private ta)"
  shows "on_authorize env ic signers key kind me ta = Inr ta' \<Longrightarrow>
      authorized_change env signers s (get_vote_state_handler_checked env me ta')"
    and "on_authorize_checked env ic signers kind me ta = Inr ta' \<Longrightarrow>
      authorized_change env signers s (get_vote_state_handler_checked env me ta')"
    and "on_authorize_with_seed env ic signers kind owner seed key me ta = Inr ta' \<Longrightarrow>
      authorized_change env (seed_keys env ic owner seed ta) s (get_vote_state_handler_checked env me ta')"
    and "on_authorize_checked_with_seed env ic signers kind owner seed me ta = Inr ta' \<Longrightarrow>
      authorized_change env (seed_keys env ic owner seed ta) s (get_vote_state_handler_checked env me ta')"
  using authorize_change [OF assms(1) _ _ assms(2,3)] authorize_with_seed_change [OF assms(1) _ assms(2,3)]
  by (auto simp: on_authorize_def on_authorize_checked_def on_authorize_with_seed_def on_authorize_checked_with_seed_def
      and_then_Inr dest!: clock_check_Inr split: if_splits)

lemma votes_change:
  assumes "vote_state_laws env" "get_vote_state_handler_checked env me ta = Inr s" "ba_index me < length (ta_private ta)"
    and clk: "clock_sysvar env = Inr clk"
  shows "process_vote_with_account env me hashes clk v signers ta = Some (Inr ta') \<Longrightarrow>
      authorized_change env signers s (get_vote_state_handler_checked env me ta')"
    and "process_vote_state_update env me hashes clk u signers ta = Some (Inr ta') \<Longrightarrow>
      authorized_change env signers s (get_vote_state_handler_checked env me ta')"
    and "process_tower_sync env me hashes clk t signers ta = Some (Inr ta') \<Longrightarrow>
      authorized_change env signers s (get_vote_state_handler_checked env me ta')"
proof -
  note change = voting_state_change [OF _ assms(2) clk]
  note stored = set_vote_account_state_result [OF assms(1) _ assms(3)]
  show "authorized_change env signers s (get_vote_state_handler_checked env me ta')"
    if "process_vote_with_account env me hashes clk v signers ta = Some (Inr ta')"
  proof (rule process_vote_stores [OF that])
    fix s0 s1 st
    assume s0: "voting_state env me clk signers ta = Inr s0"
      and "process_vote (vote_interface_of env) s0 v hashes (clock_epoch clk) (clock_slot clk) = Some (Inr s1)"
      and "vote_process_timestamp v s1 = Inr st" and store: "set_vote_account_state env me st ta = Inr ta'"
    then have "settings st = settings s0"
      using settings_process_vote settings_process_timestamp
      by (auto simp: vote_process_timestamp_def split: option.splits if_splits)
    then show ?thesis
      using change [OF s0] stored [OF store] by simp
  qed
  show "authorized_change env signers s (get_vote_state_handler_checked env me ta')"
    if "process_vote_state_update env me hashes clk u signers ta = Some (Inr ta')"
    using process_vote_state_update_stores [OF that] change stored settings_check_and_apply
    unfolding do_process_vote_state_update_def by metis
  show "authorized_change env signers s (get_vote_state_handler_checked env me ta')"
    if "process_tower_sync env me hashes clk t signers ta = Some (Inr ta')"
    using process_tower_sync_stores [OF that] change stored settings_check_and_apply
    unfolding do_process_tower_sync_def by metis
qed

lemma vote_instructions:
  assumes "vote_state_laws env" "get_vote_state_handler_checked env me ta = Inr s" "ba_index me < length (ta_private ta)"
  shows "on_vote env ic signers v me ta = Some (Inr ta') \<Longrightarrow>
      authorized_change env signers s (get_vote_state_handler_checked env me ta')"
    and "on_update_vote_state env ic signers u me ta = Some (Inr ta') \<Longrightarrow>
      authorized_change env signers s (get_vote_state_handler_checked env me ta')"
    and "on_compact_update_vote_state env ic signers u me ta = Some (Inr ta') \<Longrightarrow>
      authorized_change env signers s (get_vote_state_handler_checked env me ta')"
    and "on_tower_sync env ic signers t me ta = Some (Inr ta') \<Longrightarrow>
      authorized_change env signers s (get_vote_state_handler_checked env me ta')"
  using votes_change [OF assms] by (auto simp: on_votes result_ops dest!: clock_check_Inr split: if_splits)

lemma case_v4_Inr:
  "(case versioned of V4 s \<Rightarrow> Inr s | _ \<Rightarrow> Inl e) = Inr s \<longleftrightarrow> versioned = V4 s"
  by (cases versioned) auto

lemma deposit_change:
  assumes laws: "vote_state_laws env" and "on_deposit_delegator_rewards cpi env ic signers deposit me ta = Inr ta'"
    and "get_vote_state_handler_checked env (borrowed_from ic 0) ta = Inr s"
    and "ba_index (borrowed_from ic 0) < length (ta_private ta)"
    and cpi: "\<And>src dst n ta ta'. cpi src dst n ta = Inr ta' \<Longrightarrow> length (ta_private ta') = length (ta_private ta)"
  shows "authorized_change env signers s (get_vote_state_handler_checked env (borrowed_from ic 0) ta')"
proof -
  let ?b = "borrowed_from ic 0"
  obtain b ta1 ta2 vote_address source_address v where
      borrow: "try_borrow_instruction_account ic 0 (drop_borrowed me ta) = Inr (b, ta1)"
    and v: "versions_deserialize env (get_data b ta1) = Inr (V4 v)"
    and call: "cpi source_address vote_address deposit
      (drop_account_ref_mut (ia_index_in_transaction (ba_instruction_account b)) ta1) = Inr ta2"
    and store: "with_account ic 0 (\<lambda>vote_account ta.
       and_then (ok_or ArithmeticOverflow (add_pending_delegator_rewards deposit v)) (\<lambda>vote_state.
       set_vote_account_state env vote_account vote_state ta)) ta2 = Inr ta'"
    using assms(2) by (auto simp: on_deposit_delegator_rewards_def deposit_delegator_rewards_def and_then_Inr
        case_v4_Inr split: if_splits)
  have b: "b = ?b" and same: "ta_shared ta1 = ta_shared (drop_borrowed me ta)" "ta_private ta1 = ta_private (drop_borrowed me ta)"
    using borrow try_borrow_mut_same
    by (auto simp: try_borrow_instruction_account_def result_ops borrowed_from_def)
  have "get_vote_state_handler_checked env ?b ta1 = Inr s"
    using handler_checked_same [OF same] assms(3) by simp
  then have "s = v"
    using v laws by (auto simp: b get_vote_state_handler_checked_def vote_state_laws_def and_then_def ok_or_def)
  obtain ta3 ta4 st where st: "add_pending_delegator_rewards deposit v = Some st"
    and set: "set_vote_account_state env ?b st ta3 = Inr ta4" and ta3: "ta_private ta3 = ta_private ta2"
    and ta': "ta' = drop_account_ref_mut (ia_index_in_transaction (ic_instruction_accounts ic ! unat 0)) ta4"
    by (rule with_account_cases [OF store]) (auto simp: result_ops)
  have "length (ta_private ta3) = length (ta_private ta)"
    using cpi [OF call] same(2) by (simp add: ta3 drop_fields drop_borrowed_def)
  then have "get_vote_state_handler_checked env ?b ta' = Inr st"
    using set_vote_account_state_result [OF laws set] assms(4) by (simp add: ta')
  then show ?thesis
    using st \<open>s = v\<close> by (auto simp: add_pending_delegator_rewards_def authorized_change_def)
qed


lemma completed_Inr: "completed me r = Some (Inr ta') \<longleftrightarrow> (\<exists>ta1. r = Inr ta1 \<and> ta' = drop_borrowed me ta1)"
  by (auto simp: completed_def and_then_Inr)

lemma completed_vote_Inr:
  "completed_vote me r = Some (Inr ta') \<longleftrightarrow> (\<exists>ta1. r = Some (Inr ta1) \<and> ta' = drop_borrowed me ta1)"
  by (auto simp: completed_vote_def completed_Inr bind_eq_Some_conv)

lemma vote_dispatch_authorized:
  assumes laws: "vote_state_laws env"
    and run: "vote_dispatch cpi env ic signers instruction (borrowed_from ic 0) ta = Some (Inr ta')"
    and before: "get_vote_state_handler_checked env (borrowed_from ic 0) ta = Inr s"
    and idx: "ba_index (borrowed_from ic 0) < length (ta_private ta)" and signers: "get_signers ic ta = Inr signers"
    and cpi: "\<And>src dst n ta ta'. cpi src dst n ta = Inr ta' \<Longrightarrow> length (ta_private ta') = length (ta_private ta)"
  shows "authorized_change env (authority_keys env ic instruction ta) s
    (get_vote_state_handler_checked env (borrowed_from ic 0) ta')"
proof -
  note by_withdrawer = withdrawer_instructions [OF before, THEN authorized_by_withdrawer]
    withdrawer_collector [OF _ before, THEN authorized_by_withdrawer]
    withdrawer_withdraw [OF _ before, THEN authorized_by_withdrawer]
  note changes = authorize_instructions [OF laws before idx] vote_instructions [OF laws before idx] by_withdrawer
  show ?thesis
  proof (cases instruction)
    case (DepositDelegatorRewards n)
    then show ?thesis
      using run deposit_change [OF laws _ before idx, of cpi signers] cpi
      by (simp add: authority_keys_def signers)
  qed (use run in \<open>simp_all add: authority_keys_def signers completed_Inr completed_vote_Inr
      initialize_impossible [OF laws before] by_withdrawer(5)\<close>; elim exE conjE; simp add: changes)+
qed

lemma same_accounts_keys:
  assumes "ta_shared ta' = ta_shared ta"
  shows "get_signers ic ta' = get_signers ic ta" "authority_keys env ic instruction ta' = authority_keys env ic instruction ta"
proof -
  have key: "get_key_of_account_at_index ta' = get_key_of_account_at_index ta"
    using assms by (simp add: get_key_of_account_at_index_def account_key_def fun_eq_iff)
  have "signers_loop ta' ias acc = signers_loop ta ias acc" for ias acc
    by (induction ias arbitrary: acc) (simp_all add: key)
  then show signers: "get_signers ic ta' = get_signers ic ta"
    by (simp add: get_signers_def)
  show "authority_keys env ic instruction ta' = authority_keys env ic instruction ta"
    unfolding authority_keys_def seed_keys_def get_key_of_instruction_account_def signers key ..
qed

text \<open>
  C8. Nobody but the withdrawer controls a vote account: let the first account of the instruction
  hold a vote state before any instruction of the vote program that succeeds. Either the authorized
  withdrawer of that state is among the keys that authorized the instruction, or the account
  still holds a vote state with the same node, withdrawer, collectors and commissions; and then
  the voter of the current epoch is among the keys unless only the pending rewards changed. So an
  account cannot be initialized again either.
\<close>

theorem vote_account_controlled:
  assumes "vote_state_laws env" and "ta_wf ta"
    and "vote_process_instruction cpi env ic instruction ta = Some (Inr ta')"
    and "get_vote_state_handler_checked env (borrowed_from ic 0) ta = Inr s"
    and "\<forall>src dst n ta ta'. cpi src dst n ta = Inr ta' \<longrightarrow> length (ta_private ta') = length (ta_private ta)"
  shows "v4_authorized_withdrawer s \<in> authority_keys env ic instruction ta \<or>
    (\<exists>s'. get_vote_state_handler_checked env (borrowed_from ic 0) ta' = Inr s' \<and> settings s' = settings s \<and>
       (voter_agrees env s (authority_keys env ic instruction ta) \<or>
        (\<exists>rewards. s' = s\<lparr>v4_pending_delegator_rewards := rewards\<rparr>)))"
proof -
  obtain me ta1 signers where borrow: "try_borrow_instruction_account ic 0 ta = Inr (me, ta1)"
    and signers: "get_signers ic ta1 = Inr signers"
    and run: "vote_dispatch cpi env ic signers instruction me ta1 = Some (Inr ta')"
    using assms(3) by (auto simp: vote_process_instruction_def result_ops split: if_splits)
  have me: "me = borrowed_from ic 0" and mut: "try_borrow_mut (ia_index_in_transaction (ba_instruction_account me)) ta = Inr ta1"
    using borrow by (auto simp: try_borrow_instruction_account_def result_ops borrowed_from_def)
  note same = try_borrow_mut_same [OF mut]
  have "ba_index me < length (ta_private ta1)"
    using mut assms(2) same by (auto simp: try_borrow_mut_def result_ops ta_wf_def)
  moreover have "get_vote_state_handler_checked env me ta1 = Inr s"
    using handler_checked_same [of ta1 ta] same assms(4) me by simp
  ultimately have "authorized_change env (authority_keys env ic instruction ta1) s
      (get_vote_state_handler_checked env (borrowed_from ic 0) ta')"
    using vote_dispatch_authorized [OF assms(1)] run signers assms(5) unfolding me by blast
  then show ?thesis
    using same_accounts_keys [of ta1 ta] same by (simp add: authorized_change_def)
qed


subsection \<open>Withdrawals\<close>

lemma deinitialize_result:
  assumes "deinitialize_vote_account_state b ta = Inr ta'" "ba_index b < length (ta_private ta)"
  shows "ta_shared ta' = ta_shared ta" "get_data b ta' = replicate (length (get_data b ta)) 0"
    "length (ta_private ta') = length (ta_private ta)"
  using assms
  by (auto simp: deinitialize_vote_account_state_def get_data_mut_def get_data_def writing_defs result_ops
      split: if_splits)

text \<open>What a withdrawal may leave: nothing, or the rent and the rewards of the delegators.\<close>

definition withdrawal_allowed ::
  "rent \<Rightarrow> clock \<Rightarrow> vote_state_v4 \<Rightarrow> u64 \<Rightarrow> u64 \<Rightarrow> u8 list \<Rightarrow> u8 list \<Rightarrow> bool" where
  "withdrawal_allowed r clk s balance lamports data data' \<longleftrightarrow>
     (if lamports = balance
      then v4_pending_delegator_rewards s = 0 \<and> \<not> reject_active_vote_account_close clk s \<and>
        data' = replicate (length data) 0
      else unat (rent_min_balance r (length data)) + unat (v4_pending_delegator_rewards s) + unat lamports \<le> unat balance \<and>
        data' = data)"

lemma withdraw_block_result:
  assumes run: "withdraw_from_vote_account env lamports signers r clk b ta = Inr ta'"
    and idx: "ba_index b < length (ta_shared ta)" "ba_index b < length (ta_private ta)"
  shows "\<exists>s. get_vote_state_handler_checked env b ta = Inr s \<and> v4_authorized_withdrawer s \<in> signers \<and>
      withdrawal_allowed r clk s (get_lamports b ta) lamports (get_data b ta) (get_data b ta')"
    and "unat (get_lamports b ta) = unat (get_lamports b ta') + unat lamports"
    and "j \<noteq> ba_index b \<Longrightarrow> shared_at ta' j = shared_at ta j"
    and "length (ta_shared ta') = length (ta_shared ta)"
proof -
  obtain s left ta1 where s: "get_vote_state_handler_checked env b ta = Inr s" "authorized_withdrawer s \<in> signers"
    and left: "checked_sub (get_lamports b ta) lamports = Some left"
    and ta1: "(if left = 0
        then if 0 < pending_delegator_rewards s then Inl InsufficientFunds
             else if reject_active_vote_account_close clk s then Inl (vote_err env ActiveVoteAccountClose)
             else deinitialize_vote_account_state b ta
        else and_then (ok_or ArithmeticOverflow
                 (checked_add (rent_min_balance r (length (get_data b ta))) (pending_delegator_rewards s))) (\<lambda>min_balance.
             if left < min_balance then Inl InsufficientFunds else Inr ta)) = Inr ta1"
    and sub: "checked_sub_lamports b lamports ta1 = Inr ta'"
    using run unfolding withdraw_from_vote_account_def and_then_Inr ok_or_Inr verify_signer_Inr by blast
  have unat_left: "unat lamports \<le> unat (get_lamports b ta)" "unat left = unat (get_lamports b ta) - unat lamports"
    using left by (simp_all add: checked_sub_Some)
  have zero: "left = 0 \<longleftrightarrow> lamports = get_lamports b ta"
    using unat_left by (metis diff_self_eq_0 le_antisym diff_is_0_eq unat_eq_zero word_unat_eq_iff)
  have same: "ta_shared ta1 = ta_shared ta" "length (ta_private ta1) = length (ta_private ta)"
    using ta1 deinitialize_result [OF _ idx(2)] by (auto simp: result_ops split: if_splits)
  have allowed: "withdrawal_allowed r clk s (get_lamports b ta) lamports (get_data b ta) (get_data b ta1)"
  proof (cases "left = 0")
    case True
    then show ?thesis
      using ta1 zero deinitialize_result [OF _ idx(2)]
      by (auto simp: withdrawal_allowed_def pending_delegator_rewards_def word_neq_0_conv [symmetric] split: if_splits)
  next
    case False
    then have "and_then (ok_or ArithmeticOverflow
        (checked_add (rent_min_balance r (length (get_data b ta))) (pending_delegator_rewards s))) (\<lambda>min_balance.
        if left < min_balance then Inl InsufficientFunds else Inr ta) = Inr ta1"
      using ta1 by simp
    then obtain m where m: "checked_add (rent_min_balance r (length (get_data b ta))) (pending_delegator_rewards s) = Some m"
      and "(if left < m then Inl InsufficientFunds else Inr ta) = Inr ta1"
      unfolding and_then_Inr ok_or_Inr by blast
    then have m: "checked_add (rent_min_balance r (length (get_data b ta))) (pending_delegator_rewards s) = Some m"
        "m \<le> left" and "ta1 = ta"
      by (simp_all split: if_splits)
    have "unat (rent_min_balance r (length (get_data b ta))) + unat (v4_pending_delegator_rewards s) \<le> unat left"
      using m by (simp only: checked_add_Some word_le_nat_alt pending_delegator_rewards_def)
    then have "unat (rent_min_balance r (length (get_data b ta))) + unat (v4_pending_delegator_rewards s) +
        unat lamports \<le> unat (get_lamports b ta)"
      using unat_left by linarith
    then show ?thesis
      using False zero \<open>ta1 = ta\<close> by (simp add: withdrawal_allowed_def)
  qed
  have idx1: "ba_index b < length (ta_shared ta1)"
    using idx same by simp
  note debit = checked_sub_result [OF sub idx1]
  have "get_data b ta' = get_data b ta1"
    using debit(2) by (simp add: get_data_def)
  then show "\<exists>s. get_vote_state_handler_checked env b ta = Inr s \<and> v4_authorized_withdrawer s \<in> signers \<and>
      withdrawal_allowed r clk s (get_lamports b ta) lamports (get_data b ta) (get_data b ta')"
    using s allowed by (auto simp: authorized_withdrawer_def)
  show "unat (get_lamports b ta) = unat (get_lamports b ta') + unat lamports"
    using debit(1) same by (simp add: get_lamports_def)
  show "j \<noteq> ba_index b \<Longrightarrow> shared_at ta' j = shared_at ta j"
    using debit(3) same by simp
  show "length (ta_shared ta') = length (ta_shared ta)"
    using sub same set_lamports_result by (auto simp: checked_sub_lamports_def result_ops)
qed

lemma withdraw_result:
  assumes "withdraw env ic i lamports j signers r clk ta = Inr ta'"
    and "ba_index (borrowed_from ic i) \<noteq> ba_index (borrowed_from ic j)"
    and wf: "ta_wf ta"
  shows "\<exists>s. get_vote_state_handler_checked env (borrowed_from ic i) ta = Inr s \<and> v4_authorized_withdrawer s \<in> signers \<and>
      withdrawal_allowed r clk s (get_lamports (borrowed_from ic i) ta) lamports
        (get_data (borrowed_from ic i) ta) (get_data (borrowed_from ic i) ta')"
    and "unat (get_lamports (borrowed_from ic i) ta) = unat (get_lamports (borrowed_from ic i) ta') + unat lamports"
    and "unat (get_lamports (borrowed_from ic j) ta') = unat (get_lamports (borrowed_from ic j) ta) + unat lamports"
proof -
  let ?b = "borrowed_from ic i" and ?t = "borrowed_from ic j"
  obtain ta1 where debit: "with_account ic i (withdraw_from_vote_account env lamports signers r clk) ta = Inr ta1"
    and credit: "with_account ic j (\<lambda>acct. checked_add_lamports acct lamports) ta1 = Inr ta'"
    using assms(1) by (auto simp: withdraw_def and_then_Inr)
  have "confined.of_program (ic_program_account_index_in_tx ic) (ic_instruction_accounts ic) ic"
    by (simp add: confined.of_program_def)
  then have "confined (ic_program_account_index_in_tx ic) (ic_instruction_accounts ic) ta ta1"
    by (rule confined.with_account_keeps [OF _ confined.keeps_withdraw_from_vote_account wf debit])
  then have wf1: "ta_wf ta1"
    by (simp add: confined_def)
  obtain ta2 ta3 where idx: "ba_index ?b < length (ta_borrow_counters ta)"
    and ta2: "ta_shared ta2 = ta_shared ta" "ta_private ta2 = ta_private ta"
    and sub: "withdraw_from_vote_account env lamports signers r clk ?b ta2 = Inr ta3"
    and ta1: "ta1 = drop_account_ref_mut (ia_index_in_transaction (ic_instruction_accounts ic ! unat i)) ta3"
    by (rule with_account_cases [OF debit])
  obtain ta4 ta5 where j: "ba_index ?t < length (ta_borrow_counters ta1)"
    and ta4: "ta_shared ta4 = ta_shared ta1" "ta_private ta4 = ta_private ta1"
    and add: "checked_add_lamports ?t lamports ta4 = Inr ta5"
    and ta': "ta' = drop_account_ref_mut (ia_index_in_transaction (ic_instruction_accounts ic ! unat j)) ta5"
    by (rule with_account_cases [OF credit])
  have "ba_index ?b < length (ta_shared ta2)" "ba_index ?b < length (ta_private ta2)"
    using idx wf by (simp_all add: ta2 ta_wf_def)
  note out = withdraw_block_result [OF sub this]
  have "ba_index ?t < length (ta_shared ta4)"
    using j wf1 by (simp add: ta4 ta_wf_def)
  note into = checked_add_result [OF add this]
  show "\<exists>s. get_vote_state_handler_checked env ?b ta = Inr s \<and> v4_authorized_withdrawer s \<in> signers \<and>
      withdrawal_allowed r clk s (get_lamports ?b ta) lamports (get_data ?b ta) (get_data ?b ta')"
    using out(1) into(2) ta2 ta4 handler_checked_same [OF ta2]
    by (simp add: get_lamports_def get_data_def ta' ta1 drop_fields)
  show "unat (get_lamports ?b ta) = unat (get_lamports ?b ta') + unat lamports"
    using out(2) into(3) [OF assms(2)] ta2 ta4 by (simp add: get_lamports_def ta' ta1 drop_fields)
  show "unat (get_lamports ?t ta') = unat (get_lamports ?t ta) + unat lamports"
    using into(1) out(3) [OF assms(2) [symmetric]] ta2 ta4 by (simp add: get_lamports_def ta' ta1 drop_fields)
qed

text \<open>
  C13. A withdrawal to another account that succeeds was authorized by the withdrawer of the stored vote state and moves
  exactly the requested lamports to the second account. Either it takes the whole balance, and then
  no rewards of delegators were pending, the validator had no credits in this epoch or the one
  before and the data is cleared; or the lamports left cover the rent and the pending rewards.
\<close>

theorem vote_withdrawal_safe:
  assumes "vote_process_instruction cpi env ic (Withdraw lamports) ta = Some (Inr ta')" and "ta_wf ta"
    and "ba_index (borrowed_from ic 0) \<noteq> ba_index (borrowed_from ic 1)"
  shows "\<exists>s r clk. get_vote_state_handler_checked env (borrowed_from ic 0) ta = Inr s \<and>
    rent_sysvar env = Inr r \<and> clock_sysvar env = Inr clk \<and>
    v4_authorized_withdrawer s \<in> authority_keys env ic (Withdraw lamports) ta \<and>
    withdrawal_allowed r clk s (get_lamports (borrowed_from ic 0) ta) lamports
      (get_data (borrowed_from ic 0) ta) (get_data (borrowed_from ic 0) ta') \<and>
    unat (get_lamports (borrowed_from ic 0) ta) = unat (get_lamports (borrowed_from ic 0) ta') + unat lamports \<and>
    unat (get_lamports (borrowed_from ic 1) ta') = unat (get_lamports (borrowed_from ic 1) ta) + unat lamports"
proof -
  let ?b = "borrowed_from ic 0" and ?t = "borrowed_from ic 1"
  obtain me ta1 signers r clk where borrow: "try_borrow_instruction_account ic 0 ta = Inr (me, ta1)"
    and signers: "get_signers ic ta1 = Inr signers" and sysvars: "rent_sysvar env = Inr r" "clock_sysvar env = Inr clk"
    and go: "withdraw env ic 0 lamports 1 signers r clk (drop_borrowed me ta1) = Inr ta'"
    using assms(1) by (auto simp: vote_process_instruction_def on_withdraw_def result_ops split: if_splits)
  have "\<exists>i. try_borrow_mut i ta = Inr ta1"
    using borrow by (auto simp: try_borrow_instruction_account_def result_ops)
  then have same1: "ta_shared ta1 = ta_shared ta" "ta_private ta1 = ta_private ta"
    using try_borrow_mut_same by blast+
  let ?d = "drop_borrowed me ta1"
  have d: "sf_lamports (shared_at ?d k) = sf_lamports (shared_at ta k)" "ta_private ?d = ta_private ta"
    "length (ta_shared ?d) = length (ta_shared ta)" for k
    using same1 by (simp_all add: drop_borrowed_def drop_fields)
  have "confined.of_program (ic_program_account_index_in_tx ic) (ic_instruction_accounts ic) ic"
    by (simp add: confined.of_program_def)
  then have "ta_wf ta1"
    using confined.borrow_keeps(1) [OF _ assms(2) borrow] by (auto simp: confined_def)
  then have "ta_wf ?d"
    using confined.drop_keeps [OF confined.R_refl, of ta1] by (auto simp: confined_def)
  note result = withdraw_result [OF go assms(3) this]
  have keys: "authority_keys env ic (Withdraw lamports) ta = signers"
    using signers same_accounts_keys(1) [OF same1(1)] by (simp add: authority_keys_def)
  have handler: "get_vote_state_handler_checked env ?b ?d = get_vote_state_handler_checked env ?b ta"
    using handler_checked_same [OF same1] by simp
  have data: "get_data ?b ?d = get_data ?b ta" "get_lamports k ?d = get_lamports k ta" for k
    using d by (simp_all add: get_data_def get_lamports_def)
  show ?thesis
    using result sysvars unfolding keys handler data by blast
qed

subsection \<open>Balance\<close>

lemma spends_set_vote_account_state:
  assumes "set_vote_account_state env b st ta = Inr ta'"
  shows "spends {} {} 0 ta ta'"
proof -
  obtain ta1 where "ta1 = ta \<or> set_data_length b (vote_state_v4_size_of env) ta = Inr ta1"
    and state: "set_state (versions_serialize env) b (V4 st) ta1 = Inr ta'"
    using assms by (auto simp: set_vote_account_state_def result_ops Let_def split: if_splits sum.splits)
  then have "spends {} {} 0 ta ta1"
    using spends_set_data_length spends_same by blast
  then show ?thesis
    using spends_trans [OF _ spends_set_state [OF state]] by fastforce
qed

lemma spends_collector:
  assumes "with_new_collector_account ic me i block ta = Inr ta'"
    and "\<And>collector ta ta'. block collector ta = Inr ta' \<Longrightarrow> spends {} {} 0 ta ta'"
  shows "spends {} {} 0 ta ta'"
proof (rule collector_cases [OF assms(1)])
  fix collector ta1 ta2
  assume run: "block collector ta1 = Inr ta2" and same: "ta_shared ta1 = ta_shared ta" "ta_lamports_delta ta1 = ta_lamports_delta ta"
    and ta': "ta' = ta2 \<or> (\<exists>k. ta' = drop_account_ref_mut k ta2)"
  have "spends {} {} 0 ta2 ta'"
    using ta' spends_drop spends_same by blast
  then have "spends {} {} 0 ta1 ta'"
    using spends_trans [OF assms(2) [OF run]] by fastforce
  then show ?thesis
    using spends_trans [OF spends_same [OF same]] by fastforce
qed

lemma spends_initialize:
  "initialize_account env b init signers clk ta = Inr ta' \<Longrightarrow> spends {} {} 0 ta ta'"
  "initialize_account_v2 env b init2 c1 c2 signers clk r ta = Inr ta' \<Longrightarrow> spends {} {} 0 ta ta'"
  by (auto simp: initialize_account_def initialize_account_v2_def init_vote_account_state_def
      init_vote_account_state_v2_def and_then_Inr dest: spends_set_vote_account_state)

lemma spends_authorize: "authorize env b key kind signers clk enabled ta = Inr ta' \<Longrightarrow> spends {} {} 0 ta ta'"
  by (auto simp: authorize_def and_then_Inr dest: spends_set_vote_account_state)

lemma spends_authorize_with_seed:
  "process_authorize_with_seed_instruction env ic b key kind owner seed enabled ta = Inr ta' \<Longrightarrow> spends {} {} 0 ta ta'"
  unfolding process_authorize_with_seed_instruction_def and_then_Inr using spends_authorize by blast

lemma spends_updates:
  "update_validator_identity env b node signers enabled ta = Inr ta' \<Longrightarrow> spends {} {} 0 ta ta'"
  "update_commission env b c signers schedule clk disable ta = Inr ta' \<Longrightarrow> spends {} {} 0 ta ta'"
  "update_commission_bps env b bps kind signers enabled ta = Inr ta' \<Longrightarrow> spends {} {} 0 ta ta'"
  "update_commission_collector env b collector kind signers r ta = Inr ta' \<Longrightarrow> spends {} {} 0 ta ta'"
  by (auto simp: update_validator_identity_def update_commission_def update_commission_bps_def
      update_commission_collector_def and_then_Inr Let_def dest: spends_set_vote_account_state split: if_splits)

lemma spends_instructions:
  "on_initialize_account env ic signers init me ta = Inr ta' \<Longrightarrow> spends {} {} 0 ta ta'"
  "on_authorize env ic signers key kind me ta = Inr ta' \<Longrightarrow> spends {} {} 0 ta ta'"
  "on_authorize_checked env ic signers kind me ta = Inr ta' \<Longrightarrow> spends {} {} 0 ta ta'"
  "on_authorize_with_seed env ic signers kind owner seed key me ta = Inr ta' \<Longrightarrow> spends {} {} 0 ta ta'"
  "on_authorize_checked_with_seed env ic signers kind owner seed me ta = Inr ta' \<Longrightarrow> spends {} {} 0 ta ta'"
  "on_update_validator_identity env ic signers me ta = Inr ta' \<Longrightarrow> spends {} {} 0 ta ta'"
  "on_update_commission env ic signers c me ta = Inr ta' \<Longrightarrow> spends {} {} 0 ta ta'"
  "on_update_commission_bps env ic signers bps ckind me ta = Inr ta' \<Longrightarrow> spends {} {} 0 ta ta'"
  "on_update_commission_collector env ic signers ckind me ta = Inr ta' \<Longrightarrow> spends {} {} 0 ta ta'"
  "on_initialize_account_v2 env ic signers init2 me ta = Inr ta' \<Longrightarrow> spends {} {} 0 ta ta'"
  by (auto simp: on_initialize_account_def on_authorize_def on_authorize_checked_def on_authorize_with_seed_def
      on_authorize_checked_with_seed_def on_update_validator_identity_def on_update_commission_def
      on_update_commission_bps_def on_update_commission_collector_def on_initialize_account_v2_def and_then_Inr
      dest: spends_initialize spends_authorize spends_authorize_with_seed spends_updates elim!: spends_collector
      split: if_splits)

lemma spends_votes:
  "on_vote env ic signers v me ta = Some (Inr ta') \<Longrightarrow> spends {} {} 0 ta ta'"
  "on_update_vote_state env ic signers u me ta = Some (Inr ta') \<Longrightarrow> spends {} {} 0 ta ta'"
  "on_compact_update_vote_state env ic signers u me ta = Some (Inr ta') \<Longrightarrow> spends {} {} 0 ta ta'"
  "on_tower_sync env ic signers t me ta = Some (Inr ta') \<Longrightarrow> spends {} {} 0 ta ta'"
  by (auto simp: on_votes result_ops split: if_splits dest: spends_set_vote_account_state
      elim!: process_vote_stores process_vote_state_update_stores process_tower_sync_stores)

lemma spends_withdraw:
  assumes "withdraw env ic i lamports j signers r clk ta = Inr ta'"
  shows "spends {ba_index (borrowed_from ic i)} {} 0 ta ta'"
proof -
  obtain ta1 where debit: "with_account ic i (withdraw_from_vote_account env lamports signers r clk) ta = Inr ta1"
    and credit: "with_account ic j (\<lambda>acct. checked_add_lamports acct lamports) ta1 = Inr ta'"
    using assms by (auto simp: withdraw_def and_then_Inr)
  have block: "spends {ba_index b} {} (- uint lamports) ta ta'"
    if run: "withdraw_from_vote_account env lamports signers r clk b ta = Inr ta'" for b ta ta'
  proof -
    have deinit: "spends {} {} 0 ta ta1" if "deinitialize_vote_account_state b ta = Inr ta1" for ta1
      using that by (auto simp: deinitialize_vote_account_state_def get_data_mut_def spends_def writing_defs result_ops
          split: if_splits)
    obtain ta1 where "ta1 = ta \<or> deinitialize_vote_account_state b ta = Inr ta1"
      and sub: "checked_sub_lamports b lamports ta1 = Inr ta'"
      using run by (auto simp: withdraw_from_vote_account_def and_then_Inr split: if_splits)
    then have "spends {} {} 0 ta ta1"
      using deinit spends_same by blast
    then show ?thesis
      using spends_trans [OF _ spends_checked_sub [OF sub]] by fastforce
  qed
  have "spends {ba_index (borrowed_from ic i)} {} (- uint lamports) ta ta1"
    by (rule with_account_spends [OF debit]) (simp add: block)
  moreover have "spends {} {} (uint lamports) ta1 ta'"
    by (rule with_account_spends [OF credit]) (simp add: spends_checked_add)
  ultimately show ?thesis
    using spends_trans by fastforce
qed

lemma dropped_delta: "spends L W 0 ta ta1 \<Longrightarrow> ta_lamports_delta (drop_borrowed me ta1) = ta_lamports_delta ta"
  using spends_drop [of ta1] by (simp add: spends_def drop_borrowed_def)

lemma vote_dispatch_spends:
  assumes "vote_dispatch cpi env ic signers instruction me ta = Some (Inr ta')"
    and "\<And>n. instruction \<noteq> DepositDelegatorRewards n"
  shows "ta_lamports_delta ta' = ta_lamports_delta ta"
proof (cases instruction)
  case (Withdraw lamports)
  then obtain r clk where "withdraw env ic 0 lamports 1 signers r clk (drop_borrowed me ta) = Inr ta'"
    using assms(1) by (auto simp: on_withdraw_def and_then_Inr)
  then show ?thesis
    using spends_withdraw spends_drop [of ta] by (fastforce simp: spends_def drop_borrowed_def)
qed (use assms in \<open>auto simp: completed_Inr completed_vote_Inr
    intro: spends_instructions [THEN dropped_delta] spends_votes [THEN dropped_delta]\<close>)

lemma vote_process_cpi:
  assumes "\<And>n. instruction \<noteq> DepositDelegatorRewards n"
  shows "vote_process_instruction cpi env ic instruction ta = vote_process_instruction cpi' env ic instruction ta"
proof -
  have dispatch: "vote_dispatch cpi env ic signers instruction me ta = vote_dispatch cpi' env ic signers instruction me ta"
    for signers me ta
    using assms by (cases instruction) auto
  show ?thesis
    by (auto simp: vote_process_instruction_def and_then_some_def intro: dispatch split: sum.splits)
qed

definition no_cpi :: "pubkey \<Rightarrow> pubkey \<Rightarrow> u64 \<Rightarrow> transaction_accounts \<Rightarrow> transaction_accounts result" where
  "no_cpi _ _ _ _ = Inl GenericError"

text \<open>
  C40. The vote program stays within the rules of the runtime and conserves lamports: after any
  instruction but a deposit, which calls the system program, that succeeds, the accounts are well
  formed and together hold as many lamports as before, an account that is not writable is
  unchanged, and an account that the program does not own keeps its owner and data and loses no
  lamports.
\<close>

theorem vote_program_confined:
  assumes "vote_process_instruction cpi env ic instruction ta = Some (Inr ta')" and "ta_wf ta"
    and "\<forall>n. instruction \<noteq> DepositDelegatorRewards n"
  shows "ta_wf ta' \<and> total_lamports ta' = total_lamports ta \<and>
    (\<not> writable_in (ic_instruction_accounts ic) i \<longrightarrow>
       shared_at ta' i = shared_at ta i \<and> private_at ta' i = private_at ta i) \<and>
    (\<not> owned_by_program (ic_program_account_index_in_tx ic) ta i \<longrightarrow> protected i ta ta')"
proof -
  have run: "vote_process_instruction no_cpi env ic instruction ta = Some (Inr ta')"
    using assms(1,3) vote_process_cpi by metis
  have conf: "confined (ic_program_account_index_in_tx ic) (ic_instruction_accounts ic) ta ta'"
    by (rule confined.vote_process_keeps [OF _ assms(2) run]) (simp_all add: confined.of_program_def no_cpi_def)
  obtain me ta1 signers where borrow: "try_borrow_instruction_account ic 0 ta = Inr (me, ta1)"
    and dispatch: "vote_dispatch cpi env ic signers instruction me ta1 = Some (Inr ta')"
    using assms(1) by (auto simp: vote_process_instruction_def result_ops split: if_splits)
  have "ta_lamports_delta ta1 = ta_lamports_delta ta"
    using borrow try_borrow_mut_same by (auto simp: try_borrow_instruction_account_def result_ops)
  then have "ta_lamports_delta ta' = ta_lamports_delta ta"
    using vote_dispatch_spends [OF dispatch] assms(3) by simp
  then have "total_lamports ta' = total_lamports ta"
    using conf by (simp add: confined_def keeps_totals_def initial_lamports_def)
  then show ?thesis
    using conf by (simp add: confined_def)
qed

subsection \<open>An example\<close>

text \<open>A vote account with 100 lamports, its withdrawer, the vote program and somebody else.\<close>

definition example_vote_state :: vote_state_v4 where
  "example_vote_state = example_votes\<lparr>v4_authorized_withdrawer := 22, v4_pending_delegator_rewards := 10,
     v4_inflation_rewards_commission_bps := 500\<rparr>"

definition example_vote_accounts :: transaction_accounts where
  "example_vote_accounts = transaction_accounts_new
     [(21, example_account 20 100 [1, 0]), (22, example_account 0 5 []), (20, example_account 5 1 []),
      (24, example_account 0 7 [])]"

definition example_rent :: rent where
  "example_rent = \<lparr>rent_is_exempt = (\<lambda>lamports _. 50 \<le> lamports), rent_min_balance = (\<lambda>_. 50)\<rparr>"

text \<open>The encoding of the example can store the example state with a commission of 5 or 4 percent.\<close>

definition example_vote_env :: vote_env where
  "example_vote_env = \<lparr>
     vote_interface_of = doubling_lockouts,
     vote_program_id = 20,
     vote_system_program_id = 0,
     vote_error_code = (\<lambda>_. 0),
     vote_create_with_seed = (\<lambda>base _ owner. Inr (base + owner)),
     versions_deserialize = (\<lambda>data. case data of
         [] \<Rightarrow> Inl InvalidAccountData
       | tag # _ \<Rightarrow> if tag = 1 then Inr (V4 example_vote_state)
           else if tag = 2 then Inr (V4 (set_commission 4 example_vote_state)) else Inl InvalidAccountData),
     versions_bincode_deserialize = (\<lambda>_. None),
     versions_serialize = (\<lambda>v. if v = V4 example_vote_state then Some [1]
         else if v = V4 (set_commission 4 example_vote_state) then Some [2] else None),
     versions_is_uninitialized = (\<lambda>v. v = Uninitialized),
     vote_state_v4_size_of = 2,
     vote_state_v4_new_with_defaults = (\<lambda>_ _ _. example_vote_state),
     vote_state_v4_new = (\<lambda>_ _ _ _. example_vote_state),
     av_get_and_cache = (\<lambda>epoch voters. (map_of voters epoch, voters)),
     av_purge = (\<lambda>epoch. filter (\<lambda>e. epoch \<le> fst e)),
     av_contains = (\<lambda>epoch voters. epoch \<in> fst ` set voters),
     av_insert = bt_insert,
     bls_verify = (\<lambda>_ _ _. True),
     transaction_rent = example_rent,
     compute_meter = 200000,
     clock_id = 30,
     clock_sysvar = Inr \<lparr>clock_slot = 10, clock_epoch = 3, clock_leader_schedule_epoch = 4\<rparr>,
     rent_sysvar_id = 31,
     rent_sysvar = Inr example_rent,
     slot_hashes_id = 32,
     slot_hashes_sysvar = Inr [],
     epoch_schedule_sysvar = Inr \<lparr>es_first_normal_slot = 0, es_slots_per_epoch = 32\<rparr>,
     bls_pubkey_management_in_vote_account = False,
     commission_rate_in_basis_points = True,
     custom_commission_collector = True,
     block_revenue_sharing = True,
     vote_account_initialize_v2 = False,
     delay_commission_updates = True,
     deprecate_legacy_vote_ixs = False,
     alpenglow_migration_succeeded = False\<rparr>"

definition example_vote_ic :: "index_of_account \<Rightarrow> instruction_context" where
  "example_vote_ic signer = \<lparr>ic_index_in_trace = 0, ic_nesting_level = 0, ic_index_of_caller_instruction = 0,
     ic_program_account_index_in_tx = 2,
     ic_instruction_accounts = [instruction_account_new 0 False True, instruction_account_new signer True True],
     ic_dedup_map = [0, 1, 255], ic_instruction_data = []\<rparr>"

lemma example_commissions: "set_commission 4 example_vote_state \<noteq> example_vote_state"
proof
  assume "set_commission 4 example_vote_state = example_vote_state"
  then have "v4_inflation_rewards_commission_bps (set_commission 4 example_vote_state) =
      v4_inflation_rewards_commission_bps example_vote_state"
    by simp
  then show False
    by (simp add: set_commission_def example_vote_state_def)
qed

lemma example_vote_laws: "vote_state_laws example_vote_env"
  using example_commissions by (auto simp: vote_state_laws_def example_vote_env_def split: if_splits)

lemma example_vote_accounts_simps:
  "example_vote_accounts = \<lparr>
     ta_shared =
       [\<lparr>sf_key = 21, sf_owner = 20, sf_lamports = 100, sf_payload = \<lparr>vs_ptr = 34359738368, vs_len = 2\<rparr>\<rparr>,
        \<lparr>sf_key = 22, sf_owner = 0, sf_lamports = 5, sf_payload = \<lparr>vs_ptr = 38654705664, vs_len = 0\<rparr>\<rparr>,
        \<lparr>sf_key = 20, sf_owner = 5, sf_lamports = 1, sf_payload = \<lparr>vs_ptr = 42949672960, vs_len = 0\<rparr>\<rparr>,
        \<lparr>sf_key = 24, sf_owner = 0, sf_lamports = 7, sf_payload = \<lparr>vs_ptr = 47244640256, vs_len = 0\<rparr>\<rparr>],
     ta_private =
       [\<lparr>pf_rent_epoch = 0, pf_executable = False, pf_payload = [1, 0]\<rparr>,
        \<lparr>pf_rent_epoch = 0, pf_executable = False, pf_payload = []\<rparr>,
        \<lparr>pf_rent_epoch = 0, pf_executable = False, pf_payload = []\<rparr>,
        \<lparr>pf_rent_epoch = 0, pf_executable = False, pf_payload = []\<rparr>],
     ta_borrow_counters = [0, 0, 0, 0],
     ta_touched_flags = [False, False, False, False],
     ta_resize_delta = 0,
     ta_lamports_delta = 0\<rparr>"
  by (simp add: example_vote_accounts_def transaction_accounts_new_def example_account_def
      guest_account_payload_base_address_def guest_region_size_def saturating_add_def saturating_mul_def)

lemma example_vote_accounts_wf: "ta_wf example_vote_accounts"
  by (auto simp: ta_wf_def example_vote_accounts_simps less_Suc_eq)

lemmas example_vote_simps = example_vote_ic_def example_vote_accounts_simps instruction_account_new_def
  with_account_def try_borrow_instruction_account_def slice_get_def
  try_borrow_mut_def borrow_counter_defs drop_account_ref_mut_def drop_borrowed_def check_number_of_instruction_accounts_def
  get_number_of_instruction_accounts_def get_key_of_instruction_account_def
  get_index_of_instruction_account_in_transaction_def get_key_of_account_at_index_def account_key_def
  is_instruction_account_signer_def get_signers_def ia_signer_def ia_writable_def is_writable_def
  reading_defs writing_defs is_owned_by_current_program_def set_lamports_def checked_add_lamports_def
  checked_sub_lamports_def checked_add_def checked_sub_def add_lamports_delta_def in_i128_def
  get_vote_state_handler_checked_def verify_authorized_signer_def and_then_some_def

lemma example_withdrawal_runs:
  "case vote_process_instruction no_cpi example_vote_env (example_vote_ic 1) (Withdraw 40) example_vote_accounts of
     Some (Inr ta) \<Rightarrow> map sf_lamports (ta_shared ta) = [60, 45, 1, 7] | _ \<Rightarrow> False"
  by (simp add: vote_process_instruction_def on_withdraw_def withdraw_def withdraw_from_vote_account_def
      example_vote_env_def example_vote_simps example_rent_def example_vote_state_def authorized_withdrawer_def
      pending_delegator_rewards_def)

lemma example_withdrawal:
  obtains ta' where
    "vote_process_instruction no_cpi example_vote_env (example_vote_ic 1) (Withdraw 40) example_vote_accounts = Some (Inr ta')"
    "map sf_lamports (ta_shared ta') = [60, 45, 1, 7]"
  using example_withdrawal_runs by (auto split: option.splits sum.splits)

theorem vote_withdrawal_safe_witness:
  "\<exists>ta'. vote_process_instruction no_cpi example_vote_env (example_vote_ic 1) (Withdraw 40) example_vote_accounts =
      Some (Inr ta') \<and>
    unat (get_lamports (borrowed_from (example_vote_ic 1) 1) ta') =
      unat (get_lamports (borrowed_from (example_vote_ic 1) 1) example_vote_accounts) + unat (40 :: u64)"
proof -
  have distinct: "ba_index (borrowed_from (example_vote_ic 1) 0) \<noteq> ba_index (borrowed_from (example_vote_ic 1) 1)"
    by (simp add: borrowed_from_def example_vote_ic_def instruction_account_new_def)
  obtain ta' where run: "vote_process_instruction no_cpi example_vote_env (example_vote_ic 1) (Withdraw 40)
      example_vote_accounts = Some (Inr ta')"
    by (rule example_withdrawal)
  then show ?thesis
    using vote_withdrawal_safe [OF run example_vote_accounts_wf distinct] by blast
qed

theorem vote_program_confined_witness:
  "\<exists>ta'. vote_process_instruction no_cpi example_vote_env (example_vote_ic 1) (Withdraw 40) example_vote_accounts =
      Some (Inr ta') \<and>
    total_lamports ta' = total_lamports example_vote_accounts \<and> protected 1 example_vote_accounts ta'"
proof -
  have other: "\<not> owned_by_program (ic_program_account_index_in_tx (example_vote_ic 1)) example_vote_accounts 1"
    by (simp add: owned_by_program_def example_vote_simps)
  obtain ta' where run: "vote_process_instruction no_cpi example_vote_env (example_vote_ic 1) (Withdraw 40)
      example_vote_accounts = Some (Inr ta')"
    by (rule example_withdrawal)
  then show ?thesis
    using vote_program_confined [OF run example_vote_accounts_wf, of 1] other by simp
qed

text \<open>Somebody else deposits nothing, so the settings must stay.\<close>

definition empty_transfer :: "pubkey \<Rightarrow> pubkey \<Rightarrow> u64 \<Rightarrow> transaction_accounts \<Rightarrow> transaction_accounts result" where
  "empty_transfer _ _ _ ta = Inr ta"

lemma example_deposit_runs:
  "case vote_process_instruction empty_transfer example_vote_env (example_vote_ic 3) (DepositDelegatorRewards 0)
      example_vote_accounts of Some (Inr ta) \<Rightarrow> True | _ \<Rightarrow> False"
proof -
  have "example_vote_state\<lparr>v4_pending_delegator_rewards := 10\<rparr> = example_vote_state"
    by (simp add: example_vote_state_def)
  moreover have "v4_pending_delegator_rewards example_vote_state = 10"
    by (simp add: example_vote_state_def)
  ultimately show ?thesis
    by (simp add: vote_process_instruction_def on_deposit_delegator_rewards_def deposit_delegator_rewards_def
        example_vote_env_def example_vote_simps set_vote_account_state_def set_state_def get_data_mut_def
        can_data_be_changed_def empty_transfer_def add_pending_delegator_rewards_def)
qed

lemma example_deposit_keys:
  "v4_authorized_withdrawer example_vote_state \<notin>
     authority_keys example_vote_env (example_vote_ic 3) (DepositDelegatorRewards 0) example_vote_accounts"
  by (simp add: authority_keys_def example_vote_simps) (simp add: example_vote_state_def)

lemma example_stored_state:
  "get_vote_state_handler_checked example_vote_env (borrowed_from (example_vote_ic i) 0) example_vote_accounts =
     Inr example_vote_state"
  by (simp add: borrowed_from_def example_vote_env_def example_vote_simps)

theorem vote_account_controlled_witness:
  "\<exists>ta' s'. vote_process_instruction empty_transfer example_vote_env (example_vote_ic 3) (DepositDelegatorRewards 0)
      example_vote_accounts = Some (Inr ta') \<and>
    get_vote_state_handler_checked example_vote_env (borrowed_from (example_vote_ic 3) 0) ta' = Inr s' \<and>
    settings s' = settings example_vote_state"
proof -
  obtain ta' where run: "vote_process_instruction empty_transfer example_vote_env (example_vote_ic 3)
      (DepositDelegatorRewards 0) example_vote_accounts = Some (Inr ta')"
    using example_deposit_runs by (auto split: option.splits sum.splits)
  have "\<forall>src dst n ta ta'. empty_transfer src dst n ta = Inr ta' \<longrightarrow> length (ta_private ta') = length (ta_private ta)"
    by (simp add: empty_transfer_def)
  then show ?thesis
    using vote_account_controlled [OF example_vote_laws example_vote_accounts_wf run example_stored_state]
      run example_deposit_keys by blast
qed

end
