(* ===== verification/Invoke_Context.thy ===== *)
theory Invoke_Context
  imports Instruction_Stack
begin

section \<open>Invoking programs\<close>

text \<open>
  How a transaction runs its instructions and how a program calls another one:
  \<open>src/program-runtime/src/invoke_context.rs\<close>. The invoke context is the transaction context with the
  compute meter.

  \<^item> What a program does between its calls is outside the model: a program is a tree of changes of the
    accounts and the meter and of calls of other programs, and the programs of a transaction are a
    function from the address of the built-in program that runs it, the program cache, to such
    trees. A program ends at the first call that fails, as the built-in programs do.
  \<^item> The addresses of the loaders, the derivation of program addresses and the precompiled programs
    belong to crates outside the repository; they are the record \<open>runtime_env\<close>.
  \<^item> Logs, timings and the memory of the virtual machine are left out.
  \<^item> An operation that returns an error is followed by the end of the transaction, but
    \<open>process_instruction\<close> pops the instruction all the same, so operations on the context return
    it also with an error. \<open>None\<close> is a panic.
\<close>

record account_meta =
  am_pubkey :: pubkey
  am_is_signer :: bool
  am_is_writable :: bool

record instruction =
  ins_program_id :: pubkey
  ins_accounts :: "account_meta list"
  ins_data :: "u8 list"

definition max_accounts_per_transaction :: nat where
  "max_accounts_per_transaction = 256"

definition get_number_of_accounts :: "transaction_context \<Rightarrow> index_of_account" where
  "get_number_of_accounts tc = of_nat (length (ta_shared (tc_accounts tc)))"

subsection \<open>The accounts of a called instruction\<close>

text \<open>
  The first occurrence of an account collects the rights that the caller passes with any occurrence.
  The state is the map from the accounts of the transaction to their first occurrence, and the
  accounts so far.
\<close>

definition merge_rights :: "bool \<Rightarrow> bool \<Rightarrow> instruction_account \<Rightarrow> instruction_account" where
  "merge_rights signer writable ia =
     ia_set_is_writable (ia_writable ia \<or> writable) (ia_set_is_signer (ia_signer ia \<or> signer) ia)"

definition collect_account ::
  "index_of_account \<Rightarrow> account_meta \<Rightarrow> u16 list \<times> instruction_account list \<Rightarrow>
   (u16 list \<times> instruction_account list) option" where
  "collect_account index_in_transaction meta st =
     (case st of (callee_map, accounts) \<Rightarrow>
      Option.bind (slice_get callee_map (unat index_in_transaction)) (\<lambda>index_in_callee.
      if unat index_in_callee < length accounts
      then let ia = merge_rights (am_is_signer meta) (am_is_writable meta) (accounts ! unat index_in_callee)
           in Some (callee_map, accounts[unat index_in_callee := ia] @ [ia])
      else Some (callee_map[unat index_in_transaction := of_nat (length accounts)],
             accounts @ [instruction_account_new index_in_transaction (am_is_signer meta) (am_is_writable meta)])))"

fun collect_accounts ::
  "transaction_context \<Rightarrow> account_meta list \<Rightarrow> u16 list \<times> instruction_account list \<Rightarrow>
   (u16 list \<times> instruction_account list) result option" where
  "collect_accounts tc [] st = Some (Inr st)"
| "collect_accounts tc (meta # metas) st =
     (case find_index_of_account (am_pubkey meta) tc of
        None \<Rightarrow> Some (Inl MissingAccount)
      | Some index_in_transaction \<Rightarrow>
          Option.bind (collect_account index_in_transaction meta st) (collect_accounts tc metas))"

text \<open>
  Later occurrences get the rights of the first; the rights of the first are checked against the
  caller's.
\<close>

definition check_account ::
  "instruction_context \<Rightarrow> account_meta list \<Rightarrow> pubkey list \<Rightarrow> u16 list \<Rightarrow> nat \<Rightarrow> instruction_account list \<Rightarrow>
   instruction_account list result option" where
  "check_account ic metas signers callee_map current_index accounts =
     (let ia = accounts ! current_index in
      Option.bind (slice_get callee_map (unat (ia_index_in_transaction ia))) (\<lambda>index_in_callee.
      if current_index \<noteq> unat index_in_callee
      then Some (and_then (ok_or MissingAccount (slice_get accounts (unat index_in_callee))) (\<lambda>reference_account.
           Inr (accounts[current_index :=
             merge_rights (ia_signer reference_account) (ia_writable reference_account) ia])))
      else Some (and_then (get_index_of_account_in_instruction ic (ia_index_in_transaction ia)) (\<lambda>index_in_caller.
           let account_key = am_pubkey (metas ! current_index);
               caller_account = ic_instruction_accounts ic ! unat index_in_caller
           in if ia_writable ia \<and> \<not> ia_writable caller_account then Inl PrivilegeEscalation
              else if ia_signer ia \<and> \<not> (ia_signer caller_account \<or> account_key \<in> set signers)
              then Inl PrivilegeEscalation
              else Inr accounts))))"

fun check_accounts ::
  "instruction_context \<Rightarrow> account_meta list \<Rightarrow> pubkey list \<Rightarrow> u16 list \<Rightarrow> nat list \<Rightarrow> instruction_account list \<Rightarrow>
   instruction_account list result option" where
  "check_accounts ic metas signers callee_map [] accounts = Some (Inr accounts)"
| "check_accounts ic metas signers callee_map (current_index # rest) accounts =
     (case check_account ic metas signers callee_map current_index accounts of
        None \<Rightarrow> None
      | Some (Inl e) \<Rightarrow> Some (Inl e)
      | Some (Inr accounts) \<Rightarrow> check_accounts ic metas signers callee_map rest accounts)"

definition callee_accounts ::
  "transaction_context \<Rightarrow> instruction_context \<Rightarrow> account_meta list \<Rightarrow> pubkey list \<Rightarrow>
   (u16 list \<times> instruction_account list) result option" where
  "callee_accounts tc ic metas signers =
     (let callee_map = replicate (min (unat (get_number_of_accounts tc)) max_accounts_per_transaction) (- 1) in
      case collect_accounts tc metas (callee_map, []) of
        None \<Rightarrow> None
      | Some (Inl e) \<Rightarrow> Some (Inl e)
      | Some (Inr (callee_map, accounts)) \<Rightarrow>
          map_option (\<lambda>r. and_then r (\<lambda>accounts. Inr (callee_map, accounts)))
            (check_accounts ic metas signers callee_map [0..<length accounts] accounts))"

definition prepare_next_cpi_instruction ::
  "instruction \<Rightarrow> pubkey list \<Rightarrow> transaction_context \<Rightarrow> transaction_context result option" where
  "prepare_next_cpi_instruction ins signers tc =
     (case get_current_instruction_context tc of
        Inl e \<Rightarrow> Some (Inl e)
      | Inr ic \<Rightarrow>
          (case callee_accounts tc ic (ins_accounts ins) signers of
             None \<Rightarrow> None
           | Some (Inl e) \<Rightarrow> Some (Inl e)
           | Some (Inr (callee_map, accounts)) \<Rightarrow>
               Some (and_then (ok_or MissingAccount (find_index_of_account (ins_program_id ins) tc)) (\<lambda>program_index.
                     and_then (get_index_of_account_in_instruction ic program_index) (\<lambda>_.
                     and_then (get_current_instruction_index tc) (\<lambda>caller_index.
                     configure_instruction_at_index (get_instruction_trace_length tc) program_index accounts callee_map
                       (ins_data ins) (Some (of_nat caller_index)) tc))))))"


subsection \<open>Running a program\<close>

record invoke_context =
  inv_transaction_context :: transaction_context
  inv_compute_meter :: u64

text \<open>
  A program ends, or stores accounts and consumes compute units, or calls another program with the
  seeds of the addresses it signs for and goes on with the accounts and units that are left.
\<close>

datatype program =
    Finish "unit result"
  | Work transaction_accounts u64 program
  | Call instruction "u8 list list list" "transaction_accounts \<times> u64 \<Rightarrow> program"

record runtime_env =
  native_loader_id :: pubkey
  loader_ids :: "pubkey list"
  program_cache :: "pubkey \<Rightarrow> (instruction_context \<Rightarrow> transaction_accounts \<times> u64 \<Rightarrow> program) option"
  create_program_address :: "u8 list list \<Rightarrow> pubkey \<Rightarrow> pubkey result"
  is_precompile :: "pubkey \<Rightarrow> bool"
  run_precompile :: "pubkey \<Rightarrow> u8 list \<Rightarrow> u8 list list \<Rightarrow> unit result"
  instructions_sysvar_of :: instructions_sysvar

type_synonym outcome = "(unit result \<times> invoke_context) option"

definition program_at_level :: "transaction_context \<Rightarrow> nat \<Rightarrow> pubkey result" where
  "program_at_level tc level =
     and_then (get_instruction_context_at_nesting_level tc level) (\<lambda>ic. get_program_key ic (tc_accounts tc))"

definition current_program :: "transaction_context \<Rightarrow> pubkey result" where
  "current_program tc =
     and_then (get_current_instruction_context tc) (\<lambda>ic. get_program_key ic (tc_accounts tc))"

definition is_reentrant :: "pubkey \<Rightarrow> transaction_context \<Rightarrow> bool" where
  "is_reentrant program_id tc \<longleftrightarrow>
     tc_instruction_stack tc \<noteq> [] \<and>
     list_ex (\<lambda>level. program_at_level tc level = Inr program_id) [0..<length (tc_instruction_stack tc)] \<and>
     current_program tc \<noteq> Inr program_id"

definition invoke_push :: "runtime_env \<Rightarrow> transaction_context \<Rightarrow> unit result \<times> transaction_context" where
  "invoke_push env tc =
     (case get_next_instruction_context tc of
        Inl e \<Rightarrow> (Inl e, tc)
      | Inr ic \<Rightarrow>
          (case get_program_key ic (tc_accounts tc) of
             Inl _ \<Rightarrow> (Inl UnsupportedProgramId, tc)
           | Inr program_id \<Rightarrow>
               if is_reentrant program_id tc then (Inl ReentrancyNotAllowed, tc)
               else push_instruction (instructions_sysvar_of env) tc))"

primrec run_program ::
  "(instruction \<Rightarrow> u8 list list list \<Rightarrow> invoke_context \<Rightarrow> outcome) \<Rightarrow> program \<Rightarrow> invoke_context \<Rightarrow> outcome" where
  "run_program invoke (Finish r) = (\<lambda>c. Some (r, c))"
| "run_program invoke (Work ta units rest) = (\<lambda>c.
     run_program invoke rest (c\<lparr>
       inv_transaction_context := (inv_transaction_context c)\<lparr>tc_accounts := ta\<rparr>,
       inv_compute_meter := saturating_sub (inv_compute_meter c) units\<rparr>))"
| "run_program invoke (Call ins seeds rest) = (\<lambda>c.
     case invoke ins seeds c of
       None \<Rightarrow> None
     | Some (Inl e, c) \<Rightarrow> Some (Inl e, c)
     | Some (Inr (), c) \<Rightarrow>
         run_program invoke (rest (tc_accounts (inv_transaction_context c), inv_compute_meter c)) c)"

definition find_builtin :: "runtime_env \<Rightarrow> instruction_context \<Rightarrow> transaction_accounts \<Rightarrow> pubkey result" where
  "find_builtin env ic ta =
     and_then (get_program_owner ic ta) (\<lambda>owner_id.
     if owner_id = native_loader_id env then get_program_key ic ta
     else if owner_id \<in> set (loader_ids env) then Inr owner_id
     else Inl UnsupportedProgramId)"

text \<open>
  The entry point of a built-in program that calls no other program: it pays a fixed number of compute
  units and then processes the instruction. If this fails, the accounts are those before it, since the
  transaction is discarded.
\<close>

definition consume_checked :: "u64 \<Rightarrow> u64 \<Rightarrow> unit result \<times> u64" where
  "consume_checked amount compute_meter =
     (if compute_meter < amount then Inl ComputationalBudgetExceeded else Inr (), saturating_sub compute_meter amount)"

definition declare_process_instruction ::
  "u64 \<Rightarrow> (instruction_context \<Rightarrow> transaction_accounts \<Rightarrow> transaction_accounts result) \<Rightarrow>
   instruction_context \<Rightarrow> transaction_accounts \<times> u64 \<Rightarrow> program" where
  "declare_process_instruction cu_to_consume inner ic st =
     (case st of (ta, compute_meter) \<Rightarrow>
      Work ta cu_to_consume
        (case (if 0 < cu_to_consume then fst (consume_checked cu_to_consume compute_meter) else Inr ()) of
           Inl e \<Rightarrow> Finish (Inl e)
         | Inr () \<Rightarrow>
             (case inner ic ta of
                Inl e \<Rightarrow> Finish (Inl e)
              | Inr ta \<Rightarrow> Work ta 0 (Finish (Inr ())))))"

text \<open>The compute units that the program consumed are the last part of the result.\<close>

definition process_executable_chain ::
  "runtime_env \<Rightarrow> (instruction \<Rightarrow> u8 list list list \<Rightarrow> invoke_context \<Rightarrow> outcome) \<Rightarrow> invoke_context \<Rightarrow>
   (unit result \<times> invoke_context \<times> u64) option" where
  "process_executable_chain env invoke c =
     (let tc = inv_transaction_context c; ta = tc_accounts tc in
      case and_then (get_current_instruction_context tc) (\<lambda>ic.
           and_then (find_builtin env ic ta) (\<lambda>builtin_id.
           and_then (ok_or UnsupportedProgramId (program_cache env builtin_id)) (\<lambda>entry.
           and_then (get_program_key ic ta) (\<lambda>program_id. Inr (builtin_id, program_id, entry ic))))) of
        Inl e \<Rightarrow> Some (Inl e, c, 0)
      | Inr (builtin_id, program_id, entry) \<Rightarrow>
          let pre_remaining_units = inv_compute_meter c in
          map_option (\<lambda>(result, c).
            let compute_units_consumed = saturating_sub pre_remaining_units (inv_compute_meter c)
            in (if builtin_id = program_id \<and> result = Inr () \<and> compute_units_consumed = 0
                then Inl BuiltinProgramsMustConsumeComputeUnits else result,
                c, compute_units_consumed))
            (run_program invoke (entry (ta, pre_remaining_units))
               (c\<lparr>inv_transaction_context := set_return_data program_id [] tc\<rparr>)))"

text \<open>The instruction is popped if it was pushed, whatever the result.\<close>

definition popped :: "unit result \<Rightarrow> invoke_context \<Rightarrow> unit result \<times> invoke_context" where
  "popped result c =
     (case pop_instruction (inv_transaction_context c) of
        (r, tc) \<Rightarrow> (and_then result (\<lambda>_. r), c\<lparr>inv_transaction_context := tc\<rparr>))"

definition process_instruction ::
  "runtime_env \<Rightarrow> (instruction \<Rightarrow> u8 list list list \<Rightarrow> invoke_context \<Rightarrow> outcome) \<Rightarrow> invoke_context \<Rightarrow>
   (unit result \<times> invoke_context \<times> u64) option" where
  "process_instruction env invoke c =
     (case invoke_push env (inv_transaction_context c) of
        (Inl e, tc) \<Rightarrow> Some (Inl e, c\<lparr>inv_transaction_context := tc\<rparr>, 0)
      | (Inr (), tc) \<Rightarrow>
          map_option (\<lambda>(result, c, consumed). case popped result c of (result, c) \<Rightarrow> (result, c, consumed))
            (process_executable_chain env invoke (c\<lparr>inv_transaction_context := tc\<rparr>)))"

fun derive_signers :: "runtime_env \<Rightarrow> pubkey \<Rightarrow> u8 list list list \<Rightarrow> pubkey list result" where
  "derive_signers env program_id [] = Inr []"
| "derive_signers env program_id (seeds # rest) =
     and_then (create_program_address env seeds program_id) (\<lambda>signer.
     and_then (derive_signers env program_id rest) (\<lambda>signers. Inr (signer # signers)))"

definition invoke_step ::
  "runtime_env \<Rightarrow> (instruction \<Rightarrow> u8 list list list \<Rightarrow> invoke_context \<Rightarrow> outcome) \<Rightarrow>
   instruction \<Rightarrow> u8 list list list \<Rightarrow> invoke_context \<Rightarrow> outcome" where
  "invoke_step env invoke ins signer_seeds c =
     (let tc = inv_transaction_context c in
      case and_then (current_program tc) (\<lambda>caller_program_id. derive_signers env caller_program_id signer_seeds) of
        Inl e \<Rightarrow> Some (Inl e, c)
      | Inr signers \<Rightarrow>
          (case prepare_next_cpi_instruction ins signers tc of
             None \<Rightarrow> None
           | Some (Inl e) \<Rightarrow> Some (Inl e, c)
           | Some (Inr tc) \<Rightarrow>
               map_option (\<lambda>(result, c, _). (result, c))
                 (process_instruction env invoke (c\<lparr>inv_transaction_context := tc\<rparr>))))"

text \<open>
  A call runs a program, which can call again. The fuel bounds the depth of the calls; without fuel
  there is no result.
\<close>

fun native_invoke_signed ::
  "nat \<Rightarrow> runtime_env \<Rightarrow> instruction \<Rightarrow> u8 list list list \<Rightarrow> invoke_context \<Rightarrow> outcome" where
  "native_invoke_signed 0 env ins signer_seeds c = None"
| "native_invoke_signed (Suc fuel) env ins signer_seeds c =
     invoke_step env (native_invoke_signed fuel env) ins signer_seeds c"

subsection \<open>Running a transaction\<close>

text \<open>
  The message of a transaction names its accounts by their position. A message is sanitized before it
  gets here; a position out of range is a panic.
\<close>

record compiled_instruction =
  ci_program_id_index :: u8
  ci_accounts :: "u8 list"
  ci_data :: "u8 list"

record message =
  msg_account_keys :: "pubkey list"
  msg_is_signer :: "nat \<Rightarrow> bool"
  msg_is_writable :: "nat \<Rightarrow> bool"
  msg_instructions :: "compiled_instruction list"

fun top_level_accounts ::
  "message \<Rightarrow> u8 list \<Rightarrow> u16 list \<times> instruction_account list \<Rightarrow> (u16 list \<times> instruction_account list) option" where
  "top_level_accounts message [] st = Some st"
| "top_level_accounts message (index # rest) (callee_map, accounts) =
     Option.bind (slice_get callee_map (unat index)) (\<lambda>index_in_callee.
     top_level_accounts message rest
       (if length accounts < unat index_in_callee then callee_map[unat index := of_nat (length accounts)] else callee_map,
        accounts @ [instruction_account_new (of_nat (unat index)) (msg_is_signer message (unat index))
          (msg_is_writable message (unat index))]))"

fun prepare_top_level_instructions ::
  "message \<Rightarrow> nat \<Rightarrow> compiled_instruction list \<Rightarrow> transaction_context \<Rightarrow>
   ((u8 \<times> instruction_error) + transaction_context) option" where
  "prepare_top_level_instructions message i [] tc = Some (Inr tc)"
| "prepare_top_level_instructions message i (ins # rest) tc =
     Option.bind (slice_get (msg_account_keys message) (unat (ci_program_id_index ins))) (\<lambda>_.
     Option.bind (top_level_accounts message (ci_accounts ins)
         (replicate (min (length (msg_account_keys message)) max_accounts_per_transaction) (- 1), []))
       (\<lambda>(callee_map, accounts).
          case configure_instruction_at_index i (ucast (ci_program_id_index ins)) accounts callee_map (ci_data ins) None tc of
            Inl e \<Rightarrow> Some (Inl (of_nat i, e))
          | Inr tc \<Rightarrow> prepare_top_level_instructions message (Suc i) rest tc))"

definition process_precompile ::
  "runtime_env \<Rightarrow> pubkey \<Rightarrow> u8 list \<Rightarrow> u8 list list \<Rightarrow> invoke_context \<Rightarrow> unit result \<times> invoke_context" where
  "process_precompile env program_id data datas c =
     (case invoke_push env (inv_transaction_context c) of
        (Inl e, tc) \<Rightarrow> (Inl e, c\<lparr>inv_transaction_context := tc\<rparr>)
      | (Inr (), tc) \<Rightarrow> popped (run_precompile env program_id data datas) (c\<lparr>inv_transaction_context := tc\<rparr>))"

text \<open>The instructions from index \<open>i\<close> on; the units consumed by all of them are accumulated.\<close>

fun process_instructions ::
  "nat \<Rightarrow> runtime_env \<Rightarrow> message \<Rightarrow> nat \<Rightarrow> compiled_instruction list \<Rightarrow> invoke_context \<Rightarrow> u64 \<Rightarrow>
   (((u8 \<times> instruction_error) + unit) \<times> invoke_context \<times> u64) option" where
  "process_instructions fuel env message i [] c accumulated = Some (Inr (), c, accumulated)"
| "process_instructions fuel env message i (ins # rest) c accumulated =
     Option.bind (slice_get (msg_account_keys message) (unat (ci_program_id_index ins))) (\<lambda>program_id.
      case (if is_precompile env program_id
            then (case process_precompile env program_id (ci_data ins) (map ci_data (msg_instructions message)) c of
                    (result, c) \<Rightarrow> Some (result, c, 0))
            else process_instruction env (native_invoke_signed fuel env) c) of
        None \<Rightarrow> None
      | Some (Inl e, c, consumed) \<Rightarrow> Some (Inl (of_nat i, e), c, saturating_add accumulated consumed)
      | Some (Inr (), c, consumed) \<Rightarrow>
          process_instructions fuel env message (Suc i) rest c (saturating_add accumulated consumed))"

definition process_message ::
  "nat \<Rightarrow> runtime_env \<Rightarrow> message \<Rightarrow> invoke_context \<Rightarrow> u64 \<Rightarrow>
   (((u8 \<times> instruction_error) + unit) \<times> invoke_context \<times> u64) option" where
  "process_message fuel env message c accumulated =
     (case prepare_top_level_instructions message 0 (msg_instructions message) (inv_transaction_context c) of
        None \<Rightarrow> None
      | Some (Inl e) \<Rightarrow> Some (Inl e, c, accumulated)
      | Some (Inr tc) \<Rightarrow>
          process_instructions fuel env message 0 (msg_instructions message) (c\<lparr>inv_transaction_context := tc\<rparr>) accumulated)"

end
