(* ===== verification/Rent_State.thy ===== *)
theory Rent_State
  imports Invoke_Context
begin

section \<open>Rent states\<close>

text \<open>
  The check that a transaction leaves no account below the rent-exempt minimum:
  \<open>src/svm/src/rent_calculator.rs\<close> and \<open>src/svm/src/transaction_account_state_info.rs\<close>. A size is a
  \<open>nat\<close>; the state of a read-only account is \<open>None\<close>. The address of the incinerator and the minimum
  balance belong to crates outside the repository and are arguments.
\<close>

datatype rent_state =
    Uninitialized
  | RentPaying u64 nat
  | RentExempt

definition get_account_rent_state :: "u64 \<Rightarrow> nat \<Rightarrow> u64 \<Rightarrow> rent_state" where
  "get_account_rent_state account_lamports account_size min_balance =
     (if account_lamports = 0 then Uninitialized
      else if min_balance \<le> account_lamports then RentExempt
      else RentPaying account_lamports account_size)"

definition get_pre_exec_account_rent_state :: "u64 \<Rightarrow> nat \<Rightarrow> u64 \<Rightarrow> bool \<Rightarrow> rent_state" where
  "get_pre_exec_account_rent_state account_lamports account_size min_balance disallow_rent_paying =
     (case get_account_rent_state account_lamports account_size min_balance of
        RentPaying l s \<Rightarrow> if disallow_rent_paying then RentExempt else RentPaying l s
      | rent_state \<Rightarrow> rent_state)"

definition get_post_exec_account_rent_state :: "u64 \<Rightarrow> nat \<Rightarrow> u64 \<Rightarrow> rent_state \<Rightarrow> u64 \<Rightarrow> bool \<Rightarrow> rent_state" where
  "get_post_exec_account_rent_state account_lamports account_size min_balance pre_rent_state pre_exec_balance
       relax_rent_exempt_criteria =
     (if \<not> relax_rent_exempt_criteria then get_account_rent_state account_lamports account_size min_balance
      else if account_lamports = 0 then Uninitialized
      else if min_balance \<le> account_lamports then RentExempt
      else if pre_rent_state = RentExempt \<and> pre_exec_balance \<le> account_lamports then RentExempt
      else RentPaying account_lamports account_size)"

fun transition_allowed :: "rent_state \<Rightarrow> rent_state \<Rightarrow> bool" where
  "transition_allowed pre Uninitialized = True"
| "transition_allowed pre RentExempt = True"
| "transition_allowed Uninitialized (RentPaying post_lamports post_size) = False"
| "transition_allowed RentExempt (RentPaying post_lamports post_size) = False"
| "transition_allowed (RentPaying pre_lamports pre_size) (RentPaying post_lamports post_size) =
     (post_size = pre_size \<and> post_lamports \<le> pre_lamports)"

definition check_rent_state_with_account ::
  "pubkey \<Rightarrow> rent_state \<Rightarrow> rent_state \<Rightarrow> pubkey \<Rightarrow> index_of_account \<Rightarrow> transaction_error + unit" where
  "check_rent_state_with_account incinerator pre post address account_index =
     (if address \<noteq> incinerator \<and> \<not> transition_allowed pre post
      then Inl (InsufficientFundsForRent (ucast account_index)) else Inr ())"

definition check_rent_state ::
  "pubkey \<Rightarrow> rent_state \<Rightarrow> rent_state \<Rightarrow> transaction_context \<Rightarrow> index_of_account \<Rightarrow>
   (transaction_error + unit) option" where
  "check_rent_state incinerator pre post tc index =
     (case get_key_of_account_at_index (tc_accounts tc) index of
        Inl _ \<Rightarrow> None
      | Inr address \<Rightarrow> Some (check_rent_state_with_account incinerator pre post address index))"

definition check_static_account_rent_state_transition ::
  "u64 \<Rightarrow> u64 \<Rightarrow> nat \<Rightarrow> rent \<Rightarrow> index_of_account \<Rightarrow> bool \<Rightarrow> transaction_error + unit" where
  "check_static_account_rent_state_transition pre_exec_balance post_exec_balance data_size rent account_index relax =
     (let rent_min_balance = rent_min_balance rent data_size;
          pre_state = get_pre_exec_account_rent_state pre_exec_balance data_size rent_min_balance relax;
          post_state = get_post_exec_account_rent_state post_exec_balance data_size rent_min_balance pre_state
            pre_exec_balance relax
      in if \<not> transition_allowed pre_state post_state then Inl (InsufficientFundsForRent (ucast account_index))
         else Inr ())"

subsection \<open>The accounts of a transaction before and after its execution\<close>

record account_state_info =
  si_rent_state :: rent_state
  si_balance :: u64
  si_data_size :: nat
  si_owner :: pubkey

text \<open>An account that cannot be borrowed is passed over, as a read-only one is.\<close>

definition writable_account :: "transaction_accounts \<Rightarrow> message \<Rightarrow> nat \<Rightarrow> account_shared_data option" where
  "writable_account ta message i =
     (if msg_is_writable message i then
        (case try_borrow (of_nat i) ta of
           Inl _ \<Rightarrow> None
         | Inr _ \<Rightarrow> Some (create_from_existing (ta_shared ta ! i) (ta_private ta ! i)))
      else None)"

definition iter_writable_accounts :: "transaction_context \<Rightarrow> message \<Rightarrow> account_shared_data option list" where
  "iter_writable_accounts tc message =
     map (writable_account (tc_accounts tc) message) [0..<length (msg_account_keys message)]"

definition pre_exec_info :: "rent \<Rightarrow> bool \<Rightarrow> account_shared_data \<Rightarrow> account_state_info" where
  "pre_exec_info rent relax account = \<lparr>
     si_rent_state = get_pre_exec_account_rent_state (acc_lamports account) (length (acc_data account))
       (rent_min_balance rent (length (acc_data account))) relax,
     si_balance = acc_lamports account, si_data_size = length (acc_data account), si_owner = acc_owner account\<rparr>"

definition new_pre_exec :: "transaction_context \<Rightarrow> message \<Rightarrow> rent \<Rightarrow> bool \<Rightarrow> account_state_info option list" where
  "new_pre_exec tc message rent relax = map (map_option (pre_exec_info rent relax)) (iter_writable_accounts tc message)"

definition post_exec_info :: "rent \<Rightarrow> bool \<Rightarrow> account_shared_data \<Rightarrow> account_state_info \<Rightarrow> account_state_info" where
  "post_exec_info rent relax account pre =
     (let data_size = length (acc_data account);
          relax_rent_exempt_criteria =
            relax \<and> data_size \<le> si_data_size pre \<and> si_rent_state pre = RentExempt \<and> si_owner pre = acc_owner account
      in \<lparr>si_rent_state = get_post_exec_account_rent_state (acc_lamports account) data_size
            (rent_min_balance rent data_size) (si_rent_state pre) (si_balance pre) relax_rent_exempt_criteria,
          si_balance = acc_lamports account, si_data_size = data_size, si_owner = acc_owner account\<rparr>)"

definition new_post_exec ::
  "transaction_context \<Rightarrow> message \<Rightarrow> account_state_info option list \<Rightarrow> rent \<Rightarrow> bool \<Rightarrow> account_state_info option list" where
  "new_post_exec tc message pre_infos rent relax =
     map (\<lambda>(account, pre_info). Option.bind account (\<lambda>account. map_option (post_exec_info rent relax account) pre_info))
       (zip (iter_writable_accounts tc message) pre_infos)"

fun verify_changes_from ::
  "pubkey \<Rightarrow> transaction_context \<Rightarrow> nat \<Rightarrow> (account_state_info option \<times> account_state_info option) list \<Rightarrow>
   (transaction_error + unit) option" where
  "verify_changes_from incinerator tc i [] = Some (Inr ())"
| "verify_changes_from incinerator tc i ((Some pre, Some post) # rest) =
     (case check_rent_state incinerator (si_rent_state pre) (si_rent_state post) tc (of_nat i) of
        None \<Rightarrow> None
      | Some (Inl e) \<Rightarrow> Some (Inl e)
      | Some (Inr ()) \<Rightarrow> verify_changes_from incinerator tc (Suc i) rest)"
| "verify_changes_from incinerator tc i (_ # rest) = verify_changes_from incinerator tc (Suc i) rest"

definition verify_changes ::
  "pubkey \<Rightarrow> account_state_info option list \<Rightarrow> account_state_info option list \<Rightarrow> transaction_context \<Rightarrow>
   (transaction_error + unit) option" where
  "verify_changes incinerator pre_infos post_infos tc = verify_changes_from incinerator tc 0 (zip pre_infos post_infos)"

text \<open>The sum is a plain one of \<open>u64\<close>.\<close>

definition get_uninitialized_accounts_size :: "account_state_info option list \<Rightarrow> u64" where
  "get_uninitialized_accounts_size post =
     (\<Sum>info \<leftarrow> List.map_filter (\<lambda>info. info) post.
        if si_rent_state info = Uninitialized then of_nat (si_data_size info) else 0)"

end
