(* ===== verification/Account_Loader.thy ===== *)
theory Account_Loader
  imports Rent_State System_Program
begin

section \<open>Loading the accounts of a batch\<close>

text \<open>
  How the accounts of a batch of transactions are loaded, how the fee payer is charged and which
  accounts a failed transaction leaves behind: \<open>src/svm/src/account_loader.rs\<close>,
  \<open>src/svm/src/rollback_accounts.rs\<close> and \<open>src/svm/src/nonce_info.rs\<close>.

  \<^item> The state of the loader is the map of the accounts that the batch has seen so far.
  \<^item> The accounts database and the functions of other crates are fields of the record \<open>svm_env\<close>; the
    inspection of accounts on behalf of the bank and the error metrics have no influence on
    the result and are left out.
  \<^item> A message is the record of the invoke context with the rest of what the crate
    \<open>solana-svm-transaction\<close> tells about it. A length is a \<open>nat\<close>, with the bounds of \<open>usize\<close> written out.
\<close>

record fee_details =
  fd_transaction_fee :: u64
  fd_prioritization_fee :: u64

datatype system_account_kind =
    SystemKind
  | NonceKind

record svm_transaction =
  tx_message :: message
  tx_fee_payer :: pubkey
  tx_recent_blockhash :: hash
  tx_num_lookup_tables :: nat
  tx_is_invoked :: "nat \<Rightarrow> bool"
  tx_is_instruction_account :: "nat \<Rightarrow> bool"
  tx_ix_signers :: "nat \<Rightarrow> pubkey list"

abbreviation tx_account_keys :: "svm_transaction \<Rightarrow> pubkey list" where
  "tx_account_keys tx \<equiv> msg_account_keys (tx_message tx)"

abbreviation tx_is_writable :: "svm_transaction \<Rightarrow> nat \<Rightarrow> bool" where
  "tx_is_writable tx \<equiv> msg_is_writable (tx_message tx)"

record program_ids =
  incinerator_id :: pubkey
  slot_history_id :: pubkey
  svm_native_loader_id :: pubkey
  bpf_loader_upgradeable_id :: pubkey
  bpf_loader_id :: pubkey
  bpf_loader_deprecated_id :: pubkey
  loader_v4_id :: pubkey

record svm_features =
  relax_post_exec_min_balance_check :: bool
  define_ltds_fee_only_semantics :: bool
  relax_fee_payer_constraint :: bool

record svm_nonces =
  nonce_size :: nat
  verify_nonce_account :: "account_shared_data \<Rightarrow> hash \<Rightarrow> nonce_data option"
  nonce_current :: "nonce_state \<Rightarrow> nonce_versions"
  nonce_set_state :: "nonce_versions \<Rightarrow> u8 list \<Rightarrow> u8 list option"
  durable_nonce_of :: "hash \<Rightarrow> hash"

record token_formats =
  is_known_spl_token_id :: "pubkey \<Rightarrow> bool"
  token_account_unpack :: "u8 list \<Rightarrow> pubkey \<Rightarrow> (pubkey \<times> pubkey \<times> u64) option"
  token_mint_unpack :: "u8 list \<Rightarrow> pubkey \<Rightarrow> u8 option"

record svm_env =
  svm_ids :: program_ids
  svm_features_of :: svm_features
  svm_nonces_of :: svm_nonces
  svm_tokens :: token_formats
  svm_sysvar :: instructions_sysvar
  svm_rent :: rent
  svm_slot :: slot
  svm_blockhash :: hash
  svm_lamports_per_signature :: u64
  svm_total_fee :: "fee_details \<Rightarrow> u64"
  get_account_shared_data :: "pubkey \<Rightarrow> (account_shared_data \<times> slot) option"
  get_system_account_kind :: "account_shared_data \<Rightarrow> system_account_kind option"
  programdata_address :: "u8 list \<Rightarrow> pubkey option"
  construct_instructions_data :: "instruction list \<Rightarrow> u8 list option"

type_synonym keyed_account = "pubkey \<times> account_shared_data"

definition account_default :: account_shared_data where
  "account_default = \<lparr>acc_lamports = 0, acc_data = [], acc_owner = 0, acc_executable = False, acc_rent_epoch = 0\<rparr>"

definition usize_saturating_add :: "nat \<Rightarrow> nat \<Rightarrow> nat" where
  "usize_saturating_add a b = min (a + b) (2 ^ 64 - 1)"

definition usize_saturating_mul :: "nat \<Rightarrow> nat \<Rightarrow> nat" where
  "usize_saturating_mul a b = min (a * b) (2 ^ 64 - 1)"

definition transaction_account_base_size :: nat where
  "transaction_account_base_size = 64"

definition address_lookup_table_base_size :: nat where
  "address_lookup_table_base_size = 8248"

definition program_owners :: "svm_env \<Rightarrow> pubkey list" where
  "program_owners env = [bpf_loader_upgradeable_id (svm_ids env), bpf_loader_id (svm_ids env), bpf_loader_deprecated_id (svm_ids env), loader_v4_id (svm_ids env)]"

definition rent_exempt_rent_epoch :: epoch where
  "rent_exempt_rent_epoch = - 1"

subsection \<open>Rollback accounts\<close>

record nonce_info =
  ni_address :: pubkey
  ni_account :: account_shared_data

datatype rollback_accounts =
    FeePayerOnly keyed_account
  | SameNonceAndFeePayer keyed_account
  | SeparateNonceAndFeePayer keyed_account keyed_account

definition rollback_accounts_new :: "nonce_info option \<Rightarrow> pubkey \<Rightarrow> account_shared_data \<Rightarrow> epoch \<Rightarrow> rollback_accounts" where
  "rollback_accounts_new nonce fee_payer_address fee_payer_account fee_payer_loaded_rent_epoch =
     (case nonce of
        Some nonce \<Rightarrow>
          if fee_payer_address = ni_address nonce
          then SameNonceAndFeePayer (fee_payer_address, fee_payer_account\<lparr>acc_data := acc_data (ni_account nonce)\<rparr>)
          else SeparateNonceAndFeePayer (ni_address nonce, ni_account nonce) (fee_payer_address, fee_payer_account)
      | None \<Rightarrow> FeePayerOnly (fee_payer_address, fee_payer_account\<lparr>acc_rent_epoch := fee_payer_loaded_rent_epoch\<rparr>))"

fun rollback_fee_payer :: "rollback_accounts \<Rightarrow> keyed_account" where
  "rollback_fee_payer (FeePayerOnly fee_payer) = fee_payer"
| "rollback_fee_payer (SameNonceAndFeePayer nonce) = nonce"
| "rollback_fee_payer (SeparateNonceAndFeePayer nonce fee_payer) = fee_payer"

fun rollback_count :: "rollback_accounts \<Rightarrow> nat" where
  "rollback_count (FeePayerOnly fee_payer) = 1"
| "rollback_count (SameNonceAndFeePayer nonce) = 1"
| "rollback_count (SeparateNonceAndFeePayer nonce fee_payer) = 2"

text \<open>The order of the iterator: the fee payer first.\<close>

fun rollback_iter :: "rollback_accounts \<Rightarrow> keyed_account list" where
  "rollback_iter (FeePayerOnly fee_payer) = [fee_payer]"
| "rollback_iter (SameNonceAndFeePayer nonce) = [nonce]"
| "rollback_iter (SeparateNonceAndFeePayer nonce fee_payer) = [fee_payer, nonce]"

definition rollback_data_size :: "rollback_accounts \<Rightarrow> nat" where
  "rollback_data_size r = foldl (\<lambda>total (_, account). usize_saturating_add total (length (acc_data account))) 0 (rollback_iter r)"

subsection \<open>The loader\<close>

type_synonym account_loader = "pubkey \<rightharpoonup> account_shared_data \<times> slot"

record loaded_transaction_account =
  lta_account :: account_shared_data
  lta_loaded_size :: nat

definition account_loader_new :: "svm_env \<Rightarrow> (pubkey \<rightharpoonup> account_shared_data) option \<Rightarrow> account_loader" where
  "account_loader_new env account_overrides =
     (let loaded_accounts =
            (case Option.bind account_overrides (\<lambda>overrides. overrides (slot_history_id (svm_ids env))) of
               Some slot_history \<Rightarrow> [slot_history_id (svm_ids env) \<mapsto> (slot_history, 0)]
             | None \<Rightarrow> Map.empty)
      in case account_overrides of
           Some overrides \<Rightarrow> loaded_accounts ++ (\<lambda>key. map_option (\<lambda>account. (account, 0)) (overrides key))
         | None \<Rightarrow> loaded_accounts)"

definition do_load :: "svm_env \<Rightarrow> pubkey \<Rightarrow> account_loader \<Rightarrow> (account_shared_data \<times> slot) option \<times> bool" where
  "do_load env key al =
     (case al key of
        Some (account, slot) \<Rightarrow> (if acc_lamports account = 0 then None else Some (account, slot), False)
      | None \<Rightarrow> (get_account_shared_data env key, True))"

definition load_account :: "svm_env \<Rightarrow> pubkey \<Rightarrow> account_loader \<Rightarrow> account_shared_data option \<times> account_loader" where
  "load_account env key al =
     (case do_load env key al of
        (Some (account, _), False) \<Rightarrow> (Some account, al)
      | (None, False) \<Rightarrow> (None, al)
      | (Some (account, slot), True) \<Rightarrow> (Some account, al(key \<mapsto> (account, slot)))
      | (None, True) \<Rightarrow> (None, al(key \<mapsto> (account_default, 0))))"

definition loader_load_transaction_account ::
  "svm_env \<Rightarrow> pubkey \<Rightarrow> account_loader \<Rightarrow> loaded_transaction_account option \<times> account_loader" where
  "loader_load_transaction_account env key al =
     (case load_account env key al of
        (account, al) \<Rightarrow>
          (map_option (\<lambda>account. \<lparr>lta_account = account,
             lta_loaded_size = usize_saturating_add transaction_account_base_size (length (acc_data account))\<rparr>) account, al))"

definition update_accounts_for_failed_tx :: "rollback_accounts \<Rightarrow> slot \<Rightarrow> account_loader \<Rightarrow> account_loader" where
  "update_accounts_for_failed_tx rollback current_slot al =
     fold (\<lambda>(address, account) al. al(address \<mapsto> (account, current_slot))) (rollback_iter rollback) al"

text \<open>The accounts that are written back; a missing flag is a panic.\<close>

definition is_written_back :: "svm_transaction \<Rightarrow> bool list \<Rightarrow> nat \<Rightarrow> bool option" where
  "is_written_back tx touched_flags i =
     (if \<not> tx_is_writable tx i then Some False
      else map_option (\<lambda>touched. touched \<and> \<not> (tx_is_invoked tx i \<and> \<not> tx_is_instruction_account tx i))
             (slice_get touched_flags i))"

definition update_accounts_for_successful_tx ::
  "svm_transaction \<Rightarrow> keyed_account list \<Rightarrow> bool list \<Rightarrow> slot \<Rightarrow> account_loader \<Rightarrow> account_loader option" where
  "update_accounts_for_successful_tx tx accounts touched_flags current_slot =
     foldM (\<lambda>(i, address, account) al.
         map_option (\<lambda>written. if written then al(address \<mapsto> (account, current_slot)) else al)
           (is_written_back tx touched_flags i))
       (zip [0..<length (tx_account_keys tx)] accounts)"

definition update_rent_exempt_status_for_account :: "rent \<Rightarrow> account_shared_data \<Rightarrow> account_shared_data" where
  "update_rent_exempt_status_for_account rent account =
     (if acc_rent_epoch account \<noteq> rent_exempt_rent_epoch \<and>
         rent_is_exempt rent (acc_lamports account) (length (acc_data account))
      then account\<lparr>acc_rent_epoch := rent_exempt_rent_epoch\<rparr> else account)"

definition validate_fee_payer ::
  "svm_env \<Rightarrow> account_shared_data \<Rightarrow> index_of_account \<Rightarrow> u64 \<Rightarrow> transaction_error + account_shared_data" where
  "validate_fee_payer env payer_account payer_index fee =
     (if acc_lamports payer_account = 0 then Inl AccountNotFound
      else and_then (ok_or InvalidAccountForFee (get_system_account_kind env payer_account)) (\<lambda>kind.
      let min_balance =
            (case kind of
               SystemKind \<Rightarrow> 0
             | NonceKind \<Rightarrow> rent_min_balance (svm_rent env) (nonce_size (svm_nonces_of env)))
      in and_then (ok_or InsufficientFundsForFee
             (Option.bind (checked_sub (acc_lamports payer_account) min_balance) (\<lambda>v. checked_sub v fee))) (\<lambda>_.
         and_then (ok_or InsufficientFundsForFee (checked_sub (acc_lamports payer_account) fee)) (\<lambda>post_balance.
         and_then (check_static_account_rent_state_transition (acc_lamports payer_account) post_balance
             (length (acc_data payer_account)) (svm_rent env) payer_index (relax_post_exec_min_balance_check (svm_features_of env))) (\<lambda>_.
         Inr (payer_account\<lparr>acc_lamports := post_balance\<rparr>))))))"

subsection \<open>The size of the loaded accounts\<close>

record loaded_data_size =
  ls_loaded :: u32
  ls_limit :: u32

definition with_max_size :: "u32 \<Rightarrow> loaded_data_size" where
  "with_max_size limit = \<lparr>ls_loaded = 0, ls_limit = limit\<rparr>"

definition increase_calculated_data_size ::
  "nat \<Rightarrow> loaded_data_size \<Rightarrow> (transaction_error + unit) \<times> loaded_data_size" where
  "increase_calculated_data_size delta ls =
     (if 2 ^ 32 \<le> delta then (Inl MaxLoadedAccountsDataSizeExceeded, ls\<lparr>ls_loaded := - 1\<rparr>)
      else let ls = ls\<lparr>ls_loaded := saturating_add (ls_loaded ls) (of_nat delta)\<rparr>
           in (if ls_limit ls < ls_loaded ls then Inl MaxLoadedAccountsDataSizeExceeded else Inr (), ls))"

definition loaded_data_size_u32 :: "loaded_data_size \<Rightarrow> u32" where
  "loaded_data_size_u32 ls = min (ls_loaded ls) (ls_limit ls)"

subsection \<open>The accounts of a transaction\<close>

definition decompile_account :: "svm_transaction \<Rightarrow> u8 \<Rightarrow> account_meta option" where
  "decompile_account tx index =
     map_option (\<lambda>key. \<lparr>am_pubkey = key, am_is_signer = msg_is_signer (tx_message tx) (unat index),
         am_is_writable = tx_is_writable tx (unat index)\<rparr>)
       (slice_get (tx_account_keys tx) (unat index))"

definition decompile_instruction :: "svm_transaction \<Rightarrow> compiled_instruction \<Rightarrow> instruction option" where
  "decompile_instruction tx ins =
     Option.bind (slice_get (tx_account_keys tx) (unat (ci_program_id_index ins))) (\<lambda>program_id.
     map_option (\<lambda>accounts. \<lparr>ins_program_id = program_id, ins_accounts = accounts, ins_data = ci_data ins\<rparr>)
       (those (map (decompile_account tx) (ci_accounts ins))))"

definition construct_instructions_account ::
  "svm_env \<Rightarrow> svm_transaction \<Rightarrow> (transaction_error + account_shared_data) option" where
  "construct_instructions_account env tx =
     map_option (\<lambda>instructions.
         and_then (ok_or MaxLoadedAccountsDataSizeExceeded (construct_instructions_data env instructions)) (\<lambda>data.
         Inr (account_default\<lparr>acc_data := data, acc_owner := sysvar_id (svm_sysvar env)\<rparr>)))
       (those (map (decompile_instruction tx) (msg_instructions (tx_message tx))))"

definition load_transaction_account ::
  "svm_env \<Rightarrow> svm_transaction \<Rightarrow> pubkey \<Rightarrow> nat \<Rightarrow> account_loader \<Rightarrow>
   ((transaction_error + loaded_transaction_account) \<times> account_loader) option" where
  "load_transaction_account env tx key index al =
     (if key = instructions_id (svm_sysvar env)
      then map_option (\<lambda>r. (and_then r (\<lambda>account. Inr \<lparr>lta_account = account, lta_loaded_size = 0\<rparr>), al))
             (construct_instructions_account env tx)
      else case loader_load_transaction_account env key al of
             (Some loaded, al) \<Rightarrow>
               Some (Inr (if tx_is_writable tx index
                          then loaded\<lparr>lta_account := update_rent_exempt_status_for_account (svm_rent env) (lta_account loaded)\<rparr>
                          else loaded), al)
           | (None, al) \<Rightarrow>
               Some (Inr \<lparr>lta_account = account_default\<lparr>acc_rent_epoch := rent_exempt_rent_epoch\<rparr>,
                          lta_loaded_size = length (acc_data account_default)\<rparr>, al))"

record load_state =
  lo_loader :: account_loader
  lo_size :: loaded_data_size
  lo_additional :: "pubkey list"
  lo_accounts :: "keyed_account list"

definition increase_size :: "nat \<Rightarrow> load_state \<Rightarrow> (transaction_error + unit) \<times> load_state" where
  "increase_size delta st =
     (case increase_calculated_data_size delta (lo_size st) of (r, ls) \<Rightarrow> (r, st\<lparr>lo_size := ls\<rparr>))"

text \<open>The program data account of an upgradeable program counts once.\<close>

definition count_programdata ::
  "svm_env \<Rightarrow> pubkey list \<Rightarrow> account_shared_data \<Rightarrow> load_state \<Rightarrow> (transaction_error + unit) \<times> load_state" where
  "count_programdata env keys account st =
     (case (if acc_owner account = bpf_loader_upgradeable_id (svm_ids env) then programdata_address env (acc_data account) else None) of
        None \<Rightarrow> (Inr (), st)
      | Some address \<Rightarrow>
          if address \<in> set keys \<or> address \<in> set (lo_additional st) then (Inr (), st)
          else (case load_account env address (lo_loader st) of
                  (None, al) \<Rightarrow> (Inr (), st\<lparr>lo_loader := al\<rparr>)
                | (Some programdata, al) \<Rightarrow>
                    (case increase_size
                            (usize_saturating_add transaction_account_base_size (length (acc_data programdata)))
                            (st\<lparr>lo_loader := al\<rparr>) of
                       (Inl e, st) \<Rightarrow> (Inl e, st)
                     | (Inr (), st) \<Rightarrow> (Inr (), st\<lparr>lo_additional := address # lo_additional st\<rparr>))))"

definition collect_loaded_account ::
  "svm_env \<Rightarrow> pubkey list \<Rightarrow> pubkey \<Rightarrow> loaded_transaction_account \<Rightarrow> load_state \<Rightarrow>
   (transaction_error + unit) \<times> load_state" where
  "collect_loaded_account env keys key loaded st =
     (case increase_size (lta_loaded_size loaded) st of
        (Inl e, st) \<Rightarrow> (Inl e, st)
      | (Inr (), st) \<Rightarrow>
          (case count_programdata env keys (lta_account loaded) st of
             (Inl e, st) \<Rightarrow> (Inl e, st)
           | (Inr (), st) \<Rightarrow> (Inr (), st\<lparr>lo_accounts := lo_accounts st @ [(key, lta_account loaded)]\<rparr>)))"

fun load_remaining_accounts ::
  "svm_env \<Rightarrow> svm_transaction \<Rightarrow> nat \<Rightarrow> pubkey list \<Rightarrow> load_state \<Rightarrow>
   ((transaction_error + unit) \<times> load_state) option" where
  "load_remaining_accounts env tx index [] st = Some (Inr (), st)"
| "load_remaining_accounts env tx index (key # rest) st =
     (case load_transaction_account env tx key index (lo_loader st) of
        None \<Rightarrow> None
      | Some (Inl e, al) \<Rightarrow> Some (Inl e, st\<lparr>lo_loader := al\<rparr>)
      | Some (Inr loaded, al) \<Rightarrow>
          (case collect_loaded_account env (tx_account_keys tx) key loaded (st\<lparr>lo_loader := al\<rparr>) of
             (Inl e, st) \<Rightarrow> Some (Inl e, st)
           | (Inr (), st) \<Rightarrow> load_remaining_accounts env tx (Suc index) rest st))"

fun check_program_owners ::
  "svm_env \<Rightarrow> svm_transaction \<Rightarrow> compiled_instruction list \<Rightarrow> account_loader \<Rightarrow>
   ((transaction_error + unit) \<times> account_loader) option" where
  "check_program_owners env tx [] al = Some (Inr (), al)"
| "check_program_owners env tx (ins # rest) al =
     Option.bind (slice_get (tx_account_keys tx) (unat (ci_program_id_index ins))) (\<lambda>program_id.
      case load_account env program_id al of
        (None, al) \<Rightarrow> Some (Inl ProgramAccountNotFound, al)
      | (Some program_account, al) \<Rightarrow>
          if acc_owner program_account \<noteq> svm_native_loader_id (svm_ids env) \<and> acc_owner program_account \<notin> set (program_owners env)
          then Some (Inl InvalidProgramForExecution, al)
          else check_program_owners env tx rest al)"

text \<open>The result is the accounts or an error; the size counts what was loaded before the error.\<close>

definition load_transaction_accounts ::
  "svm_env \<Rightarrow> svm_transaction \<Rightarrow> loaded_transaction_account \<Rightarrow> loaded_data_size \<Rightarrow> account_loader \<Rightarrow>
   ((transaction_error + keyed_account list) \<times> loaded_data_size \<times> account_loader) option" where
  "load_transaction_accounts env tx loaded_fee_payer ls al =
     (case increase_size (usize_saturating_mul (tx_num_lookup_tables tx) address_lookup_table_base_size)
             \<lparr>lo_loader = al, lo_size = ls, lo_additional = [], lo_accounts = []\<rparr> of
        (Inl e, st) \<Rightarrow> Some (Inl e, lo_size st, lo_loader st)
      | (Inr (), st) \<Rightarrow>
          (case collect_loaded_account env (tx_account_keys tx) (tx_fee_payer tx) loaded_fee_payer st of
             (Inl e, st) \<Rightarrow> Some (Inl e, lo_size st, lo_loader st)
           | (Inr (), st) \<Rightarrow>
               (case load_remaining_accounts env tx 1 (drop 1 (tx_account_keys tx)) st of
                  None \<Rightarrow> None
                | Some (Inl e, st) \<Rightarrow> Some (Inl e, lo_size st, lo_loader st)
                | Some (Inr (), st) \<Rightarrow>
                    map_option (\<lambda>(r, al). (and_then r (\<lambda>_. Inr (lo_accounts st)), lo_size st, al))
                      (check_program_owners env tx (msg_instructions (tx_message tx)) (lo_loader st)))))"

record execution_budget =
  eb_compute_unit_limit :: u64
  eb_max_instruction_stack_depth :: nat
  eb_max_instruction_trace_length :: nat

record validated_details =
  vd_rollback_accounts :: rollback_accounts
  vd_compute_budget :: execution_budget
  vd_loaded_accounts_bytes_limit :: u32
  vd_fee_details :: fee_details
  vd_loaded_fee_payer_account :: loaded_transaction_account

record loaded_transaction =
  lt_accounts :: "keyed_account list"
  lt_touched_flags :: "bool list"
  lt_fee_details :: fee_details
  lt_rollback_accounts :: rollback_accounts
  lt_compute_budget :: execution_budget
  lt_loaded_accounts_data_size :: u32

record fees_only_transaction =
  fo_load_error :: transaction_error
  fo_rollback_accounts :: rollback_accounts
  fo_fee_details :: fee_details
  fo_loaded_accounts_data_size :: u32

record no_op_transaction =
  no_validation_error :: transaction_error
  no_fee_payer_balance :: "u64 option"
  no_compute_unit_limit :: u64
  no_loaded_accounts_bytes_limit :: u32

datatype validation_result =
    Loadable validated_details
  | ValidationNoOp no_op_transaction
  | ValidationUnprocessable transaction_error

datatype load_result =
    Loaded loaded_transaction
  | LoadFeesOnly fees_only_transaction
  | LoadNoOp no_op_transaction
  | LoadUnprocessable transaction_error

definition load_transaction ::
  "svm_env \<Rightarrow> svm_transaction \<Rightarrow> validation_result \<Rightarrow> account_loader \<Rightarrow> (load_result \<times> account_loader) option" where
  "load_transaction env tx validation_result al =
     (case validation_result of
        ValidationUnprocessable e \<Rightarrow> Some (LoadUnprocessable e, al)
      | ValidationNoOp tx_details \<Rightarrow> Some (LoadNoOp tx_details, al)
      | Loadable tx_details \<Rightarrow>
          map_option (\<lambda>(r, ls, al).
              (case r of
                 Inr accounts \<Rightarrow> Loaded \<lparr>lt_accounts = accounts, lt_touched_flags = [],
                   lt_fee_details = vd_fee_details tx_details, lt_rollback_accounts = vd_rollback_accounts tx_details,
                   lt_compute_budget = vd_compute_budget tx_details, lt_loaded_accounts_data_size = loaded_data_size_u32 ls\<rparr>
               | Inl err \<Rightarrow> LoadFeesOnly \<lparr>fo_load_error = err, fo_rollback_accounts = vd_rollback_accounts tx_details,
                   fo_fee_details = vd_fee_details tx_details,
                   fo_loaded_accounts_data_size =
                     (if define_ltds_fee_only_semantics (svm_features_of env) then loaded_data_size_u32 ls
                      else of_nat (rollback_data_size (vd_rollback_accounts tx_details)))\<rparr>, al))
            (load_transaction_accounts env tx (vd_loaded_fee_payer_account tx_details)
               (with_max_size (vd_loaded_accounts_bytes_limit tx_details)) al))"

end
