(* ===== verification/Batch_Processor.thy ===== *)
theory Batch_Processor
  imports Account_Loader
begin

section \<open>Processing a batch of transactions\<close>

text \<open>
  The transaction batch processor: for each transaction in order, the nonce and the fee payer are
  validated, the accounts are loaded, the message is run, and the accounts of the batch are
  updated: \<open>src/svm/src/transaction_processor.rs\<close>, \<open>src/svm/src/transaction_balances.rs\<close>,
  \<open>src/svm/src/transaction_processing_result.rs\<close> and \<open>src/runtime/src/account_saver.rs\<close>.

  \<^item> The program cache is not modelled: the programs that a transaction can run are an argument, one
    \<open>runtime_env\<close> for each position in the batch, or \<open>None\<close> if the cache has hit its limit.
  \<^item> Logs, timings, metrics and recorded inner instructions are left out.
  \<^item> The loader is dropped at the end of a batch; the model returns it with the output, for the
    theorems to refer to it. \<open>None\<close> is a panic, or too little fuel for the calls of the programs.
\<close>

record checked_details =
  cd_nonce_address :: "pubkey option"
  cd_compute_budget :: execution_budget
  cd_loaded_accounts_data_size_limit :: u32
  cd_fee_details :: fee_details

record accounts_deltas =
  ad_resize_delta :: int
  ad_uninitialized_size :: u64

record executed_transaction =
  ex_loaded_transaction :: loaded_transaction
  ex_status :: "transaction_error + unit"
  ex_return_data :: "(pubkey \<times> u8 list) option"
  ex_executed_units :: u64
  ex_accounts_deltas :: "accounts_deltas option"
  ex_tips :: u64

datatype processed_transaction =
    Executed executed_transaction
  | FeesOnly fees_only_transaction
  | NoOp no_op_transaction

type_synonym processing_result = "transaction_error + processed_transaction"

record processing_config =
  cfg_account_overrides :: "(pubkey \<rightharpoonup> account_shared_data) option"
  cfg_drop_on_failure :: bool
  cfg_all_or_nothing :: bool
  cfg_strict_nonce_size_check :: bool
  cfg_drop_noop_transactions :: bool
  cfg_tip_accounts :: "pubkey list option"
  cfg_record_return_data :: bool
  cfg_record_balances :: bool

subsection \<open>Results\<close>

fun processed_status :: "processed_transaction \<Rightarrow> transaction_error + unit" where
  "processed_status (Executed executed_tx) = ex_status executed_tx"
| "processed_status (FeesOnly details) = Inl (fo_load_error details)"
| "processed_status (NoOp details) = Inl (no_validation_error details)"

definition flattened_result :: "processing_result \<Rightarrow> transaction_error + unit" where
  "flattened_result r = and_then r processed_status"

fun processed_fee_details :: "processed_transaction \<Rightarrow> fee_details" where
  "processed_fee_details (Executed executed_tx) = lt_fee_details (ex_loaded_transaction executed_tx)"
| "processed_fee_details (FeesOnly details) = fo_fee_details details"
| "processed_fee_details (NoOp details) = \<lparr>fd_transaction_fee = 0, fd_prioritization_fee = 0\<rparr>"

fun processed_executed_units :: "processed_transaction \<Rightarrow> u64" where
  "processed_executed_units (Executed executed_tx) = ex_executed_units executed_tx"
| "processed_executed_units (FeesOnly details) = 0"
| "processed_executed_units (NoOp details) = no_compute_unit_limit details"

fun processed_loaded_accounts_data_size :: "processed_transaction \<Rightarrow> u32" where
  "processed_loaded_accounts_data_size (Executed executed_tx) =
     lt_loaded_accounts_data_size (ex_loaded_transaction executed_tx)"
| "processed_loaded_accounts_data_size (FeesOnly details) = fo_loaded_accounts_data_size details"
| "processed_loaded_accounts_data_size (NoOp details) = no_loaded_accounts_bytes_limit details"

subsection \<open>Validation\<close>

definition validate_transaction_nonce ::
  "svm_env \<Rightarrow> bool \<Rightarrow> svm_transaction \<Rightarrow> pubkey \<Rightarrow> hash \<Rightarrow> account_loader \<Rightarrow>
   ((transaction_error + nonce_info) \<times> account_loader) option" where
  "validate_transaction_nonce env strict_nonce_size_check tx nonce_address next_durable_nonce al =
     (case loader_load_transaction_account env nonce_address al of
        (None, al) \<Rightarrow> Some (Inl AccountNotFound, al)
      | (Some loaded, al) \<Rightarrow>
          let nonce_account = lta_account loaded; nonces = svm_nonces_of env in
          if strict_nonce_size_check \<and> length (acc_data nonce_account) \<noteq> nonce_size nonces
          then Some (Inl BlockhashNotFound, al)
          else case verify_nonce_account nonces nonce_account (tx_recent_blockhash tx) of
                 None \<Rightarrow> Some (Inl BlockhashNotFound, al)
               | Some nonce_data \<Rightarrow>
                   if nd_durable_nonce nonce_data \<noteq> next_durable_nonce \<and>
                      nd_authority nonce_data \<in> set (tx_ix_signers tx 0)
                   then map_option (\<lambda>data.
                            (Inr \<lparr>ni_address = nonce_address, ni_account = nonce_account\<lparr>acc_data := data\<rparr>\<rparr>, al))
                          (nonce_set_state nonces (nonce_current nonces (NonceInitialized \<lparr>
                             nd_authority = nd_authority nonce_data, nd_durable_nonce = next_durable_nonce,
                             nd_lamports_per_signature = svm_lamports_per_signature env\<rparr>)) (acc_data nonce_account))
                   else Some (Inl BlockhashNotFound, al))"

definition validate_transaction_fee_payer ::
  "svm_env \<Rightarrow> svm_transaction \<Rightarrow> nonce_info option \<Rightarrow> checked_details \<Rightarrow> account_loader \<Rightarrow>
   (transaction_error + validated_details) \<times> account_loader" where
  "validate_transaction_fee_payer env tx nonce_info details al =
     (case loader_load_transaction_account env (tx_fee_payer tx) al of
        (None, al) \<Rightarrow> (Inl AccountNotFound, al)
      | (Some loaded, al) \<Rightarrow>
          (and_then (validate_fee_payer env (update_rent_exempt_status_for_account (svm_rent env) (lta_account loaded)) 0
               (svm_total_fee env (cd_fee_details details))) (\<lambda>account.
           Inr \<lparr>vd_rollback_accounts = rollback_accounts_new nonce_info (tx_fee_payer tx) account
                  (acc_rent_epoch (lta_account loaded)),
                vd_compute_budget = cd_compute_budget details,
                vd_loaded_accounts_bytes_limit = cd_loaded_accounts_data_size_limit details,
                vd_fee_details = cd_fee_details details,
                vd_loaded_fee_payer_account = loaded\<lparr>lta_account := account\<rparr>\<rparr>), al))"

definition validate_fee_payer_or_no_op ::
  "svm_env \<Rightarrow> svm_transaction \<Rightarrow> nonce_info option \<Rightarrow> checked_details \<Rightarrow> account_loader \<Rightarrow>
   validation_result \<times> account_loader" where
  "validate_fee_payer_or_no_op env tx nonce_info details al =
     (case validate_transaction_fee_payer env tx nonce_info details al of
        (Inr validated, al) \<Rightarrow> (Loadable validated, al)
      | (Inl e, al) \<Rightarrow>
          if relax_fee_payer_constraint (svm_features_of env) \<and> nonce_info = None
          then (case load_account env (tx_fee_payer tx) al of
                  (account, al) \<Rightarrow>
                    (ValidationNoOp \<lparr>no_validation_error = e, no_fee_payer_balance = map_option acc_lamports account,
                       no_compute_unit_limit = eb_compute_unit_limit (cd_compute_budget details),
                       no_loaded_accounts_bytes_limit = cd_loaded_accounts_data_size_limit details\<rparr>, al))
          else (ValidationUnprocessable e, al))"

definition validate_transaction_nonce_and_fee_payer ::
  "svm_env \<Rightarrow> bool \<Rightarrow> svm_transaction \<Rightarrow> checked_details \<Rightarrow> account_loader \<Rightarrow>
   (validation_result \<times> account_loader) option" where
  "validate_transaction_nonce_and_fee_payer env strict_nonce_size_check tx details al =
     (case cd_nonce_address details of
        None \<Rightarrow> Some (validate_fee_payer_or_no_op env tx None details al)
      | Some nonce_address \<Rightarrow>
          map_option (\<lambda>(r, al).
              case r of
                Inl e \<Rightarrow> (ValidationUnprocessable e, al)
              | Inr nonce_info \<Rightarrow> validate_fee_payer_or_no_op env tx (Some nonce_info) details al)
            (validate_transaction_nonce env strict_nonce_size_check tx nonce_address
               (durable_nonce_of (svm_nonces_of env) (svm_blockhash env)) al))"

subsection \<open>Execution\<close>

definition tip_accounts_sum :: "keyed_account list \<Rightarrow> pubkey list \<Rightarrow> u64" where
  "tip_accounts_sum accounts tip_accounts =
     foldl (\<lambda>sum (_, account). saturating_add sum (acc_lamports account)) 0
       (filter (\<lambda>(address, _). address \<in> set tip_accounts) accounts)"

definition transaction_accounts_lamports_sum :: "keyed_account list \<Rightarrow> u128 option" where
  "transaction_accounts_lamports_sum accounts =
     foldM (\<lambda>(_, account) sum. checked_add sum (ucast (acc_lamports account))) accounts 0"

definition unwrap_or :: "'a \<Rightarrow> 'a option \<Rightarrow> 'a" where
  "unwrap_or d x = (case x of Some a \<Rightarrow> a | None \<Rightarrow> d)"

text \<open>The rent states after a message that succeeded.\<close>

definition post_account_state_info ::
  "svm_env \<Rightarrow> message \<Rightarrow> account_state_info option list \<Rightarrow> ((u8 \<times> instruction_error) + unit) \<Rightarrow> transaction_context \<Rightarrow>
   (transaction_error + account_state_info option list) option" where
  "post_account_state_info env message pre_infos process_result tc =
     (case process_result of
        Inl (index, err) \<Rightarrow> Some (Inl (InstructionError index err))
      | Inr () \<Rightarrow>
          (let post_infos = new_post_exec tc message pre_infos (svm_rent env)
                 (relax_post_exec_min_balance_check (svm_features_of env))
           in map_option (\<lambda>r. and_then r (\<lambda>_. Inr post_infos))
                (verify_changes (incinerator_id (svm_ids env)) pre_infos post_infos tc)))"

definition balanced_result ::
  "u128 \<Rightarrow> keyed_account list \<Rightarrow> (transaction_error + account_state_info option list) \<Rightarrow>
   transaction_error + account_state_info option list" where
  "balanced_result lamports_before_tx accounts post_result =
     and_then post_result (\<lambda>post_infos.
     if transaction_accounts_lamports_sum accounts = Some lamports_before_tx then Inr post_infos
     else Inl UnbalancedTransaction)"

definition executed_from ::
  "svm_env \<Rightarrow> processing_config \<Rightarrow> loaded_transaction \<Rightarrow> (transaction_error + account_state_info option list) \<Rightarrow>
   execution_record \<Rightarrow> u64 \<Rightarrow> executed_transaction" where
  "executed_from env config lt post_result record units =
     (let accounts = er_accounts record;
          result = balanced_result (unwrap_or 0 (transaction_accounts_lamports_sum (lt_accounts lt))) accounts post_result;
          tip_sum = \<lambda>accounts. unwrap_or 0 (map_option (tip_accounts_sum accounts) (cfg_tip_accounts config))
      in \<lparr>ex_loaded_transaction = lt\<lparr>lt_accounts := accounts, lt_touched_flags := (er_touched_flags record)[0 := True]\<rparr>,
          ex_status = and_then result (\<lambda>_. Inr ()),
          ex_return_data =
            (if cfg_record_return_data config \<and> snd (er_return_data record) \<noteq> [] then Some (er_return_data record) else None),
          ex_executed_units = units,
          ex_accounts_deltas =
            (case result of
               Inl _ \<Rightarrow> None
             | Inr post_infos \<Rightarrow> Some \<lparr>ad_resize_delta = er_accounts_resize_delta record,
                 ad_uninitialized_size = get_uninitialized_accounts_size post_infos\<rparr>),
          ex_tips = saturating_sub (tip_sum accounts) (tip_sum (lt_accounts lt))\<rparr>)"

definition execute_loaded_transaction ::
  "nat \<Rightarrow> runtime_env \<Rightarrow> svm_env \<Rightarrow> processing_config \<Rightarrow> svm_transaction \<Rightarrow> loaded_transaction \<Rightarrow>
   executed_transaction option" where
  "execute_loaded_transaction fuel runtime env config tx lt =
     (let message = tx_message tx;
          tc = transaction_context_new (lt_accounts lt) (eb_max_instruction_stack_depth (lt_compute_budget lt))
            (eb_max_instruction_trace_length (lt_compute_budget lt)) (length (msg_instructions message));
          pre_infos = new_pre_exec tc message (svm_rent env) (relax_post_exec_min_balance_check (svm_features_of env))
      in case process_message fuel runtime message
                \<lparr>inv_transaction_context = tc, inv_compute_meter = eb_compute_unit_limit (lt_compute_budget lt)\<rparr> 0 of
           None \<Rightarrow> None
         | Some (process_result, c, executed_units) \<Rightarrow>
             map_option (\<lambda>post_result.
                 executed_from env config lt post_result (execution_record_from (inv_transaction_context c)) executed_units)
               (post_account_state_info env message pre_infos process_result (inv_transaction_context c)))"

subsection \<open>Recorded balances\<close>

record svm_token_info =
  ti_account_index :: u8
  ti_mint :: pubkey
  ti_amount :: u64
  ti_owner :: pubkey
  ti_program_id :: pubkey
  ti_decimals :: u8

record balance_collector =
  bal_native_pre :: "u64 list list"
  bal_native_post :: "u64 list list"
  bal_token_pre :: "svm_token_info list list"
  bal_token_post :: "svm_token_info list list"

definition unpack_token_account ::
  "svm_env \<Rightarrow> account_shared_data \<Rightarrow> nat \<Rightarrow> account_loader \<Rightarrow> svm_token_info option \<times> account_loader" where
  "unpack_token_account env account index al =
     (let program_id = acc_owner account in
      case token_account_unpack (svm_tokens env) (acc_data account) program_id of
        None \<Rightarrow> (None, al)
      | Some (mint, owner, amount) \<Rightarrow>
          (case load_account env mint al of
             (None, al) \<Rightarrow> (None, al)
           | (Some mint_account, al) \<Rightarrow>
               if acc_owner mint_account \<noteq> program_id then (None, al)
               else (case token_mint_unpack (svm_tokens env) (acc_data mint_account) program_id of
                       None \<Rightarrow> (None, al)
                     | Some decimals \<Rightarrow>
                         (if index < 2 ^ 8
                          then Some \<lparr>ti_account_index = of_nat index, ti_mint = mint, ti_amount = amount, ti_owner = owner,
                            ti_program_id = program_id, ti_decimals = decimals\<rparr>
                          else None, al))))"

definition collect_token_balance ::
  "svm_env \<Rightarrow> svm_transaction \<Rightarrow> nat \<Rightarrow> pubkey \<Rightarrow> account_shared_data \<Rightarrow> account_loader \<Rightarrow>
   svm_token_info option \<times> account_loader" where
  "collect_token_balance env tx index key account al =
     (if list_ex (is_known_spl_token_id (svm_tokens env)) (tx_account_keys tx) \<and> \<not> tx_is_invoked tx index \<and>
         \<not> is_known_spl_token_id (svm_tokens env) key \<and> is_known_spl_token_id (svm_tokens env) (acc_owner account)
      then unpack_token_account env account index al else (None, al))"

fun collect_balances ::
  "svm_env \<Rightarrow> svm_transaction \<Rightarrow> nat \<Rightarrow> pubkey list \<Rightarrow> account_loader \<Rightarrow>
   (u64 list \<times> svm_token_info list) \<times> account_loader" where
  "collect_balances env tx index [] al = (([], []), al)"
| "collect_balances env tx index (key # rest) al =
     (case load_account env key al of
        (None, al) \<Rightarrow>
          (case collect_balances env tx (Suc index) rest al of ((native, token), al) \<Rightarrow> ((0 # native, token), al))
      | (Some account, al) \<Rightarrow>
          (case collect_token_balance env tx index key account al of
             (info, al) \<Rightarrow>
               (case collect_balances env tx (Suc index) rest al of
                  ((native, token), al) \<Rightarrow>
                    ((acc_lamports account # native, (case info of None \<Rightarrow> token | Some i \<Rightarrow> i # token)), al))))"

definition collect_pre_balances ::
  "svm_env \<Rightarrow> svm_transaction \<Rightarrow> balance_collector option \<times> account_loader \<Rightarrow> balance_collector option \<times> account_loader" where
  "collect_pre_balances env tx st =
     (case st of
        (None, al) \<Rightarrow> (None, al)
      | (Some bc, al) \<Rightarrow>
          (case collect_balances env tx 0 (tx_account_keys tx) al of
             ((native, token), al) \<Rightarrow>
               (Some (bc\<lparr>bal_native_pre := bal_native_pre bc @ [native], bal_token_pre := bal_token_pre bc @ [token]\<rparr>), al)))"

definition collect_post_balances ::
  "svm_env \<Rightarrow> svm_transaction \<Rightarrow> balance_collector option \<times> account_loader \<Rightarrow> balance_collector option \<times> account_loader" where
  "collect_post_balances env tx st =
     (case st of
        (None, al) \<Rightarrow> (None, al)
      | (Some bc, al) \<Rightarrow>
          (case collect_balances env tx 0 (tx_account_keys tx) al of
             ((native, token), al) \<Rightarrow>
               (Some (bc\<lparr>bal_native_post := bal_native_post bc @ [native], bal_token_post := bal_token_post bc @ [token]\<rparr>), al)))"

subsection \<open>The batch\<close>

text \<open>The outcome of one transaction: a result, or the end of the batch because the program cache is full.\<close>

datatype step_outcome =
    CacheHitMaxLimit
  | Processed processing_result

definition process_executed ::
  "svm_env \<Rightarrow> processing_config \<Rightarrow> svm_transaction \<Rightarrow> executed_transaction \<Rightarrow> account_loader \<Rightarrow>
   (processing_result \<times> account_loader) option" where
  "process_executed env config tx executed_tx al =
     (let lt = ex_loaded_transaction executed_tx in
      case ex_status executed_tx of
        Inr _ \<Rightarrow>
          map_option (\<lambda>al. (Inr (Executed executed_tx), al))
            (update_accounts_for_successful_tx tx (lt_accounts lt) (lt_touched_flags lt) (svm_slot env) al)
      | Inl err \<Rightarrow>
          Some (if cfg_drop_on_failure config then (Inl err, al)
                else (Inr (Executed executed_tx), update_accounts_for_failed_tx (lt_rollback_accounts lt) (svm_slot env) al)))"

definition process_load_result ::
  "nat \<Rightarrow> runtime_env option \<Rightarrow> svm_env \<Rightarrow> processing_config \<Rightarrow> svm_transaction \<Rightarrow> load_result \<Rightarrow> account_loader \<Rightarrow>
   (step_outcome \<times> account_loader) option" where
  "process_load_result fuel programs env config tx load_result al =
     (case load_result of
        LoadUnprocessable e \<Rightarrow> Some (Processed (Inl e), al)
      | LoadNoOp no_op_tx \<Rightarrow>
          Some (Processed (if cfg_drop_on_failure config \<or> cfg_drop_noop_transactions config
                           then Inl (no_validation_error no_op_tx) else Inr (NoOp no_op_tx)), al)
      | LoadFeesOnly fees_only_tx \<Rightarrow>
          Some (if cfg_drop_on_failure config then (Processed (Inl (fo_load_error fees_only_tx)), al)
                else (Processed (Inr (FeesOnly fees_only_tx)),
                      update_accounts_for_failed_tx (fo_rollback_accounts fees_only_tx) (svm_slot env) al))
      | Loaded loaded_transaction \<Rightarrow>
          (case programs of
             None \<Rightarrow> Some (CacheHitMaxLimit, al)
           | Some runtime \<Rightarrow>
               Option.bind (execute_loaded_transaction fuel runtime env config tx loaded_transaction) (\<lambda>executed_tx.
               map_option (\<lambda>(r, al). (Processed r, al)) (process_executed env config tx executed_tx al))))"

text \<open>A transaction until its accounts are loaded.\<close>

definition validate_and_load ::
  "svm_env \<Rightarrow> processing_config \<Rightarrow> svm_transaction \<Rightarrow> (transaction_error + checked_details) \<Rightarrow> account_loader \<Rightarrow>
   (load_result \<times> account_loader) option" where
  "validate_and_load env config tx check_result al =
     Option.bind
       (case check_result of
          Inr tx_details \<Rightarrow>
            validate_transaction_nonce_and_fee_payer env (cfg_strict_nonce_size_check config) tx tx_details al
        | Inl e \<Rightarrow> Some (ValidationUnprocessable e, al))
       (\<lambda>(validate_result, al). load_transaction env tx validate_result al)"

definition process_transaction ::
  "nat \<Rightarrow> runtime_env option \<Rightarrow> svm_env \<Rightarrow> processing_config \<Rightarrow> svm_transaction \<Rightarrow> (transaction_error + checked_details) \<Rightarrow>
   balance_collector option \<times> account_loader \<Rightarrow> (step_outcome \<times> balance_collector option \<times> account_loader) option" where
  "process_transaction fuel programs env config tx check_result st =
     (case st of (bc, al) \<Rightarrow>
      Option.bind (validate_and_load env config tx check_result al) (\<lambda>(load_result, al).
      case collect_pre_balances env tx (bc, al) of (bc, al) \<Rightarrow>
      map_option (\<lambda>(outcome, al).
          case outcome of
            CacheHitMaxLimit \<Rightarrow> (CacheHitMaxLimit, bc, al)
          | Processed r \<Rightarrow> (Processed r, collect_post_balances env tx (bc, al)))
        (process_load_result fuel programs env config tx load_result al)))"

record batch_output =
  out_processing_results :: "processing_result list"
  out_balance_collector :: "balance_collector option"

definition cache_limit_output :: "nat \<Rightarrow> batch_output" where
  "cache_limit_output n =
     \<lparr>out_processing_results = replicate n (Inl ProgramCacheHitMaxLimit), out_balance_collector = None\<rparr>"

text \<open>The transactions from position \<open>length results\<close> on, out of \<open>n\<close>.\<close>

fun process_transactions ::
  "nat \<Rightarrow> (nat \<Rightarrow> runtime_env option) \<Rightarrow> svm_env \<Rightarrow> processing_config \<Rightarrow> nat \<Rightarrow>
   (svm_transaction \<times> (transaction_error + checked_details)) list \<Rightarrow> processing_result list \<Rightarrow>
   balance_collector option \<times> account_loader \<Rightarrow> (batch_output \<times> account_loader) option" where
  "process_transactions fuel programs env config n [] results st =
     Some (\<lparr>out_processing_results = results, out_balance_collector = fst st\<rparr>, snd st)"
| "process_transactions fuel programs env config n ((tx, check_result) # rest) results st =
     (case process_transaction fuel (programs (length results)) env config tx check_result st of
        None \<Rightarrow> None
      | Some (CacheHitMaxLimit, _, al) \<Rightarrow> Some (cache_limit_output n, al)
      | Some (Processed r, st) \<Rightarrow>
          if cfg_all_or_nothing config \<and> isl r
          then Some (\<lparr>out_processing_results =
                   (let cancelled = map (\<lambda>_. Inl CommitCancelled) results @ [r]
                    in cancelled @ replicate (n - length cancelled) (Inl CommitCancelled)),
                 out_balance_collector = None\<rparr>, snd st)
          else process_transactions fuel programs env config n rest (results @ [r]) st)"

definition load_and_execute_sanitized_transactions ::
  "nat \<Rightarrow> bool \<Rightarrow> (nat \<Rightarrow> runtime_env option) \<Rightarrow> svm_env \<Rightarrow> processing_config \<Rightarrow> svm_transaction list \<Rightarrow>
   (transaction_error + checked_details) list \<Rightarrow> (batch_output \<times> account_loader) option" where
  "load_and_execute_sanitized_transactions fuel hit_max_limit programs env config txs check_results =
     (let al = account_loader_new env (cfg_account_overrides config);
          bc = (if cfg_record_balances config
                then Some \<lparr>bal_native_pre = [], bal_native_post = [], bal_token_pre = [], bal_token_post = []\<rparr> else None)
      in if hit_max_limit then Some (cache_limit_output (length txs), al)
         else process_transactions fuel programs env config (length txs) (zip txs check_results) [] (bc, al))"

subsection \<open>The accounts to store\<close>

text \<open>The guards of the loop, which are written out again in this file; a missing flag is a panic.\<close>

definition is_collected :: "svm_transaction \<Rightarrow> bool list \<Rightarrow> nat \<Rightarrow> bool option" where
  "is_collected tx touched_flags i =
     (if \<not> tx_is_writable tx i then Some False
      else case slice_get touched_flags i of
             None \<Rightarrow> None
           | Some touched \<Rightarrow>
               if \<not> touched then Some False
               else if tx_is_invoked tx i \<and> \<not> tx_is_instruction_account tx i then Some False
               else Some True)"

definition collect_accounts_for_successful_tx ::
  "svm_transaction \<Rightarrow> keyed_account list \<Rightarrow> bool list \<Rightarrow> keyed_account list \<Rightarrow> keyed_account list option" where
  "collect_accounts_for_successful_tx tx accounts touched_flags =
     foldM (\<lambda>(i, address, account) collected.
         map_option (\<lambda>written. if written then collected @ [(address, account)] else collected)
           (is_collected tx touched_flags i))
       (zip [0..<length (tx_account_keys tx)] accounts)"

definition collect_accounts_for_failed_tx :: "rollback_accounts \<Rightarrow> keyed_account list \<Rightarrow> keyed_account list" where
  "collect_accounts_for_failed_tx rollback collected = collected @ rollback_iter rollback"

definition collect_accounts_of_result ::
  "processing_result \<times> svm_transaction \<Rightarrow> keyed_account list \<Rightarrow> keyed_account list option" where
  "collect_accounts_of_result result_tx collected =
     (case result_tx of (processing_result, tx) \<Rightarrow>
      case processing_result of
        Inl _ \<Rightarrow> Some collected
      | Inr (Executed executed_tx) \<Rightarrow>
          (let lt = ex_loaded_transaction executed_tx in
           if isl (ex_status executed_tx)
           then Some (collect_accounts_for_failed_tx (lt_rollback_accounts lt) collected)
           else collect_accounts_for_successful_tx tx (lt_accounts lt) (lt_touched_flags lt) collected)
      | Inr (FeesOnly fees_only_tx) \<Rightarrow> Some (collect_accounts_for_failed_tx (fo_rollback_accounts fees_only_tx) collected)
      | Inr (NoOp _) \<Rightarrow> Some collected)"

definition collect_accounts_to_store ::
  "svm_transaction list \<Rightarrow> processing_result list \<Rightarrow> keyed_account list option" where
  "collect_accounts_to_store txs processing_results =
     foldM collect_accounts_of_result (zip processing_results txs) []"

end
