(* ===== verification/Privileges.thy ===== *)
theory Privileges
  imports Invoke_Context
begin

section \<open>Rights of called programs\<close>

text \<open>
  A program that is called has no right on an account that its caller does not have, unless the
  caller signs for the account with its own address. The proof follows the two loops of
  \<open>prepare_next_cpi_instruction\<close>: the first collects the accounts and the rights requested for them,
  the second distributes the rights to repeated accounts and checks them.
\<close>

definition requested :: "(account_meta \<Rightarrow> bool) \<Rightarrow> account_meta list \<Rightarrow> pubkey \<Rightarrow> bool" where
  "requested P metas key \<longleftrightarrow> (\<exists>m \<in> set metas. am_pubkey m = key \<and> P m)"

text \<open>The map of an instruction gives every account its first occurrence.\<close>

definition dedup_ok :: "u16 list \<Rightarrow> instruction_account list \<Rightarrow> bool" where
  "dedup_ok cmap accounts \<longleftrightarrow>
     (\<forall>i < length cmap. unat (cmap ! i) < length accounts \<longrightarrow> unat (ia_index_in_transaction (accounts ! unat (cmap ! i))) = i)"

lemma unat_max_u16: "unat (- 1 :: u16) = 65535"
  by (simp add: unat_max_word)

lemma merge_rights_simps [simp]:
  "ia_signer (merge_rights s w ia) \<longleftrightarrow> ia_signer ia \<or> s"
  "ia_writable (merge_rights s w ia) \<longleftrightarrow> ia_writable ia \<or> w"
  "ia_index_in_transaction (merge_rights s w ia) = ia_index_in_transaction ia"
  by (auto simp: merge_rights_def ia_set_is_writable_def ia_set_is_signer_def ia_signer_def ia_writable_def)

lemma new_account_simps [simp]:
  "ia_signer (instruction_account_new i s w) \<longleftrightarrow> s"
  "ia_writable (instruction_account_new i s w) \<longleftrightarrow> w"
  "ia_index_in_transaction (instruction_account_new i s w) = i"
  by (auto simp: instruction_account_new_def ia_signer_def ia_writable_def)

lemma find_position_Some:
  "find_position key i sfs = Some j \<Longrightarrow> i \<le> j \<and> j < i + length sfs \<and> sf_key (sfs ! (j - i)) = key"
  by (induction sfs arbitrary: i) (fastforce simp: nth_Cons' split: if_splits)+

lemma find_index_key:
  assumes "find_index_of_account key tc = Some i" "length (ta_shared (tc_accounts tc)) \<le> 2 ^ 16"
  shows "sf_key (shared_at (tc_accounts tc) (unat i)) = key"
proof -
  obtain j where j: "find_position key 0 (ta_shared (tc_accounts tc)) = Some j" "i = of_nat j"
    using assms(1) by (auto simp: find_index_of_account_def)
  have "j < 2 ^ 16" "sf_key (shared_at (tc_accounts tc) j) = key"
    using find_position_Some [OF j(1)] assms(2) by auto
  then show ?thesis
    by (simp add: j(2) unat_of_nat)
qed

subsection \<open>Collecting the accounts\<close>

definition collected :: "transaction_context \<Rightarrow> account_meta list \<Rightarrow> u16 list \<Rightarrow> instruction_account list \<Rightarrow> bool" where
  "collected tc metas cmap accounts \<longleftrightarrow>
     length accounts = length metas \<and>
     (\<forall>k < length metas. let ia = accounts ! k in
        find_index_of_account (am_pubkey (metas ! k)) tc = Some (ia_index_in_transaction ia) \<and>
        unat (ia_index_in_transaction ia) < length cmap \<and>
        unat (cmap ! unat (ia_index_in_transaction ia)) < length metas \<and>
        (ia_signer ia \<longrightarrow> requested am_is_signer metas (am_pubkey (metas ! k))) \<and>
        (ia_writable ia \<longrightarrow> requested am_is_writable metas (am_pubkey (metas ! k)))) \<and>
     (\<forall>i < length cmap. let f = unat (cmap ! i) in
        if f < length metas
        then unat (ia_index_in_transaction (accounts ! f)) = i \<and>
          (requested am_is_signer metas (am_pubkey (metas ! f)) \<longrightarrow> ia_signer (accounts ! f)) \<and>
          (requested am_is_writable metas (am_pubkey (metas ! f)) \<longrightarrow> ia_writable (accounts ! f))
        else cmap ! i = - 1)"

lemma collected_account:
  assumes "collected tc metas cmap accounts" "k < length metas"
  shows "find_index_of_account (am_pubkey (metas ! k)) tc = Some (ia_index_in_transaction (accounts ! k))"
    "unat (ia_index_in_transaction (accounts ! k)) < length cmap"
    "unat (cmap ! unat (ia_index_in_transaction (accounts ! k))) < length metas"
    "ia_signer (accounts ! k) \<Longrightarrow> requested am_is_signer metas (am_pubkey (metas ! k))"
    "ia_writable (accounts ! k) \<Longrightarrow> requested am_is_writable metas (am_pubkey (metas ! k))"
  using assms by (auto simp: collected_def Let_def)

lemma collected_first:
  assumes "collected tc metas cmap accounts" "i < length cmap" "unat (cmap ! i) < length metas"
  shows "unat (ia_index_in_transaction (accounts ! unat (cmap ! i))) = i"
    "requested am_is_signer metas (am_pubkey (metas ! unat (cmap ! i))) \<Longrightarrow> ia_signer (accounts ! unat (cmap ! i))"
    "requested am_is_writable metas (am_pubkey (metas ! unat (cmap ! i))) \<Longrightarrow> ia_writable (accounts ! unat (cmap ! i))"
  using assms by (auto simp: collected_def Let_def)

lemma requested_append:
  "requested P (metas @ [m]) key \<longleftrightarrow> requested P metas key \<or> am_pubkey m = key \<and> P m"
  by (auto simp: requested_def)

text \<open>Accounts have the same address if and only if they have the same index.\<close>

lemma collected_same:
  assumes "collected tc metas cmap accounts" "k < length metas" "length (ta_shared (tc_accounts tc)) \<le> 2 ^ 16"
    and "find_index_of_account key tc = Some i"
  shows "am_pubkey (metas ! k) = key \<longleftrightarrow> ia_index_in_transaction (accounts ! k) = i"
proof -
  have "find_index_of_account (am_pubkey (metas ! k)) tc = Some (ia_index_in_transaction (accounts ! k))"
    by (rule collected_account(1) [OF assms(1,2)])
  then show ?thesis
    using assms(4) find_index_key [OF assms(4,3)] find_index_key [OF _ assms(3)] by (metis option.inject)
qed

lemma collect_repeated:
  assumes inv: "collected tc metas cmap accounts" and small: "length (ta_shared (tc_accounts tc)) \<le> 2 ^ 16"
    and idx: "find_index_of_account (am_pubkey meta) tc = Some i" "unat i < length cmap"
    and f: "unat (cmap ! unat i) < length metas" and few: "length metas < 2 ^ 16 - 1"
  defines "ia \<equiv> merge_rights (am_is_signer meta) (am_is_writable meta) (accounts ! unat (cmap ! unat i))"
  shows "collected tc (metas @ [meta]) cmap (accounts[unat (cmap ! unat i) := ia] @ [ia])"
proof -
  let ?f = "unat (cmap ! unat i)"
  have len: "length accounts = length metas"
    using inv by (simp add: collected_def)
  note first = collected_first [OF inv idx(2) f]
  have fi: "ia_index_in_transaction (accounts ! ?f) = i"
    using first(1) by (simp add: word_unat_eq_iff)
  then have key: "am_pubkey (metas ! ?f) = am_pubkey meta"
    using collected_same [OF inv f small idx(1)] by simp
  have ia: "ia_index_in_transaction ia = i" "ia_signer ia \<longleftrightarrow> ia_signer (accounts ! ?f) \<or> am_is_signer meta"
    "ia_writable ia \<longleftrightarrow> ia_writable (accounts ! ?f) \<or> am_is_writable meta"
    by (simp_all add: ia_def fi)
  have at: "(accounts[?f := ia] @ [ia]) ! k = (if k = ?f \<or> k = length metas then ia else accounts ! k)"
    and meta_at: "(metas @ [meta]) ! k = (if k = length metas then meta else metas ! k)" if "k < length (metas @ [meta])" for k
    using that f by (auto simp: nth_append len nth_list_update)
  show ?thesis
    unfolding collected_def Let_def
  proof (intro conjI allI impI)
    show "length (accounts[?f := ia] @ [ia]) = length (metas @ [meta])"
      by (simp add: len)
  next
    fix k
    assume k: "k < length (metas @ [meta])"
    note at = at [OF k] meta_at [OF k]
    note old = collected_account [OF inv, of k] collected_account [OF inv f]
    show "find_index_of_account (am_pubkey ((metas @ [meta]) ! k)) tc =
        Some (ia_index_in_transaction ((accounts[?f := ia] @ [ia]) ! k))"
      using k old(1) idx(1) fi key by (auto simp: at ia less_Suc_eq)
    show "unat (ia_index_in_transaction ((accounts[?f := ia] @ [ia]) ! k)) < length cmap"
      using k old(2) idx(2) fi by (auto simp: at ia less_Suc_eq)
    show "unat (cmap ! unat (ia_index_in_transaction ((accounts[?f := ia] @ [ia]) ! k))) < length (metas @ [meta])"
      using k old(3) f fi by (auto simp: at ia less_Suc_eq)
    show "ia_signer ((accounts[?f := ia] @ [ia]) ! k) \<Longrightarrow>
        requested am_is_signer (metas @ [meta]) (am_pubkey ((metas @ [meta]) ! k))"
      using k old(4,9) key by (auto simp: at ia less_Suc_eq requested_append split: if_splits)
    show "ia_writable ((accounts[?f := ia] @ [ia]) ! k) \<Longrightarrow>
        requested am_is_writable (metas @ [meta]) (am_pubkey ((metas @ [meta]) ! k))"
      using k old(5,10) key by (auto simp: at ia less_Suc_eq requested_append split: if_splits)
  next
    fix j
    assume j: "j < length cmap"
    show "if unat (cmap ! j) < length (metas @ [meta])
        then unat (ia_index_in_transaction ((accounts[?f := ia] @ [ia]) ! unat (cmap ! j))) = j \<and>
          (requested am_is_signer (metas @ [meta]) (am_pubkey ((metas @ [meta]) ! unat (cmap ! j))) \<longrightarrow>
             ia_signer ((accounts[?f := ia] @ [ia]) ! unat (cmap ! j))) \<and>
          (requested am_is_writable (metas @ [meta]) (am_pubkey ((metas @ [meta]) ! unat (cmap ! j))) \<longrightarrow>
             ia_writable ((accounts[?f := ia] @ [ia]) ! unat (cmap ! j)))
        else cmap ! j = - 1"
    proof (cases "unat (cmap ! j) < length metas")
      case True
      note firstj = collected_first [OF inv j True]
      have other: "am_pubkey (metas ! unat (cmap ! j)) \<noteq> am_pubkey meta" if "j \<noteq> unat i"
        using collected_same [OF inv True small idx(1)] firstj(1) that by auto
      show ?thesis
      proof (cases "j = unat i")
        case True
        then show ?thesis
          using first f by (auto simp: nth_append len ia key requested_append)
      next
        case False
        have ne: "unat (cmap ! j) \<noteq> ?f"
          using firstj(1) fi False by auto
        show ?thesis
          using firstj other [OF False] True ne by (simp add: nth_append len requested_append)
      qed
    next
      case False
      then have "cmap ! j = - 1"
        using inv j by (auto simp: collected_def Let_def)
      then show ?thesis
        using few by (simp add: unat_max_u16)
    qed
  qed
qed

lemma collect_new:
  assumes inv: "collected tc metas cmap accounts" and small: "length (ta_shared (tc_accounts tc)) \<le> 2 ^ 16"
    and idx: "find_index_of_account (am_pubkey meta) tc = Some i" "unat i < length cmap"
    and f: "\<not> unat (cmap ! unat i) < length metas" and few: "length metas < 2 ^ 16 - 1"
  defines "ia \<equiv> instruction_account_new i (am_is_signer meta) (am_is_writable meta)"
  shows "collected tc (metas @ [meta]) (cmap[unat i := of_nat (length metas)]) (accounts @ [ia])"
proof -
  let ?map = "cmap[unat i := of_nat (length metas)]"
  have len: "length accounts = length metas"
    using inv by (simp add: collected_def)
  have ia: "ia_index_in_transaction ia = i" "ia_signer ia \<longleftrightarrow> am_is_signer meta" "ia_writable ia \<longleftrightarrow> am_is_writable meta"
    by (simp_all add: ia_def)
  have n: "unat (of_nat (length metas) :: u16) = length metas"
    using few by (simp add: unat_of_nat)
  have fresh: "ia_index_in_transaction (accounts ! k) \<noteq> i" "am_pubkey (metas ! k) \<noteq> am_pubkey meta" if "k < length metas" for k
    using collected_account(3) [OF inv that] collected_same [OF inv that small idx(1)] f by auto
  have none: "\<not> requested P metas (am_pubkey meta)" for P
    using fresh(2) by (auto simp: requested_def in_set_conv_nth)
  have map_at: "unat (?map ! j) = (if j = unat i then length metas else unat (cmap ! j))" for j
    using idx(2) n by (simp add: nth_list_update)
  have at: "(accounts @ [ia]) ! k = (if k = length metas then ia else accounts ! k)"
    and meta_at: "(metas @ [meta]) ! k = (if k = length metas then meta else metas ! k)" if "k < length (metas @ [meta])" for k
    using that by (auto simp: nth_append len)
  show ?thesis
    unfolding collected_def Let_def
  proof (intro conjI allI impI)
    show "length (accounts @ [ia]) = length (metas @ [meta])"
      by (simp add: len)
  next
    fix k
    assume k: "k < length (metas @ [meta])"
    note at = at [OF k] meta_at [OF k]
    note old = collected_account [OF inv, of k]
    show "find_index_of_account (am_pubkey ((metas @ [meta]) ! k)) tc = Some (ia_index_in_transaction ((accounts @ [ia]) ! k))"
      using k old(1) idx(1) by (auto simp: at ia less_Suc_eq)
    show "unat (ia_index_in_transaction ((accounts @ [ia]) ! k)) < length ?map"
      using k old(2) idx(2) by (auto simp: at ia less_Suc_eq)
    show "unat (?map ! unat (ia_index_in_transaction ((accounts @ [ia]) ! k))) < length (metas @ [meta])"
      using k old(3) by (auto simp: at ia less_Suc_eq map_at)
    show "ia_signer ((accounts @ [ia]) ! k) \<Longrightarrow> requested am_is_signer (metas @ [meta]) (am_pubkey ((metas @ [meta]) ! k))"
      using k old(4) by (auto simp: at ia less_Suc_eq requested_append split: if_splits)
    show "ia_writable ((accounts @ [ia]) ! k) \<Longrightarrow> requested am_is_writable (metas @ [meta]) (am_pubkey ((metas @ [meta]) ! k))"
      using k old(5) by (auto simp: at ia less_Suc_eq requested_append split: if_splits)
  next
    fix j
    assume "j < length ?map"
    then have j: "j < length cmap"
      by simp
    show "if unat (?map ! j) < length (metas @ [meta])
        then unat (ia_index_in_transaction ((accounts @ [ia]) ! unat (?map ! j))) = j \<and>
          (requested am_is_signer (metas @ [meta]) (am_pubkey ((metas @ [meta]) ! unat (?map ! j))) \<longrightarrow>
             ia_signer ((accounts @ [ia]) ! unat (?map ! j))) \<and>
          (requested am_is_writable (metas @ [meta]) (am_pubkey ((metas @ [meta]) ! unat (?map ! j))) \<longrightarrow>
             ia_writable ((accounts @ [ia]) ! unat (?map ! j)))
        else ?map ! j = - 1"
    proof (cases "j = unat i")
      case True
      then show ?thesis
        using none by (simp add: map_at nth_append len ia requested_append)
    next
      case False
      then have same: "unat (?map ! j) = unat (cmap ! j)" "?map ! j = cmap ! j"
        by simp_all
      show ?thesis
      proof (cases "unat (cmap ! j) < length metas")
        case True
        note firstj = collected_first [OF inv j True]
        show ?thesis
          using firstj fresh(2) [OF True] True by (simp add: same nth_append len requested_append)
      next
        case False
        then have "cmap ! j = - 1"
          using inv j by (auto simp: collected_def Let_def)
        then show ?thesis
          using few by (simp add: same unat_max_u16)
      qed
    qed
  qed
qed

lemma collect_account_inv:
  assumes "collected tc metas cmap accounts" "length (ta_shared (tc_accounts tc)) \<le> 2 ^ 16"
    and "find_index_of_account (am_pubkey meta) tc = Some i" "length metas < 2 ^ 16 - 1"
    and "collect_account i meta (cmap, accounts) = Some (cmap', accounts')"
  shows "collected tc (metas @ [meta]) cmap' accounts'" "length cmap' = length cmap"
proof -
  have idx: "unat i < length cmap" and len: "length accounts = length metas"
    using assms(1,5) by (auto simp: collect_account_def slice_get_def collected_def bind_eq_Some_conv split: if_splits)
  show "collected tc (metas @ [meta]) cmap' accounts'" "length cmap' = length cmap"
    using assms(5) collect_repeated [OF assms(1-3) idx _ assms(4)] collect_new [OF assms(1-3) idx _ assms(4)] idx
    by (auto simp: collect_account_def slice_get_def len Let_def split: if_splits)
qed

lemma collect_accounts_inv:
  assumes "collect_accounts tc metas (cmap, accounts) = Some (Inr (cmap', accounts'))"
    and "collected tc done_metas cmap accounts" "length (ta_shared (tc_accounts tc)) \<le> 2 ^ 16"
    and "length done_metas + length metas < 2 ^ 16"
  shows "collected tc (done_metas @ metas) cmap' accounts'"
  using assms
proof (induction metas arbitrary: cmap accounts done_metas)
  case (Cons meta metas)
  obtain i cmap1 accounts1 where i: "find_index_of_account (am_pubkey meta) tc = Some i"
    and step: "collect_account i meta (cmap, accounts) = Some (cmap1, accounts1)"
    and rest: "collect_accounts tc metas (cmap1, accounts1) = Some (Inr (cmap', accounts'))"
    using Cons.prems(1) by (auto simp: bind_eq_Some_conv split: option.splits)
  have "collected tc (done_metas @ [meta]) cmap1 accounts1"
    using collect_account_inv(1) [OF Cons.prems(2,3) i _ step] Cons.prems(4) by simp
  then have "collected tc ((done_metas @ [meta]) @ metas) cmap' accounts'"
    by (rule Cons.IH [OF rest _ Cons.prems(3)]) (use Cons.prems(4) in simp)
  then show ?case
    by simp
qed simp

lemma collected_empty: "collected tc [] (replicate n (- 1)) []"
  by (simp add: collected_def Let_def)

subsection \<open>Checking the accounts\<close>

text \<open>An account with exactly the rights that are requested for its address.\<close>

definition settled :: "account_meta list \<Rightarrow> pubkey \<Rightarrow> instruction_account \<Rightarrow> bool" where
  "settled metas key ia \<longleftrightarrow>
     (ia_signer ia \<longleftrightarrow> requested am_is_signer metas key) \<and> (ia_writable ia \<longleftrightarrow> requested am_is_writable metas key)"

definition caller_has :: "instruction_account list \<Rightarrow> (instruction_account \<Rightarrow> bool) \<Rightarrow> index_of_account \<Rightarrow> bool" where
  "caller_has accounts P i \<longleftrightarrow> (\<exists>ia \<in> set accounts. ia_index_in_transaction ia = i \<and> P ia)"

definition granted :: "instruction_context \<Rightarrow> pubkey list \<Rightarrow> account_meta list \<Rightarrow> pubkey \<Rightarrow> index_of_account \<Rightarrow> bool" where
  "granted ic signers metas key i \<longleftrightarrow>
     caller_has (ic_instruction_accounts ic) (\<lambda>_. True) i \<and>
     (requested am_is_writable metas key \<longrightarrow> caller_has (ic_instruction_accounts ic) ia_writable i) \<and>
     (requested am_is_signer metas key \<longrightarrow> caller_has (ic_instruction_accounts ic) ia_signer i \<or> key \<in> set signers)"

text \<open>While the second loop runs, an account is as it was collected or has its final rights.\<close>

definition in_check ::
  "transaction_context \<Rightarrow> account_meta list \<Rightarrow> u16 list \<Rightarrow> instruction_account list \<Rightarrow> instruction_account list \<Rightarrow> bool" where
  "in_check tc metas cmap collected_accounts accounts \<longleftrightarrow>
     collected tc metas cmap collected_accounts \<and> length accounts = length metas \<and>
     (\<forall>k < length metas. ia_index_in_transaction (accounts ! k) = ia_index_in_transaction (collected_accounts ! k) \<and>
        (accounts ! k = collected_accounts ! k \<or> settled metas (am_pubkey (metas ! k)) (accounts ! k)))"

lemma in_check_first:
  assumes "in_check tc metas cmap cs accounts" "k < length metas" "length (ta_shared (tc_accounts tc)) \<le> 2 ^ 16"
  defines "f \<equiv> unat (cmap ! unat (ia_index_in_transaction (accounts ! k)))"
  shows "unat (ia_index_in_transaction (accounts ! k)) < length cmap" "f < length metas"
    "am_pubkey (metas ! f) = am_pubkey (metas ! k)" "settled metas (am_pubkey (metas ! k)) (accounts ! f)"
proof -
  have inv: "collected tc metas cmap cs"
    and at: "\<And>k. k < length metas \<Longrightarrow> ia_index_in_transaction (accounts ! k) = ia_index_in_transaction (cs ! k) \<and>
        (accounts ! k = cs ! k \<or> settled metas (am_pubkey (metas ! k)) (accounts ! k))"
    using assms(1) by (auto simp: in_check_def)
  note old = collected_account [OF inv assms(2)]
  have f_def': "f = unat (cmap ! unat (ia_index_in_transaction (cs ! k)))"
    using at [OF assms(2)] by (simp add: f_def)
  show f: "unat (ia_index_in_transaction (accounts ! k)) < length cmap" "f < length metas"
    using old(2,3) at [OF assms(2)] by (simp_all add: f_def')
  note first = collected_first [OF inv old(2,3), folded f_def']
  have "ia_index_in_transaction (cs ! f) = ia_index_in_transaction (cs ! k)"
    using first(1) by (simp add: word_unat_eq_iff)
  then show key: "am_pubkey (metas ! f) = am_pubkey (metas ! k)"
    using collected_same [OF inv f(2) assms(3) old(1)] by simp
  have "settled metas (am_pubkey (metas ! f)) (cs ! f)"
    using first(2,3) collected_account(4,5) [OF inv f(2)] by (auto simp: settled_def)
  then show "settled metas (am_pubkey (metas ! k)) (accounts ! f)"
    using at [OF f(2)] key by auto
qed

lemma check_account_granted:
  assumes "get_index_of_account_in_instruction ic i = Inr j" "dedup_ok (ic_dedup_map ic) (ic_instruction_accounts ic)"
    and "P (ic_instruction_accounts ic ! unat j)"
  shows "caller_has (ic_instruction_accounts ic) P i"
proof -
  have j: "unat i < length (ic_dedup_map ic)" "j = ic_dedup_map ic ! unat i" "unat j < length (ic_instruction_accounts ic)"
    using assms(1)
    by (auto simp: get_index_of_account_in_instruction_def slice_get_def bind_eq_Some_conv ok_or_def
        split: if_splits option.splits)
  then have "unat (ia_index_in_transaction (ic_instruction_accounts ic ! unat j)) = unat i"
    using assms(2) by (simp add: dedup_ok_def)
  then show ?thesis
    using j(3) assms(3) by (auto simp: caller_has_def word_unat_eq_iff)
qed

lemma check_account_inv:
  assumes "check_account ic metas signers cmap k accounts = Some (Inr accounts')"
    and inv: "in_check tc metas cmap cs accounts" and k: "k < length metas"
    and small: "length (ta_shared (tc_accounts tc)) \<le> 2 ^ 16"
    and caller: "dedup_ok (ic_dedup_map ic) (ic_instruction_accounts ic)"
  defines "i \<equiv> ia_index_in_transaction (accounts ! k)"
  shows "in_check tc metas cmap cs accounts'" "settled metas (am_pubkey (metas ! k)) (accounts' ! k)"
    "\<forall>j. j \<noteq> k \<longrightarrow> accounts' ! j = accounts ! j"
    "unat (cmap ! unat i) = k \<Longrightarrow> granted ic signers metas (am_pubkey (metas ! k)) i"
proof -
  note first = in_check_first [OF inv k small]
  have len: "length accounts = length metas"
    using inv by (simp add: in_check_def)
  let ?f = "unat (cmap ! unat i)"
  have f: "?f < length metas" "settled metas (am_pubkey (metas ! k)) (accounts ! ?f)"
    using first by (simp_all add: i_def)
  have was: "accounts ! k = cs ! k \<or> settled metas (am_pubkey (metas ! k)) (accounts ! k)"
    and coll: "collected tc metas cmap cs"
    using inv k by (simp_all add: in_check_def)
  have upper: "ia_signer (accounts ! k) \<Longrightarrow> requested am_is_signer metas (am_pubkey (metas ! k))"
    "ia_writable (accounts ! k) \<Longrightarrow> requested am_is_writable metas (am_pubkey (metas ! k))"
    using was collected_account(4,5) [OF coll k] by (auto simp: settled_def)
  have "in_check tc metas cmap cs accounts' \<and> settled metas (am_pubkey (metas ! k)) (accounts' ! k) \<and>
    (\<forall>j. j \<noteq> k \<longrightarrow> accounts' ! j = accounts ! j) \<and>
    (?f = k \<longrightarrow> granted ic signers metas (am_pubkey (metas ! k)) i)"
  proof (cases "?f = k")
    case False
    let ?ia = "merge_rights (ia_signer (accounts ! ?f)) (ia_writable (accounts ! ?f)) (accounts ! k)"
    have acc': "accounts' = accounts[k := ?ia]"
      using assms(1) False first(1) f(1)
      by (simp add: check_account_def Let_def slice_get_def i_def [symmetric] len result_ops)
    have "settled metas (am_pubkey (metas ! k)) ?ia"
      using f(2) upper by (auto simp: settled_def)
    then show ?thesis
      using inv False k len by (auto simp: acc' in_check_def nth_list_update)
  next
    case True
    obtain j where j: "get_index_of_account_in_instruction ic i = Inr j" and acc': "accounts' = accounts"
      and ok: "ia_writable (accounts ! k) \<Longrightarrow> ia_writable (ic_instruction_accounts ic ! unat j)"
        "ia_signer (accounts ! k) \<Longrightarrow> ia_signer (ic_instruction_accounts ic ! unat j) \<or> am_pubkey (metas ! k) \<in> set signers"
      using assms(1) True first(1)
      by (auto simp: check_account_def Let_def slice_get_def i_def [symmetric] and_then_Inr split: if_splits)
    note has = check_account_granted [OF j caller]
    have "settled metas (am_pubkey (metas ! k)) (accounts ! k)"
      using f(2) True by simp
    then show ?thesis
      using inv ok has by (auto simp: acc' granted_def settled_def simp del: ex_simps)
  qed
  then show "in_check tc metas cmap cs accounts'" "settled metas (am_pubkey (metas ! k)) (accounts' ! k)"
    "\<forall>j. j \<noteq> k \<longrightarrow> accounts' ! j = accounts ! j"
    "?f = k \<Longrightarrow> granted ic signers metas (am_pubkey (metas ! k)) i"
    by blast+
qed

lemma check_accounts_inv:
  assumes "check_accounts ic metas signers cmap ks accounts = Some (Inr accounts')"
    and "in_check tc metas cmap cs accounts" "set ks \<subseteq> {..<length metas}" "distinct ks"
    and small: "length (ta_shared (tc_accounts tc)) \<le> 2 ^ 16"
    and caller: "dedup_ok (ic_dedup_map ic) (ic_instruction_accounts ic)"
  shows "in_check tc metas cmap cs accounts' \<and> (\<forall>k. k \<notin> set ks \<longrightarrow> accounts' ! k = accounts ! k) \<and>
    (\<forall>k \<in> set ks. settled metas (am_pubkey (metas ! k)) (accounts' ! k) \<and>
      (unat (cmap ! unat (ia_index_in_transaction (cs ! k))) = k \<longrightarrow>
        granted ic signers metas (am_pubkey (metas ! k)) (ia_index_in_transaction (cs ! k))))"
  using assms(1-4)
proof (induction ks arbitrary: accounts)
  case (Cons k ks)
  obtain acc where one: "check_account ic metas signers cmap k accounts = Some (Inr acc)"
    and rest: "check_accounts ic metas signers cmap ks acc = Some (Inr accounts')"
    using Cons.prems(1) by (auto split: option.splits sum.splits)
  have k: "k < length metas" "set ks \<subseteq> {..<length metas}" "distinct ks" "k \<notin> set ks"
    using Cons.prems(3,4) by auto
  note step = check_account_inv [OF one Cons.prems(2) k(1) small caller]
  note IH = Cons.IH [OF rest step(1) k(2,3)]
  have "accounts' ! k = acc ! k"
    using IH k(4) by blast
  moreover have "ia_index_in_transaction (accounts ! k) = ia_index_in_transaction (cs ! k)"
    using Cons.prems(2) k(1) by (simp add: in_check_def)
  ultimately show ?case
    using step(2-4) IH by simp
qed simp

text \<open>All accounts of a call, and the map of their first occurrences.\<close>

lemma callee_accounts_settled:
  assumes "callee_accounts tc ic metas signers = Some (Inr (cmap, accounts))"
    and caller: "dedup_ok (ic_dedup_map ic) (ic_instruction_accounts ic)"
    and small: "length (ta_shared (tc_accounts tc)) \<le> 2 ^ 16" and few: "length metas < 2 ^ 16"
  shows "length accounts = length metas" "dedup_ok cmap accounts"
    "\<forall>k < length metas. let key = am_pubkey (metas ! k); ia = accounts ! k in
       find_index_of_account key tc = Some (ia_index_in_transaction ia) \<and> settled metas key ia \<and>
       granted ic signers metas key (ia_index_in_transaction ia)"
proof -
  obtain cs where coll: "collect_accounts tc metas
      (replicate (min (unat (get_number_of_accounts tc)) max_accounts_per_transaction) (- 1), []) = Some (Inr (cmap, cs))"
    and run: "check_accounts ic metas signers cmap [0..<length cs] cs = Some (Inr accounts)"
    using assms(1) by (auto simp: callee_accounts_def Let_def and_then_Inr split: option.splits sum.splits)
  have inv: "collected tc metas cmap cs"
    using collect_accounts_inv [OF coll collected_empty small] few by simp
  then have len: "length cs = length metas" and start: "in_check tc metas cmap cs cs"
    by (auto simp: collected_def in_check_def)
  have final: "in_check tc metas cmap cs accounts"
    "\<And>k. k < length metas \<Longrightarrow> settled metas (am_pubkey (metas ! k)) (accounts ! k)"
    "\<And>k. k < length metas \<Longrightarrow> unat (cmap ! unat (ia_index_in_transaction (cs ! k))) = k \<Longrightarrow>
       granted ic signers metas (am_pubkey (metas ! k)) (ia_index_in_transaction (cs ! k))"
    using check_accounts_inv [OF run start _ _ small caller] by (auto simp: len atLeast0LessThan)
  have index: "ia_index_in_transaction (accounts ! k) = ia_index_in_transaction (cs ! k)" if "k < length metas" for k
    using final(1) that by (simp add: in_check_def)
  show "length accounts = length metas"
    using final(1) by (simp add: in_check_def)
  then show "dedup_ok cmap accounts"
    using collected_first(1) [OF inv] by (simp add: dedup_ok_def index)
  show "\<forall>k < length metas. let key = am_pubkey (metas ! k); ia = accounts ! k in
       find_index_of_account key tc = Some (ia_index_in_transaction ia) \<and> settled metas key ia \<and>
       granted ic signers metas key (ia_index_in_transaction ia)"
  proof (intro allI impI)
    fix k
    assume k: "k < length metas"
    let ?f = "unat (cmap ! unat (ia_index_in_transaction (cs ! k)))"
    note first = in_check_first [OF start k small]
    have "ia_index_in_transaction (cs ! ?f) = ia_index_in_transaction (cs ! k)"
      using collected_first(1) [OF inv collected_account(2,3) [OF inv k]] by (simp add: word_unat_eq_iff)
    then have "granted ic signers metas (am_pubkey (metas ! k)) (ia_index_in_transaction (cs ! k))"
      using final(3) [OF first(2)] first(3) by simp
    then show "let key = am_pubkey (metas ! k); ia = accounts ! k in
       find_index_of_account key tc = Some (ia_index_in_transaction ia) \<and> settled metas key ia \<and>
       granted ic signers metas key (ia_index_in_transaction ia)"
      using collected_account(1) [OF inv k] final(2) [OF k] by (simp add: index [OF k] Let_def)
  qed
qed

text \<open>
  An example: a program with two accounts, of which it may sign for and write the first, passes the
  first account twice, once to write it and once as a signer.
\<close>

definition example_caller :: instruction_context where
  "example_caller = \<lparr>ic_index_in_trace = 0, ic_nesting_level = 0, ic_index_of_caller_instruction = 0,
     ic_program_account_index_in_tx = 1,
     ic_instruction_accounts = [instruction_account_new 0 True True, instruction_account_new 1 False False],
     ic_dedup_map = [0, 1], ic_instruction_data = []\<rparr>"

definition example_metas :: "account_meta list" where
  "example_metas = [\<lparr>am_pubkey = 11, am_is_signer = False, am_is_writable = True\<rparr>,
     \<lparr>am_pubkey = 12, am_is_signer = False, am_is_writable = False\<rparr>,
     \<lparr>am_pubkey = 11, am_is_signer = True, am_is_writable = False\<rparr>]"

definition example_two_accounts :: transaction_context where
  "example_two_accounts = transaction_context_new [(11, example_account 0 100 []), (12, example_account 0 100 [])] 5 64 1"

lemma merge_rights_new: "merge_rights s w (instruction_account_new i s' w') = instruction_account_new i (s' \<or> s) (w' \<or> w)"
  by (auto simp: merge_rights_def instruction_account_new_def ia_set_is_signer_def ia_set_is_writable_def
      ia_signer_def ia_writable_def)

lemma example_two_shared:
  "length (ta_shared (tc_accounts example_two_accounts)) = 2"
  "find_index_of_account 11 example_two_accounts = Some 0" "find_index_of_account 12 example_two_accounts = Some 1"
  by (simp_all add: example_two_accounts_def transaction_context_new_def transaction_accounts_new_def
      find_index_of_account_def)

lemma example_collected:
  "collect_accounts example_two_accounts example_metas ([- 1, - 1], []) =
   Some (Inr ([0, 1], [instruction_account_new 0 True True, instruction_account_new 1 False False,
     instruction_account_new 0 True True]))"
  by (simp add: example_metas_def example_two_shared collect_account_def slice_get_def unat_max_u16 merge_rights_new Let_def)

lemma example_callee_accounts:
  "callee_accounts example_two_accounts example_caller example_metas [] =
   Some (Inr ([0, 1], [instruction_account_new 0 True True, instruction_account_new 1 False False,
     instruction_account_new 0 True True]))"
  "dedup_ok (ic_dedup_map example_caller) (ic_instruction_accounts example_caller)"
proof -
  have "replicate (min (unat (get_number_of_accounts example_two_accounts)) max_accounts_per_transaction) (- 1 :: u16) =
      [- 1, - 1]"
    by (simp add: get_number_of_accounts_def example_two_shared max_accounts_per_transaction_def)
      (simp add: numeral_2_eq_2)
  then show "callee_accounts example_two_accounts example_caller example_metas [] =
      Some (Inr ([0, 1], [instruction_account_new 0 True True, instruction_account_new 1 False False,
        instruction_account_new 0 True True]))"
    by (simp add: callee_accounts_def example_collected check_account_def slice_get_def example_caller_def
        get_index_of_account_in_instruction_def result_ops merge_rights_new Let_def)
  show "dedup_ok (ic_dedup_map example_caller) (ic_instruction_accounts example_caller)"
    by (auto simp: dedup_ok_def example_caller_def less_Suc_eq)
qed

text \<open>
  C15. A call never gives more rights than it should: the callee gets the accounts named in the call,
  in this order, and every occurrence of an account has exactly the union of the rights requested for
  its address. An account is writable only if the caller may write it, and a signer only if it is one
  for the caller or the caller signs for it with an address derived from its own.
\<close>

theorem call_rights_exact:
  assumes "callee_accounts tc ic metas signers = Some (Inr (cmap, accounts))"
    and "dedup_ok (ic_dedup_map ic) (ic_instruction_accounts ic)"
    and "length (ta_shared (tc_accounts tc)) \<le> 2 ^ 16" and "length metas < 2 ^ 16"
  shows "length accounts = length metas \<and> dedup_ok cmap accounts \<and>
    (\<forall>k < length metas.
      sf_key (shared_at (tc_accounts tc) (unat (ia_index_in_transaction (accounts ! k)))) = am_pubkey (metas ! k) \<and>
      (ia_signer (accounts ! k) \<longleftrightarrow> requested am_is_signer metas (am_pubkey (metas ! k))) \<and>
      (ia_writable (accounts ! k) \<longleftrightarrow> requested am_is_writable metas (am_pubkey (metas ! k))) \<and>
      (\<exists>ia \<in> set (ic_instruction_accounts ic). ia_index_in_transaction ia = ia_index_in_transaction (accounts ! k)) \<and>
      (ia_writable (accounts ! k) \<longrightarrow>
        (\<exists>ia \<in> set (ic_instruction_accounts ic).
          ia_index_in_transaction ia = ia_index_in_transaction (accounts ! k) \<and> ia_writable ia)) \<and>
      (ia_signer (accounts ! k) \<longrightarrow> am_pubkey (metas ! k) \<in> set signers \<or>
        (\<exists>ia \<in> set (ic_instruction_accounts ic).
          ia_index_in_transaction ia = ia_index_in_transaction (accounts ! k) \<and> ia_signer ia)))"
  using callee_accounts_settled [OF assms] find_index_key [OF _ assms(3)]
  by (auto simp: Let_def settled_def granted_def caller_has_def)

theorem call_rights_exact_witness:
  "\<exists>cmap accounts. callee_accounts example_two_accounts example_caller example_metas [] = Some (Inr (cmap, accounts)) \<and>
     length accounts = 3 \<and> dedup_ok cmap accounts \<and> (\<forall>k < 3.
       ia_writable (accounts ! k) \<longleftrightarrow> requested am_is_writable example_metas (am_pubkey (example_metas ! k)))"
proof -
  have "length example_metas = 3"
    by (simp add: example_metas_def)
  then show ?thesis
    using call_rights_exact [OF example_callee_accounts] example_callee_accounts(1) example_two_shared(1) by auto
qed

end
