(* ===== verification/Call_Trace.thy ===== *)
theory Call_Trace
  imports Privileges Account_Contract "HOL-Library.Sublist"
begin

section \<open>The calls of a transaction\<close>

text \<open>
  Every state a transaction can be in while its message is processed and its programs call each other:
  instructions are entered and left, programs change their accounts within their rights, and calls
  are prepared and entered. The invariant relates the stack, the trace and the lists of accounts.
\<close>

inductive running ::
  "runtime_env \<Rightarrow> message \<Rightarrow> (pubkey \<times> account_shared_data) list \<Rightarrow> nat \<Rightarrow> nat \<Rightarrow> transaction_context \<Rightarrow> bool"
  for env message accounts stack_capacity trace_capacity where
  prepared: "prepare_top_level_instructions message 0 (msg_instructions message)
       (transaction_context_new accounts stack_capacity trace_capacity (length (msg_instructions message))) =
       Some (Inr tc) \<Longrightarrow>
     running env message accounts stack_capacity trace_capacity tc"
| entered: "running env message accounts stack_capacity trace_capacity tc \<Longrightarrow>
     tc_instruction_stack tc = [] \<Longrightarrow> tc_next_top_level_instruction_index tc < length (msg_instructions message) \<Longrightarrow>
     invoke_push env tc = (Inr (), tc') \<Longrightarrow>
     running env message accounts stack_capacity trace_capacity tc'"
| called: "running env message accounts stack_capacity trace_capacity tc \<Longrightarrow>
     current_program tc = Inr caller \<Longrightarrow> derive_signers env caller seeds = Inr signers \<Longrightarrow>
     length (ins_accounts ins) < 2 ^ 16 \<Longrightarrow>
     prepare_next_cpi_instruction ins signers tc = Some (Inr tc1) \<Longrightarrow> invoke_push env tc1 = (Inr (), tc') \<Longrightarrow>
     running env message accounts stack_capacity trace_capacity tc'"
| worked: "running env message accounts stack_capacity trace_capacity tc \<Longrightarrow>
     get_current_instruction_context tc = Inr ic \<Longrightarrow>
     confined (ic_program_account_index_in_tx ic) (ic_instruction_accounts ic) (tc_accounts tc) ta \<Longrightarrow>
     running env message accounts stack_capacity trace_capacity (tc\<lparr>tc_accounts := ta\<rparr>)"
| returned: "running env message accounts stack_capacity trace_capacity tc \<Longrightarrow>
     running env message accounts stack_capacity trace_capacity (set_return_data program_id data tc)"
| left: "running env message accounts stack_capacity trace_capacity tc \<Longrightarrow>
     pop_instruction tc = (r, tc') \<Longrightarrow>
     running env message accounts stack_capacity trace_capacity tc'"

subsection \<open>Growth of the trace\<close>

text \<open>The frames without the placeholder, and the lists that grow with them.\<close>

definition frames :: "transaction_context \<Rightarrow> instruction_frame list" where
  "frames tc = butlast (tc_instruction_trace tc)"

definition aligned :: "transaction_context \<Rightarrow> bool" where
  "aligned tc \<longleftrightarrow>
     tc_instruction_trace tc \<noteq> [] \<and> length (tc_instruction_accounts tc) = length (frames tc) \<and>
     length (tc_deduplication_maps tc) = length (frames tc) \<and> length (tc_instruction_data tc) = length (frames tc)"

definition account_keys :: "transaction_context \<Rightarrow> pubkey list" where
  "account_keys tc = map sf_key (ta_shared (tc_accounts tc))"

definition extends :: "transaction_context \<Rightarrow> transaction_context \<Rightarrow> bool" where
  "extends tc tc' \<longleftrightarrow>
     prefix (frames tc) (frames tc') \<and> prefix (tc_instruction_accounts tc) (tc_instruction_accounts tc') \<and>
     prefix (tc_deduplication_maps tc) (tc_deduplication_maps tc') \<and>
     prefix (tc_instruction_data tc) (tc_instruction_data tc') \<and>
     account_keys tc' = account_keys tc"

lemma extends_refl [simp]: "extends tc tc"
  by (simp add: extends_def)

lemma extends_trans: "extends tc tc1 \<Longrightarrow> extends tc1 tc2 \<Longrightarrow> extends tc tc2"
  by (auto simp: extends_def intro: prefix_order.trans)

lemma prefix_nth: "prefix xs ys \<Longrightarrow> k < length xs \<Longrightarrow> ys ! k = xs ! k"
  by (auto simp: prefix_def nth_append)

lemma prefix_default: "prefix xs ys \<Longrightarrow> k < length xs \<Longrightarrow> get_or_default ys k = get_or_default xs k"
  using prefix_length_le [of xs ys] by (simp add: get_or_default_def slice_get_def prefix_nth)

lemma extends_context:
  assumes "extends tc tc'" "aligned tc" "k < length (frames tc)"
  shows "get_instruction_context_at_index_in_trace tc' k = get_instruction_context_at_index_in_trace tc k"
proof -
  have "length (frames tc) \<le> length (frames tc')" and at: "frames tc' ! k = frames tc ! k"
    using assms(1,3) prefix_length_le prefix_nth by (auto simp: extends_def)
  then have "slice_get (tc_instruction_trace tc') k = slice_get (tc_instruction_trace tc) k"
    using assms(3) by (auto simp: slice_get_def frames_def nth_butlast)
  moreover have "get_or_default (tc_instruction_accounts tc') k = get_or_default (tc_instruction_accounts tc) k"
    "get_or_default (tc_deduplication_maps tc') k = get_or_default (tc_deduplication_maps tc) k"
    "get_or_default (tc_instruction_data tc') k = get_or_default (tc_instruction_data tc) k"
    using assms by (auto simp: extends_def aligned_def intro: prefix_default)
  ultimately show ?thesis
    by (simp add: get_instruction_context_at_index_in_trace_def)
qed

lemma account_key_keys: "account_key i ta = slice_get (map sf_key (ta_shared ta)) (unat i)"
  by (simp add: account_key_def slice_get_def)

lemma get_program_key_keys:
  assumes "account_keys tc' = account_keys tc"
  shows "get_program_key ic (tc_accounts tc') = get_program_key ic (tc_accounts tc)"
  using assms
  by (simp add: get_program_key_def get_key_of_account_at_index_def [abs_def] account_key_keys account_keys_def)

lemma get_program_key_index:
  "ic_program_account_index_in_tx ic = ic_program_account_index_in_tx ic' \<Longrightarrow>
     get_program_key ic ta = get_program_key ic' ta"
  by (simp add: get_program_key_def get_index_of_program_account_in_transaction_def)

lemma context_program:
  "get_instruction_context_at_index_in_trace tc k = Inr ic \<longleftrightarrow>
     k < length (tc_instruction_trace tc) \<and>
     ic = \<lparr>ic_index_in_trace = k, ic_nesting_level = unat (if_nesting_level (tc_instruction_trace tc ! k)),
       ic_index_of_caller_instruction = unat (if_index_of_caller_instruction (tc_instruction_trace tc ! k)),
       ic_program_account_index_in_tx = if_program_account_index_in_tx (tc_instruction_trace tc ! k),
       ic_instruction_accounts = get_or_default (tc_instruction_accounts tc) k,
       ic_dedup_map = get_or_default (tc_deduplication_maps tc) k,
       ic_instruction_data = get_or_default (tc_instruction_data tc) k\<rparr>"
  by (auto simp: get_instruction_context_at_index_in_trace_def slice_get_def result_ops)

lemma extends_level:
  assumes "extends tc tc'" "aligned tc" "j < length (tc_instruction_stack tc)"
    and "\<forall>x \<in> set (tc_instruction_stack tc). x < length (frames tc)" "prefix (tc_instruction_stack tc) (tc_instruction_stack tc')"
  shows "program_at_level tc' j = program_at_level tc j"
proof -
  have at: "tc_instruction_stack tc' ! j = tc_instruction_stack tc ! j" "j < length (tc_instruction_stack tc')"
    using assms(3,5) prefix_nth prefix_length_le [OF assms(5)] by auto
  have "get_instruction_context_at_index_in_trace tc' (tc_instruction_stack tc ! j) =
      get_instruction_context_at_index_in_trace tc (tc_instruction_stack tc ! j)"
    using extends_context [OF assms(1,2)] assms(3,4) by simp
  moreover have "get_program_key ic (tc_accounts tc') = get_program_key ic (tc_accounts tc)" for ic
    using assms(1) by (intro get_program_key_keys) (simp add: extends_def)
  ultimately show ?thesis
    using assms(3) at
    by (simp add: program_at_level_def get_instruction_context_at_nesting_level_def slice_get_def result_ops)
qed

lemma current_is_last_level:
  assumes "tc_instruction_stack tc \<noteq> []"
  shows "current_program tc = program_at_level tc (length (tc_instruction_stack tc) - 1)"
  using assms
  by (simp add: current_program_def program_at_level_def get_current_instruction_context_def
      get_current_instruction_index_def get_instruction_context_at_nesting_level_def slice_get_def last_conv_nth result_ops)

subsection \<open>The steps\<close>

lemma invoke_push_ok:
  assumes "invoke_push env tc = (Inr (), tc')"
  obtains ic program_id where "get_next_instruction_context tc = Inr ic"
    "get_program_key ic (tc_accounts tc) = Inr program_id" "\<not> is_reentrant program_id tc"
    "push_instruction (instructions_sysvar_of env) tc = (Inr (), tc')"
  using assms by (auto simp: invoke_push_def split: sum.splits if_splits)

lemma prepare_next_ok:
  assumes "prepare_next_cpi_instruction ins signers tc = Some (Inr tc')"
  obtains ic cmap accounts program_index caller_index where "get_current_instruction_context tc = Inr ic"
    "callee_accounts tc ic (ins_accounts ins) signers = Some (Inr (cmap, accounts))"
    "find_index_of_account (ins_program_id ins) tc = Some program_index"
    "configure_instruction_at_index (get_instruction_trace_length tc) program_index accounts cmap (ins_data ins)
       (Some caller_index) tc = Inr tc'"
  using assms
  by (auto simp: prepare_next_cpi_instruction_def and_then_Inr ok_or_Inr split: option.splits sum.splits)

lemma configure_lists:
  assumes "configure_instruction_at_index i program ias dedup data caller tc = Inr tc'"
  shows "tc_instruction_accounts tc' = tc_instruction_accounts tc @ [ias]"
    "tc_deduplication_maps tc' = tc_deduplication_maps tc @ [dedup]"
    "tc_instruction_data tc' = tc_instruction_data tc @ [data]" "i < length (tc_instruction_trace tc)"
    "\<exists>frame. tc_instruction_trace tc' = (tc_instruction_trace tc)[i := frame] \<and>
      if_program_account_index_in_tx frame = program"
  using assms
  by (auto simp: configure_instruction_at_index_def result_ops Let_def configure_vm_slices_def split: option.splits if_splits)

lemma configure_keys:
  "configure_instruction_at_index i program ias dedup data caller tc = Inr tc' \<Longrightarrow> account_keys tc' = account_keys tc"
  by (simp add: account_keys_def configure_state)

lemma store_sysvar_accounts:
  assumes "store_instructions_sysvar si k tc = (Inr (), tc')"
  shows "account_keys tc' = account_keys tc"
    "find_index_of_account (instructions_id si) tc \<noteq> Some (of_nat i) \<Longrightarrow> i < 2 ^ 16 \<Longrightarrow>
       shared_at (tc_accounts tc') i = shared_at (tc_accounts tc) i \<and>
       private_at (tc_accounts tc') i = private_at (tc_accounts tc) i"
    "sf_lamports (shared_at (tc_accounts tc') i) = sf_lamports (shared_at (tc_accounts tc) i)"
    "ta_touched_flags (tc_accounts tc') = ta_touched_flags (tc_accounts tc)"
proof -
  have "account_keys tc' = account_keys tc \<and>
    (find_index_of_account (instructions_id si) tc \<noteq> Some (of_nat i) \<longrightarrow> i < 2 ^ 16 \<longrightarrow>
       shared_at (tc_accounts tc') i = shared_at (tc_accounts tc) i \<and>
       private_at (tc_accounts tc') i = private_at (tc_accounts tc) i) \<and>
    sf_lamports (shared_at (tc_accounts tc') i) = sf_lamports (shared_at (tc_accounts tc) i) \<and>
    ta_touched_flags (tc_accounts tc') = ta_touched_flags (tc_accounts tc)"
  proof (cases "find_index_of_account (instructions_id si) tc")
    case None
    then show ?thesis
      using assms by (simp add: store_instructions_sysvar_def)
  next
    case (Some j)
    with assms obtain ta1 data where borrow: "try_borrow_mut j (tc_accounts tc) = Inr ta1"
      and tc': "tc' = tc\<lparr>tc_accounts := drop_account_ref_mut j (upd_private (unat j) (pf_payload_update (\<lambda>_. data)) ta1)\<rparr>"
      by (auto simp: store_instructions_sysvar_def split: sum.splits if_splits)
    note same = try_borrow_mut_same [OF borrow]
    have "account_keys tc' = account_keys tc"
      using same by (cases "unat j < length (ta_shared (tc_accounts tc))")
        (simp_all add: account_keys_def tc' drop_account_ref_mut_def upd_private_def map_update list_update_same_conv
          list_update_beyond)
    moreover have "unat j \<noteq> i" if "j \<noteq> of_nat i"
      using that by auto
    ultimately show ?thesis
      using same Some
      by (auto simp: tc' drop_account_ref_mut_def upd_private_def nth_update_field [of sf_lamports])
  qed
  then show "account_keys tc' = account_keys tc"
    "find_index_of_account (instructions_id si) tc \<noteq> Some (of_nat i) \<Longrightarrow> i < 2 ^ 16 \<Longrightarrow>
       shared_at (tc_accounts tc') i = shared_at (tc_accounts tc) i \<and>
       private_at (tc_accounts tc') i = private_at (tc_accounts tc) i"
    "sf_lamports (shared_at (tc_accounts tc') i) = sf_lamports (shared_at (tc_accounts tc) i)"
    "ta_touched_flags (tc_accounts tc') = ta_touched_flags (tc_accounts tc)"
    by blast+
qed

lemma push_accounts:
  assumes "push_instruction si tc = (Inr (), tc')"
  shows "account_keys tc' = account_keys tc" "tc_instruction_accounts tc' = tc_instruction_accounts tc"
    "tc_deduplication_maps tc' = tc_deduplication_maps tc" "tc_instruction_data tc' = tc_instruction_data tc"
    "find_index_of_account (instructions_id si) tc \<noteq> Some (of_nat i) \<Longrightarrow> i < 2 ^ 16 \<Longrightarrow>
       shared_at (tc_accounts tc') i = shared_at (tc_accounts tc) i \<and>
       private_at (tc_accounts tc') i = private_at (tc_accounts tc) i"
    "sf_lamports (shared_at (tc_accounts tc') i) = sf_lamports (shared_at (tc_accounts tc) i)"
    "ta_touched_flags (tc_accounts tc') = ta_touched_flags (tc_accounts tc)"
proof -
  obtain top tc1 where store: "store_instructions_sysvar si top tc1 = (Inr (), tc')"
    and tc1: "tc_accounts tc1 = tc_accounts tc" "tc_instruction_accounts tc1 = tc_instruction_accounts tc"
      "tc_deduplication_maps tc1 = tc_deduplication_maps tc" "tc_instruction_data tc1 = tc_instruction_data tc"
    using assms
    by (auto simp: push_instruction_def enter_instruction_def Let_def split: if_splits)
  obtain ta where "tc' = tc1\<lparr>tc_accounts := ta\<rparr>"
    using store_instructions_sysvar_ok [OF store] by blast
  then show "tc_instruction_accounts tc' = tc_instruction_accounts tc"
    "tc_deduplication_maps tc' = tc_deduplication_maps tc" "tc_instruction_data tc' = tc_instruction_data tc"
    by (simp_all add: tc1)
  note stored = store_sysvar_accounts [OF store]
  show "account_keys tc' = account_keys tc"
    using stored(1) tc1(1) by (simp add: account_keys_def)
  show "find_index_of_account (instructions_id si) tc \<noteq> Some (of_nat i) \<Longrightarrow> i < 2 ^ 16 \<Longrightarrow>
       shared_at (tc_accounts tc') i = shared_at (tc_accounts tc) i \<and>
       private_at (tc_accounts tc') i = private_at (tc_accounts tc) i"
    using stored(2) [of i] tc1(1) by (simp add: find_index_of_account_def)
  show "sf_lamports (shared_at (tc_accounts tc') i) = sf_lamports (shared_at (tc_accounts tc) i)"
    "ta_touched_flags (tc_accounts tc') = ta_touched_flags (tc_accounts tc)"
    using stored(3) [of i] stored(4) tc1(1) by simp_all
qed

lemma butlast_set_placeholder: "butlast (set_placeholder n xs) = butlast xs"
  by (cases xs rule: rev_cases) (simp_all add: set_placeholder_def)

lemma push_frames:
  assumes "push_instruction si tc = (Inr (), tc')"
  shows "tc_instruction_stack tc = [] \<Longrightarrow> frames tc' = frames tc"
    "tc_instruction_stack tc \<noteq> [] \<Longrightarrow> \<exists>frame. frames tc' = frames tc @ [frame] \<and>
       if_program_account_index_in_tx frame = if_program_account_index_in_tx (last (tc_instruction_trace tc))"
    "tc_instruction_trace tc' \<noteq> []"
proof -
  note push = push_ok [OF assms]
  show "tc_instruction_stack tc = [] \<Longrightarrow> frames tc' = frames tc"
    using push by (simp add: frames_def butlast_set_placeholder)
  show "tc_instruction_trace tc' \<noteq> []"
    using push by (auto simp: set_placeholder_def split: if_splits)
  show "\<exists>frame. frames tc' = frames tc @ [frame] \<and>
      if_program_account_index_in_tx frame = if_program_account_index_in_tx (last (tc_instruction_trace tc))"
    if "tc_instruction_stack tc \<noteq> []"
  proof -
    have "frames tc' = set_placeholder (length (tc_instruction_stack tc)) (tc_instruction_trace tc)"
      "tc_instruction_trace tc \<noteq> []"
      using push that by (auto simp: frames_def)
    then show ?thesis
      by (cases "tc_instruction_trace tc" rule: rev_cases) (auto simp: frames_def set_placeholder_def)
  qed
qed

text \<open>Entering a top-level instruction, and preparing and entering a call.\<close>

lemma enter_step:
  assumes "invoke_push env tc = (Inr (), tc')" "tc_instruction_stack tc = []" "aligned tc"
  shows "extends tc tc'" "aligned tc'" "frames tc' = frames tc"
    "tc_instruction_stack tc' = [tc_next_top_level_instruction_index tc]"
    "tc_instruction_accounts tc' = tc_instruction_accounts tc" "tc_deduplication_maps tc' = tc_deduplication_maps tc"
proof -
  obtain ic program_id where push: "push_instruction (instructions_sysvar_of env) tc = (Inr (), tc')"
    using assms(1) by (rule invoke_push_ok)
  note same = push_accounts(1-4) [OF push] push_frames(1,3) [OF push]
  show "frames tc' = frames tc" "tc_instruction_accounts tc' = tc_instruction_accounts tc"
    "tc_deduplication_maps tc' = tc_deduplication_maps tc"
    using same assms(2) by simp_all
  show "extends tc tc'" "aligned tc'"
    using same assms(2,3) by (simp_all add: extends_def aligned_def)
  show "tc_instruction_stack tc' = [tc_next_top_level_instruction_index tc]"
    using push_ok [OF push] assms(2) by simp
qed

lemma call_step:
  assumes "prepare_next_cpi_instruction ins signers tc = Some (Inr tc1)" "invoke_push env tc1 = (Inr (), tc')"
    and "aligned tc" "tc_instruction_stack tc \<noteq> []"
  obtains ic cmap accounts frame program_id where "get_current_instruction_context tc = Inr ic"
    "callee_accounts tc ic (ins_accounts ins) signers = Some (Inr (cmap, accounts))"
    "tc_instruction_accounts tc' = tc_instruction_accounts tc @ [accounts]"
    "tc_deduplication_maps tc' = tc_deduplication_maps tc @ [cmap]"
    "frames tc' = frames tc @ [frame]" "tc_instruction_stack tc' = tc_instruction_stack tc @ [length (frames tc)]"
    "extends tc tc'" "aligned tc'" "program_at_level tc' (length (tc_instruction_stack tc)) = Inr program_id"
    "\<not> is_reentrant program_id tc1" "tc_instruction_stack tc1 = tc_instruction_stack tc" "extends tc tc1"
proof -
  obtain ic cmap accounts program_index caller_index where ic: "get_current_instruction_context tc = Inr ic"
    and callee: "callee_accounts tc ic (ins_accounts ins) signers = Some (Inr (cmap, accounts))"
    and conf: "configure_instruction_at_index (get_instruction_trace_length tc) program_index accounts cmap (ins_data ins)
       (Some caller_index) tc = Inr tc1"
    using assms(1) by (rule prepare_next_ok)
  obtain ic1 program_id where ic1: "get_next_instruction_context tc1 = Inr ic1"
    and key: "get_program_key ic1 (tc_accounts tc1) = Inr program_id" and ok: "\<not> is_reentrant program_id tc1"
    and push: "push_instruction (instructions_sysvar_of env) tc1 = (Inr (), tc')"
    using assms(2) by (rule invoke_push_ok)
  note lists = configure_lists [OF conf] and state = configure_state [OF conf]
  obtain frame1 where trace1: "tc_instruction_trace tc1 =
      (tc_instruction_trace tc)[length (tc_instruction_trace tc) - 1 := frame1]"
    using lists(5) by (auto simp: get_instruction_trace_length_def)
  have frames1: "frames tc1 = frames tc" and len1: "length (tc_instruction_trace tc1) = length (frames tc) + 1"
    using assms(3) by (simp_all add: frames_def trace1 butlast_list_update aligned_def)
  have stack1: "tc_instruction_stack tc1 = tc_instruction_stack tc"
    by (fact state(1))
  obtain frame where frame: "frames tc' = frames tc @ [frame]"
    "if_program_account_index_in_tx frame = if_program_account_index_in_tx (last (tc_instruction_trace tc1))"
    using push_frames(2) [OF push] stack1 assms(4) frames1 by auto
  note pushed = push_accounts(1-4) [OF push] push_frames(3) [OF push]
  have keys1: "account_keys tc1 = account_keys tc"
    by (rule configure_keys [OF conf])
  have stack': "tc_instruction_stack tc' = tc_instruction_stack tc @ [length (frames tc)]"
    using push_ok [OF push] stack1 assms(4) len1 by simp
  have "ic_program_account_index_in_tx ic1 = if_program_account_index_in_tx frame"
    using ic1 stack1 assms(4) len1 frame(2)
    by (auto simp: get_next_instruction_context_def context_program last_conv_nth split: if_splits)
  moreover obtain ic2 where ic2: "get_instruction_context_at_index_in_trace tc' (length (frames tc)) = Inr ic2"
    "ic_program_account_index_in_tx ic2 = if_program_account_index_in_tx frame"
    using frame(1) pushed(5)
    by (cases "tc_instruction_trace tc'" rule: rev_cases) (auto simp: frames_def nth_append context_program)
  ultimately have "get_program_key ic2 (tc_accounts tc') = get_program_key ic1 (tc_accounts tc1)"
    using get_program_key_keys [OF pushed(1), of ic2] get_program_key_index [of ic2 ic1 "tc_accounts tc1"] by simp
  then have level: "program_at_level tc' (length (tc_instruction_stack tc)) = Inr program_id"
    using ic2(1) key
    by (simp add: program_at_level_def get_instruction_context_at_nesting_level_def stack' slice_get_def result_ops)
  show thesis
  proof (rule that [OF ic callee _ _ frame(1) stack' _ _ level ok stack1])
    show "tc_instruction_accounts tc' = tc_instruction_accounts tc @ [accounts]"
      "tc_deduplication_maps tc' = tc_deduplication_maps tc @ [cmap]"
      by (simp_all add: pushed lists)
    show "extends tc tc'" "extends tc tc1"
      using frame(1) frames1 keys1 by (simp_all add: extends_def pushed lists)
    show "aligned tc'"
      using assms(3) frame(1) pushed(5) by (simp add: aligned_def pushed lists)
  qed
qed

subsection \<open>The instructions of the message\<close>

text \<open>What sanitizing ensures of a message: its positions are in range and its lists short enough.\<close>

definition sanitized :: "message \<Rightarrow> bool" where
  "sanitized message \<longleftrightarrow>
     length (msg_account_keys message) \<le> 256 \<and>
     (\<forall>ins \<in> set (msg_instructions message).
        unat (ci_program_id_index ins) < length (msg_account_keys message) \<and>
        length (ci_accounts ins) < 2 ^ 16 \<and>
        (\<forall>i \<in> set (ci_accounts ins). unat i < length (msg_account_keys message)))"

definition referenced :: "message \<Rightarrow> nat \<Rightarrow> bool" where
  "referenced message i \<longleftrightarrow> (\<exists>ins \<in> set (msg_instructions message). \<exists>a \<in> set (ci_accounts ins). unat a = i)"

definition from_message :: "message \<Rightarrow> instruction_account \<Rightarrow> bool" where
  "from_message message ia \<longleftrightarrow>
     referenced message (unat (ia_index_in_transaction ia)) \<and>
     (ia_writable ia \<longrightarrow> msg_is_writable message (unat (ia_index_in_transaction ia))) \<and>
     (ia_signer ia \<longrightarrow> msg_is_signer message (unat (ia_index_in_transaction ia)))"

definition first_or_unset :: "u16 list \<Rightarrow> instruction_account list \<Rightarrow> bool" where
  "first_or_unset cmap accounts \<longleftrightarrow>
     (\<forall>i < length cmap. if unat (cmap ! i) < length accounts
        then unat (ia_index_in_transaction (accounts ! unat (cmap ! i))) = i else cmap ! i = - 1)"

lemma top_level_accounts_inv:
  assumes "top_level_accounts message indexes (cmap, accounts) = Some (cmap', accounts')"
    and "first_or_unset cmap accounts" "list_all (from_message message) accounts"
    and "length accounts + length indexes < 2 ^ 16" "\<forall>i \<in> set indexes. referenced message (unat i)"
  shows "first_or_unset cmap' accounts' \<and> list_all (from_message message) accounts'"
  using assms
proof (induction indexes arbitrary: cmap accounts)
  case (Cons i indexes)
  let ?ia = "instruction_account_new (of_nat (unat i)) (msg_is_signer message (unat i)) (msg_is_writable message (unat i))"
  let ?map = "if length accounts < unat (cmap ! unat i) then cmap[unat i := of_nat (length accounts)] else cmap"
  have i: "unat i < length cmap" and rest: "top_level_accounts message indexes (?map, accounts @ [?ia]) = Some (cmap', accounts')"
    using Cons.prems(1) by (auto simp: bind_eq_Some_conv slice_get_def split: if_splits)
  have index: "unat (ia_index_in_transaction ?ia) = unat i"
    unfolding new_account_simps unat_of_nat using unsigned_less [of i, where ?'a = nat] by simp
  have n: "unat (of_nat (length accounts) :: u16) = length accounts"
    using Cons.prems(4) by (simp add: unat_of_nat)
  have old: "if unat (cmap ! j) < length accounts
      then unat (ia_index_in_transaction (accounts ! unat (cmap ! j))) = j else cmap ! j = - 1" if "j < length cmap" for j
    using Cons.prems(2) that by (simp add: first_or_unset_def)
  have "first_or_unset ?map (accounts @ [?ia])"
    unfolding first_or_unset_def
  proof (intro allI impI)
    fix j
    assume "j < length ?map"
    then have j: "j < length cmap"
      by (simp split: if_splits)
    show "if unat (?map ! j) < length (accounts @ [?ia])
        then unat (ia_index_in_transaction ((accounts @ [?ia]) ! unat (?map ! j))) = j else ?map ! j = - 1"
      using old [OF j] old [OF i] i j n index Cons.prems(4)
      by (cases "j = unat i") (auto simp: nth_append unat_max_u16 split: if_splits)
  qed
  moreover have "from_message message ?ia"
    using index Cons.prems(5) by (simp add: from_message_def)
  ultimately show ?case
    using Cons.IH [OF rest] Cons.prems(3-5) by simp
qed simp

lemma first_or_unset_dedup: "first_or_unset cmap accounts \<Longrightarrow> dedup_ok cmap accounts"
  by (auto simp: first_or_unset_def dedup_ok_def)

text \<open>The state while the instructions of the message are put into the trace.\<close>

definition preparing :: "nat \<Rightarrow> nat \<Rightarrow> message \<Rightarrow> nat \<Rightarrow> transaction_context \<Rightarrow> bool" where
  "preparing stack_capacity trace_capacity message i tc \<longleftrightarrow>
     stack_inv stack_capacity (length (msg_instructions message)) tc \<and>
     trace_inv trace_capacity (length (msg_instructions message)) tc \<and>
     tc_instruction_stack tc = [] \<and> tc_next_top_level_instruction_index tc = 0 \<and> cpis tc = 0 \<and>
     length (tc_instruction_accounts tc) = i \<and> length (tc_deduplication_maps tc) = i \<and>
     length (tc_instruction_data tc) = i \<and>
     (\<forall>k < i. dedup_ok (tc_deduplication_maps tc ! k) (tc_instruction_accounts tc ! k) \<and>
        list_all (from_message message) (tc_instruction_accounts tc ! k))"

lemma prepare_top_level_inv:
  assumes "prepare_top_level_instructions message i instructions tc = Some (Inr tc')"
    and "preparing stack_capacity trace_capacity message i tc"
    and "\<forall>ins \<in> set instructions. length (ci_accounts ins) < 2 ^ 16" "set instructions \<subseteq> set (msg_instructions message)"
  shows "preparing stack_capacity trace_capacity message (i + length instructions) tc' \<and>
    tc_accounts tc' = tc_accounts tc"
  using assms
proof (induction instructions arbitrary: i tc)
  case (Cons ins instructions)
  obtain cmap accounts where accounts: "top_level_accounts message (ci_accounts ins)
        (replicate (min (length (msg_account_keys message)) max_accounts_per_transaction) (- 1), []) = Some (cmap, accounts)"
    and "(case configure_instruction_at_index i (ucast (ci_program_id_index ins)) accounts cmap (ci_data ins) None tc of
        Inl e \<Rightarrow> Some (Inl (of_nat i, e))
      | Inr tc \<Rightarrow> prepare_top_level_instructions message (Suc i) instructions tc) = Some (Inr tc')"
    using Cons.prems(1) by (auto simp: bind_eq_Some_conv)
  then obtain tc1 where conf: "configure_instruction_at_index i (ucast (ci_program_id_index ins)) accounts cmap (ci_data ins) None tc = Inr tc1"
    and rest: "prepare_top_level_instructions message (Suc i) instructions tc1 = Some (Inr tc')"
    by (auto split: sum.splits)
  have new: "first_or_unset cmap accounts \<and> list_all (from_message message) accounts"
  proof (rule top_level_accounts_inv [OF accounts])
    show "\<forall>i \<in> set (ci_accounts ins). referenced message (unat i)"
      using Cons.prems(4) by (auto simp: referenced_def)
  qed (use Cons.prems(3) in \<open>simp_all add: first_or_unset_def\<close>)
  note state = configure_state [OF conf] and lists = configure_lists [OF conf]
  have "preparing stack_capacity trace_capacity message (Suc i) tc1"
    using Cons.prems(2) configure_inv [OF conf] new
    by (auto simp: preparing_def lists state trace_inv_def number_of_called_instructions_in_trace_def less_Suc_eq nth_append
        intro: first_or_unset_dedup)
  then show ?case
    using Cons.IH [OF rest] Cons.prems(3,4) state(7) by simp
qed simp

lemma new_context_preparing:
  "preparing stack_capacity trace_capacity message 0
     (transaction_context_new accounts stack_capacity trace_capacity (length (msg_instructions message)))"
proof -
  have "trace_inv trace_capacity (length (msg_instructions message))
      (transaction_context_new accounts stack_capacity trace_capacity (length (msg_instructions message)))"
    by (simp add: trace_inv_def transaction_context_new_def number_of_called_instructions_in_trace_def)
  then show ?thesis
    using new_context_inv by (simp add: preparing_def) (simp add: transaction_context_new_def)
qed

subsection \<open>The invariant of a running transaction\<close>

definition run_inv :: "message \<Rightarrow> (pubkey \<times> account_shared_data) list \<Rightarrow> nat \<Rightarrow> nat \<Rightarrow> transaction_context \<Rightarrow> bool" where
  "run_inv message accounts stack_capacity trace_capacity tc \<longleftrightarrow>
     stack_inv stack_capacity (length (msg_instructions message)) tc \<and>
     trace_inv trace_capacity (length (msg_instructions message)) tc \<and>
     accounts_inv (transaction_accounts_new accounts) tc \<and> account_keys tc = map fst accounts \<and> aligned tc"

lemma new_account_keys: "map sf_key (ta_shared (transaction_accounts_new accounts)) = map fst accounts"
  by (rule nth_equalityI) (auto simp: transaction_accounts_new_def nth_enumerate_eq split_beta)

lemma prepared_run_inv:
  assumes "prepare_top_level_instructions message 0 (msg_instructions message)
       (transaction_context_new accounts stack_capacity trace_capacity (length (msg_instructions message))) = Some (Inr tc)"
    and "sanitized message"
  shows "run_inv message accounts stack_capacity trace_capacity tc"
    "preparing stack_capacity trace_capacity message (length (msg_instructions message)) tc"
    "tc_accounts tc = transaction_accounts_new accounts"
proof -
  note inv = prepare_top_level_inv [OF assms(1) new_context_preparing]
  then show prep: "preparing stack_capacity trace_capacity message (length (msg_instructions message)) tc"
    and accs: "tc_accounts tc = transaction_accounts_new accounts"
    using assms(2) by (simp_all add: sanitized_def) (simp add: transaction_context_new_def)
  have "length (tc_instruction_trace tc) = length (msg_instructions message) + 1"
    using prep by (simp add: preparing_def stack_inv_def)
  then have "aligned tc"
    using prep by (auto simp: aligned_def preparing_def frames_def)
  then show "run_inv message accounts stack_capacity trace_capacity tc"
    using prep accs new_accounts_wf new_accounts_lamports
    by (simp add: run_inv_def preparing_def accounts_inv_def account_keys_def new_account_keys)
qed

lemma push_run_inv:
  assumes "push_instruction si tc = (Inr (), tc')" "trace_capacity < 2 ^ 16"
    and "stack_inv stack_capacity n tc" "trace_inv trace_capacity n tc" "accounts_inv initial tc"
    and "tc_instruction_stack tc = [] \<longrightarrow> tc_next_top_level_instruction_index tc < n"
  shows "stack_inv stack_capacity n tc' \<and> trace_inv trace_capacity n tc' \<and> accounts_inv initial tc'"
proof -
  have "cpis tc + 1 < 2 ^ 16"
    using push_ok [OF assms(1)] assms(2,4) by (auto simp: trace_inv_def number_of_called_instructions_in_trace_def)
  then have "stack_inv stack_capacity n tc'"
    using push_top_inv [OF assms(1,3)] push_nested_inv [OF assms(1,3)] assms(6) by blast
  moreover have "accounts_inv initial tc'"
    using push_ok [OF assms(1)] assms(5) by (simp add: accounts_inv_def)
  ultimately show ?thesis
    using push_trace_inv [OF assms(1,4,2,6)] by blast
qed

lemma entered_run_inv:
  assumes "invoke_push env tc = (Inr (), tc')" "run_inv message accounts stack_capacity trace_capacity tc"
    and "tc_instruction_stack tc = []" "tc_next_top_level_instruction_index tc < length (msg_instructions message)"
    and "trace_capacity < 2 ^ 16"
  shows "run_inv message accounts stack_capacity trace_capacity tc'"
proof -
  obtain ic program_id where push: "push_instruction (instructions_sysvar_of env) tc = (Inr (), tc')"
    using assms(1) by (rule invoke_push_ok)
  have "aligned tc"
    using assms(2) by (simp add: run_inv_def)
  then show ?thesis
    using push_run_inv [OF push assms(5)] assms(2-4) enter_step(1,2) [OF assms(1,3)]
    by (auto simp: run_inv_def extends_def)
qed

lemma called_run_inv:
  assumes "prepare_next_cpi_instruction ins signers tc = Some (Inr tc1)" "invoke_push env tc1 = (Inr (), tc')"
    and "run_inv message accounts stack_capacity trace_capacity tc" "tc_instruction_stack tc \<noteq> []"
    and "trace_capacity < 2 ^ 16"
  shows "run_inv message accounts stack_capacity trace_capacity tc'"
proof -
  have al: "aligned tc"
    using assms(3) by (simp add: run_inv_def)
  obtain i program ias dedup data caller where
    conf: "configure_instruction_at_index i program ias dedup data caller tc = Inr tc1"
    using assms(1) by (rule prepare_next_ok)
  obtain ic program_id where push: "push_instruction (instructions_sysvar_of env) tc1 = (Inr (), tc')"
    using assms(2) by (rule invoke_push_ok)
  note state = configure_state [OF conf]
  have "stack_inv stack_capacity (length (msg_instructions message)) tc1"
    "trace_inv trace_capacity (length (msg_instructions message)) tc1"
    "accounts_inv (transaction_accounts_new accounts) tc1"
    using assms(3) configure_inv [OF conf]
    by (simp_all add: run_inv_def trace_inv_def accounts_inv_def number_of_called_instructions_in_trace_def state)
  from push_run_inv [OF push assms(5) this] show ?thesis
    using assms(3,4) state(1) by (rule_tac call_step [OF assms(1,2) al assms(4)]) (simp add: run_inv_def extends_def)
qed

lemma worked_run_inv:
  assumes "run_inv message accounts stack_capacity trace_capacity tc" "confined p accs (tc_accounts tc) ta"
  shows "run_inv message accounts stack_capacity trace_capacity (tc\<lparr>tc_accounts := ta\<rparr>)"
  using assms
  by (simp add: run_inv_def stack_inv_def trace_inv_def accounts_inv_def aligned_def frames_def account_keys_def
      number_of_called_instructions_in_trace_def confined_def keeps_totals_def)

lemma returned_run_inv:
  assumes "run_inv message accounts stack_capacity trace_capacity tc"
  shows "run_inv message accounts stack_capacity trace_capacity (set_return_data program_id data tc)"
  using assms
  by (simp add: run_inv_def stack_inv_def trace_inv_def accounts_inv_def aligned_def frames_def account_keys_def
      number_of_called_instructions_in_trace_def set_return_data_def)

lemma pop_lists:
  assumes "pop_instruction tc = (r, tc')"
  shows "tc_instruction_accounts tc' = tc_instruction_accounts tc" "tc_deduplication_maps tc' = tc_deduplication_maps tc"
    "tc_instruction_data tc' = tc_instruction_data tc"
  using assms by (auto simp: pop_instruction_def Let_def split: if_splits)

lemma left_run_inv:
  assumes "pop_instruction tc = (r, tc')" "run_inv message accounts stack_capacity trace_capacity tc"
  shows "run_inv message accounts stack_capacity trace_capacity tc'"
  using assms(2) pop_inv [OF assms(1)] pop_trace_inv [OF assms(1)]
  by (simp add: run_inv_def accounts_inv_def aligned_def frames_def account_keys_def pop_state [OF assms(1)]
      pop_lists [OF assms(1)])

lemma current_program_stack: "current_program tc = Inr program_id \<Longrightarrow> tc_instruction_stack tc \<noteq> []"
  by (auto simp: current_program_def get_current_instruction_context_def get_current_instruction_index_def result_ops
      split: if_splits)

lemma running_inv:
  assumes "running env message accounts stack_capacity trace_capacity tc" "sanitized message" "trace_capacity < 2 ^ 16"
  shows "run_inv message accounts stack_capacity trace_capacity tc"
  using assms(1)
proof induction
  case (prepared tc)
  then show ?case
    using prepared_run_inv(1) assms(2) by blast
next
  case (entered tc tc')
  then show ?case
    using entered_run_inv assms(3) by blast
next
  case (called tc caller seeds signers ins tc1 tc')
  then show ?case
    using called_run_inv current_program_stack assms(3) by blast
next
  case (worked tc ic ta)
  then show ?case
    using worked_run_inv by blast
next
  case (returned tc program_id data)
  then show ?case
    using returned_run_inv by blast
next
  case (left tc r tc')
  then show ?case
    using left_run_inv by blast
qed

end
