(* ===== verification/Call_Safety.thy ===== *)
theory Call_Safety
  imports Call_Trace
begin

section \<open>What calls cannot do\<close>

text \<open>
  Consequences for every state of a running transaction: rights only ever come from the message or
  from derived addresses, a program is never entered again while another program that it called
  still runs, and accounts that the message does not allow to write keep their contents.
\<close>

subsection \<open>Rights\<close>

definition derived_address :: "runtime_env \<Rightarrow> (pubkey \<times> account_shared_data) list \<Rightarrow> pubkey \<Rightarrow> bool" where
  "derived_address env accounts key \<longleftrightarrow>
     (\<exists>seeds. \<exists>program \<in> fst ` set accounts. create_program_address env seeds program = Inr key)"

definition rightful ::
  "runtime_env \<Rightarrow> message \<Rightarrow> (pubkey \<times> account_shared_data) list \<Rightarrow> instruction_account \<Rightarrow> bool" where
  "rightful env message accounts ia \<longleftrightarrow>
     referenced message (unat (ia_index_in_transaction ia)) \<and>
     (ia_writable ia \<longrightarrow> msg_is_writable message (unat (ia_index_in_transaction ia))) \<and>
     (ia_signer ia \<longrightarrow> msg_is_signer message (unat (ia_index_in_transaction ia)) \<or>
        derived_address env accounts (fst (accounts ! unat (ia_index_in_transaction ia))))"

definition all_rightful ::
  "runtime_env \<Rightarrow> message \<Rightarrow> (pubkey \<times> account_shared_data) list \<Rightarrow> transaction_context \<Rightarrow> bool" where
  "all_rightful env message accounts tc \<longleftrightarrow>
     (\<forall>k < length (tc_instruction_accounts tc).
        dedup_ok (tc_deduplication_maps tc ! k) (tc_instruction_accounts tc ! k) \<and>
        list_all (rightful env message accounts) (tc_instruction_accounts tc ! k))"

lemma derive_signers_derived:
  "derive_signers env program seeds = Inr signers \<Longrightarrow> key \<in> set signers \<Longrightarrow>
     \<exists>s. create_program_address env s program = Inr key"
  by (induction seeds arbitrary: signers) (auto simp: and_then_Inr)

lemma stack_in_frames:
  assumes "run_inv message accounts stack_capacity trace_capacity tc" "x \<in> set (tc_instruction_stack tc)"
  shows "x < length (frames tc)"
  using assms by (simp add: run_inv_def stack_inv_def frames_def)

text \<open>The current instruction is in the trace.\<close>

lemma current_context:
  assumes "run_inv message accounts stack_capacity trace_capacity tc" "get_current_instruction_context tc = Inr ic"
  obtains k where "k = last (tc_instruction_stack tc)" "k < length (frames tc)" "tc_instruction_stack tc \<noteq> []"
    "get_instruction_context_at_index_in_trace tc k = Inr ic"
    "ic_instruction_accounts ic = tc_instruction_accounts tc ! k" "ic_dedup_map ic = tc_deduplication_maps tc ! k"
proof -
  have stack: "tc_instruction_stack tc \<noteq> []"
    and at: "get_instruction_context_at_index_in_trace tc (last (tc_instruction_stack tc)) = Inr ic"
    using assms(2)
    by (auto simp: get_current_instruction_context_def get_current_instruction_index_def result_ops split: if_splits)
  have k: "last (tc_instruction_stack tc) < length (frames tc)"
    using stack_in_frames [OF assms(1)] stack by simp
  moreover have "length (tc_instruction_accounts tc) = length (frames tc)"
    "length (tc_deduplication_maps tc) = length (frames tc)"
    using assms(1) by (simp_all add: run_inv_def aligned_def)
  ultimately have "ic_instruction_accounts ic = tc_instruction_accounts tc ! last (tc_instruction_stack tc)"
    "ic_dedup_map ic = tc_deduplication_maps tc ! last (tc_instruction_stack tc)"
    using at by (simp_all add: context_program get_or_default_def slice_get_def)
  then show thesis
    using that [OF refl k stack at] by blast
qed

lemma current_program_account:
  assumes "current_program tc = Inr program" "account_keys tc = map fst accounts"
  shows "program \<in> fst ` set accounts"
proof -
  obtain i where "slice_get (map fst accounts) i = Some program"
    using assms
    by (auto simp: current_program_def get_program_key_def get_key_of_account_at_index_def account_key_keys account_keys_def
        and_then_Inr ok_or_Inr)
  then show ?thesis
    using nth_mem [of i "map fst accounts"] by (auto simp: slice_get_def split: if_splits)
qed

lemma find_index_range:
  assumes "find_index_of_account key tc = Some i" "length (ta_shared (tc_accounts tc)) \<le> 2 ^ 16"
  shows "unat i < length (ta_shared (tc_accounts tc))"
proof -
  obtain j where j: "find_position key 0 (ta_shared (tc_accounts tc)) = Some j" "i = of_nat j"
    using assms(1) by (auto simp: find_index_of_account_def)
  then have "j < length (ta_shared (tc_accounts tc))"
    using find_position_Some [OF j(1)] by simp
  then show ?thesis
    using assms(2) by (simp add: j(2) unat_of_nat)
qed

lemma called_rightful:
  assumes "callee_accounts tc ic metas signers = Some (Inr (cmap, callee))"
    and "dedup_ok (ic_dedup_map ic) (ic_instruction_accounts ic)"
    and "list_all (rightful env message accounts) (ic_instruction_accounts ic)"
    and "length accounts \<le> 256" "length metas < 2 ^ 16" "account_keys tc = map fst accounts"
    and signers: "\<And>key. key \<in> set signers \<Longrightarrow> derived_address env accounts key"
  shows "dedup_ok cmap callee" "list_all (rightful env message accounts) callee"
proof -
  have len: "length (ta_shared (tc_accounts tc)) = length accounts"
    using assms(6) map_eq_imp_length_eq by (fastforce simp: account_keys_def)
  then have small: "length (ta_shared (tc_accounts tc)) \<le> 2 ^ 16"
    using assms(4) by simp
  note settled = callee_accounts_settled [OF assms(1,2) small assms(5)]
  show "dedup_ok cmap callee"
    by (fact settled(2))
  show "list_all (rightful env message accounts) callee"
    unfolding list_all_length
  proof (intro allI impI)
    fix k
    assume k: "k < length callee"
    let ?ia = "callee ! k" and ?i = "unat (ia_index_in_transaction (callee ! k))" and ?key = "am_pubkey (metas ! k)"
    have find: "find_index_of_account ?key tc = Some (ia_index_in_transaction ?ia)"
      and ok: "settled metas ?key ?ia" "granted ic signers metas ?key (ia_index_in_transaction ?ia)"
      using settled(1,3) k by (simp_all add: Let_def)
    have "?i < length accounts"
      using find_index_range [OF find small] len by simp
    then have key: "fst (accounts ! ?i) = ?key"
      using find_index_key [OF find small] assms(6) len by (metis account_keys_def nth_map)
    have caller: "\<exists>ia. rightful env message accounts ia \<and> ia_index_in_transaction ia = ia_index_in_transaction ?ia \<and> P ia"
      if "caller_has (ic_instruction_accounts ic) P (ia_index_in_transaction ?ia)" for P
      using assms(3) that by (auto simp: caller_has_def list_all_iff)
    have has: "caller_has (ic_instruction_accounts ic) (\<lambda>_. True) (ia_index_in_transaction ?ia)"
      "ia_writable ?ia \<Longrightarrow> caller_has (ic_instruction_accounts ic) ia_writable (ia_index_in_transaction ?ia)"
      "ia_signer ?ia \<Longrightarrow> caller_has (ic_instruction_accounts ic) ia_signer (ia_index_in_transaction ?ia) \<or> ?key \<in> set signers"
      using ok by (simp_all add: settled_def granted_def)
    have "referenced message ?i"
      using caller [OF has(1)] by (auto simp: rightful_def)
    moreover have "msg_is_writable message ?i" if "ia_writable ?ia"
      using caller [OF has(2) [OF that]] by (auto simp: rightful_def)
    moreover have "msg_is_signer message ?i \<or> derived_address env accounts ?key" if "ia_signer ?ia"
      using has(3) [OF that] caller [of ia_signer] signers key by (auto simp: rightful_def)
    ultimately show "rightful env message accounts ?ia"
      by (simp add: rightful_def key)
  qed
qed

lemma running_rightful:
  assumes "running env message accounts stack_capacity trace_capacity tc" "sanitized message" "trace_capacity < 2 ^ 16"
    and "length accounts \<le> 256"
  shows "all_rightful env message accounts tc"
  using assms(1)
proof induction
  case (prepared tc)
  have "list_all (rightful env message accounts) ias" if "list_all (from_message message) ias" for ias
    using that by (auto simp: list_all_iff from_message_def rightful_def)
  then show ?case
    using prepared_run_inv(2) [OF prepared assms(2)] by (auto simp: all_rightful_def preparing_def)
next
  case (entered tc tc')
  have "aligned tc"
    using running_inv [OF entered.hyps(1) assms(2,3)] by (simp add: run_inv_def)
  then show ?case
    using entered.IH enter_step(5,6) [OF entered.hyps(4,2)] by (simp add: all_rightful_def)
next
  case (called tc caller seeds signers ins tc1 tc')
  note inv = running_inv [OF called.hyps(1) assms(2,3)]
  then have al: "aligned tc" and keys: "account_keys tc = map fst accounts"
    by (simp_all add: run_inv_def)
  obtain ic cmap callee where ic: "get_current_instruction_context tc = Inr ic"
    and callee: "callee_accounts tc ic (ins_accounts ins) signers = Some (Inr (cmap, callee))"
    and lists: "tc_instruction_accounts tc' = tc_instruction_accounts tc @ [callee]"
      "tc_deduplication_maps tc' = tc_deduplication_maps tc @ [cmap]"
    using call_step [OF called.hyps(5,6) al current_program_stack [OF called.hyps(2)]] by metis
  obtain k where k: "k < length (frames tc)"
    "ic_instruction_accounts ic = tc_instruction_accounts tc ! k" "ic_dedup_map ic = tc_deduplication_maps tc ! k"
    using current_context [OF inv ic] by metis
  have lens: "length (tc_instruction_accounts tc) = length (frames tc)" "length (tc_deduplication_maps tc) = length (frames tc)"
    using al by (simp_all add: aligned_def)
  have own: "dedup_ok (ic_dedup_map ic) (ic_instruction_accounts ic)"
    "list_all (rightful env message accounts) (ic_instruction_accounts ic)"
    using called.IH k lens by (simp_all add: all_rightful_def)
  have "derived_address env accounts key" if "key \<in> set signers" for key
    using derive_signers_derived [OF called.hyps(3) that] current_program_account [OF called.hyps(2) keys]
    by (auto simp: derived_address_def)
  then have "dedup_ok cmap callee \<and> list_all (rightful env message accounts) callee"
    using called_rightful [OF callee own assms(4) called.hyps(4) keys] by blast
  then show ?case
    using called.IH lens by (auto simp: all_rightful_def lists nth_append less_Suc_eq)
next
  case (left tc r tc')
  then show ?case
    by (simp add: all_rightful_def pop_lists [OF left.hyps(2)])
qed (simp_all add: all_rightful_def set_return_data_def)

subsection \<open>Reentrancy\<close>

text \<open>The calls of one program on the stack follow each other.\<close>

definition no_reentrancy :: "transaction_context \<Rightarrow> bool" where
  "no_reentrancy tc \<longleftrightarrow>
     (\<forall>i j k program. i \<le> j \<and> j \<le> k \<and> k < length (tc_instruction_stack tc) \<and>
        program_at_level tc i = Inr program \<and> program_at_level tc k = Inr program \<longrightarrow>
        program_at_level tc j = Inr program)"

lemma no_reentrancy_mono:
  assumes "no_reentrancy tc" "length (tc_instruction_stack tc') \<le> length (tc_instruction_stack tc)"
    and "\<And>j. j < length (tc_instruction_stack tc') \<Longrightarrow> program_at_level tc' j = program_at_level tc j"
  shows "no_reentrancy tc'"
  unfolding no_reentrancy_def
proof (intro allI impI)
  fix i j k program
  assume h: "i \<le> j \<and> j \<le> k \<and> k < length (tc_instruction_stack tc') \<and>
    program_at_level tc' i = Inr program \<and> program_at_level tc' k = Inr program"
  then have "program_at_level tc i = Inr program" "program_at_level tc k = Inr program" "k < length (tc_instruction_stack tc)"
    using assms(2) assms(3) [of i] assms(3) [of k] by auto
  then have "program_at_level tc j = Inr program"
    using assms(1) h unfolding no_reentrancy_def by blast
  then show "program_at_level tc' j = Inr program"
    using h assms(3) [of j] by simp
qed

lemma no_reentrancy_push:
  assumes "no_reentrancy tc" "tc_instruction_stack tc \<noteq> []" "\<not> is_reentrant program_id tc"
    and "length (tc_instruction_stack tc') = Suc (length (tc_instruction_stack tc))"
    and same: "\<And>j. j < length (tc_instruction_stack tc) \<Longrightarrow> program_at_level tc' j = program_at_level tc j"
    and new: "program_at_level tc' (length (tc_instruction_stack tc)) = Inr program_id"
  shows "no_reentrancy tc'"
  unfolding no_reentrancy_def
proof (intro allI impI)
  let ?n = "length (tc_instruction_stack tc)"
  fix i j k program
  assume h: "i \<le> j \<and> j \<le> k \<and> k < length (tc_instruction_stack tc') \<and>
    program_at_level tc' i = Inr program \<and> program_at_level tc' k = Inr program"
  have old: "program_at_level tc j = Inr program"
    if "i \<le> j" "j \<le> m" "m < ?n" "program_at_level tc i = Inr program" "program_at_level tc m = Inr program" for m
    using assms(1) that unfolding no_reentrancy_def by blast
  show "program_at_level tc' j = Inr program"
  proof (cases "k < ?n")
    case True
    then show ?thesis
      using h old [of k] same by auto
  next
    case False
    then have n: "k = ?n"
      using h assms(4) by simp
    then have k: "k = ?n" "program = program_id"
      using h new by simp_all
    show ?thesis
    proof (cases "j < ?n")
      case True
      then have "program_at_level tc i = Inr program_id"
        using h same k by auto
      then have "current_program tc = Inr program_id"
        using assms(2,3) h True by (auto simp: is_reentrant_def list_ex_iff)
      then have "program_at_level tc (?n - 1) = Inr program_id"
        using current_is_last_level [OF assms(2)] by simp
      then show ?thesis
        using old [of "?n - 1"] h True k same by auto
    next
      case False
      then show ?thesis
        using h k new by auto
    qed
  qed
qed

lemma running_no_reentrancy:
  assumes "running env message accounts stack_capacity trace_capacity tc" "sanitized message" "trace_capacity < 2 ^ 16"
  shows "no_reentrancy tc"
  using assms(1)
proof induction
  case (prepared tc)
  then show ?case
    using prepared_run_inv(2) [OF prepared assms(2)] by (simp add: no_reentrancy_def preparing_def)
next
  case (entered tc tc')
  have "aligned tc"
    using running_inv [OF entered.hyps(1) assms(2,3)] by (simp add: run_inv_def)
  then show ?case
    using enter_step(4) [OF entered.hyps(4,2)] by (auto simp: no_reentrancy_def)
next
  case (called tc caller seeds signers ins tc1 tc')
  note inv = running_inv [OF called.hyps(1) assms(2,3)]
  then have al: "aligned tc"
    by (simp add: run_inv_def)
  note stack = current_program_stack [OF called.hyps(2)]
  obtain ic cmap callee frame program_id where
    stack': "tc_instruction_stack tc' = tc_instruction_stack tc @ [length (frames tc)]"
    and ext: "extends tc tc'" and new: "program_at_level tc' (length (tc_instruction_stack tc)) = Inr program_id"
    and ok: "\<not> is_reentrant program_id tc1" "tc_instruction_stack tc1 = tc_instruction_stack tc" "extends tc tc1"
    by (rule call_step [OF called.hyps(5,6) al stack])
  note in_frames = stack_in_frames [OF inv]
  have same: "program_at_level tc' j = program_at_level tc j" "program_at_level tc1 j = program_at_level tc j"
    if "j < length (tc_instruction_stack tc)" for j
    using extends_level [OF ext al that] extends_level [OF ok(3) al that] in_frames stack' ok(2) by auto
  then have "\<not> is_reentrant program_id tc"
    using ok(1,2) stack current_is_last_level by (auto simp: is_reentrant_def list_ex_iff)
  then show ?case
    using no_reentrancy_push [OF called.IH stack _ _ same(1) new] stack' by simp
next
  case (worked tc ic ta)
  note inv = running_inv [OF worked.hyps(1) assms(2,3)]
  have ext: "extends tc (tc\<lparr>tc_accounts := ta\<rparr>)"
    using worked.hyps(3) by (simp add: extends_def frames_def account_keys_def confined_def)
  show ?case
    using extends_level [OF ext] inv stack_in_frames [OF inv]
    by (intro no_reentrancy_mono [OF worked.IH]) (simp_all add: run_inv_def)
next
  case (returned tc program_id data)
  note inv = running_inv [OF returned.hyps(1) assms(2,3)]
  have ext: "extends tc (set_return_data program_id data tc)"
    by (simp add: extends_def frames_def account_keys_def set_return_data_def)
  have stack: "tc_instruction_stack (set_return_data program_id data tc) = tc_instruction_stack tc"
    by (simp add: set_return_data_def)
  show ?case
    using extends_level [OF ext] inv stack_in_frames [OF inv]
    by (intro no_reentrancy_mono [OF returned.IH]) (simp_all add: run_inv_def stack)
next
  case (left tc r tc')
  have "get_instruction_context_at_index_in_trace tc' k = get_instruction_context_at_index_in_trace tc k" for k
    by (simp add: get_instruction_context_at_index_in_trace_def pop_state [OF left.hyps(2)] pop_lists [OF left.hyps(2)])
  then have "program_at_level tc' j = program_at_level tc j" if "j < length (tc_instruction_stack tc')" for j
    using that
    by (auto simp: program_at_level_def get_instruction_context_at_nesting_level_def slice_get_def nth_butlast
        pop_state [OF left.hyps(2)] result_ops)
  then show ?case
    by (intro no_reentrancy_mono [OF left.IH]) (simp_all add: pop_state [OF left.hyps(2)])
qed

subsection \<open>Accounts that are not changed\<close>

text \<open>
  An account keeps its contents if the message does not allow to write it, if no instruction of the
  message refers to it, or as long as it is not marked as touched. Only the runtime itself changes the
  data of such an account, and only that of the instructions sysvar.
\<close>

definition untouched ::
  "runtime_env \<Rightarrow> (pubkey \<times> account_shared_data) list \<Rightarrow> nat \<Rightarrow> transaction_accounts \<Rightarrow> transaction_accounts \<Rightarrow> bool" where
  "untouched env accounts i ta ta' \<longleftrightarrow>
     sf_lamports (shared_at ta' i) = sf_lamports (shared_at ta i) \<and>
     (fst (accounts ! i) \<noteq> instructions_id (instructions_sysvar_of env) \<longrightarrow>
        shared_at ta' i = shared_at ta i \<and> private_at ta' i = private_at ta i)"

lemma untouched_refl [simp]: "untouched env accounts i ta ta"
  by (simp add: untouched_def)

lemma untouched_trans:
  "untouched env accounts i ta ta1 \<Longrightarrow> untouched env accounts i ta1 ta2 \<Longrightarrow> untouched env accounts i ta ta2"
  by (simp add: untouched_def)

lemma push_untouched:
  assumes "invoke_push env tc = (Inr (), tc')" "account_keys tc = map fst accounts" "length accounts \<le> 256"
    and "i < length accounts"
  shows "untouched env accounts i (tc_accounts tc) (tc_accounts tc')"
    "ta_touched_flags (tc_accounts tc') = ta_touched_flags (tc_accounts tc)"
proof -
  obtain ic program_id where push: "push_instruction (instructions_sysvar_of env) tc = (Inr (), tc')"
    using assms(1) by (rule invoke_push_ok)
  show "ta_touched_flags (tc_accounts tc') = ta_touched_flags (tc_accounts tc)"
    by (rule push_accounts(7) [OF push])
  have len: "length (ta_shared (tc_accounts tc)) = length accounts"
    using assms(2) map_eq_imp_length_eq by (fastforce simp: account_keys_def)
  have i: "unat (of_nat i :: u16) = i" "sf_key (shared_at (tc_accounts tc) i) = fst (accounts ! i)"
    using assms(2-4) len by (simp_all add: unat_of_nat) (metis account_keys_def nth_map)
  have "find_index_of_account (instructions_id (instructions_sysvar_of env)) tc \<noteq> Some (of_nat i)"
    if "fst (accounts ! i) \<noteq> instructions_id (instructions_sysvar_of env)"
  proof
    assume "find_index_of_account (instructions_id (instructions_sysvar_of env)) tc = Some (of_nat i)"
    then show False
      using find_index_key [of "instructions_id (instructions_sysvar_of env)" tc "of_nat i"] i assms(3) that len by simp
  qed
  then show "untouched env accounts i (tc_accounts tc) (tc_accounts tc')"
    using push_accounts(5,6) [OF push, of i] assms(3,4) by (simp add: untouched_def)
qed

lemma called_untouched:
  assumes "prepare_next_cpi_instruction ins signers tc = Some (Inr tc1)" "invoke_push env tc1 = (Inr (), tc')"
    and "account_keys tc = map fst accounts" "length accounts \<le> 256" "i < length accounts"
  shows "untouched env accounts i (tc_accounts tc) (tc_accounts tc')"
    "ta_touched_flags (tc_accounts tc') = ta_touched_flags (tc_accounts tc)"
proof -
  have same: "account_keys tc1 = account_keys tc" "tc_accounts tc1 = tc_accounts tc"
    using assms(1) configure_keys configure_state(7) by (blast elim: prepare_next_ok)+
  show "untouched env accounts i (tc_accounts tc) (tc_accounts tc')"
    "ta_touched_flags (tc_accounts tc') = ta_touched_flags (tc_accounts tc)"
    using push_untouched [OF assms(2) _ assms(4,5)] assms(3) same by simp_all
qed

lemma running_untouched:
  assumes "running env message accounts stack_capacity trace_capacity tc" "sanitized message" "trace_capacity < 2 ^ 16"
    and "length accounts \<le> 256" "i < length accounts" "\<not> msg_is_writable message i \<or> \<not> referenced message i"
  shows "untouched env accounts i (transaction_accounts_new accounts) (tc_accounts tc)"
  using assms(1)
proof induction
  case (prepared tc)
  then show ?case
    using prepared_run_inv(3) [OF prepared assms(2)] by simp
next
  case (entered tc tc')
  have "account_keys tc = map fst accounts"
    using running_inv [OF entered.hyps(1) assms(2,3)] by (simp add: run_inv_def)
  then show ?case
    using untouched_trans [OF entered.IH push_untouched(1) [OF entered.hyps(4) _ assms(4,5)]] by simp
next
  case (called tc caller seeds signers ins tc1 tc')
  have "account_keys tc = map fst accounts"
    using running_inv [OF called.hyps(1) assms(2,3)] by (simp add: run_inv_def)
  then show ?case
    using untouched_trans [OF called.IH called_untouched(1) [OF called.hyps(5,6) _ assms(4,5)]] by simp
next
  case (worked tc ic ta)
  note inv = running_inv [OF worked.hyps(1) assms(2,3)]
  obtain k where k: "k < length (frames tc)" "ic_instruction_accounts ic = tc_instruction_accounts tc ! k"
    by (rule current_context [OF inv worked.hyps(2)])
  have "list_all (rightful env message accounts) (ic_instruction_accounts ic)"
    using running_rightful [OF worked.hyps(1) assms(2-4)] k inv
    by (simp add: all_rightful_def run_inv_def aligned_def)
  then have "\<not> writable_in (ic_instruction_accounts ic) i"
    using assms(6) by (auto simp: writable_in_def list_all_iff rightful_def)
  then show ?case
    using worked.hyps(3) worked.IH by (simp add: confined_def untouched_def)
next
  case (left tc r tc')
  then show ?case
    by (simp add: pop_state [OF left.hyps(2)])
qed (simp add: set_return_data_def)

text \<open>The touched flags tell which accounts have changed.\<close>

lemma running_marked:
  assumes "running env message accounts stack_capacity trace_capacity tc" "sanitized message" "trace_capacity < 2 ^ 16"
    and "length accounts \<le> 256" "i < length accounts"
  shows "length (ta_touched_flags (tc_accounts tc)) = length accounts \<and> (\<not> ta_touched_flags (tc_accounts tc) ! i \<longrightarrow>
    untouched env accounts i (transaction_accounts_new accounts) (tc_accounts tc))"
  using assms(1)
proof induction
  case (prepared tc)
  then show ?case
    using prepared_run_inv(3) [OF prepared assms(2)] by simp (simp add: transaction_accounts_new_def)
next
  case (entered tc tc')
  have keys: "account_keys tc = map fst accounts"
    using running_inv [OF entered.hyps(1) assms(2,3)] by (simp add: run_inv_def)
  note push = push_untouched [OF entered.hyps(4) keys assms(4,5)]
  show ?case
    using entered.IH push(2) untouched_trans [OF _ push(1)] by auto
next
  case (called tc caller seeds signers ins tc1 tc')
  have keys: "account_keys tc = map fst accounts"
    using running_inv [OF called.hyps(1) assms(2,3)] by (simp add: run_inv_def)
  note call = called_untouched [OF called.hyps(5,6) keys assms(4,5)]
  show ?case
    using called.IH call(2) untouched_trans [OF _ call(1)] by auto
next
  case (worked tc ic ta)
  have flags: "length (ta_touched_flags (tc_accounts tc)) = length accounts"
    using worked.IH by blast
  then have "length (ta_touched_flags ta) = length accounts \<and>
      (ta_touched_flags (tc_accounts tc) ! i \<longrightarrow> ta_touched_flags ta ! i) \<and>
      (\<not> ta_touched_flags ta ! i \<longrightarrow> untouched env accounts i (tc_accounts tc) ta)"
    using worked.hyps(3) assms(5) by (auto simp: confined_def marked_def untouched_def)
  then show ?case
    using worked.IH untouched_trans [of env accounts i _ "tc_accounts tc" ta] by auto
next
  case (left tc r tc')
  then show ?case
    by (simp add: pop_state [OF left.hyps(2)])
qed (simp add: set_return_data_def)

subsection \<open>Properties of the calls\<close>

text \<open>
  An example: a message with one instruction of the system program, which has the address 0 and is
  owned by the native loader at 5, on two accounts and itself. The program then calls itself.
\<close>

definition example_runtime ::
  "(pubkey \<Rightarrow> (instruction_context \<Rightarrow> transaction_accounts \<times> u64 \<Rightarrow> program) option) \<Rightarrow> runtime_env" where
  "example_runtime cache = \<lparr>native_loader_id = 5, loader_ids = [], program_cache = cache,
     create_program_address = (\<lambda>_ _. Inl InvalidArgument), is_precompile = (\<lambda>_. False),
     run_precompile = (\<lambda>_ _ _. Inr ()), instructions_sysvar_of = example_sysvar\<rparr>"

definition example_loaded :: "(pubkey \<times> account_shared_data) list" where
  "example_loaded = [(11, example_account 0 100 []), (12, example_account 0 0 []),
     (13, example_account 99 50 [7]), (0, example_account 5 1 [])]"

definition example_message :: message where
  "example_message = \<lparr>msg_account_keys = [11, 12, 13, 0], msg_is_signer = (\<lambda>i. i = 0), msg_is_writable = (\<lambda>i. i < 2),
     msg_instructions = [\<lparr>ci_program_id_index = 3, ci_accounts = [0, 1, 3], ci_data = [30]\<rparr>]\<rparr>"

definition example_top_accounts :: "instruction_account list" where
  "example_top_accounts = [instruction_account_new 0 True True, instruction_account_new 1 False True,
     instruction_account_new 3 False False]"

definition example_context :: transaction_context where
  "example_context = transaction_context_new example_loaded 5 64 1"

definition example_frame :: instruction_frame where
  "example_frame = configure_vm_slices 0 (length example_top_accounts) 1
     (instruction_frame_default\<lparr>if_program_account_index_in_tx := 3\<rparr>)"

definition example_prepared :: transaction_context where
  "example_prepared = example_context\<lparr>tc_instruction_trace := [example_frame, instruction_frame_default],
     tc_deduplication_maps := [[0, 1, - 1, 2]], tc_instruction_accounts := [example_top_accounts],
     tc_instruction_data := [[30]]\<rparr>"

definition example_entered :: transaction_context where
  "example_entered = example_prepared\<lparr>tc_instruction_stack := [0], tc_next_top_level_instruction_index := 1\<rparr>"

lemma example_sanitized: "sanitized example_message"
  by (simp add: sanitized_def example_message_def)

lemma example_context_simps:
  "tc_accounts example_context = example_accounts" "tc_instruction_stack example_context = []"
  "tc_instruction_trace example_context = [instruction_frame_default, instruction_frame_default]"
  "tc_deduplication_maps example_context = []" "tc_instruction_accounts example_context = []"
  "tc_instruction_data example_context = []" "tc_next_top_level_instruction_index example_context = 0"
  "tc_instruction_stack_capacity example_context = 5" "tc_instruction_trace_capacity example_context = 64"
  "cpis example_context = 0" "tf_current_executing_instruction (tc_transaction_frame example_context) = 0"
  by (simp_all add: example_context_def transaction_context_new_def example_accounts_def example_loaded_def)

lemma example_top_level:
  "prepare_top_level_instructions example_message 0 (msg_instructions example_message) example_context =
   Some (Inr example_prepared)"
proof -
  have maps: "replicate (min (length (msg_account_keys example_message)) max_accounts_per_transaction) (- 1 :: u16) =
      [- 1, - 1, - 1, - 1]"
    by (simp add: example_message_def max_accounts_per_transaction_def)
  have "top_level_accounts example_message [0, 1, 3] ([- 1, - 1, - 1, - 1], []) =
      Some ([0, 1, - 1, 2], example_top_accounts)"
    by (simp add: slice_get_def unat_max_u16 example_top_accounts_def) (simp add: example_message_def)
  moreover have "slice_get (msg_account_keys example_message) 3 = Some 0"
    by (simp add: slice_get_def example_message_def)
  ultimately show ?thesis
    using maps
    by (simp add: example_message_def [THEN arg_cong, of msg_instructions] configure_instruction_at_index_def slice_get_def
        example_context_simps result_ops example_prepared_def example_frame_def)
qed

lemma example_frame_simps:
  "if_program_account_index_in_tx example_frame = 3" "if_nesting_level example_frame = 0"
  by (simp_all add: example_frame_def configure_vm_slices_def instruction_frame_default_def Let_def)

lemma example_key: "account_key 3 example_accounts = Some 0"
  by (simp add: account_key_def slice_get_def example_accounts_simps)

lemma example_no_sysvar: "find_index_of_account 77 tc = None" if "tc_accounts tc = example_accounts"
  using that by (simp add: find_index_of_account_def example_accounts_simps)

lemma example_push:
  "invoke_push (example_runtime cache) example_prepared = (Inr (), example_entered)"
proof -
  have "push_instruction example_sysvar example_prepared = (Inr (), example_entered)"
    using example_no_sysvar
    by (simp add: push_instruction_def enter_instruction_def Let_def example_prepared_def example_entered_def
        example_context_simps number_of_called_instructions_in_trace_def store_instructions_sysvar_def
        example_sysvar_def instruction_frame_default_def)
  then show ?thesis
    by (simp add: invoke_push_def get_next_instruction_context_def example_prepared_def example_context_simps
        get_instruction_context_at_index_in_trace_def slice_get_def result_ops get_program_key_def
        get_index_of_program_account_in_transaction_def get_key_of_account_at_index_def example_frame_simps example_key
        is_reentrant_def example_runtime_def)
qed

definition example_call :: instruction where
  "example_call = \<lparr>ins_program_id = 0, ins_accounts = [\<lparr>am_pubkey = 11, am_is_signer = True, am_is_writable = True\<rparr>],
     ins_data = [1]\<rparr>"

lemma example_entered_running:
  "running (example_runtime cache) example_message example_loaded 5 64 example_entered"
proof (rule running.entered [OF running.prepared _ _ example_push])
  show "prepare_top_level_instructions example_message 0 (msg_instructions example_message)
      (transaction_context_new example_loaded 5 64 (length (msg_instructions example_message))) = Some (Inr example_prepared)"
    using example_top_level by (simp add: example_context_def) (simp add: example_message_def)
qed (simp_all add: example_prepared_def example_context_simps example_message_def)

lemma example_entered_simps:
  "tc_accounts example_entered = example_accounts" "tc_instruction_stack example_entered = [0]"
  "tc_instruction_trace example_entered = [example_frame, instruction_frame_default]"
  "tc_deduplication_maps example_entered = [[0, 1, - 1, 2]]" "tc_instruction_accounts example_entered = [example_top_accounts]"
  "tc_instruction_data example_entered = [[30]]" "tc_next_top_level_instruction_index example_entered = 1"
  "tc_instruction_stack_capacity example_entered = 5" "tc_instruction_trace_capacity example_entered = 64"
  "cpis example_entered = 0"
  by (simp_all add: example_entered_def example_prepared_def example_context_simps)

lemma example_current:
  "current_program example_entered = Inr 0"
  "\<exists>ic. get_current_instruction_context example_entered = Inr ic \<and> ic_dedup_map ic = [0, 1, - 1, 2] \<and>
     ic_instruction_accounts ic = example_top_accounts \<and> ic_program_account_index_in_tx ic = 3"
  by (simp_all add: current_program_def get_current_instruction_context_def get_current_instruction_index_def
      get_instruction_context_at_index_in_trace_def example_entered_simps slice_get_def result_ops get_program_key_def
      get_index_of_program_account_in_transaction_def get_key_of_account_at_index_def example_frame_simps example_key
      get_or_default_def)

lemma example_call_accounts:
  assumes "ic_dedup_map ic = [0, 1, - 1, 2]" "ic_instruction_accounts ic = example_top_accounts"
  shows "callee_accounts example_entered ic (ins_accounts example_call) [] =
    Some (Inr ([0, - 1, - 1, - 1], [instruction_account_new 0 True True]))"
proof -
  have maps: "replicate (min (unat (get_number_of_accounts example_entered)) max_accounts_per_transaction) (- 1 :: u16) =
      [- 1, - 1, - 1, - 1]"
    by (simp add: get_number_of_accounts_def max_accounts_per_transaction_def example_entered_simps example_accounts_simps)
      (simp add: numeral_eq_Suc)
  have "find_index_of_account 11 example_entered = Some 0"
    by (simp add: find_index_of_account_def example_entered_simps example_accounts_simps)
  then show ?thesis
    unfolding callee_accounts_def maps
    by (simp add: example_call_def collect_account_def check_account_def slice_get_def unat_max_u16 assms
        get_index_of_account_in_instruction_def example_top_accounts_def result_ops)
qed

lemma example_configured:
  obtains tc frame where "prepare_next_cpi_instruction example_call [] example_entered = Some (Inr tc)"
    "tc_instruction_trace tc = [example_frame, frame]" "if_program_account_index_in_tx frame = 3"
    "tc_instruction_stack tc = [0]" "tc_accounts tc = example_accounts" "tc_instruction_stack_capacity tc = 5"
    "tc_instruction_trace_capacity tc = 64" "tc_next_top_level_instruction_index tc = 1" "cpis tc = 0"
    "tc_instruction_accounts tc = [example_top_accounts, [instruction_account_new 0 True True]]"
proof -
  obtain ic where ic: "get_current_instruction_context example_entered = Inr ic" "ic_dedup_map ic = [0, 1, - 1, 2]"
    "ic_instruction_accounts ic = example_top_accounts"
    using example_current(2) by blast
  obtain tc where conf: "configure_instruction_at_index 1 3 [instruction_account_new 0 True True] [0, - 1, - 1, - 1] [1]
      (Some 0) example_entered = Inr tc"
    by (simp add: configure_instruction_at_index_def slice_get_def example_entered_simps result_ops Let_def)
  have "prepare_next_cpi_instruction example_call [] example_entered = Some (Inr tc)"
    using conf example_call_accounts [OF ic(2,3)] ic
    by (simp add: prepare_next_cpi_instruction_def result_ops get_current_instruction_index_def get_instruction_trace_length_def
        example_entered_simps find_index_of_account_def example_accounts_simps get_index_of_account_in_instruction_def
        slice_get_def example_top_accounts_def example_call_def)
  then show thesis
    using that configure_state [OF conf] configure_lists [OF conf] by (auto simp: example_entered_simps)
qed

lemma example_program_key:
  assumes "ic_program_account_index_in_tx ic = 3" "account_keys tc = account_keys example_entered"
  shows "get_program_key ic (tc_accounts tc) = Inr 0"
proof -
  have "get_program_key ic (tc_accounts example_entered) = Inr 0"
    using assms(1) by (simp add: get_program_key_def get_index_of_program_account_in_transaction_def
        get_key_of_account_at_index_def example_entered_simps example_key result_ops)
  then show ?thesis
    using get_program_key_keys [OF assms(2)] by simp
qed

lemma example_called:
  obtains tc frame where "running (example_runtime cache) example_message example_loaded 5 64 tc"
    "tc_instruction_stack tc = [0, 1]" "frames tc = [example_frame, frame]" "if_program_account_index_in_tx frame = 3"
    "tc_instruction_accounts tc = [example_top_accounts, [instruction_account_new 0 True True]]"
    "account_keys tc = account_keys example_entered"
proof -
  let ?env = "example_runtime cache"
  obtain tc1 frame1 where prep: "prepare_next_cpi_instruction example_call [] example_entered = Some (Inr tc1)"
    and tc1: "tc_instruction_trace tc1 = [example_frame, frame1]" "if_program_account_index_in_tx frame1 = 3"
      "tc_instruction_stack tc1 = [0]" "tc_accounts tc1 = example_accounts" "tc_instruction_stack_capacity tc1 = 5"
      "tc_instruction_trace_capacity tc1 = 64" "tc_next_top_level_instruction_index tc1 = 1" "cpis tc1 = 0"
      "tc_instruction_accounts tc1 = [example_top_accounts, [instruction_account_new 0 True True]]"
    by (rule example_configured)
  have keys1: "account_keys tc1 = account_keys example_entered"
    by (simp add: account_keys_def tc1 example_entered_simps)
  obtain tc where push: "push_instruction example_sysvar tc1 = (Inr (), tc)"
    using example_no_sysvar
    by (simp add: push_instruction_def enter_instruction_def Let_def tc1 number_of_called_instructions_in_trace_def
        store_instructions_sysvar_def example_sysvar_def example_accounts_simps)
  moreover have "current_program tc1 = Inr 0"
    using example_program_key [OF _ keys1]
    by (simp add: current_program_def get_current_instruction_context_def get_current_instruction_index_def
        get_instruction_context_at_index_in_trace_def tc1 slice_get_def result_ops example_frame_simps)
  ultimately have invoke: "invoke_push ?env tc1 = (Inr (), tc)"
    using example_program_key [OF _ keys1]
    by (simp add: invoke_push_def get_next_instruction_context_def tc1 get_instruction_context_at_index_in_trace_def
        slice_get_def result_ops is_reentrant_def example_runtime_def)
  have "derive_signers ?env 0 [] = Inr []" "length (ins_accounts example_call) < 2 ^ 16"
    by (simp_all add: example_call_def)
  note run = running.called [OF example_entered_running example_current(1) this prep invoke]
  have "tc_instruction_stack tc = [0, 1]"
    using push_ok [OF push] by (simp add: tc1)
  then show thesis
    using that [OF run] push_frames(2) [OF push] push_accounts(1,2) [OF push] tc1 keys1 by (auto simp: frames_def)
qed

lemma example_called_level:
  assumes "tc_instruction_stack tc = [0, 1]" "frames tc = [example_frame, frame]" "if_program_account_index_in_tx frame = 3"
    and "account_keys tc = account_keys example_entered" "j < 2"
  shows "program_at_level tc j = Inr 0"
proof -
  obtain last_frame where trace: "tc_instruction_trace tc = [example_frame, frame, last_frame]"
    using assms(2) by (cases "tc_instruction_trace tc" rule: rev_cases) (auto simp: frames_def)
  show ?thesis
    using assms(5) example_program_key [OF _ assms(4)]
    by (auto simp: less_2_cases_iff program_at_level_def get_instruction_context_at_nesting_level_def slice_get_def assms(1)
        get_instruction_context_at_index_in_trace_def trace assms(3) example_frame_simps result_ops)
qed

text \<open>
  C6. Rights come from the message: in every state of a running transaction, an account of any
  instruction in the trace, however deeply nested its call, is writable only if the message marks the
  account writable, and is a signer only if the message has its signature or its address is
  derived from a program of the transaction.
\<close>

theorem rights_from_message:
  assumes "running env message accounts stack_capacity trace_capacity tc" and "sanitized message"
    and "trace_capacity < 2 ^ 16" and "length accounts \<le> 256"
    and "get_instruction_context_at_index_in_trace tc k = Inr ic" and "k < get_instruction_trace_length tc"
    and "ia \<in> set (ic_instruction_accounts ic)"
  shows "(ia_writable ia \<longrightarrow> msg_is_writable message (unat (ia_index_in_transaction ia))) \<and>
    (ia_signer ia \<longrightarrow> msg_is_signer message (unat (ia_index_in_transaction ia)) \<or>
      (\<exists>seeds. \<exists>program \<in> fst ` set accounts.
        create_program_address env seeds program = Inr (fst (accounts ! unat (ia_index_in_transaction ia)))))"
proof -
  have "length (tc_instruction_accounts tc) = get_instruction_trace_length tc"
    using running_inv [OF assms(1-3)]
    by (simp add: run_inv_def aligned_def frames_def get_instruction_trace_length_def)
  then have "ic_instruction_accounts ic = tc_instruction_accounts tc ! k" "k < length (tc_instruction_accounts tc)"
    using assms(5,6) by (auto simp: context_program get_or_default_def slice_get_def)
  then have "rightful env message accounts ia"
    using running_rightful [OF assms(1-4)] assms(7) by (auto simp: all_rightful_def list_all_iff)
  then show ?thesis
    by (simp add: rightful_def derived_address_def)
qed

text \<open>
  C14. No program is entered again while a program that it called still runs: if the program of two
  levels of the stack is the same, it is the program of every level between them.
\<close>

theorem calls_not_reentrant:
  assumes "running env message accounts stack_capacity trace_capacity tc" and "sanitized message"
    and "trace_capacity < 2 ^ 16" and "i \<le> j" and "j \<le> k" and "k < length (tc_instruction_stack tc)"
    and "program_at_level tc i = Inr program" and "program_at_level tc k = Inr program"
  shows "program_at_level tc j = Inr program"
  using running_no_reentrancy [OF assms(1-3)] assms(4-) unfolding no_reentrancy_def by blast

theorem rights_from_message_witness:
  "\<exists>tc ic. running (example_runtime (\<lambda>_. None)) example_message example_loaded 5 64 tc \<and>
     get_instruction_context_at_index_in_trace tc 1 = Inr ic \<and>
     ic_instruction_accounts ic = [instruction_account_new 0 True True] \<and>
     msg_is_writable example_message (unat (ia_index_in_transaction (instruction_account_new 0 True True)))"
proof -
  obtain tc frame where run: "running (example_runtime (\<lambda>_. None)) example_message example_loaded 5 64 tc"
    and tc: "frames tc = [example_frame, frame]"
      "tc_instruction_accounts tc = [example_top_accounts, [instruction_account_new 0 True True]]"
    by (rule example_called)
  have len: "1 < get_instruction_trace_length tc" "1 < length (tc_instruction_trace tc)"
    using arg_cong [OF tc(1), of length] by (simp_all add: frames_def get_instruction_trace_length_def)
  then obtain ic where ic: "get_instruction_context_at_index_in_trace tc 1 = Inr ic"
    "ic_instruction_accounts ic = [instruction_account_new 0 True True]"
    by (simp add: context_program get_or_default_def slice_get_def tc)
  show ?thesis
    using rights_from_message [OF run example_sanitized _ _ ic(1) len(1), of "instruction_account_new 0 True True"] run ic
    by (auto simp: example_loaded_def)
qed

theorem calls_not_reentrant_witness:
  "\<exists>tc. running (example_runtime (\<lambda>_. None)) example_message example_loaded 5 64 tc \<and>
     length (tc_instruction_stack tc) = 2 \<and> program_at_level tc 1 = Inr 0"
proof -
  obtain tc frame where run: "running (example_runtime (\<lambda>_. None)) example_message example_loaded 5 64 tc"
    and tc: "tc_instruction_stack tc = [0, 1]" "frames tc = [example_frame, frame]" "if_program_account_index_in_tx frame = 3"
      "account_keys tc = account_keys example_entered"
    by (rule example_called)
  note level = example_called_level [OF tc]
  have "program_at_level tc 1 = Inr 0"
    by (rule calls_not_reentrant [OF run example_sanitized, of 0 1 1]) (simp_all add: tc(1) level)
  then show ?thesis
    using run tc(1) by auto
qed

end
