(* ===== verification/Message_Run.thy ===== *)
theory Message_Run
  imports Call_Safety
begin

section \<open>Running a message\<close>

text \<open>
  The functions that run a message, down to the programs that call each other, follow the steps of a
  running transaction, and they end: fuel for as many nested calls as the stack has room for is
  enough, and no position is out of range. Programs are arbitrary except that they keep to the
  rules for accounts in each of their steps.
\<close>

subsection \<open>Programs that keep the rules\<close>

text \<open>The relation holds between the accounts before and after each step, whatever the called programs do.\<close>

primrec lawful :: "(transaction_accounts \<Rightarrow> transaction_accounts \<Rightarrow> bool) \<Rightarrow> program \<Rightarrow> transaction_accounts \<Rightarrow> bool" where
  "lawful R (Finish r) = (\<lambda>ta. True)"
| "lawful R (Work ta' units rest) = (\<lambda>ta. R ta ta' \<and> lawful R rest ta')"
| "lawful R (Call ins seeds rest) = (\<lambda>ta. length (ins_accounts ins) < 2 ^ 16 \<and>
     (\<forall>ta' units. ta_wf ta' \<and> map sf_key (ta_shared ta') = map sf_key (ta_shared ta) \<longrightarrow>
        lawful R (rest (ta', units)) ta'))"

definition programs_lawful :: "runtime_env \<Rightarrow> bool" where
  "programs_lawful env \<longleftrightarrow>
     (\<forall>builtin entry ic ta units. program_cache env builtin = Some entry \<longrightarrow> ta_wf ta \<longrightarrow>
        lawful (confined (ic_program_account_index_in_tx ic) (ic_instruction_accounts ic)) (entry ic (ta, units)) ta)"

lemma case_unit_simp [simp]: "(case u of () \<Rightarrow> x) = x"
  by (cases u, simp only: unit.case)

subsection \<open>No position is out of range\<close>

lemma collect_accounts_total:
  assumes "length (ta_shared (tc_accounts tc)) \<le> 2 ^ 16" "length cmap = length (ta_shared (tc_accounts tc))"
    and "\<forall>ia \<in> set accounts. unat (ia_index_in_transaction ia) < length cmap"
  obtains e where "collect_accounts tc metas (cmap, accounts) = Some (Inl e)"
  | cmap' accounts' where "collect_accounts tc metas (cmap, accounts) = Some (Inr (cmap', accounts'))"
    "length cmap' = length cmap" "\<forall>ia \<in> set accounts'. unat (ia_index_in_transaction ia) < length cmap'"
proof -
  have "(\<exists>e. collect_accounts tc metas (cmap, accounts) = Some (Inl e)) \<or>
    (\<exists>cmap' accounts'. collect_accounts tc metas (cmap, accounts) = Some (Inr (cmap', accounts')) \<and>
      length cmap' = length cmap \<and> (\<forall>ia \<in> set accounts'. unat (ia_index_in_transaction ia) < length cmap'))"
    using assms(2,3)
  proof (induction metas arbitrary: cmap accounts)
    case (Cons meta metas)
    show ?case
    proof (cases "find_index_of_account (am_pubkey meta) tc")
      case (Some i)
      have i: "unat i < length cmap"
        using find_index_range [OF Some assms(1)] Cons.prems(1) by simp
      let ?f = "unat (cmap ! unat i)"
      obtain cmap1 accounts1 where step: "collect_account i meta (cmap, accounts) = Some (cmap1, accounts1)"
        and len: "length cmap1 = length cmap" "\<forall>ia \<in> set accounts1. unat (ia_index_in_transaction ia) < length cmap1"
      proof (cases "?f < length accounts")
        case True
        let ?ia = "merge_rights (am_is_signer meta) (am_is_writable meta) (accounts ! ?f)"
        have "collect_account i meta (cmap, accounts) = Some (cmap, accounts[?f := ?ia] @ [?ia])"
          using i True by (simp add: collect_account_def slice_get_def Let_def)
        moreover have "\<forall>ia \<in> set (accounts[?f := ?ia] @ [?ia]). unat (ia_index_in_transaction ia) < length cmap"
          using Cons.prems(2) True by (auto dest!: set_update_subset_insert [THEN subsetD])
        ultimately show ?thesis
          using that by blast
      next
        case False
        let ?ia = "instruction_account_new i (am_is_signer meta) (am_is_writable meta)"
        have "collect_account i meta (cmap, accounts) =
            Some (cmap[unat i := of_nat (length accounts)], accounts @ [?ia])"
          using i False by (simp add: collect_account_def slice_get_def)
        then show ?thesis
          by (rule that) (use i Cons.prems(2) in auto)
      qed
      then show ?thesis
        using Cons.IH [of cmap1 accounts1] Cons.prems(1) by (simp add: Some)
    qed simp
  qed simp
  then show thesis
    using that by blast
qed

lemma check_account_total:
  assumes "\<forall>ia \<in> set accounts. unat (ia_index_in_transaction ia) < length cmap" "k < length accounts"
  obtains e where "check_account ic metas signers cmap k accounts = Some (Inl e)"
  | accounts' where "check_account ic metas signers cmap k accounts = Some (Inr accounts')"
    "length accounts' = length accounts" "\<forall>ia \<in> set accounts'. unat (ia_index_in_transaction ia) < length cmap"
proof -
  have index: "unat (ia_index_in_transaction (accounts ! k)) < length cmap"
    using assms by simp
  then have "check_account ic metas signers cmap k accounts \<noteq> None"
    by (simp add: check_account_def slice_get_def Let_def)
  then obtain r where r: "check_account ic metas signers cmap k accounts = Some r"
    by blast
  show thesis
  proof (cases r)
    case (Inl e)
    then show ?thesis
      using that(1) r by simp
  next
    case (Inr accounts')
    then have "accounts' = accounts \<or> (\<exists>s w. accounts' = accounts[k := merge_rights s w (accounts ! k)])"
      using r index by (auto simp: check_account_def slice_get_def Let_def and_then_Inr split: if_splits)
    then have "length accounts' = length accounts \<and> (\<forall>ia \<in> set accounts'. unat (ia_index_in_transaction ia) < length cmap)"
      using assms index by (auto dest!: set_update_subset_insert [THEN subsetD])
    then show ?thesis
      using that(2) r Inr by blast
  qed
qed

lemma check_accounts_total:
  assumes "\<forall>ia \<in> set accounts. unat (ia_index_in_transaction ia) < length cmap" "\<forall>k \<in> set ks. k < length accounts"
  shows "check_accounts ic metas signers cmap ks accounts \<noteq> None"
  using assms
proof (induction ks arbitrary: accounts)
  case (Cons k ks)
  then have k: "k < length accounts"
    by simp
  show ?case
    by (rule check_account_total [OF Cons.prems(1) k, of ic metas signers]) (use Cons in \<open>simp_all\<close>)
qed simp

lemma prepare_next_total:
  assumes "length (ta_shared (tc_accounts tc)) \<le> 256"
  shows "prepare_next_cpi_instruction ins signers tc \<noteq> None"
proof -
  let ?map = "replicate (min (unat (get_number_of_accounts tc)) max_accounts_per_transaction) (- 1 :: u16)"
  have len: "length ?map = length (ta_shared (tc_accounts tc))" "length (ta_shared (tc_accounts tc)) \<le> 2 ^ 16"
    using assms by (simp_all add: get_number_of_accounts_def max_accounts_per_transaction_def unat_of_nat)
  have "callee_accounts tc ic metas signers \<noteq> None" for ic metas
    by (rule collect_accounts_total [OF len(2,1), of "[]" metas])
      (use check_accounts_total in \<open>auto simp: callee_accounts_def Let_def\<close>)
  then show ?thesis
    by (auto simp: prepare_next_cpi_instruction_def simp del: not_None_eq split: sum.splits option.splits)
qed

subsection \<open>Calls return\<close>

text \<open>A caller goes on in a state of the running transaction with its own instruction unchanged.\<close>

definition resumed ::
  "runtime_env \<Rightarrow> message \<Rightarrow> (pubkey \<times> account_shared_data) list \<Rightarrow> nat \<Rightarrow> nat \<Rightarrow>
   transaction_context \<Rightarrow> transaction_context \<Rightarrow> bool" where
  "resumed env message accounts stack_capacity trace_capacity tc tc' \<longleftrightarrow>
     running env message accounts stack_capacity trace_capacity tc' \<and> extends tc tc' \<and>
     tc_instruction_stack tc' = tc_instruction_stack tc \<and>
     tc_next_top_level_instruction_index tc' = tc_next_top_level_instruction_index tc"

definition returns ::
  "runtime_env \<Rightarrow> message \<Rightarrow> (pubkey \<times> account_shared_data) list \<Rightarrow> nat \<Rightarrow> nat \<Rightarrow> nat \<Rightarrow>
   (instruction \<Rightarrow> u8 list list list \<Rightarrow> invoke_context \<Rightarrow> outcome) \<Rightarrow> bool" where
  "returns env message accounts stack_capacity trace_capacity depth invoke \<longleftrightarrow>
     (\<forall>ins seeds c. running env message accounts stack_capacity trace_capacity (inv_transaction_context c) \<and>
        tc_instruction_stack (inv_transaction_context c) \<noteq> [] \<and>
        stack_capacity < depth + length (tc_instruction_stack (inv_transaction_context c)) \<and>
        length (ins_accounts ins) < 2 ^ 16 \<longrightarrow>
        (\<exists>r c'. invoke ins seeds c = Some (r, c') \<and> (r = Inr () \<longrightarrow>
           resumed env message accounts stack_capacity trace_capacity (inv_transaction_context c)
             (inv_transaction_context c'))))"

lemma returnsD:
  assumes "returns env message accounts stack_capacity trace_capacity depth invoke"
    and "running env message accounts stack_capacity trace_capacity (inv_transaction_context c)"
    and "tc_instruction_stack (inv_transaction_context c) \<noteq> []"
    and "stack_capacity < depth + length (tc_instruction_stack (inv_transaction_context c))"
    and "length (ins_accounts ins) < 2 ^ 16"
  shows "\<exists>r c'. invoke ins seeds c = Some (r, c') \<and> (r = Inr () \<longrightarrow>
    resumed env message accounts stack_capacity trace_capacity (inv_transaction_context c) (inv_transaction_context c'))"
  using assms unfolding returns_def by blast

lemma resumed_trans:
  "resumed env message accounts stack_capacity trace_capacity tc tc1 \<Longrightarrow>
   resumed env message accounts stack_capacity trace_capacity tc1 tc2 \<Longrightarrow>
   resumed env message accounts stack_capacity trace_capacity tc tc2"
  by (auto simp: resumed_def intro: extends_trans)

lemma resumed_context:
  assumes "resumed env message accounts stack_capacity trace_capacity tc tc'"
    and "run_inv message accounts stack_capacity trace_capacity tc" "get_current_instruction_context tc = Inr ic"
  shows "get_current_instruction_context tc' = Inr ic"
proof -
  obtain k where k: "k = last (tc_instruction_stack tc)" "k < length (frames tc)" "tc_instruction_stack tc \<noteq> []"
    "get_instruction_context_at_index_in_trace tc k = Inr ic"
    by (rule current_context [OF assms(2,3)])
  then have "get_instruction_context_at_index_in_trace tc' k = Inr ic"
    using extends_context [of tc tc' k] assms(1,2) by (simp add: resumed_def run_inv_def)
  then show ?thesis
    using k assms(1)
    by (simp add: get_current_instruction_context_def get_current_instruction_index_def resumed_def result_ops)
qed

lemma worked_resumed:
  assumes "running env message accounts stack_capacity trace_capacity tc" "get_current_instruction_context tc = Inr ic"
    and "confined (ic_program_account_index_in_tx ic) (ic_instruction_accounts ic) (tc_accounts tc) ta"
  shows "resumed env message accounts stack_capacity trace_capacity tc (tc\<lparr>tc_accounts := ta\<rparr>)"
  using running.worked [OF assms] assms(3)
  by (simp add: resumed_def extends_def frames_def account_keys_def confined_def)

lemma returned_resumed:
  assumes "running env message accounts stack_capacity trace_capacity tc"
  shows "resumed env message accounts stack_capacity trace_capacity tc (set_return_data program_id data tc)"
  using running.returned [OF assms]
  by (simp add: resumed_def extends_def frames_def account_keys_def set_return_data_def)

lemma run_program_returns:
  assumes invoke: "returns env message accounts stack_capacity trace_capacity depth invoke"
    and sane: "sanitized message" "trace_capacity < 2 ^ 16"
    and "running env message accounts stack_capacity trace_capacity (inv_transaction_context c)"
    and "get_current_instruction_context (inv_transaction_context c) = Inr ic"
    and "stack_capacity < depth + length (tc_instruction_stack (inv_transaction_context c))"
    and "lawful (confined (ic_program_account_index_in_tx ic) (ic_instruction_accounts ic)) program
      (tc_accounts (inv_transaction_context c))"
  shows "\<exists>r c'. run_program invoke program c = Some (r, c') \<and> (r = Inr () \<longrightarrow>
    resumed env message accounts stack_capacity trace_capacity (inv_transaction_context c) (inv_transaction_context c'))"
  using assms(4-)
proof (induction program arbitrary: c)
  case (Finish r)
  then show ?case
    by (simp add: resumed_def)
next
  case (Work ta units rest)
  let ?c = "c\<lparr>inv_transaction_context := (inv_transaction_context c)\<lparr>tc_accounts := ta\<rparr>,
    inv_compute_meter := saturating_sub (inv_compute_meter c) units\<rparr>"
  have law: "confined (ic_program_account_index_in_tx ic) (ic_instruction_accounts ic)
      (tc_accounts (inv_transaction_context c)) ta"
    "lawful (confined (ic_program_account_index_in_tx ic) (ic_instruction_accounts ic)) rest ta"
    using Work.prems(4) by simp_all
  note step = worked_resumed [OF Work.prems(1,2) law(1)]
  have "\<exists>r c'. run_program invoke rest ?c = Some (r, c') \<and> (r = Inr () \<longrightarrow>
      resumed env message accounts stack_capacity trace_capacity (inv_transaction_context ?c) (inv_transaction_context c'))"
    using Work.IH [of ?c] step resumed_context [OF step running_inv [OF Work.prems(1) sane] Work.prems(2)]
      Work.prems(3) law(2) by (simp add: resumed_def)
  then show ?case
    using resumed_trans [OF step] by auto
next
  case (Call ins seeds rest)
  let ?tc = "inv_transaction_context c"
  have stack: "tc_instruction_stack ?tc \<noteq> []"
    using Call.prems(2) by (auto simp: get_current_instruction_context_def get_current_instruction_index_def result_ops split: if_splits)
  obtain r c1 where r: "invoke ins seeds c = Some (r, c1)"
    and ok: "r = Inr () \<longrightarrow> resumed env message accounts stack_capacity trace_capacity ?tc (inv_transaction_context c1)"
    using returnsD [OF invoke Call.prems(1) stack Call.prems(3), of ins seeds] Call.prems(4) by auto
  show ?case
  proof (cases r)
    case (Inl e)
    then show ?thesis
      using r by simp
  next
    case (Inr u)
    then have step: "resumed env message accounts stack_capacity trace_capacity ?tc (inv_transaction_context c1)"
      using ok by simp
    then have run1: "running env message accounts stack_capacity trace_capacity (inv_transaction_context c1)"
      by (simp add: resumed_def)
    let ?ta = "tc_accounts (inv_transaction_context c1)"
    have "ta_wf ?ta" "map sf_key (ta_shared ?ta) = map sf_key (ta_shared (tc_accounts ?tc))"
      using running_inv [OF run1 sane] step
      by (simp_all add: run_inv_def accounts_inv_def resumed_def extends_def account_keys_def)
    then have law: "lawful (confined (ic_program_account_index_in_tx ic) (ic_instruction_accounts ic))
        (rest (?ta, inv_compute_meter c1)) ?ta"
      using Call.prems(4) by simp
    have cap: "stack_capacity < depth + length (tc_instruction_stack (inv_transaction_context c1))"
      using Call.prems(3) step by (simp add: resumed_def)
    note same = resumed_context [OF step running_inv [OF Call.prems(1) sane] Call.prems(2)]
    obtain r2 c2 where "run_program invoke (rest (?ta, inv_compute_meter c1)) c1 = Some (r2, c2)"
      "r2 = Inr () \<longrightarrow> resumed env message accounts stack_capacity trace_capacity
         (inv_transaction_context c1) (inv_transaction_context c2)"
      using Call.IH [OF rangeI [of rest "(?ta, inv_compute_meter c1)"] run1 same cap law] by blast
    then show ?thesis
      using r Inr resumed_trans [OF step, of "inv_transaction_context c2"] by simp
  qed
qed

lemma return_data_same:
  "tc_accounts (set_return_data program_id data tc) = tc_accounts tc"
  "tc_instruction_stack (set_return_data program_id data tc) = tc_instruction_stack tc"
  by (simp_all add: set_return_data_def)

lemma executable_chain_returns:
  assumes "returns env message accounts stack_capacity trace_capacity depth invoke" "programs_lawful env"
    and sane: "sanitized message" "trace_capacity < 2 ^ 16"
    and run: "running env message accounts stack_capacity trace_capacity (inv_transaction_context c)"
    and cap: "stack_capacity < depth + length (tc_instruction_stack (inv_transaction_context c))"
  obtains r c' consumed where "process_executable_chain env invoke c = Some (r, c', consumed)"
    "r = Inr () \<longrightarrow> resumed env message accounts stack_capacity trace_capacity
       (inv_transaction_context c) (inv_transaction_context c')"
proof -
  let ?tc = "inv_transaction_context c"
  let ?look = "and_then (get_current_instruction_context ?tc) (\<lambda>ic.
      and_then (find_builtin env ic (tc_accounts ?tc)) (\<lambda>builtin_id.
      and_then (ok_or UnsupportedProgramId (program_cache env builtin_id)) (\<lambda>entry.
      and_then (get_program_key ic (tc_accounts ?tc)) (\<lambda>program_id. Inr (builtin_id, program_id, entry ic)))))"
  show thesis
  proof (cases ?look)
    case (Inl e)
    then show ?thesis
      by (intro that [of "Inl e" c 0]) (simp_all add: process_executable_chain_def)
  next
    case (Inr x)
    obtain builtin_id program_id ic entry where x: "x = (builtin_id, program_id, entry ic)"
      and ic: "get_current_instruction_context ?tc = Inr ic" and entry: "program_cache env builtin_id = Some entry"
      using Inr by (auto simp: and_then_Inr ok_or_Inr)
    let ?c = "c\<lparr>inv_transaction_context := set_return_data program_id [] ?tc\<rparr>"
    let ?program = "entry ic (tc_accounts ?tc, inv_compute_meter c)"
    note step = returned_resumed [OF run, of program_id "[]"] and inv = running_inv [OF run sane]
    have law: "lawful (confined (ic_program_account_index_in_tx ic) (ic_instruction_accounts ic)) ?program
        (tc_accounts (inv_transaction_context ?c))"
      using assms(2) entry inv by (simp add: return_data_same programs_lawful_def run_inv_def accounts_inv_def)
    have run': "running env message accounts stack_capacity trace_capacity (inv_transaction_context ?c)"
      using step by (simp add: resumed_def)
    have ic': "get_current_instruction_context (inv_transaction_context ?c) = Inr ic"
      using resumed_context [OF step inv ic] by simp
    obtain r c' where done_: "run_program invoke ?program ?c = Some (r, c')"
      and ok: "r = Inr () \<longrightarrow> resumed env message accounts stack_capacity trace_capacity
         (inv_transaction_context ?c) (inv_transaction_context c')"
      using run_program_returns [OF assms(1) sane run' ic' _ law] cap by (auto simp: return_data_same)
    then have "resumed env message accounts stack_capacity trace_capacity ?tc (inv_transaction_context c')" if "r = Inr ()"
      using resumed_trans [OF step, of "inv_transaction_context c'"] that by simp
    then show ?thesis
      using Inr x done_ by (intro that) (auto simp: process_executable_chain_def Let_def split: if_split_asm)
  qed
qed

text \<open>An instruction that was entered is left again.\<close>

lemma popped_running:
  assumes "running env message accounts stack_capacity trace_capacity (inv_transaction_context c)"
    and "popped result c = (r, c')"
  shows "r = Inr () \<Longrightarrow> result = Inr ()"
    "running env message accounts stack_capacity trace_capacity (inv_transaction_context c')"
    "extends (inv_transaction_context c) (inv_transaction_context c')"
    "tc_instruction_stack (inv_transaction_context c') = butlast (tc_instruction_stack (inv_transaction_context c))"
    "tc_next_top_level_instruction_index (inv_transaction_context c') =
       tc_next_top_level_instruction_index (inv_transaction_context c)"
    "r = Inr () \<Longrightarrow> ta_lamports_delta (tc_accounts (inv_transaction_context c')) = 0"
proof -
  obtain r1 tc where pop: "pop_instruction (inv_transaction_context c) = (r1, tc)"
    by (cases "pop_instruction (inv_transaction_context c)")
  then have c': "c' = c\<lparr>inv_transaction_context := tc\<rparr>" and r: "r = and_then result (\<lambda>_. r1)"
    using assms(2) by (simp_all add: popped_def)
  note state = pop_state [OF pop] and lists = pop_lists [OF pop]
  show "r = Inr () \<Longrightarrow> result = Inr ()"
    using r by (auto simp: and_then_Inr)
  show "running env message accounts stack_capacity trace_capacity (inv_transaction_context c')"
    using running.left [OF assms(1) pop] by (simp add: c')
  show "extends (inv_transaction_context c) (inv_transaction_context c')"
    by (simp add: c' extends_def frames_def account_keys_def state lists)
  show "tc_instruction_stack (inv_transaction_context c') = butlast (tc_instruction_stack (inv_transaction_context c))"
    "tc_next_top_level_instruction_index (inv_transaction_context c') =
       tc_next_top_level_instruction_index (inv_transaction_context c)"
    by (simp_all add: c' state)
  show "ta_lamports_delta (tc_accounts (inv_transaction_context c')) = 0" if "r = Inr ()"
  proof -
    have "pop_instruction (inv_transaction_context c) = (Inr (), tc)"
      using that r pop by (auto simp: and_then_Inr)
    then have "ta_lamports_delta (tc_accounts (inv_transaction_context c)) = 0"
      using detect_balanced [of "inv_transaction_context c"]
      by (auto simp: pop_instruction_def Let_def and_then_Inr split: if_splits)
    then show ?thesis
      by (simp add: c' state)
  qed
qed

lemma process_instruction_returns:
  assumes "returns env message accounts stack_capacity trace_capacity depth invoke" "programs_lawful env"
    and sane: "sanitized message" "trace_capacity < 2 ^ 16"
    and enter: "\<And>tc. invoke_push env (inv_transaction_context c) = (Inr (), tc) \<Longrightarrow>
      running env message accounts stack_capacity trace_capacity tc \<and>
      stack_capacity < depth + length (tc_instruction_stack tc)"
  obtains r c' consumed where "process_instruction env invoke c = Some (r, c', consumed)"
    "r = Inr () \<Longrightarrow> \<exists>tc. invoke_push env (inv_transaction_context c) = (Inr (), tc) \<and>
       running env message accounts stack_capacity trace_capacity (inv_transaction_context c') \<and>
       extends tc (inv_transaction_context c') \<and>
       tc_instruction_stack (inv_transaction_context c') = butlast (tc_instruction_stack tc) \<and>
       tc_next_top_level_instruction_index (inv_transaction_context c') = tc_next_top_level_instruction_index tc \<and>
       ta_lamports_delta (tc_accounts (inv_transaction_context c')) = 0"
proof -
  obtain r0 tc where push: "invoke_push env (inv_transaction_context c) = (r0, tc)"
    by (cases "invoke_push env (inv_transaction_context c)")
  show thesis
  proof (cases r0)
    case (Inl e)
    then show ?thesis
      using push by (intro that [of "Inl e" "c\<lparr>inv_transaction_context := tc\<rparr>" 0]) (simp_all add: process_instruction_def)
  next
    case (Inr u)
    let ?c = "c\<lparr>inv_transaction_context := tc\<rparr>"
    have push': "invoke_push env (inv_transaction_context c) = (Inr (), tc)"
      using push Inr by simp
    have run: "running env message accounts stack_capacity trace_capacity (inv_transaction_context ?c)"
      "stack_capacity < depth + length (tc_instruction_stack (inv_transaction_context ?c))"
      using enter [OF push'] by simp_all
    obtain r1 c1 consumed where chain: "process_executable_chain env invoke ?c = Some (r1, c1, consumed)"
      and ok: "r1 = Inr () \<longrightarrow> resumed env message accounts stack_capacity trace_capacity tc (inv_transaction_context c1)"
      by (rule executable_chain_returns [OF assms(1,2) sane run]) simp
    obtain r c' where pop: "popped r1 c1 = (r, c')"
      by (cases "popped r1 c1")
    have done_: "process_instruction env invoke c = Some (r, c', consumed)"
      using push' chain pop by (simp add: process_instruction_def)
    show ?thesis
    proof (rule that [OF done_])
      assume r: "r = Inr ()"
      then have r1: "r1 = Inr ()"
        using pop by (auto simp: popped_def and_then_Inr split: prod.splits)
      then have res: "resumed env message accounts stack_capacity trace_capacity tc (inv_transaction_context c1)"
        using ok by simp
      then have run1: "running env message accounts stack_capacity trace_capacity (inv_transaction_context c1)"
        by (simp add: resumed_def)
      note popped = popped_running [OF run1 pop]
      show "\<exists>tc. invoke_push env (inv_transaction_context c) = (Inr (), tc) \<and>
        running env message accounts stack_capacity trace_capacity (inv_transaction_context c') \<and>
        extends tc (inv_transaction_context c') \<and>
        tc_instruction_stack (inv_transaction_context c') = butlast (tc_instruction_stack tc) \<and>
        tc_next_top_level_instruction_index (inv_transaction_context c') = tc_next_top_level_instruction_index tc \<and>
        ta_lamports_delta (tc_accounts (inv_transaction_context c')) = 0"
        using push' popped(2-5) popped(6) [OF r] res extends_trans [of tc "inv_transaction_context c1" "inv_transaction_context c'"]
        by (intro exI [of _ tc]) (simp add: resumed_def)
    qed
  qed
qed

lemma call_next_index:
  assumes "prepare_next_cpi_instruction ins signers tc = Some (Inr tc1)" "invoke_push env tc1 = (Inr (), tc')"
    and "tc_instruction_stack tc \<noteq> []"
  shows "tc_next_top_level_instruction_index tc' = tc_next_top_level_instruction_index tc"
proof -
  obtain i program ias dedup data caller where
    conf: "configure_instruction_at_index i program ias dedup data caller tc = Inr tc1"
    using assms(1) by (rule prepare_next_ok)
  obtain ic program_id where push: "push_instruction (instructions_sysvar_of env) tc1 = (Inr (), tc')"
    using assms(2) by (rule invoke_push_ok)
  show ?thesis
    using push_ok [OF push] configure_state [OF conf] assms(3) by simp
qed

lemma invoke_step_returns:
  assumes "returns env message accounts stack_capacity trace_capacity depth invoke" "programs_lawful env"
    and sane: "sanitized message" "trace_capacity < 2 ^ 16" and few: "length accounts \<le> 256"
  shows "returns env message accounts stack_capacity trace_capacity (Suc depth) (invoke_step env invoke)"
  unfolding returns_def
proof (intro allI impI, elim conjE)
  fix ins :: instruction and seeds and c :: invoke_context
  let ?tc = "inv_transaction_context c"
  assume run: "running env message accounts stack_capacity trace_capacity ?tc" and stack: "tc_instruction_stack ?tc \<noteq> []"
    and cap: "stack_capacity < Suc depth + length (tc_instruction_stack ?tc)" and short: "length (ins_accounts ins) < 2 ^ 16"
  have al: "aligned ?tc" and keys: "account_keys ?tc = map fst accounts"
    using running_inv [OF run sane] by (simp_all add: run_inv_def)
  have "length (ta_shared (tc_accounts ?tc)) \<le> 256"
    using arg_cong [OF keys, of length] few by (simp add: account_keys_def)
  note total = prepare_next_total [OF this]
  let ?goal = "\<exists>r c'. invoke_step env invoke ins seeds c = Some (r, c') \<and> (r = Inr () \<longrightarrow>
    resumed env message accounts stack_capacity trace_capacity ?tc (inv_transaction_context c'))"
  show ?goal
  proof (cases "and_then (current_program ?tc) (\<lambda>caller. derive_signers env caller seeds)")
    case (Inl e)
    then show ?thesis
      by (simp add: invoke_step_def)
  next
    case (Inr signers)
    then obtain caller where caller: "current_program ?tc = Inr caller" "derive_signers env caller seeds = Inr signers"
      by (auto simp: and_then_Inr)
    obtain p where p: "prepare_next_cpi_instruction ins signers ?tc = Some p"
      using total by blast
    show ?thesis
    proof (cases p)
      case (Inl e)
      then show ?thesis
        using Inr p by (simp add: invoke_step_def)
    next
      case prepared: (Inr tc1)
      then have prep: "prepare_next_cpi_instruction ins signers ?tc = Some (Inr tc1)"
        using p by simp
      let ?c = "c\<lparr>inv_transaction_context := tc1\<rparr>"
      have entered: "running env message accounts stack_capacity trace_capacity tc"
        "tc_instruction_stack tc = tc_instruction_stack ?tc @ [length (frames ?tc)]" "extends ?tc tc"
        if push: "invoke_push env tc1 = (Inr (), tc)" for tc
        using running.called [OF run caller short prep push] call_step [OF prep push al stack] by blast+
      obtain r c' consumed where process: "process_instruction env invoke ?c = Some (r, c', consumed)"
        and ok: "r = Inr () \<Longrightarrow> \<exists>tc. invoke_push env (inv_transaction_context ?c) = (Inr (), tc) \<and>
          running env message accounts stack_capacity trace_capacity (inv_transaction_context c') \<and>
          extends tc (inv_transaction_context c') \<and>
          tc_instruction_stack (inv_transaction_context c') = butlast (tc_instruction_stack tc) \<and>
          tc_next_top_level_instruction_index (inv_transaction_context c') = tc_next_top_level_instruction_index tc \<and>
          ta_lamports_delta (tc_accounts (inv_transaction_context c')) = 0"
        by (rule process_instruction_returns [OF assms(1,2) sane, of ?c]) (use entered cap in auto)
      have "resumed env message accounts stack_capacity trace_capacity ?tc (inv_transaction_context c')" if ret: "r = Inr ()"
      proof -
        obtain tc where tc: "invoke_push env tc1 = (Inr (), tc)"
          "running env message accounts stack_capacity trace_capacity (inv_transaction_context c')"
          "extends tc (inv_transaction_context c')"
          "tc_instruction_stack (inv_transaction_context c') = butlast (tc_instruction_stack tc)"
          "tc_next_top_level_instruction_index (inv_transaction_context c') = tc_next_top_level_instruction_index tc"
          using ok [OF ret] by auto
        have "tc_next_top_level_instruction_index tc = tc_next_top_level_instruction_index ?tc"
          by (rule call_next_index [OF prep tc(1) stack])
        then show ?thesis
          using tc entered(2,3) [OF tc(1)] extends_trans by (auto simp: resumed_def)
      qed
      then show ?thesis
        using Inr prep process by (simp add: invoke_step_def)
    qed
  qed
qed

lemma native_invoke_returns:
  assumes "programs_lawful env" "sanitized message" "trace_capacity < 2 ^ 16" "length accounts \<le> 256"
  shows "returns env message accounts stack_capacity trace_capacity fuel (native_invoke_signed fuel env)"
proof (induction fuel)
  case 0
  have "length (tc_instruction_stack tc) \<le> stack_capacity"
    if "running env message accounts stack_capacity trace_capacity tc" for tc
    using running_inv [OF that assms(2,3)] by (simp add: run_inv_def stack_inv_def)
  then show ?case
    unfolding returns_def by (auto dest: leD)
next
  case (Suc fuel)
  have "native_invoke_signed (Suc fuel) env = invoke_step env (native_invoke_signed fuel env)"
    by (intro ext) simp
  then show ?case
    using invoke_step_returns [OF Suc.IH assms] by simp
qed

subsection \<open>The message\<close>

lemma top_level_accounts_total:
  assumes "\<forall>i \<in> set indexes. unat i < length cmap"
  shows "top_level_accounts message indexes (cmap, accounts) \<noteq> None"
  using assms
proof (induction indexes arbitrary: cmap accounts)
  case (Cons i indexes)
  then show ?case
    by (simp add: slice_get_def del: not_None_eq)
qed simp

lemma prepare_top_level_total:
  assumes "\<forall>ins \<in> set instructions. unat (ci_program_id_index ins) < length (msg_account_keys message) \<and>
      (\<forall>i \<in> set (ci_accounts ins). unat i < length (msg_account_keys message))"
    and "length (msg_account_keys message) \<le> 256"
  shows "prepare_top_level_instructions message i instructions tc \<noteq> None"
  using assms(1)
proof (induction instructions arbitrary: i tc)
  case (Cons ins instructions)
  have "top_level_accounts message (ci_accounts ins)
      (replicate (min (length (msg_account_keys message)) max_accounts_per_transaction) (- 1), []) \<noteq> None"
    using Cons.prems assms(2) by (intro top_level_accounts_total) (simp add: max_accounts_per_transaction_def)
  then obtain cmap accounts where accounts: "top_level_accounts message (ci_accounts ins)
      (replicate (min (length (msg_account_keys message)) max_accounts_per_transaction) (- 1), []) = Some (cmap, accounts)"
    by auto
  show ?case
    using Cons accounts
    by (cases "configure_instruction_at_index i (ucast (ci_program_id_index ins)) accounts cmap (ci_data ins) None tc")
      (simp_all add: slice_get_def)
qed simp

text \<open>Between the instructions of the message the stack is empty and the lamports are balanced.\<close>

definition between ::
  "runtime_env \<Rightarrow> message \<Rightarrow> (pubkey \<times> account_shared_data) list \<Rightarrow> nat \<Rightarrow> nat \<Rightarrow> nat \<Rightarrow> transaction_context \<Rightarrow> bool" where
  "between env message accounts stack_capacity trace_capacity i tc \<longleftrightarrow>
     running env message accounts stack_capacity trace_capacity tc \<and> tc_instruction_stack tc = [] \<and>
     tc_next_top_level_instruction_index tc = i \<and> ta_lamports_delta (tc_accounts tc) = 0"

lemma between_enter:
  assumes "between env message accounts stack_capacity trace_capacity i tc" "i < length (msg_instructions message)"
    and "invoke_push env tc = (Inr (), tc')"
  shows "running env message accounts stack_capacity trace_capacity tc'" "tc_instruction_stack tc' = [i]"
    "tc_next_top_level_instruction_index tc' = Suc i"
proof -
  have tc: "running env message accounts stack_capacity trace_capacity tc" "tc_instruction_stack tc = []"
    "tc_next_top_level_instruction_index tc = i"
    using assms(1) by (simp_all add: between_def)
  then show "running env message accounts stack_capacity trace_capacity tc'"
    using running.entered [OF tc(1,2) _ assms(3)] assms(2) by simp
  obtain ic program_id where push: "push_instruction (instructions_sysvar_of env) tc = (Inr (), tc')"
    using assms(3) by (rule invoke_push_ok)
  show "tc_instruction_stack tc' = [i]" "tc_next_top_level_instruction_index tc' = Suc i"
    using push_ok [OF push] tc by simp_all
qed

lemma precompile_between:
  assumes "between env message accounts stack_capacity trace_capacity i (inv_transaction_context c)"
    and "i < length (msg_instructions message)" "process_precompile env program_id data datas c = (Inr (), c')"
  shows "between env message accounts stack_capacity trace_capacity (Suc i) (inv_transaction_context c')"
proof -
  obtain tc where push: "invoke_push env (inv_transaction_context c) = (Inr (), tc)"
    and pop: "popped (run_precompile env program_id data datas) (c\<lparr>inv_transaction_context := tc\<rparr>) = (Inr (), c')"
    using assms(3) by (auto simp: process_precompile_def split: prod.splits sum.splits)
  note enter = between_enter [OF assms(1,2) push]
  show ?thesis
    using popped_running [OF _ pop] enter by (simp add: between_def)
qed

lemma instruction_between:
  assumes "between env message accounts stack_capacity trace_capacity i (inv_transaction_context c)"
    and "i < length (msg_instructions message)" "stack_capacity \<le> fuel" "programs_lawful env"
    and sane: "sanitized message" "trace_capacity < 2 ^ 16" and few: "length accounts \<le> 256"
  obtains r c' consumed where "process_instruction env (native_invoke_signed fuel env) c = Some (r, c', consumed)"
    "r = Inr () \<Longrightarrow> between env message accounts stack_capacity trace_capacity (Suc i) (inv_transaction_context c')"
proof -
  note enter = between_enter [OF assms(1,2)]
  have "running env message accounts stack_capacity trace_capacity tc \<and> stack_capacity < fuel + length (tc_instruction_stack tc)"
    if "invoke_push env (inv_transaction_context c) = (Inr (), tc)" for tc
    using enter [OF that] assms(3) by simp
  then obtain r c' consumed where process: "process_instruction env (native_invoke_signed fuel env) c = Some (r, c', consumed)"
    and ok: "r = Inr () \<Longrightarrow> \<exists>tc. invoke_push env (inv_transaction_context c) = (Inr (), tc) \<and>
       running env message accounts stack_capacity trace_capacity (inv_transaction_context c') \<and>
       extends tc (inv_transaction_context c') \<and>
       tc_instruction_stack (inv_transaction_context c') = butlast (tc_instruction_stack tc) \<and>
       tc_next_top_level_instruction_index (inv_transaction_context c') = tc_next_top_level_instruction_index tc \<and>
       ta_lamports_delta (tc_accounts (inv_transaction_context c')) = 0"
    using process_instruction_returns [OF native_invoke_returns [OF assms(4) sane few] assms(4) sane, of c] by blast
  show thesis
    by (rule that [OF process]) (use ok enter in \<open>fastforce simp: between_def\<close>)
qed

lemma process_instructions_between:
  assumes "between env message accounts stack_capacity trace_capacity i (inv_transaction_context c)"
    and "i + length instructions = length (msg_instructions message)" "set instructions \<subseteq> set (msg_instructions message)"
    and fuel: "stack_capacity \<le> fuel" "programs_lawful env"
    and sane: "sanitized message" "trace_capacity < 2 ^ 16" "length accounts \<le> 256"
  shows "\<exists>r c' consumed. process_instructions fuel env message i instructions c accumulated = Some (r, c', consumed) \<and>
    (r = Inr () \<longrightarrow> between env message accounts stack_capacity trace_capacity (length (msg_instructions message))
      (inv_transaction_context c'))"
  using assms(1-3)
proof (induction instructions arbitrary: i c accumulated)
  case (Cons ins instructions)
  let ?keys = "msg_account_keys message"
  have i: "i < length (msg_instructions message)" and key: "slice_get ?keys (unat (ci_program_id_index ins)) =
      Some (?keys ! unat (ci_program_id_index ins))"
    using Cons.prems(2,3) sane(1) by (auto simp: sanitized_def slice_get_def)
  let ?run = "if is_precompile env (?keys ! unat (ci_program_id_index ins))
      then (case process_precompile env (?keys ! unat (ci_program_id_index ins)) (ci_data ins)
              (map ci_data (msg_instructions message)) c of (result, c) \<Rightarrow> Some (result, c, 0))
      else process_instruction env (native_invoke_signed fuel env) c"
  obtain r c1 consumed where run: "?run = Some (r, c1, consumed)"
    and ok: "r = Inr () \<Longrightarrow> between env message accounts stack_capacity trace_capacity (Suc i) (inv_transaction_context c1)"
  proof (cases "is_precompile env (?keys ! unat (ci_program_id_index ins))")
    case True
    obtain r c1 where r: "process_precompile env (?keys ! unat (ci_program_id_index ins)) (ci_data ins)
        (map ci_data (msg_instructions message)) c = (r, c1)"
      by (cases "process_precompile env (?keys ! unat (ci_program_id_index ins)) (ci_data ins)
        (map ci_data (msg_instructions message)) c")
    show ?thesis
      by (rule that [of r c1 0]) (use True r precompile_between [OF Cons.prems(1) i] in auto)
  next
    case False
    then show ?thesis
      using that by (auto intro: instruction_between [OF Cons.prems(1) i fuel sane])
  qed
  show ?case
  proof (cases r)
    case (Inl e)
    then show ?thesis
      using key run by simp
  next
    case (Inr u)
    then show ?thesis
      using key run Cons.IH [of "Suc i" c1 "saturating_add accumulated consumed"] ok Cons.prems(2,3) by simp
  qed
qed simp

lemma process_message_between:
  assumes "inv_transaction_context c =
      transaction_context_new accounts stack_capacity trace_capacity (length (msg_instructions message))"
    and fuel: "stack_capacity \<le> fuel" "programs_lawful env"
    and sane: "sanitized message" "trace_capacity < 2 ^ 16" "length accounts \<le> 256"
  shows "\<exists>r c' consumed. process_message fuel env message c accumulated = Some (r, c', consumed) \<and>
    (r = Inr () \<longrightarrow> between env message accounts stack_capacity trace_capacity (length (msg_instructions message))
      (inv_transaction_context c'))"
proof -
  have "prepare_top_level_instructions message 0 (msg_instructions message) (inv_transaction_context c) \<noteq> None"
    using sane(1) by (intro prepare_top_level_total) (auto simp: sanitized_def)
  then obtain p where p: "prepare_top_level_instructions message 0 (msg_instructions message) (inv_transaction_context c) = Some p"
    by blast
  show ?thesis
  proof (cases p)
    case (Inl e)
    then show ?thesis
      using p by (simp add: process_message_def)
  next
    case (Inr tc)
    then have prep: "prepare_top_level_instructions message 0 (msg_instructions message)
        (transaction_context_new accounts stack_capacity trace_capacity (length (msg_instructions message))) = Some (Inr tc)"
      using p assms(1) by simp
    have "between env message accounts stack_capacity trace_capacity 0 tc"
      using running.prepared [OF prep] prepared_run_inv(2,3) [OF prep sane(1)]
      by (simp add: between_def preparing_def) (simp add: transaction_accounts_new_def)
    then show ?thesis
      using process_instructions_between [of env message accounts stack_capacity trace_capacity 0
          "c\<lparr>inv_transaction_context := tc\<rparr>" "msg_instructions message" fuel accumulated] fuel sane p Inr
      by (simp add: process_message_def)
  qed
qed

end
