(* ===== verification/Message_Safety.thy ===== *)
theory Message_Safety
  imports Message_Run System_Safety
begin

section \<open>What a message does\<close>

text \<open>
  The outcome of a message: there is one, more fuel does not change it, and after success the lamports
  and the read-only accounts are those before. The system program is one of the programs that a
  transaction can run, and the example is a message with a transfer.
\<close>

subsection \<open>Fuel\<close>

definition refined_by ::
  "(instruction \<Rightarrow> u8 list list list \<Rightarrow> invoke_context \<Rightarrow> outcome) \<Rightarrow>
   (instruction \<Rightarrow> u8 list list list \<Rightarrow> invoke_context \<Rightarrow> outcome) \<Rightarrow> bool" where
  "refined_by invoke invoke' \<longleftrightarrow> (\<forall>ins seeds c x. invoke ins seeds c = Some x \<longrightarrow> invoke' ins seeds c = Some x)"

lemma run_program_refined:
  assumes "refined_by invoke invoke'" "run_program invoke program c = Some x"
  shows "run_program invoke' program c = Some x"
  using assms(2)
proof (induction program arbitrary: c)
  case (Call ins seeds rest)
  obtain r c1 where one: "invoke ins seeds c = Some (r, c1)"
    using Call.prems by (auto split: option.splits)
  then have two: "invoke' ins seeds c = Some (r, c1)"
    using assms(1) by (simp add: refined_by_def)
  show ?case
    using Call.prems Call.IH [OF rangeI] by (cases r) (auto simp: one two)
qed simp_all

lemma executable_chain_refined:
  assumes "refined_by invoke invoke'" "process_executable_chain env invoke c = Some x"
  shows "process_executable_chain env invoke' c = Some x"
proof (cases "and_then (get_current_instruction_context (inv_transaction_context c)) (\<lambda>ic.
      and_then (find_builtin env ic (tc_accounts (inv_transaction_context c))) (\<lambda>builtin_id.
      and_then (ok_or UnsupportedProgramId (program_cache env builtin_id)) (\<lambda>entry.
      and_then (get_program_key ic (tc_accounts (inv_transaction_context c))) (\<lambda>program_id.
      Inr (builtin_id, program_id, entry ic)))))")
  case (Inl e)
  then show ?thesis
    using assms(2) by (simp add: process_executable_chain_def)
next
  case (Inr found)
  obtain builtin_id program_id entry where found: "found = (builtin_id, program_id, entry)"
    by (cases found) auto
  let ?run = "\<lambda>invoke. run_program invoke (entry (tc_accounts (inv_transaction_context c), inv_compute_meter c))
    (c\<lparr>inv_transaction_context := set_return_data program_id [] (inv_transaction_context c)\<rparr>)"
  obtain y where "?run invoke = Some y"
    using assms(2) by (auto simp: process_executable_chain_def Inr found Let_def)
  then have "?run invoke' = ?run invoke"
    using run_program_refined [OF assms(1)] by simp
  then show ?thesis
    using assms(2) by (simp add: process_executable_chain_def Inr found Let_def)
qed

lemma process_instruction_refined:
  assumes "refined_by invoke invoke'" "process_instruction env invoke c = Some x"
  shows "process_instruction env invoke' c = Some x"
proof -
  obtain r tc where push: "invoke_push env (inv_transaction_context c) = (r, tc)"
    by (cases "invoke_push env (inv_transaction_context c)")
  show ?thesis
  proof (cases r)
    case (Inr u)
    obtain y where "process_executable_chain env invoke (c\<lparr>inv_transaction_context := tc\<rparr>) = Some y"
      using assms(2) by (auto simp: process_instruction_def push Inr)
    then have "process_executable_chain env invoke' (c\<lparr>inv_transaction_context := tc\<rparr>) =
        process_executable_chain env invoke (c\<lparr>inv_transaction_context := tc\<rparr>)"
      using executable_chain_refined [OF assms(1)] by simp
    then show ?thesis
      using assms(2) by (simp add: process_instruction_def push Inr)
  qed (use assms(2) in \<open>simp add: process_instruction_def push\<close>)
qed

lemma invoke_step_refined:
  assumes "refined_by invoke invoke'"
  shows "refined_by (invoke_step env invoke) (invoke_step env invoke')"
  unfolding refined_by_def
proof (intro allI impI)
  fix ins seeds c x
  assume run: "invoke_step env invoke ins seeds c = Some x"
  show "invoke_step env invoke' ins seeds c = Some x"
  proof (cases "and_then (current_program (inv_transaction_context c)) (\<lambda>caller. derive_signers env caller seeds)")
    case (Inr signers)
    then show ?thesis
      using run process_instruction_refined [OF assms]
      by (cases "prepare_next_cpi_instruction ins signers (inv_transaction_context c)")
        (auto simp: invoke_step_def split: sum.splits)
  qed (use run in \<open>simp add: invoke_step_def\<close>)
qed

lemma native_invoke_step: "native_invoke_signed (Suc fuel) env = invoke_step env (native_invoke_signed fuel env)"
  by (intro ext) simp

lemma native_invoke_refined: "refined_by (native_invoke_signed fuel env) (native_invoke_signed (Suc fuel) env)"
proof (induction fuel)
  case 0
  show ?case
    by (simp add: refined_by_def)
next
  case (Suc fuel)
  then show ?case
    unfolding native_invoke_step by (rule invoke_step_refined)
qed

lemma native_invoke_more_fuel:
  assumes "fuel \<le> fuel'"
  shows "refined_by (native_invoke_signed fuel env) (native_invoke_signed fuel' env)"
  using assms
proof (induction rule: dec_induct)
  case base
  show ?case
    by (simp add: refined_by_def)
next
  case (step n)
  then show ?case
    using native_invoke_refined [of n env] by (simp add: refined_by_def)
qed

lemma process_instructions_more_fuel:
  assumes "fuel \<le> fuel'" "process_instructions fuel env message i instructions c accumulated = Some x"
  shows "process_instructions fuel' env message i instructions c accumulated = Some x"
  using assms(2)
proof (induction instructions arbitrary: i c accumulated)
  case (Cons ins instructions)
  obtain program_id where key: "slice_get (msg_account_keys message) (unat (ci_program_id_index ins)) = Some program_id"
    using Cons.prems by (auto simp: bind_eq_Some_conv)
  let ?run = "\<lambda>fuel. if is_precompile env program_id
      then (case process_precompile env program_id (ci_data ins) (map ci_data (msg_instructions message)) c of
              (result, c) \<Rightarrow> Some (result, c, 0))
      else process_instruction env (native_invoke_signed fuel env) c"
  obtain r c1 consumed where one: "?run fuel = Some (r, c1, consumed)"
    using Cons.prems key by (auto split: option.splits)
  then have "?run fuel' = Some (r, c1, consumed)"
    using process_instruction_refined [OF native_invoke_more_fuel [OF assms(1)]] by (auto split: if_splits)
  then show ?case
    using Cons.prems key one Cons.IH by (cases r) simp_all
qed simp

lemma process_message_more_fuel:
  assumes "fuel \<le> fuel'" "process_message fuel env message c accumulated = Some x"
  shows "process_message fuel' env message c accumulated = Some x"
  using assms(2) process_instructions_more_fuel [OF assms(1)]
  by (auto simp: process_message_def split: option.splits sum.splits)

subsection \<open>The system program\<close>

text \<open>The format of its instructions belongs to a crate outside the repository and is the argument \<open>decode\<close>.\<close>

definition default_compute_units :: u64 where
  "default_compute_units = 150"

definition system_entrypoint ::
  "(u8 list \<Rightarrow> system_instruction result) \<Rightarrow> system_env \<Rightarrow> instruction_context \<Rightarrow> transaction_accounts \<times> u64 \<Rightarrow> program" where
  "system_entrypoint decode env =
     declare_process_instruction default_compute_units (\<lambda>ic ta.
       and_then (decode (ic_instruction_data ic)) (\<lambda>instruction. system_process_instruction env ic instruction ta))"

lemma declared_program_lawful:
  assumes "\<And>ta'. inner ic ta = Inr ta' \<Longrightarrow> R ta ta'" "R ta ta"
  shows "lawful R (declare_process_instruction units inner ic (ta, meter)) ta"
  using assms by (auto simp: declare_process_instruction_def split: sum.splits)

lemma system_program_lawful:
  assumes "ta_wf ta"
  shows "lawful (confined (ic_program_account_index_in_tx ic) (ic_instruction_accounts ic))
    (system_entrypoint decode env ic (ta, units)) ta"
  unfolding system_entrypoint_def
proof (rule declared_program_lawful)
  show "confined (ic_program_account_index_in_tx ic) (ic_instruction_accounts ic) ta ta"
    using assms by (rule confined_counters) simp_all
  show "confined (ic_program_account_index_in_tx ic) (ic_instruction_accounts ic) ta ta'"
    if "and_then (decode (ic_instruction_data ic)) (\<lambda>instruction. system_process_instruction env ic instruction ta) = Inr ta'"
    for ta'
    using that confined.system_process_keeps [of _ _ ic ta env _ ta'] assms
    by (auto simp: and_then_Inr confined.of_program_def)
qed

text \<open>The example message transfers 30 lamports; its data is the number of lamports.\<close>

definition example_decode :: "u8 list \<Rightarrow> system_instruction result" where
  "example_decode data = (case data of [] \<Rightarrow> Inl InvalidInstructionData | b # _ \<Rightarrow> Inr (Transfer (ucast b)))"

definition example_builtins :: runtime_env where
  "example_builtins = example_runtime [0 \<mapsto> system_entrypoint example_decode example_env]"

definition example_start :: invoke_context where
  "example_start = \<lparr>inv_transaction_context = example_context, inv_compute_meter = 1000\<rparr>"

lemma example_builtins_lawful: "programs_lawful example_builtins"
  using system_program_lawful by (auto simp: programs_lawful_def example_builtins_def example_runtime_def split: if_splits)

lemma example_start_simps:
  "inv_transaction_context example_start =
     transaction_context_new example_loaded 5 64 (length (msg_instructions example_message))"
  by (simp add: example_start_def example_context_def example_message_def)

lemma example_transfer_top:
  assumes "ic_instruction_accounts ic = example_top_accounts" "ic_program_account_index_in_tx ic = 3"
  shows "system_process_instruction example_env ic (Transfer 30) example_accounts = Inr example_transferred"
proof -
  have "get_signers ic example_accounts = Inr {11}"
    by (simp add: assms example_top_accounts_def example_run_simps)
  then show ?thesis
    by (simp add: system_process_instruction_def transfer_def transfer_verified_def assms example_top_accounts_def
        example_run_simps example_transferred_def)
qed

lemma example_processed:
  obtains c where "process_instruction example_builtins invoke (example_start\<lparr>inv_transaction_context := example_prepared\<rparr>) =
      Some (Inr (), c, 150)"
    "tc_accounts (inv_transaction_context c) = example_transferred"
proof -
  let ?env = example_builtins
  obtain ic where ic: "get_current_instruction_context example_entered = Inr ic" "ic_instruction_data ic = [30]"
    "ic_instruction_accounts ic = example_top_accounts" "ic_program_account_index_in_tx ic = 3"
    by (simp add: get_current_instruction_context_def get_current_instruction_index_def slice_get_def result_ops
      get_instruction_context_at_index_in_trace_def example_entered_simps example_frame_simps get_or_default_def)
  let ?tc = "set_return_data 0 [] example_entered"
  let ?c = "example_start\<lparr>inv_transaction_context := ?tc\<lparr>tc_accounts := example_transferred\<rparr>, inv_compute_meter := 850\<rparr>"
  have builtin: "find_builtin ?env ic example_accounts = Inr 0" "get_program_key ic example_accounts = Inr 0"
    by (simp_all add: find_builtin_def get_program_owner_def get_index_of_program_account_in_transaction_def ic
        try_borrow_def borrow_counter_defs example_accounts_simps result_ops example_builtins_def example_runtime_def
        get_program_key_def get_key_of_account_at_index_def account_key_def slice_get_def)
  have "run_program invoke (system_entrypoint example_decode example_env ic (example_accounts, 1000))
      (example_start\<lparr>inv_transaction_context := ?tc\<rparr>) = Some (Inr (), ?c)"
    using example_transfer_top [OF ic(3,4)]
    by (simp add: system_entrypoint_def declare_process_instruction_def default_compute_units_def consume_checked_def
        example_decode_def ic result_ops example_start_def saturating_sub_def)
  then have chain: "process_executable_chain ?env invoke (example_start\<lparr>inv_transaction_context := example_entered\<rparr>) =
      Some (Inr (), ?c, 150)"
    using ic(1) builtin
    by (simp add: process_executable_chain_def example_entered_simps result_ops example_start_def saturating_sub_def)
      (simp add: example_builtins_def example_runtime_def Let_def saturating_sub_def)
  have cur: "get_current_instruction_context (?tc\<lparr>tc_accounts := example_transferred\<rparr>) = Inr ic"
    using ic(1)
    by (simp add: get_current_instruction_context_def get_current_instruction_index_def set_return_data_def
        get_instruction_context_at_index_in_trace_def example_entered_simps result_ops)
  have "ta_lamports_delta example_transferred = 0" "\<exists>ta. try_borrow_mut 3 example_transferred = Inr ta"
    by (simp_all add: try_borrow_mut_def borrow_counter_defs example_transferred_def example_accounts_simps result_ops slice_get_def)
  then have "detect_unbalanced_instruction (?tc\<lparr>tc_accounts := example_transferred\<rparr>) = Inr False"
    using cur
    by (auto simp: detect_unbalanced_instruction_def get_index_of_program_account_in_transaction_def ic result_ops)
  then obtain tc where pop: "pop_instruction (?tc\<lparr>tc_accounts := example_transferred\<rparr>) = (Inr (), tc)"
    by (simp add: pop_instruction_def return_data_same example_entered_simps Let_def result_ops)
  then have "tc_accounts tc = example_transferred"
    using pop_state(7) by fastforce
  then show thesis
    using that [of "?c\<lparr>inv_transaction_context := tc\<rparr>"] chain pop example_push
    by (simp add: process_instruction_def popped_def example_builtins_def result_ops)
qed

lemma example_message_run:
  obtains c where "process_message 5 example_builtins example_message example_start 0 = Some (Inr (), c, 150)"
    "tc_accounts (inv_transaction_context c) = example_transferred"
proof -
  obtain c where run: "process_instruction example_builtins (native_invoke_signed 5 example_builtins)
      (example_start\<lparr>inv_transaction_context := example_prepared\<rparr>) = Some (Inr (), c, 150)"
    and c: "tc_accounts (inv_transaction_context c) = example_transferred"
    by (rule example_processed)
  have "is_precompile example_builtins = (\<lambda>_. False)"
    by (simp add: example_builtins_def example_runtime_def)
  moreover obtain ins where "msg_instructions example_message = [ins]" "slice_get (msg_account_keys example_message)
      (unat (ci_program_id_index ins)) = Some 0"
    by (simp add: example_message_def slice_get_def)
  ultimately have "process_message 5 example_builtins example_message example_start 0 = Some (Inr (), c, 150)"
    using run example_top_level by (simp add: process_message_def example_start_def saturating_add_def)
  then show thesis
    using that c by blast
qed

text \<open>The accounts after a message that succeeded.\<close>

lemma message_final:
  assumes "inv_transaction_context c =
      transaction_context_new accounts stack_capacity trace_capacity (length (msg_instructions message))"
    and "programs_lawful env" "sanitized message" "trace_capacity < 2 ^ 16" "length accounts \<le> 256"
    and "process_message fuel env message c accumulated = Some (Inr (), c', consumed)"
  shows "running env message accounts stack_capacity trace_capacity (inv_transaction_context c')"
    "total_lamports (tc_accounts (inv_transaction_context c')) = total_lamports (transaction_accounts_new accounts)"
    "map sf_key (ta_shared (tc_accounts (inv_transaction_context c'))) = map fst accounts"
    "ta_wf (tc_accounts (inv_transaction_context c'))"
proof -
  let ?tc = "inv_transaction_context c'"
  have "process_message (max fuel stack_capacity) env message c accumulated = Some (Inr (), c', consumed)"
    by (rule process_message_more_fuel [OF _ assms(6)]) simp
  then have final: "between env message accounts stack_capacity trace_capacity (length (msg_instructions message)) ?tc"
    using process_message_between [OF assms(1) max.cobounded2 assms(2-5), of fuel accumulated] by auto
  then show run: "running env message accounts stack_capacity trace_capacity ?tc"
    by (simp add: between_def)
  show "total_lamports (tc_accounts ?tc) = total_lamports (transaction_accounts_new accounts)"
    "map sf_key (ta_shared (tc_accounts ?tc)) = map fst accounts" "ta_wf (tc_accounts ?tc)"
    using running_inv [OF run assms(3,4)] final
    by (simp_all add: run_inv_def accounts_inv_def initial_lamports_def account_keys_def between_def)
qed

subsection \<open>Properties of a message\<close>

text \<open>
  C7. Every message is processed to the end without a panic, whatever the programs do within the
  rules and however they call each other: fuel for as many nested calls as the stack has room for
  gives a result, and more fuel gives the same result.
\<close>

theorem message_terminates:
  assumes "inv_transaction_context c =
      transaction_context_new accounts stack_capacity trace_capacity (length (msg_instructions message))"
    and "programs_lawful env" and "sanitized message" and "trace_capacity < 2 ^ 16" and "length accounts \<le> 256"
    and "stack_capacity \<le> fuel"
  shows "\<exists>outcome. process_message stack_capacity env message c accumulated = Some outcome \<and>
    process_message fuel env message c accumulated = Some outcome"
  using process_message_between [OF assms(1) le_refl assms(2-5), of accumulated] process_message_more_fuel [OF assms(6)]
  by blast

theorem message_terminates_witness:
  "\<exists>outcome. process_message 5 example_builtins example_message example_start 0 = Some outcome \<and>
     process_message 9 example_builtins example_message example_start 0 = Some outcome"
  by (rule message_terminates [OF example_start_simps example_builtins_lawful example_sanitized])
    (simp_all add: example_loaded_def)

text \<open>
  C2. A message that succeeds neither creates nor destroys lamports, whatever its programs call: all
  accounts together hold what they held when they were loaded, under the same addresses, and an
  account that the message does not mark writable is unchanged, unless it is the instructions
  sysvar, which the runtime itself writes.
\<close>

theorem message_confined:
  assumes "inv_transaction_context c =
      transaction_context_new accounts stack_capacity trace_capacity (length (msg_instructions message))"
    and "programs_lawful env" and "sanitized message" and "trace_capacity < 2 ^ 16" and "length accounts \<le> 256"
    and "process_message fuel env message c accumulated = Some (Inr (), c', consumed)"
  shows "total_lamports (tc_accounts (inv_transaction_context c')) = total_lamports (transaction_accounts_new accounts) \<and>
    map sf_key (ta_shared (tc_accounts (inv_transaction_context c'))) = map fst accounts \<and>
    (\<forall>i < length accounts. \<not> msg_is_writable message i \<and> fst (accounts ! i) \<noteq> instructions_id (instructions_sysvar_of env) \<longrightarrow>
      shared_at (tc_accounts (inv_transaction_context c')) i = shared_at (transaction_accounts_new accounts) i \<and>
      private_at (tc_accounts (inv_transaction_context c')) i = private_at (transaction_accounts_new accounts) i)"
  using message_final [OF assms] running_untouched [OF message_final(1) [OF assms] assms(3-5)]
  by (simp add: untouched_def)

theorem message_confined_witness:
  "\<exists>c. process_message 5 example_builtins example_message example_start 0 = Some (Inr (), c, 150) \<and>
     sf_lamports (shared_at (tc_accounts (inv_transaction_context c)) 0) = 70 \<and>
     total_lamports (tc_accounts (inv_transaction_context c)) = total_lamports (transaction_accounts_new example_loaded)"
proof -
  obtain c where run: "process_message 5 example_builtins example_message example_start 0 = Some (Inr (), c, 150)"
    and c: "tc_accounts (inv_transaction_context c) = example_transferred"
    by (rule example_message_run)
  have "sf_lamports (shared_at example_transferred 0) = 70"
    by (simp add: example_transferred_def example_accounts_simps)
  then show ?thesis
    using message_confined [OF example_start_simps example_builtins_lawful example_sanitized _ _ run] run c
    by (auto simp: example_loaded_def)
qed

end
