(* ===== verification/Loader_View.thy ===== *)
theory Loader_View
  imports Batch_Processor Message_Safety
begin

section \<open>The accounts that a batch sees\<close>

text \<open>
  What the loader shows of an account, the live accounts: loading an account never changes it, and an
  update changes it for the updated accounts only. The fee payer is charged its fee, and the
  accounts of a loaded transaction are the live ones.
\<close>

subsection \<open>Live accounts\<close>

definition alive :: "account_shared_data \<Rightarrow> account_shared_data option" where
  "alive account = (if acc_lamports account = 0 then None else Some account)"

definition live :: "svm_env \<Rightarrow> account_loader \<Rightarrow> pubkey \<Rightarrow> account_shared_data option" where
  "live env al key = Option.bind (fst (do_load env key al)) (\<lambda>(account, _). alive account)"

definition lamports_of :: "account_shared_data option \<Rightarrow> int" where
  "lamports_of account = (case account of None \<Rightarrow> 0 | Some account \<Rightarrow> uint (acc_lamports account))"

abbreviation balance :: "svm_env \<Rightarrow> account_loader \<Rightarrow> pubkey \<Rightarrow> int" where
  "balance env al key \<equiv> lamports_of (live env al key)"

fun store_account :: "keyed_account \<Rightarrow> (pubkey \<Rightarrow> account_shared_data option) \<Rightarrow> pubkey \<Rightarrow> account_shared_data option" where
  "store_account (key, account) view = view(key := alive account)"

definition store_accounts ::
  "keyed_account list \<Rightarrow> (pubkey \<Rightarrow> account_shared_data option) \<Rightarrow> pubkey \<Rightarrow> account_shared_data option" where
  "store_accounts accounts = fold store_account accounts"

lemma lamports_of_simps [simp]:
  "lamports_of None = 0" "lamports_of (Some account) = uint (acc_lamports account)"
  "lamports_of (alive account) = uint (acc_lamports account)"
  by (simp_all add: lamports_of_def alive_def)

lemma store_accounts_simps [simp]:
  "store_accounts [] view = view" "store_accounts (x # xs) view = store_accounts xs (store_account x view)"
  "store_accounts (xs @ ys) view = store_accounts ys (store_accounts xs view)"
  by (simp_all add: store_accounts_def)

lemma live_update [simp]: "live env (al(key \<mapsto> (account, slot))) = (live env al)(key := alive account)"
  by (auto simp: fun_eq_iff live_def do_load_def alive_def split: option.splits)

lemma load_account_live:
  assumes "load_account env key al = (account, al')"
  shows "live env al' = live env al" "live env al key = Option.bind account alive"
proof -
  have "live env al' = live env al \<and> live env al key = Option.bind account alive"
  proof (cases "al key")
    case None
    then have "live env al key = Option.bind (get_account_shared_data env key) (\<lambda>(account, _). alive account)"
      by (simp add: live_def do_load_def)
    then show ?thesis
      using assms None
      by (cases "get_account_shared_data env key")
        (auto simp: load_account_def do_load_def alive_def account_default_def fun_upd_idem)
  qed (use assms in \<open>auto simp: load_account_def do_load_def live_def alive_def split: if_splits\<close>)
  then show "live env al' = live env al" "live env al key = Option.bind account alive"
    by simp_all
qed

lemma load_account_balance:
  assumes "load_account env key al = (account, al')"
  shows "balance env al key = lamports_of account"
  using load_account_live(2) [OF assms] by (cases account) simp_all

lemma loader_load_live:
  assumes "loader_load_transaction_account env key al = (loaded, al')"
  shows "live env al' = live env al" "live env al key = Option.bind (map_option lta_account loaded) alive"
    "balance env al key = lamports_of (map_option lta_account loaded)"
    "\<And>x. loaded = Some x \<Longrightarrow>
       lta_loaded_size x = usize_saturating_add transaction_account_base_size (length (acc_data (lta_account x)))"
proof -
  obtain account where load: "load_account env key al = (account, al')"
    and loaded: "loaded = map_option (\<lambda>account. \<lparr>lta_account = account,
      lta_loaded_size = usize_saturating_add transaction_account_base_size (length (acc_data account))\<rparr>) account"
    using assms by (auto simp: loader_load_transaction_account_def split: prod.splits)
  have same: "map_option lta_account loaded = account"
    by (cases account) (simp_all add: loaded)
  show "live env al' = live env al" "live env al key = Option.bind (map_option lta_account loaded) alive"
    "balance env al key = lamports_of (map_option lta_account loaded)"
    using load_account_live [OF load] load_account_balance [OF load] same by simp_all
  show "lta_loaded_size x = usize_saturating_add transaction_account_base_size (length (acc_data (lta_account x)))"
    if "loaded = Some x" for x
    using that loaded by (cases account) auto
qed

subsection \<open>The fee payer and the nonce\<close>

lemma update_rent_exempt_same [simp]:
  "acc_lamports (update_rent_exempt_status_for_account rent account) = acc_lamports account"
  "acc_data (update_rent_exempt_status_for_account rent account) = acc_data account"
  "acc_owner (update_rent_exempt_status_for_account rent account) = acc_owner account"
  "acc_executable (update_rent_exempt_status_for_account rent account) = acc_executable account"
  by (simp_all add: update_rent_exempt_status_for_account_def)

lemma update_rent_exempt_epoch:
  "(update_rent_exempt_status_for_account rent account)\<lparr>acc_lamports := l, acc_rent_epoch := acc_rent_epoch account\<rparr> =
   account\<lparr>acc_lamports := l\<rparr>"
  by (simp add: update_rent_exempt_status_for_account_def)

lemma validate_fee_payer_ok:
  assumes "validate_fee_payer env payer index fee = Inr charged"
  shows "uint (acc_lamports charged) + uint fee = uint (acc_lamports payer)" "acc_lamports payer \<noteq> 0"
    "charged = payer\<lparr>acc_lamports := acc_lamports charged\<rparr>"
    "check_static_account_rent_state_transition (acc_lamports payer) (acc_lamports charged) (length (acc_data payer))
       (svm_rent env) index (relax_post_exec_min_balance_check (svm_features_of env)) = Inr ()"
proof -
  obtain post where post: "checked_sub (acc_lamports payer) fee = Some post" "charged = payer\<lparr>acc_lamports := post\<rparr>"
    and pos: "acc_lamports payer \<noteq> 0"
    and rent: "check_static_account_rent_state_transition (acc_lamports payer) post (length (acc_data payer))
       (svm_rent env) index (relax_post_exec_min_balance_check (svm_features_of env)) = Inr ()"
    using assms by (auto simp: validate_fee_payer_def Let_def and_then_Inr ok_or_Inr split: if_splits)
  then have "unat fee \<le> unat (acc_lamports payer)" "unat post = unat (acc_lamports payer) - unat fee"
    by (simp_all add: checked_sub_Some)
  then have "int (unat post) + int (unat fee) = int (unat (acc_lamports payer))"
    by simp
  then show "uint (acc_lamports charged) + uint fee = uint (acc_lamports payer)"
    using post(2) by simp
  show "acc_lamports payer \<noteq> 0" "charged = payer\<lparr>acc_lamports := acc_lamports charged\<rparr>"
    "check_static_account_rent_state_transition (acc_lamports payer) (acc_lamports charged) (length (acc_data payer))
       (svm_rent env) index (relax_post_exec_min_balance_check (svm_features_of env)) = Inr ()"
    using pos post(2) rent by simp_all
qed

text \<open>The nonce account that a failed transaction leaves behind: the live one with its next state.\<close>

definition nonce_ready :: "svm_env \<Rightarrow> account_loader \<Rightarrow> svm_transaction \<Rightarrow> nonce_info \<Rightarrow> bool" where
  "nonce_ready env al tx nonce \<longleftrightarrow>
     (\<exists>account data nonce_data. uint (acc_lamports account) = balance env al (ni_address nonce) \<and>
        ni_account nonce = account\<lparr>acc_data := data\<rparr> \<and>
        verify_nonce_account (svm_nonces_of env) account (tx_recent_blockhash tx) = Some nonce_data \<and>
        nd_durable_nonce nonce_data \<noteq> durable_nonce_of (svm_nonces_of env) (svm_blockhash env) \<and>
        nonce_set_state (svm_nonces_of env) (nonce_current (svm_nonces_of env) (NonceInitialized \<lparr>
           nd_authority = nd_authority nonce_data,
           nd_durable_nonce = durable_nonce_of (svm_nonces_of env) (svm_blockhash env),
           nd_lamports_per_signature = svm_lamports_per_signature env\<rparr>)) (acc_data account) = Some data)"

lemma nonce_ready_view: "live env al' = live env al \<Longrightarrow> nonce_ready env al' = nonce_ready env al"
  by (intro ext) (simp add: nonce_ready_def)

lemma validate_nonce_live:
  assumes "validate_transaction_nonce env strict tx address
      (durable_nonce_of (svm_nonces_of env) (svm_blockhash env)) al = Some (r, al')"
  shows "live env al' = live env al" "\<And>nonce. r = Inr nonce \<Longrightarrow> ni_address nonce = address \<and> nonce_ready env al tx nonce"
proof -
  obtain loaded al1 where load: "loader_load_transaction_account env address al = (loaded, al1)"
    by (cases "loader_load_transaction_account env address al")
  note live = loader_load_live [OF load]
  have "al' = al1 \<and> (\<forall>nonce. r = Inr nonce \<longrightarrow> ni_address nonce = address \<and> nonce_ready env al tx nonce)"
  proof (cases loaded)
    case (Some x)
    then show ?thesis
      using assms load live(3)
      by (fastforce simp: validate_transaction_nonce_def Let_def nonce_ready_def split: if_splits option.splits)
  qed (use assms load in \<open>auto simp: validate_transaction_nonce_def\<close>)
  then show "live env al' = live env al" "\<And>nonce. r = Inr nonce \<Longrightarrow> ni_address nonce = address \<and> nonce_ready env al tx nonce"
    using live(1) by auto
qed

text \<open>
  A transaction that can be loaded: the fee payer is charged, and the rollback accounts are the charged
  fee payer and the advanced nonce.
\<close>

definition charged :: "svm_env \<Rightarrow> account_loader \<Rightarrow> svm_transaction \<Rightarrow> checked_details \<Rightarrow> validated_details \<Rightarrow> bool" where
  "charged env al tx details vd \<longleftrightarrow>
     vd_fee_details vd = cd_fee_details details \<and> vd_compute_budget vd = cd_compute_budget details \<and>
     vd_loaded_accounts_bytes_limit vd = cd_loaded_accounts_data_size_limit details \<and>
     (\<exists>payer account nonce. live env al (tx_fee_payer tx) = Some payer \<and>
        uint (acc_lamports account) + uint (svm_total_fee env (cd_fee_details details)) = uint (acc_lamports payer) \<and>
        account = (update_rent_exempt_status_for_account (svm_rent env) payer)\<lparr>acc_lamports := acc_lamports account\<rparr> \<and>
        check_static_account_rent_state_transition (acc_lamports payer) (acc_lamports account) (length (acc_data payer))
          (svm_rent env) 0 (relax_post_exec_min_balance_check (svm_features_of env)) = Inr () \<and>
        vd_loaded_fee_payer_account vd = \<lparr>lta_account = account,
          lta_loaded_size = usize_saturating_add transaction_account_base_size (length (acc_data payer))\<rparr> \<and>
        vd_rollback_accounts vd = rollback_accounts_new nonce (tx_fee_payer tx) account (acc_rent_epoch payer) \<and>
        map_option ni_address nonce = cd_nonce_address details \<and>
        pred_option (nonce_ready env al tx) nonce)"

lemma charged_view:
  assumes "live env al' = live env al"
  shows "charged env al' = charged env al"
  by (intro ext) (simp only: charged_def assms nonce_ready_view [OF assms])

lemma validate_fee_payer_live:
  assumes "validate_transaction_fee_payer env tx nonce details al = (r, al')"
    and "map_option ni_address nonce = cd_nonce_address details"
    and "pred_option (nonce_ready env al tx) nonce"
  shows "live env al' = live env al" "\<And>vd. r = Inr vd \<Longrightarrow> charged env al tx details vd"
proof -
  obtain loaded al1 where load: "loader_load_transaction_account env (tx_fee_payer tx) al = (loaded, al1)"
    by (cases "loader_load_transaction_account env (tx_fee_payer tx) al")
  note live = loader_load_live [OF load]
  have "al' = al1"
    using assms(1) load by (auto simp: validate_transaction_fee_payer_def split: option.splits)
  then show "live env al' = live env al"
    using live(1) by simp
  show "charged env al tx details vd" if r: "r = Inr vd" for vd
  proof -
    obtain x account where x: "loaded = Some x"
      and fee: "validate_fee_payer env (update_rent_exempt_status_for_account (svm_rent env) (lta_account x)) 0
        (svm_total_fee env (cd_fee_details details)) = Inr account"
      and vd: "vd = \<lparr>vd_rollback_accounts = rollback_accounts_new nonce (tx_fee_payer tx) account
                  (acc_rent_epoch (lta_account x)),
                vd_compute_budget = cd_compute_budget details,
                vd_loaded_accounts_bytes_limit = cd_loaded_accounts_data_size_limit details,
                vd_fee_details = cd_fee_details details,
                vd_loaded_fee_payer_account = x\<lparr>lta_account := account\<rparr>\<rparr>"
      using assms(1) load r by (auto simp: validate_transaction_fee_payer_def and_then_Inr split: option.splits)
    note ok = validate_fee_payer_ok [OF fee]
    have payer: "live env al (tx_fee_payer tx) = Some (lta_account x)"
      using live(2) x ok(2) by (simp add: alive_def)
    show ?thesis
      unfolding charged_def
      using vd payer ok live(4) [OF x] assms(2,3)
      by (intro conjI exI [of _ "lta_account x"] exI [of _ account] exI [of _ nonce]) simp_all
  qed
qed

lemma validate_fee_payer_or_no_op_live:
  assumes "validate_fee_payer_or_no_op env tx nonce details al = (r, al')"
    and "map_option ni_address nonce = cd_nonce_address details"
    and "pred_option (nonce_ready env al tx) nonce"
  shows "live env al' = live env al" "\<And>vd. r = Loadable vd \<Longrightarrow> charged env al tx details vd"
proof -
  obtain v al1 where v: "validate_transaction_fee_payer env tx nonce details al = (v, al1)"
    by (cases "validate_transaction_fee_payer env tx nonce details al")
  note live = validate_fee_payer_live [OF v assms(2,3)]
  obtain account al2 where load: "load_account env (tx_fee_payer tx) al1 = (account, al2)"
    by (cases "load_account env (tx_fee_payer tx) al1")
  show "live env al' = live env al" "\<And>vd. r = Loadable vd \<Longrightarrow> charged env al tx details vd"
    using assms(1) v live load_account_live(1) [OF load] load
    by (auto simp: validate_fee_payer_or_no_op_def split: sum.splits if_splits)
qed

lemma validate_live:
  assumes "validate_transaction_nonce_and_fee_payer env strict tx details al = Some (r, al')"
  shows "live env al' = live env al" "\<And>vd. r = Loadable vd \<Longrightarrow> charged env al tx details vd"
proof -
  have "live env al' = live env al \<and> (\<forall>vd. r = Loadable vd \<longrightarrow> charged env al tx details vd)"
  proof (cases "cd_nonce_address details")
    case None
    then show ?thesis
      using assms validate_fee_payer_or_no_op_live [of env tx None details al r al']
      by (simp add: validate_transaction_nonce_and_fee_payer_def)
  next
    case (Some address)
    then obtain v al1 where v: "validate_transaction_nonce env strict tx address
        (durable_nonce_of (svm_nonces_of env) (svm_blockhash env)) al = Some (v, al1)"
      using assms by (auto simp: validate_transaction_nonce_and_fee_payer_def)
    note live = validate_nonce_live [OF v]
    show ?thesis
    proof (cases v)
      case (Inr nonce)
      have ready: "ni_address nonce = address" "nonce_ready env al1 tx nonce"
        using live Inr nonce_ready_view [OF live(1)] by auto
      have "validate_fee_payer_or_no_op env tx (Some nonce) details al1 = (r, al')"
        using assms Some v Inr by (simp add: validate_transaction_nonce_and_fee_payer_def)
      note fee = validate_fee_payer_or_no_op_live [OF this]
      show ?thesis
        using fee ready Some live(1) charged_view [OF live(1)] by simp
    qed (use assms Some v live in \<open>auto simp: validate_transaction_nonce_and_fee_payer_def\<close>)
  qed
  then show "live env al' = live env al" "\<And>vd. r = Loadable vd \<Longrightarrow> charged env al tx details vd"
    by simp_all
qed

text \<open>Only a transaction without a nonce is processed when its fee payer cannot pay.\<close>

lemma validate_no_op:
  assumes "validate_transaction_nonce_and_fee_payer env strict tx details al = Some (ValidationNoOp no, al')"
  shows "cd_nonce_address details = None"
proof (rule ccontr)
  assume "cd_nonce_address details \<noteq> None"
  then obtain v al1 where "(case v of Inl e \<Rightarrow> (ValidationUnprocessable e, al1)
      | Inr nonce_info \<Rightarrow> validate_fee_payer_or_no_op env tx (Some nonce_info) details al1) = (ValidationNoOp no, al')"
    using assms by (auto simp: validate_transaction_nonce_and_fee_payer_def)
  then show False
    by (auto simp: validate_fee_payer_or_no_op_def split: sum.splits prod.splits)
qed

subsection \<open>Loaded accounts\<close>

lemma increase_size_same:
  assumes "increase_size delta st = (r, st')"
  shows "lo_loader st' = lo_loader st" "lo_accounts st' = lo_accounts st" "lo_additional st' = lo_additional st"
  using assms by (auto simp: increase_size_def split: prod.splits)

lemma count_programdata_live:
  assumes "count_programdata env keys account st = (r, st')"
  shows "live env (lo_loader st') = live env (lo_loader st)" "lo_accounts st' = lo_accounts st"
proof -
  have "live env (lo_loader st') = live env (lo_loader st) \<and> lo_accounts st' = lo_accounts st"
  proof (cases "if acc_owner account = bpf_loader_upgradeable_id (svm_ids env)
      then programdata_address env (acc_data account) else None")
    case None
    then show ?thesis
      using assms by (simp add: count_programdata_def)
  next
    case (Some address)
    obtain a al where load: "load_account env address (lo_loader st) = (a, al)"
      by (cases "load_account env address (lo_loader st)")
    note live = load_account_live(1) [OF load]
    show ?thesis
    proof (cases "address \<in> set keys \<or> address \<in> set (lo_additional st) \<or> a = None")
      case True
      then show ?thesis
        using assms Some load live by (auto simp: count_programdata_def split: if_splits)
    next
      case False
      then obtain x where x: "a = Some x"
        by auto
      let ?size = "usize_saturating_add transaction_account_base_size (length (acc_data x))"
      obtain r1 st1 where inc: "increase_size ?size (st\<lparr>lo_loader := al\<rparr>) = (r1, st1)"
        by (cases "increase_size ?size (st\<lparr>lo_loader := al\<rparr>)")
      show ?thesis
        using assms Some load False x inc increase_size_same [OF inc] live
        by (cases r1) (auto simp: count_programdata_def)
    qed
  qed
  then show "live env (lo_loader st') = live env (lo_loader st)" "lo_accounts st' = lo_accounts st"
    by simp_all
qed

lemma collect_loaded_live:
  assumes "collect_loaded_account env keys key loaded st = (r, st')"
  shows "live env (lo_loader st') = live env (lo_loader st)"
    "r = Inr () \<Longrightarrow> lo_accounts st' = lo_accounts st @ [(key, lta_account loaded)]"
proof -
  obtain r1 st1 where inc: "increase_size (lta_loaded_size loaded) st = (r1, st1)"
    by (cases "increase_size (lta_loaded_size loaded) st")
  obtain r2 st2 where count: "count_programdata env keys (lta_account loaded) st1 = (r2, st2)"
    by (cases "count_programdata env keys (lta_account loaded) st1")
  show "live env (lo_loader st') = live env (lo_loader st)"
    "r = Inr () \<Longrightarrow> lo_accounts st' = lo_accounts st @ [(key, lta_account loaded)]"
    using assms inc count increase_size_same [OF inc] count_programdata_live [OF count]
    by (cases r1; cases r2; auto simp: collect_loaded_account_def)+
qed

text \<open>The account of a transaction that is loaded for an address: the instructions sysvar is constructed.\<close>

definition loaded_for :: "svm_env \<Rightarrow> account_loader \<Rightarrow> pubkey \<Rightarrow> account_shared_data \<Rightarrow> bool" where
  "loaded_for env al key account \<longleftrightarrow>
     uint (acc_lamports account) = (if key = instructions_id (svm_sysvar env) then 0 else balance env al key)"

lemma load_transaction_account_live:
  assumes "load_transaction_account env tx key index al = Some (r, al')"
  shows "live env al' = live env al" "\<And>loaded. r = Inr loaded \<Longrightarrow> loaded_for env al key (lta_account loaded)"
proof -
  obtain l al1 where load: "loader_load_transaction_account env key al = (l, al1)"
    by (cases "loader_load_transaction_account env key al")
  note live = loader_load_live [OF load]
  have "live env al' = live env al \<and> (\<forall>loaded. r = Inr loaded \<longrightarrow> loaded_for env al key (lta_account loaded))"
  proof (cases "key = instructions_id (svm_sysvar env)")
    case True
    then show ?thesis
      using assms
      by (auto simp: load_transaction_account_def construct_instructions_account_def and_then_Inr loaded_for_def account_default_def)
  next
    case False
    then show ?thesis
      using assms load live(1,3)
      by (cases l) (auto simp: load_transaction_account_def loaded_for_def account_default_def)
  qed
  then show "live env al' = live env al" "\<And>loaded. r = Inr loaded \<Longrightarrow> loaded_for env al key (lta_account loaded)"
    by simp_all
qed

lemma loaded_for_view: "live env al' = live env al \<Longrightarrow> loaded_for env al' = loaded_for env al"
  by (intro ext) (simp add: loaded_for_def)

lemma load_remaining_live:
  assumes "load_remaining_accounts env tx index keys st = Some (r, st')"
  shows "live env (lo_loader st') = live env (lo_loader st)"
    "r = Inr () \<Longrightarrow> \<exists>loaded. lo_accounts st' = lo_accounts st @ loaded \<and> map fst loaded = keys \<and>
       list_all (\<lambda>(key, account). loaded_for env (lo_loader st) key account) loaded"
proof -
  have "live env (lo_loader st') = live env (lo_loader st) \<and>
    (r = Inr () \<longrightarrow> (\<exists>loaded. lo_accounts st' = lo_accounts st @ loaded \<and> map fst loaded = keys \<and>
       list_all (\<lambda>(key, account). loaded_for env (lo_loader st) key account) loaded))"
    using assms
  proof (induction keys arbitrary: index st)
    case (Cons key keys)
    obtain l al where load: "load_transaction_account env tx key index (lo_loader st) = Some (l, al)"
      using Cons.prems by (auto split: option.splits)
    note live = load_transaction_account_live [OF load]
    show ?case
    proof (cases l)
      case (Inr x)
      obtain c st1 where collect: "collect_loaded_account env (tx_account_keys tx) key x (st\<lparr>lo_loader := al\<rparr>) = (c, st1)"
        by (cases "collect_loaded_account env (tx_account_keys tx) key x (st\<lparr>lo_loader := al\<rparr>)")
      note st1 = collect_loaded_live [OF collect]
      have same: "live env (lo_loader st1) = live env (lo_loader st)"
        using st1(1) live(1) by simp
      show ?thesis
      proof (cases c)
        case (Inr u)
        have "load_remaining_accounts env tx (Suc index) keys st1 = Some (r, st')"
          using Cons.prems load collect \<open>l = Inr x\<close> Inr by simp
        note ih = Cons.IH [OF this]
        have "\<exists>loaded. lo_accounts st' = lo_accounts st @ loaded \<and> map fst loaded = key # keys \<and>
            list_all (\<lambda>(key, account). loaded_for env (lo_loader st) key account) loaded" if ok: "r = Inr ()"
        proof -
          obtain loaded where "lo_accounts st' = lo_accounts st1 @ loaded" "map fst loaded = keys"
            "list_all (\<lambda>(key, account). loaded_for env (lo_loader st1) key account) loaded"
            using ih ok by blast
          then show ?thesis
            using st1(2) Inr live(2) \<open>l = Inr x\<close> loaded_for_view [OF same]
            by (intro exI [of _ "(key, lta_account x) # loaded"]) simp
        qed
        then show ?thesis
          using ih same by simp
      qed (use Cons.prems load collect \<open>l = Inr x\<close> same in auto)
    qed (use Cons.prems load live(1) in auto)
  qed simp
  then show "live env (lo_loader st') = live env (lo_loader st)"
    "r = Inr () \<Longrightarrow> \<exists>loaded. lo_accounts st' = lo_accounts st @ loaded \<and> map fst loaded = keys \<and>
       list_all (\<lambda>(key, account). loaded_for env (lo_loader st) key account) loaded"
    by simp_all
qed

lemma check_program_owners_live:
  "check_program_owners env tx instructions al = Some (r, al') \<Longrightarrow> live env al' = live env al"
proof (induction instructions arbitrary: al)
  case (Cons ins instructions)
  obtain program_id where key: "slice_get (tx_account_keys tx) (unat (ci_program_id_index ins)) = Some program_id"
    using Cons.prems by (auto simp: bind_eq_Some_conv)
  obtain account al1 where load: "load_account env program_id al = (account, al1)"
    by (cases "load_account env program_id al")
  show ?case
    using Cons.prems key load load_account_live(1) [OF load] Cons.IH [of al1]
    by (auto split: option.splits if_splits)
qed simp

lemma load_transaction_accounts_live:
  assumes "load_transaction_accounts env tx loaded_fee_payer ls al = Some (r, ls', al')"
  shows "live env al' = live env al"
    "\<And>accounts. r = Inr accounts \<Longrightarrow> \<exists>loaded. accounts = (tx_fee_payer tx, lta_account loaded_fee_payer) # loaded \<and>
       map fst loaded = drop 1 (tx_account_keys tx) \<and>
       list_all (\<lambda>(key, account). loaded_for env al key account) loaded"
proof -
  let ?st = "\<lparr>lo_loader = al, lo_size = ls, lo_additional = [], lo_accounts = []\<rparr>"
  obtain r1 st1 where inc: "increase_size (usize_saturating_mul (tx_num_lookup_tables tx) address_lookup_table_base_size) ?st
      = (r1, st1)"
    by (cases "increase_size (usize_saturating_mul (tx_num_lookup_tables tx) address_lookup_table_base_size) ?st")
  note st1 = increase_size_same [OF inc]
  obtain r2 st2 where collect: "collect_loaded_account env (tx_account_keys tx) (tx_fee_payer tx) loaded_fee_payer st1 = (r2, st2)"
    by (cases "collect_loaded_account env (tx_account_keys tx) (tx_fee_payer tx) loaded_fee_payer st1")
  note st2 = collect_loaded_live [OF collect]
  have al2: "live env (lo_loader st2) = live env al"
    using st1 st2(1) by simp
  have "live env al' = live env al \<and> (\<forall>accounts. r = Inr accounts \<longrightarrow>
      (\<exists>loaded. accounts = (tx_fee_payer tx, lta_account loaded_fee_payer) # loaded \<and>
       map fst loaded = drop 1 (tx_account_keys tx) \<and> list_all (\<lambda>(key, account). loaded_for env al key account) loaded))"
  proof (cases "r1 = Inr () \<and> r2 = Inr ()")
    case True
    then obtain r3 st3 where rest: "load_remaining_accounts env tx 1 (drop 1 (tx_account_keys tx)) st2 = Some (r3, st3)"
      using assms inc collect
      by (cases "load_remaining_accounts env tx 1 (drop 1 (tx_account_keys tx)) st2") (auto simp: load_transaction_accounts_def)
    note st3 = load_remaining_live [OF rest]
    show ?thesis
    proof (cases r3)
      case (Inr u)
      obtain r4 where "check_program_owners env tx (msg_instructions (tx_message tx)) (lo_loader st3) = Some (r4, al')"
        "r = and_then r4 (\<lambda>_. Inr (lo_accounts st3))"
        using assms inc collect True rest Inr by (auto simp: load_transaction_accounts_def)
      then show ?thesis
        using check_program_owners_live st3 al2 st2(2) st1(2) True Inr loaded_for_view [OF al2]
        by (fastforce simp: and_then_Inr)
    qed (use assms inc collect True rest st3(1) al2 in \<open>auto simp: load_transaction_accounts_def\<close>)
  qed (use assms inc collect st1 al2 in \<open>auto simp: load_transaction_accounts_def split: sum.splits\<close>)
  then show "live env al' = live env al"
    "\<And>accounts. r = Inr accounts \<Longrightarrow> \<exists>loaded. accounts = (tx_fee_payer tx, lta_account loaded_fee_payer) # loaded \<and>
       map fst loaded = drop 1 (tx_account_keys tx) \<and>
       list_all (\<lambda>(key, account). loaded_for env al key account) loaded"
    by simp_all
qed

end
