(* ===== verification/Execution.thy ===== *)
theory Execution
  imports Loader_View
begin

section \<open>Executing a loaded transaction\<close>

text \<open>
  A loaded transaction executes without a panic. After success the lamports of its accounts are those
  it was loaded with, and an account that is not written back holds the lamports it was loaded
  with, so that nothing is lost by not writing it back.
\<close>

subsection \<open>What the loader relies on\<close>

text \<open>
  What sanitizing a transaction guarantees: the accounts are distinct, the first is the fee payer, which
  is writable and not a program of the message; the instructions sysvar is not writable.
\<close>

definition transaction_sane :: "svm_env \<Rightarrow> svm_transaction \<Rightarrow> bool" where
  "transaction_sane env tx \<longleftrightarrow>
     sanitized (tx_message tx) \<and> distinct (tx_account_keys tx) \<and> tx_account_keys tx \<noteq> [] \<and>
     tx_fee_payer tx = hd (tx_account_keys tx) \<and> tx_is_writable tx 0 \<and> \<not> tx_is_invoked tx 0 \<and>
     (\<forall>i. tx_is_instruction_account tx i \<longleftrightarrow> referenced (tx_message tx) i) \<and>
     (\<forall>i < length (tx_account_keys tx). tx_account_keys tx ! i = instructions_id (svm_sysvar env) \<longrightarrow> \<not> tx_is_writable tx i)"

definition runtime_agrees :: "svm_env \<Rightarrow> runtime_env \<Rightarrow> bool" where
  "runtime_agrees env runtime \<longleftrightarrow> programs_lawful runtime \<and> instructions_sysvar_of runtime = svm_sysvar env"

subsection \<open>Sums of lamports\<close>

definition accounts_lamports :: "keyed_account list \<Rightarrow> int" where
  "accounts_lamports accounts = (\<Sum>(_, account) \<leftarrow> accounts. uint (acc_lamports account))"

lemma unat_ucast_u64: "unat (ucast (x :: u64) :: u128) = unat x"
proof -
  have "unat x < 2 ^ 128"
    by (rule less_le_trans [OF unsigned_less]) simp
  then show ?thesis
    by (simp add: unsigned_ucast_eq take_bit_nat_eq_self)
qed

lemma and_then_Inl: "and_then m k = Inl e \<longleftrightarrow> m = Inl e \<or> (\<exists>x. m = Inr x \<and> k x = Inl e)"
  by (cases m) simp_all

lemma lamports_sum_from:
  assumes "unat s + 2 ^ 64 * length accounts < 2 ^ 128"
  shows "\<exists>s'. foldM (\<lambda>(_, account) sum. checked_add sum (ucast (acc_lamports account))) accounts s = Some s' \<and>
    uint s' = uint (s :: u128) + accounts_lamports accounts"
  using assms
proof (induction accounts arbitrary: s)
  case (Cons x accounts)
  obtain key account where x: "x = (key, account)"
    by (cases x)
  have small: "unat (acc_lamports account) < 2 ^ 64"
    using unat_le_max [of "acc_lamports account"] by simp
  then have "unat s + unat (acc_lamports account) < 2 ^ LENGTH(128)"
    using Cons.prems by simp
  then have "checked_add s (ucast (acc_lamports account)) \<noteq> None"
    by (simp add: checked_add_None unat_ucast_u64 not_le del: not_None_eq)
  then obtain s1 where s1: "checked_add s (ucast (acc_lamports account)) = Some s1"
    "unat s1 = unat s + unat (acc_lamports account)"
    by (auto simp: checked_add_Some unat_ucast_u64)
  have "unat s1 + 2 ^ 64 * length accounts < 2 ^ 128"
    using Cons.prems s1(2) small by simp
  then obtain s' where "foldM (\<lambda>(_, account) sum. checked_add sum (ucast (acc_lamports account))) accounts s1 = Some s'"
    "uint s' = uint s1 + accounts_lamports accounts"
    using Cons.IH by blast
  moreover have "uint s1 = uint s + uint (acc_lamports account)"
    using arg_cong [OF s1(2), of int] by simp
  ultimately show ?case
    using s1(1) by (simp add: x accounts_lamports_def)
qed (simp add: accounts_lamports_def)

lemma lamports_sum_exact:
  assumes "length accounts \<le> 256"
  shows "\<exists>s. transaction_accounts_lamports_sum accounts = Some s \<and> uint s = accounts_lamports accounts"
  using lamports_sum_from [of 0 accounts] assms by (simp add: transaction_accounts_lamports_sum_def)

lemma deconstruct_nth:
  assumes "ta_wf ta" "i < length (ta_shared ta)"
  shows "deconstruct_into_keyed_account_shared_data ta ! i =
    (sf_key (shared_at ta i), create_from_existing (shared_at ta i) (private_at ta i))"
  using assms by (simp add: deconstruct_into_keyed_account_shared_data_def ta_wf_def)

lemma deconstruct_length:
  "ta_wf ta \<Longrightarrow> length (deconstruct_into_keyed_account_shared_data ta) = length (ta_shared ta)"
  by (simp add: deconstruct_into_keyed_account_shared_data_def ta_wf_def)

lemma deconstruct_keys:
  assumes "ta_wf ta"
  shows "map fst (deconstruct_into_keyed_account_shared_data ta) = map sf_key (ta_shared ta)"
  using assms by (intro nth_equalityI) (simp_all add: deconstruct_length deconstruct_nth)

lemma deconstruct_lamports:
  assumes "ta_wf ta"
  shows "accounts_lamports (deconstruct_into_keyed_account_shared_data ta) = total_lamports ta"
proof -
  have "map (\<lambda>(_, account). uint (acc_lamports account)) (deconstruct_into_keyed_account_shared_data ta) =
      map (\<lambda>sf. uint (sf_lamports sf)) (ta_shared ta)"
    using assms by (intro nth_equalityI) (simp_all add: deconstruct_length deconstruct_nth create_from_existing_def)
  then show ?thesis
    by (simp add: accounts_lamports_def total_lamports_def)
qed

lemma start_accounts_lamports: "total_lamports (transaction_accounts_new accounts) = accounts_lamports accounts"
proof -
  have "map (\<lambda>sf. uint (sf_lamports sf)) (ta_shared (transaction_accounts_new accounts)) =
      map (\<lambda>(_, account). uint (acc_lamports account)) accounts"
    by (intro nth_equalityI) (simp_all add: transaction_accounts_new_def nth_enumerate_eq split_beta)
  then show ?thesis
    by (simp add: accounts_lamports_def total_lamports_def)
qed

subsection \<open>Running the message\<close>

lemma verify_changes_total:
  assumes "i + length infos \<le> length (ta_shared (tc_accounts tc))" "length (ta_shared (tc_accounts tc)) \<le> 2 ^ 16"
  shows "verify_changes_from incinerator tc i infos \<noteq> None"
  using assms(1)
proof (induction infos arbitrary: i)
  case (Cons info infos)
  have "unat (of_nat i :: u16) = i"
    using Cons.prems assms(2) by (simp add: unat_of_nat)
  then have "get_key_of_account_at_index (tc_accounts tc) (of_nat i) = Inr (sf_key (shared_at (tc_accounts tc) i))"
    using Cons.prems by (simp add: get_key_of_account_at_index_def account_key_def slice_get_def)
  then have check: "\<exists>r. check_rent_state incinerator pre post tc (of_nat i) = Some r" for pre post
    by (simp add: check_rent_state_def)
  have ih: "verify_changes_from incinerator tc (Suc i) infos \<noteq> None"
    using Cons by simp
  obtain pre post where info: "info = (pre, post)"
    by (cases info)
  show ?case
  proof (cases "\<exists>p q. pre = Some p \<and> post = Some q")
    case True
    then obtain p q where "pre = Some p" "post = Some q"
      by blast
    moreover obtain r where "check_rent_state incinerator (si_rent_state p) (si_rent_state q) tc (of_nat i) = Some r"
      using check by blast
    ultimately show ?thesis
      using ih info by (cases r) auto
  next
    case False
    then show ?thesis
      using ih info by (cases pre; cases post) auto
  qed
qed simp

lemma verify_changes_error:
  "verify_changes_from incinerator tc i infos = Some (Inl e) \<Longrightarrow> \<exists>index. e = InsufficientFundsForRent index"
proof (induction incinerator tc i infos rule: verify_changes_from.induct)
  case (2 incinerator tc i pre post rest)
  then show ?case
    by (auto simp: check_rent_state_def check_rent_state_with_account_def split: sum.splits if_splits)
qed auto

text \<open>The transaction context that a loaded transaction starts with.\<close>

definition start_context :: "svm_transaction \<Rightarrow> loaded_transaction \<Rightarrow> invoke_context" where
  "start_context tx lt = \<lparr>inv_transaction_context =
       transaction_context_new (lt_accounts lt) (eb_max_instruction_stack_depth (lt_compute_budget lt))
         (eb_max_instruction_trace_length (lt_compute_budget lt)) (length (msg_instructions (tx_message tx))),
     inv_compute_meter = eb_compute_unit_limit (lt_compute_budget lt)\<rparr>"

definition pre_infos :: "svm_env \<Rightarrow> svm_transaction \<Rightarrow> loaded_transaction \<Rightarrow> account_state_info option list" where
  "pre_infos env tx lt = new_pre_exec (inv_transaction_context (start_context tx lt)) (tx_message tx) (svm_rent env)
     (relax_post_exec_min_balance_check (svm_features_of env))"

lemma execute_split:
  "execute_loaded_transaction fuel runtime env config tx lt =
     Option.bind (process_message fuel runtime (tx_message tx) (start_context tx lt) 0) (\<lambda>(r, c, units).
     map_option (\<lambda>post. executed_from env config lt post (execution_record_from (inv_transaction_context c)) units)
       (post_account_state_info env (tx_message tx) (pre_infos env tx lt) r (inv_transaction_context c)))"
  by (simp add: execute_loaded_transaction_def start_context_def pre_infos_def Let_def split: option.splits prod.splits)

definition executable :: "nat \<Rightarrow> svm_env \<Rightarrow> runtime_env \<Rightarrow> svm_transaction \<Rightarrow> loaded_transaction \<Rightarrow> bool" where
  "executable fuel env runtime tx lt \<longleftrightarrow>
     transaction_sane env tx \<and> runtime_agrees env runtime \<and> map fst (lt_accounts lt) = tx_account_keys tx \<and>
     eb_max_instruction_trace_length (lt_compute_budget lt) < 2 ^ 16 \<and>
     eb_max_instruction_stack_depth (lt_compute_budget lt) \<le> fuel"

lemma executable_length:
  assumes "executable fuel env runtime tx lt"
  shows "length (lt_accounts lt) = length (tx_account_keys tx)" "length (lt_accounts lt) \<le> 256"
proof -
  show len: "length (lt_accounts lt) = length (tx_account_keys tx)"
    using assms map_eq_imp_length_eq [of fst "lt_accounts lt" "\<lambda>x. x" "tx_account_keys tx"] by (simp add: executable_def)
  show "length (lt_accounts lt) \<le> 256"
    using assms by (simp add: len executable_def transaction_sane_def sanitized_def)
qed

lemma executable_final:
  assumes "executable fuel env runtime tx lt"
    and "process_message fuel' runtime (tx_message tx) (start_context tx lt) 0 = Some (Inr (), c, units)"
  shows "running runtime (tx_message tx) (lt_accounts lt) (eb_max_instruction_stack_depth (lt_compute_budget lt))
      (eb_max_instruction_trace_length (lt_compute_budget lt)) (inv_transaction_context c)"
    "total_lamports (tc_accounts (inv_transaction_context c)) = accounts_lamports (lt_accounts lt)"
    "map sf_key (ta_shared (tc_accounts (inv_transaction_context c))) = tx_account_keys tx"
    "ta_wf (tc_accounts (inv_transaction_context c))"
proof -
  have start: "inv_transaction_context (start_context tx lt) =
      transaction_context_new (lt_accounts lt) (eb_max_instruction_stack_depth (lt_compute_budget lt))
        (eb_max_instruction_trace_length (lt_compute_budget lt)) (length (msg_instructions (tx_message tx)))"
    by (simp add: start_context_def)
  note final = message_final [OF start _ _ _ executable_length(2) [OF assms(1)] assms(2)]
  show "running runtime (tx_message tx) (lt_accounts lt) (eb_max_instruction_stack_depth (lt_compute_budget lt))
      (eb_max_instruction_trace_length (lt_compute_budget lt)) (inv_transaction_context c)"
    "total_lamports (tc_accounts (inv_transaction_context c)) = accounts_lamports (lt_accounts lt)"
    "map sf_key (ta_shared (tc_accounts (inv_transaction_context c))) = tx_account_keys tx"
    "ta_wf (tc_accounts (inv_transaction_context c))"
    using assms(1) final by (simp_all add: executable_def transaction_sane_def runtime_agrees_def start_accounts_lamports)
qed

lemma pre_infos_length [simp]: "length (pre_infos env tx lt) = length (tx_account_keys tx)"
  by (simp add: pre_infos_def new_pre_exec_def iter_writable_accounts_def)

lemma execute_returns:
  assumes "executable fuel env runtime tx lt"
  shows "\<exists>ex. execute_loaded_transaction fuel runtime env config tx lt = Some ex"
proof -
  have start: "inv_transaction_context (start_context tx lt) =
      transaction_context_new (lt_accounts lt) (eb_max_instruction_stack_depth (lt_compute_budget lt))
        (eb_max_instruction_trace_length (lt_compute_budget lt)) (length (msg_instructions (tx_message tx)))"
    by (simp add: start_context_def)
  obtain r c units where run: "process_message fuel runtime (tx_message tx) (start_context tx lt) 0 = Some (r, c, units)"
    using process_message_between [OF start _ _ _ _ executable_length(2) [OF assms], of fuel runtime 0] assms
    by (auto simp: executable_def transaction_sane_def runtime_agrees_def)
  have "post_account_state_info env (tx_message tx) (pre_infos env tx lt) r (inv_transaction_context c) \<noteq> None"
  proof (cases r)
    case (Inr u)
    have "map sf_key (ta_shared (tc_accounts (inv_transaction_context c))) = tx_account_keys tx"
      using executable_final(3) [OF assms] run Inr by simp
    then have len: "length (ta_shared (tc_accounts (inv_transaction_context c))) = length (tx_account_keys tx)"
      by (metis length_map)
    then show ?thesis
      using executable_length [OF assms] Inr
      by (simp add: post_account_state_info_def Let_def verify_changes_def verify_changes_total del: not_None_eq)
  qed (auto simp: post_account_state_info_def)
  then show ?thesis
    using run by (auto simp: execute_split)
qed

subsection \<open>Success\<close>

lemma executed_success:
  assumes "executable fuel env runtime tx lt" "execute_loaded_transaction fuel' runtime env config tx lt = Some ex"
    and "ex_status ex = Inr ()"
  obtains c units post where "process_message fuel' runtime (tx_message tx) (start_context tx lt) 0 = Some (Inr (), c, units)"
    "post_account_state_info env (tx_message tx) (pre_infos env tx lt) (Inr ()) (inv_transaction_context c) = Some (Inr post)"
    "lt_accounts (ex_loaded_transaction ex) = deconstruct_into_keyed_account_shared_data (tc_accounts (inv_transaction_context c))"
    "lt_touched_flags (ex_loaded_transaction ex) = (ta_touched_flags (tc_accounts (inv_transaction_context c)))[0 := True]"
proof -
  obtain r c units post where run: "process_message fuel' runtime (tx_message tx) (start_context tx lt) 0 = Some (r, c, units)"
    and post: "post_account_state_info env (tx_message tx) (pre_infos env tx lt) r (inv_transaction_context c) = Some post"
    and ex: "ex = executed_from env config lt post (execution_record_from (inv_transaction_context c)) units"
    using assms(2) by (auto simp: execute_split bind_eq_Some_conv)
  have ok: "\<exists>p. post = Inr p"
    using assms(3) by (auto simp: ex executed_from_def Let_def balanced_result_def and_then_Inr)
  then have "r = Inr ()"
    using post by (cases r) (auto simp: post_account_state_info_def)
  then show thesis
    using that run post ok
    by (auto simp: ex executed_from_def Let_def execution_record_from_def take_accounts_def)
qed

lemma executed_same:
  assumes "execute_loaded_transaction fuel runtime env config tx lt = Some ex"
  shows "lt_fee_details (ex_loaded_transaction ex) = lt_fee_details lt"
    "lt_rollback_accounts (ex_loaded_transaction ex) = lt_rollback_accounts lt"
  using assms by (auto simp: execute_split bind_eq_Some_conv executed_from_def Let_def)

lemma executed_balanced:
  assumes "executable fuel env runtime tx lt" "execute_loaded_transaction fuel' runtime env config tx lt = Some ex"
  shows "ex_status ex \<noteq> Inl UnbalancedTransaction"
proof -
  obtain r c units post where run: "process_message fuel' runtime (tx_message tx) (start_context tx lt) 0 = Some (r, c, units)"
    and post: "post_account_state_info env (tx_message tx) (pre_infos env tx lt) r (inv_transaction_context c) = Some post"
    and ex: "ex = executed_from env config lt post (execution_record_from (inv_transaction_context c)) units"
    using assms(2) by (auto simp: execute_split bind_eq_Some_conv)
  show ?thesis
  proof (cases r)
    case (Inl e)
    then show ?thesis
      using post by (auto simp: ex executed_from_def Let_def post_account_state_info_def balanced_result_def split: prod.splits)
  next
    case (Inr u)
    then have run': "process_message fuel' runtime (tx_message tx) (start_context tx lt) 0 = Some (Inr (), c, units)"
      using run by simp
    note final = executable_final [OF assms(1) run']
    let ?ta = "tc_accounts (inv_transaction_context c)"
    have len: "length (deconstruct_into_keyed_account_shared_data ?ta) \<le> 256"
      using executable_length [OF assms(1)] deconstruct_length [OF final(4)] final(3) by (metis length_map)
    have "transaction_accounts_lamports_sum (deconstruct_into_keyed_account_shared_data ?ta) =
        transaction_accounts_lamports_sum (lt_accounts lt)"
      using lamports_sum_exact [OF len] lamports_sum_exact [OF executable_length(2) [OF assms(1)]]
        deconstruct_lamports [OF final(4)] final(2) by (auto simp: word_uint_eq_iff)
    moreover obtain s where "transaction_accounts_lamports_sum (lt_accounts lt) = Some s"
      using lamports_sum_exact [OF executable_length(2) [OF assms(1)]] by blast
    moreover have "verify_changes inc p q tc \<noteq> Some (Inl UnbalancedTransaction)" for inc p q tc
      using verify_changes_error [of inc tc 0 "zip p q"] by (auto simp: verify_changes_def)
    ultimately show ?thesis
      using post Inr
      by (cases post) (auto simp: ex executed_from_def Let_def balanced_result_def execution_record_from_def
          take_accounts_def unwrap_or_def post_account_state_info_def and_then_Inl)
  qed
qed

text \<open>An account that is not written back holds what it was loaded with.\<close>

lemma success_accounts:
  assumes "executable fuel env runtime tx lt" "execute_loaded_transaction fuel' runtime env config tx lt = Some ex"
    and "ex_status ex = Inr ()"
  shows "map fst (lt_accounts (ex_loaded_transaction ex)) = tx_account_keys tx"
    "accounts_lamports (lt_accounts (ex_loaded_transaction ex)) = accounts_lamports (lt_accounts lt)"
    "\<And>i. i < length (tx_account_keys tx) \<Longrightarrow> is_written_back tx (lt_touched_flags (ex_loaded_transaction ex)) i \<noteq> None"
    "is_written_back tx (lt_touched_flags (ex_loaded_transaction ex)) 0 = Some True"
    "\<And>i. i < length (tx_account_keys tx) \<Longrightarrow>
       is_written_back tx (lt_touched_flags (ex_loaded_transaction ex)) i = Some False \<Longrightarrow>
       acc_lamports (snd (lt_accounts (ex_loaded_transaction ex) ! i)) = acc_lamports (snd (lt_accounts lt ! i))"
proof -
  obtain c units post where run: "process_message fuel' runtime (tx_message tx) (start_context tx lt) 0 = Some (Inr (), c, units)"
    and accounts: "lt_accounts (ex_loaded_transaction ex) =
      deconstruct_into_keyed_account_shared_data (tc_accounts (inv_transaction_context c))"
    and flags: "lt_touched_flags (ex_loaded_transaction ex) =
      (ta_touched_flags (tc_accounts (inv_transaction_context c)))[0 := True]"
    by (rule executed_success [OF assms])
  let ?ta = "tc_accounts (inv_transaction_context c)"
  note final = executable_final [OF assms(1) run]
  show keys: "map fst (lt_accounts (ex_loaded_transaction ex)) = tx_account_keys tx"
    "accounts_lamports (lt_accounts (ex_loaded_transaction ex)) = accounts_lamports (lt_accounts lt)"
    by (simp_all add: accounts deconstruct_keys deconstruct_lamports final)
  have len: "length (ta_shared ?ta) = length (tx_account_keys tx)" "length (ta_touched_flags ?ta) = length (tx_account_keys tx)"
    using map_eq_imp_length_eq [of sf_key "ta_shared ?ta" "\<lambda>x. x" "tx_account_keys tx"] final(3,4) by (simp_all add: ta_wf_def)
  then show "is_written_back tx (lt_touched_flags (ex_loaded_transaction ex)) i \<noteq> None" if "i < length (tx_account_keys tx)" for i
    using that by (auto simp: is_written_back_def flags slice_get_def)
  have sane: "transaction_sane env tx" "sanitized (tx_message tx)"
    and trace: "eb_max_instruction_trace_length (lt_compute_budget lt) < 2 ^ 16"
    using assms(1) by (simp_all add: executable_def transaction_sane_def)
  then show "is_written_back tx (lt_touched_flags (ex_loaded_transaction ex)) 0 = Some True"
    using len(2) by (simp add: is_written_back_def flags slice_get_def transaction_sane_def)
  show "acc_lamports (snd (lt_accounts (ex_loaded_transaction ex) ! i)) = acc_lamports (snd (lt_accounts lt ! i))"
    if i: "i < length (tx_account_keys tx)" and unwritten: "is_written_back tx (lt_touched_flags (ex_loaded_transaction ex)) i = Some False"
    for i
  proof -
    have i': "i < length (lt_accounts lt)"
      using i executable_length(1) [OF assms(1)] by simp
    note few = executable_length(2) [OF assms(1)]
    have "\<not> tx_is_writable tx i \<or> \<not> referenced (tx_message tx) i \<or> \<not> ta_touched_flags ?ta ! i"
      using unwritten i len(2) sane(1)
      by (auto simp: is_written_back_def flags slice_get_def transaction_sane_def nth_list_update split: if_splits)
    then have "untouched runtime (lt_accounts lt) i (transaction_accounts_new (lt_accounts lt)) ?ta"
      using running_untouched [OF final(1) sane(2) trace few i'] running_marked [OF final(1) sane(2) trace few i'] by blast
    then have "sf_lamports (shared_at ?ta i) = sf_lamports (shared_at (transaction_accounts_new (lt_accounts lt)) i)"
      by (simp add: untouched_def)
    also have "\<dots> = acc_lamports (snd (lt_accounts lt ! i))"
      using i' by (simp add: transaction_accounts_new_def nth_enumerate_eq split_beta)
    finally show ?thesis
      using i len(1) by (simp add: accounts deconstruct_nth final(4) create_from_existing_def)
  qed
qed

end
