(* ===== verification/Batch_Step.thy ===== *)
theory Batch_Step
  imports Execution
begin

section \<open>One transaction of a batch\<close>

text \<open>
  What one transaction does to the live accounts: the accounts that are stored for its result are
  exactly those that the loader shows to the next transactions, and the lamports that the
  transaction takes from all accounts together are its fee.
\<close>

subsection \<open>Stored accounts\<close>

lemma store_account_other: "k \<noteq> fst x \<Longrightarrow> store_account x view k = view k"
  by (cases x) simp

lemma store_accounts_other: "k \<notin> fst ` set xs \<Longrightarrow> store_accounts xs view k = view k"
  by (induction xs arbitrary: view) (auto simp: store_account_other)

lemma store_accounts_lookup:
  "distinct (map fst xs) \<Longrightarrow> (k, account) \<in> set xs \<Longrightarrow> store_accounts xs view k = alive account"
proof (induction xs arbitrary: view)
  case (Cons x xs)
  show ?case
  proof (cases "x = (k, account)")
    case True
    then show ?thesis
      using Cons.prems by (simp add: store_accounts_other)
  qed (use Cons in simp)
qed simp

lemma live_failed: "live env (update_accounts_for_failed_tx rollback slot al) = store_accounts (rollback_iter rollback) (live env al)"
  by (cases rollback) (auto simp: update_accounts_for_failed_tx_def split_beta split: prod.splits)

definition written_back :: "svm_transaction \<Rightarrow> bool list \<Rightarrow> (nat \<times> keyed_account) list \<Rightarrow> keyed_account list" where
  "written_back tx flags xs = map snd (filter (\<lambda>(i, _). is_written_back tx flags i = Some True) xs)"

lemma written_back_simps [simp]:
  "written_back tx flags [] = []"
  "written_back tx flags ((i, x) # xs) =
     (if is_written_back tx flags i = Some True then x # written_back tx flags xs else written_back tx flags xs)"
  by (simp_all add: written_back_def)

lemma update_success:
  assumes "\<forall>(i, _) \<in> set xs. is_written_back tx flags i \<noteq> None"
  shows "\<exists>al'. foldM (\<lambda>(i, address, account) al.
       map_option (\<lambda>written. if written then al(address \<mapsto> (account, slot)) else al) (is_written_back tx flags i)) xs al = Some al' \<and>
     live env al' = store_accounts (written_back tx flags xs) (live env al)"
  using assms
proof (induction xs arbitrary: al)
  case (Cons x xs)
  obtain i address account where x: "x = (i, address, account)"
    by (cases x)
  obtain written where written: "is_written_back tx flags i = Some written"
    using Cons.prems x by auto
  show ?case
    using Cons.prems Cons.IH [of "if written then al(address \<mapsto> (account, slot)) else al"] by (auto simp: x written)
qed simp

text \<open>The guards of the loader and of the saver agree.\<close>

lemma is_collected_eq: "is_collected tx flags i = is_written_back tx flags i"
  by (simp add: is_collected_def is_written_back_def split: option.split)

lemma collect_success:
  assumes "\<forall>(i, _) \<in> set xs. is_written_back tx flags i \<noteq> None"
  shows "foldM (\<lambda>(i, address, account) sofar.
       map_option (\<lambda>written. if written then sofar @ [(address, account)] else sofar) (is_collected tx flags i)) xs sofar =
     Some (sofar @ written_back tx flags xs)"
  using assms
proof (induction xs arbitrary: sofar)
  case (Cons x xs)
  obtain i address account where x: "x = (i, address, account)"
    by (cases x)
  obtain written where written: "is_written_back tx flags i = Some written"
    using Cons.prems x by auto
  show ?case
    using Cons by (auto simp: x written is_collected_eq)
qed simp

subsection \<open>Sums over the accounts\<close>

lemma sum_changed:
  fixes f g :: "pubkey \<Rightarrow> int"
  assumes "set keys \<subseteq> K" "distinct keys" "\<And>k. k \<notin> set keys \<Longrightarrow> g k = f k"
  shows "sum g K - sum f K = (\<Sum>i < length keys. g (keys ! i) - f (keys ! i))"
proof -
  have "sum g K - sum f K = (\<Sum>k \<in> K. g k - f k)"
    by (simp add: sum_subtractf)
  also have "\<dots> = (\<Sum>k \<in> set keys. g k - f k)"
    using assms(1,3) by (intro sum.mono_neutral_right) auto
  also have "\<dots> = (\<Sum>i < length keys. g (keys ! i) - f (keys ! i))"
    using assms(2) by (intro sum.reindex_bij_betw [symmetric] bij_betw_nth) simp_all
  finally show ?thesis .
qed

lemma accounts_lamports_nth: "accounts_lamports accounts = (\<Sum>i < length accounts. uint (acc_lamports (snd (accounts ! i))))"
  by (simp add: accounts_lamports_def sum_list_sum_nth atLeast0LessThan split_beta)

text \<open>The lamports after a successful transaction, from those it was loaded with.\<close>

lemma written_lookup:
  assumes "map fst accounts = keys" "distinct keys" "i < length keys"
  shows "store_accounts (written_back tx flags (zip [0..<length keys] accounts)) view (keys ! i) =
    (if is_written_back tx flags i = Some True then alive (snd (accounts ! i)) else view (keys ! i))"
proof -
  let ?xs = "written_back tx flags (zip [0..<length keys] accounts)"
  have len: "length accounts = length keys"
    using assms(1) by auto
  have key: "fst (accounts ! j) = keys ! j" if "j < length keys" for j
    using that len assms(1) by (metis nth_map)
  have "map fst ?xs = map (\<lambda>(i, x). fst x) (filter (\<lambda>(i, _). is_written_back tx flags i = Some True) (zip [0..<length keys] accounts))"
    by (simp add: written_back_def split_beta comp_def)
  moreover have "map (\<lambda>(i, x). fst x) (zip [0..<length keys] accounts) = keys"
    using len key by (intro nth_equalityI) simp_all
  ultimately have distinct: "distinct (map fst ?xs)"
    using assms(2) by (metis (no_types, lifting) distinct_map_filter)
  have zip: "set (zip [0..<length keys] accounts) = (\<lambda>j. (j, accounts ! j)) ` {..<length keys}"
    using len by (force simp: set_zip)
  have members: "x \<in> set ?xs \<longleftrightarrow> (\<exists>j < length keys. x = accounts ! j \<and> is_written_back tx flags j = Some True)" for x
    by (force simp: written_back_def zip)
  show ?thesis
  proof (cases "is_written_back tx flags i = Some True")
    case True
    then have "(keys ! i, snd (accounts ! i)) \<in> set ?xs"
      using members assms(3) key [OF assms(3)] by (metis prod.collapse)
    then show ?thesis
      using True store_accounts_lookup [OF distinct] by simp
  next
    case False
    have "fst x \<noteq> keys ! i" if x: "x \<in> set ?xs" for x
    proof -
      obtain j where j: "j < length keys" "x = accounts ! j" "is_written_back tx flags j = Some True"
        using members [THEN iffD1, OF x] by blast
      then have "j \<noteq> i"
        using False by auto
      then show ?thesis
        using key [OF j(1)] j assms(2,3) by (simp add: nth_eq_iff_index_eq)
    qed
    then have "keys ! i \<notin> fst ` set ?xs"
      by force
    then show ?thesis
      using False store_accounts_other by simp
  qed
qed

lemma written_other:
  assumes "map fst accounts = keys" "k \<notin> set keys"
  shows "store_accounts (written_back tx flags (zip [0..<length keys] accounts)) view k = view k"
proof (rule store_accounts_other)
  show "k \<notin> fst ` set (written_back tx flags (zip [0..<length keys] accounts))"
    using assms by (force simp: written_back_def dest: set_zip_rightD)
qed

subsection \<open>The fee\<close>

text \<open>A failed transaction takes the fee from the fee payer and keeps the lamports of all other accounts.\<close>

lemma charged_rollback:
  assumes "charged env al tx details vd"
  shows "lamports_of (store_accounts (rollback_iter (vd_rollback_accounts vd)) (live env al) k) =
      balance env al k - (if k = tx_fee_payer tx then uint (svm_total_fee env (cd_fee_details details)) else 0)"
    "k \<noteq> tx_fee_payer tx \<Longrightarrow> cd_nonce_address details \<noteq> Some k \<Longrightarrow>
       store_accounts (rollback_iter (vd_rollback_accounts vd)) (live env al) k = live env al k"
proof -
  obtain payer account nonce where payer: "live env al (tx_fee_payer tx) = Some payer"
    and fee: "uint (acc_lamports account) + uint (svm_total_fee env (cd_fee_details details)) = uint (acc_lamports payer)"
    and rollback: "vd_rollback_accounts vd = rollback_accounts_new nonce (tx_fee_payer tx) account (acc_rent_epoch payer)"
    and address: "map_option ni_address nonce = cd_nonce_address details"
    and ready: "pred_option (nonce_ready env al tx) nonce"
    using assms unfolding charged_def by blast
  have "uint (acc_lamports (ni_account n)) = balance env al (ni_address n)" if "nonce = Some n" for n
    using ready that by (auto simp: nonce_ready_def)
  then show "lamports_of (store_accounts (rollback_iter (vd_rollback_accounts vd)) (live env al) k) =
      balance env al k - (if k = tx_fee_payer tx then uint (svm_total_fee env (cd_fee_details details)) else 0)"
    using payer fee by (cases nonce) (auto simp: rollback rollback_accounts_new_def)
  show "store_accounts (rollback_iter (vd_rollback_accounts vd)) (live env al) k = live env al k"
    if "k \<noteq> tx_fee_payer tx" "cd_nonce_address details \<noteq> Some k"
    using that address by (cases nonce) (auto simp: rollback rollback_accounts_new_def)
qed

lemma failed_total:
  assumes "charged env al tx details vd" "tx_fee_payer tx \<in> K"
  shows "(\<Sum>k \<in> K. lamports_of (store_accounts (rollback_iter (vd_rollback_accounts vd)) (live env al) k)) +
    uint (svm_total_fee env (cd_fee_details details)) = (\<Sum>k \<in> K. balance env al k)"
  using assms(2) by (simp add: charged_rollback(1) [OF assms(1)] sum_subtractf sum.delta)

text \<open>The accounts of a loaded transaction, in terms of the live ones.\<close>

definition loaded_from :: "svm_env \<Rightarrow> account_loader \<Rightarrow> svm_transaction \<Rightarrow> u64 \<Rightarrow> keyed_account list \<Rightarrow> bool" where
  "loaded_from env al tx fee accounts \<longleftrightarrow>
     map fst accounts = tx_account_keys tx \<and>
     (\<forall>i < length (tx_account_keys tx). tx_account_keys tx ! i \<noteq> instructions_id (svm_sysvar env) \<longrightarrow>
        uint (acc_lamports (snd (accounts ! i))) =
          balance env al (tx_account_keys tx ! i) - (if i = 0 then uint fee else 0))"

lemma success_total:
  assumes "executable fuel env runtime tx lt" "execute_loaded_transaction fuel' runtime env config tx lt = Some ex"
    and "ex_status ex = Inr ()" "loaded_from env al tx fee (lt_accounts lt)"
    and "set (tx_account_keys tx) \<subseteq> K"
  shows "(\<Sum>k \<in> K. lamports_of (store_accounts (written_back tx (lt_touched_flags (ex_loaded_transaction ex))
      (zip [0..<length (tx_account_keys tx)] (lt_accounts (ex_loaded_transaction ex)))) (live env al) k)) +
    uint fee = (\<Sum>k \<in> K. balance env al k)"
proof -
  let ?keys = "tx_account_keys tx" and ?final = "lt_accounts (ex_loaded_transaction ex)"
    and ?flags = "lt_touched_flags (ex_loaded_transaction ex)"
  let ?view = "\<lambda>k. lamports_of (store_accounts (written_back tx ?flags (zip [0..<length ?keys] ?final)) (live env al) k)"
  let ?l = "\<lambda>accounts i. uint (acc_lamports (snd (accounts ! i)))"
  note success = success_accounts [OF assms(1-3)]
  have sane: "transaction_sane env tx" and distinct: "distinct ?keys" and nonempty: "?keys \<noteq> []"
    using assms(1) by (simp_all add: executable_def transaction_sane_def)
  have "?view (?keys ! i) - balance env al (?keys ! i) = ?l ?final i - ?l (lt_accounts lt) i - (if i = 0 then uint fee else 0)"
    if i: "i < length ?keys" for i
  proof (cases "is_written_back tx ?flags i = Some True")
    case True
    then have "tx_is_writable tx i"
      by (simp add: is_written_back_def split: if_splits)
    then have "?keys ! i \<noteq> instructions_id (svm_sysvar env)"
      using sane i by (auto simp: transaction_sane_def)
    then show ?thesis
      using True written_lookup [OF success(1) distinct i] assms(4) i by (simp add: loaded_from_def)
  next
    case False
    then have "is_written_back tx ?flags i = Some False"
      using success(3) [OF i] by auto
    moreover have "i \<noteq> 0"
      using False success(4) by (cases "i = 0") simp_all
    ultimately show ?thesis
      using False written_lookup [OF success(1) distinct i] success(5) [OF i] by simp
  qed
  then have "(\<Sum>k \<in> K. ?view k) - (\<Sum>k \<in> K. balance env al k) =
      (\<Sum>i < length ?keys. ?l ?final i - ?l (lt_accounts lt) i - (if i = 0 then uint fee else 0))"
    using sum_changed [OF assms(5) distinct, of ?view "balance env al"] written_other [OF success(1)] by simp
  also have "\<dots> = (\<Sum>i < length ?keys. ?l ?final i) - (\<Sum>i < length ?keys. ?l (lt_accounts lt) i) - uint fee"
    using nonempty by (simp add: sum_subtractf sum.delta)
  also have "\<dots> = - uint fee"
    using success(1,2) executable_length(1) [OF assms(1)] map_eq_imp_length_eq [of fst ?final "\<lambda>x. x" ?keys]
    by (simp add: accounts_lamports_nth)
  finally show ?thesis
    by simp
qed

subsection \<open>Loading\<close>

definition loading_result ::
  "svm_env \<Rightarrow> account_loader \<Rightarrow> svm_transaction \<Rightarrow> (transaction_error + checked_details) \<Rightarrow> load_result \<Rightarrow> bool" where
  "loading_result env al tx check_result lr \<longleftrightarrow>
     (case lr of
        Loaded lt \<Rightarrow> \<exists>details vd. check_result = Inr details \<and> charged env al tx details vd \<and>
          lt_fee_details lt = cd_fee_details details \<and> lt_rollback_accounts lt = vd_rollback_accounts vd \<and>
          lt_compute_budget lt = cd_compute_budget details \<and>
          loaded_from env al tx (svm_total_fee env (cd_fee_details details)) (lt_accounts lt)
      | LoadFeesOnly fo \<Rightarrow> \<exists>details vd. check_result = Inr details \<and> charged env al tx details vd \<and>
          fo_fee_details fo = cd_fee_details details \<and> fo_rollback_accounts fo = vd_rollback_accounts vd
      | LoadNoOp no \<Rightarrow> \<exists>details. check_result = Inr details \<and> cd_nonce_address details = None
      | LoadUnprocessable e \<Rightarrow> True)"

lemma loaded_from_parts:
  assumes "charged env al tx details vd" "transaction_sane env tx"
    and "accounts = (tx_fee_payer tx, lta_account (vd_loaded_fee_payer_account vd)) # loaded"
    and "map fst loaded = drop 1 (tx_account_keys tx)" "list_all (\<lambda>(key, account). loaded_for env al key account) loaded"
  shows "loaded_from env al tx (svm_total_fee env (cd_fee_details details)) accounts"
proof -
  let ?keys = "tx_account_keys tx"
  have keys: "?keys = tx_fee_payer tx # map fst loaded"
    using assms(2,4) by (cases ?keys) (simp_all add: transaction_sane_def)
  have fee: "uint (acc_lamports (lta_account (vd_loaded_fee_payer_account vd))) +
      uint (svm_total_fee env (cd_fee_details details)) = balance env al (tx_fee_payer tx)"
    using assms(1) by (auto simp: charged_def)
  have "uint (acc_lamports (snd (loaded ! j))) = balance env al (fst (loaded ! j))"
    if "j < length loaded" "fst (loaded ! j) \<noteq> instructions_id (svm_sysvar env)" for j
    using assms(5) that by (auto simp: list_all_length loaded_for_def split_beta)
  then show ?thesis
    using keys fee assms(3) by (auto simp: loaded_from_def nth_Cons split: nat.splits)
qed

lemma load_transaction_result:
  assumes "load_transaction env tx v al = Some (lr, al')" "transaction_sane env tx"
    and "\<And>vd. v = Loadable vd \<Longrightarrow> \<exists>details. check_result = Inr details \<and> charged env al tx details vd"
    and "\<And>no. v = ValidationNoOp no \<Longrightarrow> \<exists>details. check_result = Inr details \<and> cd_nonce_address details = None"
  shows "live env al' = live env al" "loading_result env al tx check_result lr"
proof -
  have "live env al' = live env al \<and> loading_result env al tx check_result lr"
  proof (cases v)
    case (Loadable vd)
    then obtain details where details: "check_result = Inr details" "charged env al tx details vd"
      using assms(3) by blast
    then have vd: "vd_fee_details vd = cd_fee_details details" "vd_compute_budget vd = cd_compute_budget details"
      by (auto simp: charged_def)
    obtain r ls where load: "load_transaction_accounts env tx (vd_loaded_fee_payer_account vd)
        (with_max_size (vd_loaded_accounts_bytes_limit vd)) al = Some (r, ls, al')"
      using assms(1) Loadable by (auto simp: load_transaction_def)
    note live = load_transaction_accounts_live [OF load]
    show ?thesis
    proof (cases r)
      case (Inl e)
      then show ?thesis
        using assms(1) Loadable load details vd live(1) by (auto simp: load_transaction_def loading_result_def)
    next
      case (Inr accounts)
      then have "loaded_from env al tx (svm_total_fee env (cd_fee_details details)) accounts"
        using live(2) loaded_from_parts [OF details(2) assms(2)] by blast
      then show ?thesis
        using assms(1) Loadable load details vd live(1) Inr by (auto simp: load_transaction_def loading_result_def)
    qed
  qed (use assms(1,4) in \<open>auto simp: load_transaction_def loading_result_def\<close>)
  then show "live env al' = live env al" "loading_result env al tx check_result lr"
    by simp_all
qed

lemma loading_result_view:
  assumes "live env al' = live env al"
  shows "loading_result env al' = loading_result env al"
  by (intro ext) (simp add: loading_result_def loaded_from_def charged_view [OF assms] assms split: load_result.split)

lemma validate_and_load_result:
  assumes "validate_and_load env config tx check_result al = Some (lr, al')" "transaction_sane env tx"
  shows "live env al' = live env al" "loading_result env al tx check_result lr"
proof -
  obtain v al1 where v: "(case check_result of
        Inr tx_details \<Rightarrow> validate_transaction_nonce_and_fee_payer env (cfg_strict_nonce_size_check config) tx tx_details al
      | Inl e \<Rightarrow> Some (ValidationUnprocessable e, al)) = Some (v, al1)"
    and load: "load_transaction env tx v al1 = Some (lr, al')"
    using assms(1) by (auto simp: validate_and_load_def bind_eq_Some_conv)
  have view: "live env al1 = live env al"
    using v validate_live(1) by (cases check_result) auto
  have loadable: "\<exists>details. check_result = Inr details \<and> charged env al1 tx details vd" if "v = Loadable vd" for vd
    using v that validate_live(2) by (cases check_result) (auto simp: charged_view [OF view])
  have no_op: "\<exists>details. check_result = Inr details \<and> cd_nonce_address details = None" if "v = ValidationNoOp no" for no
    using v that validate_no_op by (cases check_result) auto
  note load = load_transaction_result [OF load assms(2) loadable no_op]
  show "live env al' = live env al" "loading_result env al tx check_result lr"
    using load by (simp_all only: view loading_result_view [OF view])
qed

subsection \<open>Recording balances\<close>

lemma token_balance_live:
  "collect_token_balance env tx index key account al = (info, al') \<Longrightarrow> live env al' = live env al"
  using load_account_live(1)
  by (fastforce simp: collect_token_balance_def unpack_token_account_def Let_def split: if_splits option.splits prod.splits)

lemma collect_balances_live:
  "collect_balances env tx index keys al = ((native, token), al') \<Longrightarrow>
   live env al' = live env al \<and> map uint native = map (balance env al) keys"
proof (induction keys arbitrary: index al native token)
  case (Cons key keys)
  obtain account al1 where load: "load_account env key al = (account, al1)"
    by (cases "load_account env key al")
  note al1 = load_account_live(1) [OF load] load_account_balance [OF load]
  show ?case
  proof (cases account)
    case None
    then show ?thesis
      using Cons.prems load al1 by (auto split: prod.splits dest!: Cons.IH)
  next
    case (Some x)
    obtain info al2 where info: "collect_token_balance env tx index key x al1 = (info, al2)"
      by (cases "collect_token_balance env tx index key x al1")
    show ?thesis
      using Cons.prems load al1 Some info token_balance_live [OF info] by (auto split: prod.splits dest!: Cons.IH)
  qed
qed simp

lemma pre_balances_live: "collect_pre_balances env tx (bc, al) = (bc', al') \<Longrightarrow> live env al' = live env al"
  by (auto simp: collect_pre_balances_def split: option.splits prod.splits dest!: collect_balances_live)

lemma post_balances_live: "collect_post_balances env tx (bc, al) = (bc', al') \<Longrightarrow> live env al' = live env al"
  by (auto simp: collect_post_balances_def split: option.splits prod.splits dest!: collect_balances_live)

subsection \<open>The effect of a transaction\<close>

text \<open>What the crates outside the repository promise: no fee is no fee, and the state of a verified nonce can be written.\<close>

definition svm_laws :: "svm_env \<Rightarrow> bool" where
  "svm_laws env \<longleftrightarrow>
     svm_total_fee env \<lparr>fd_transaction_fee = 0, fd_prioritization_fee = 0\<rparr> = 0 \<and>
     (\<forall>account blockhash data state. verify_nonce_account (svm_nonces_of env) account blockhash = Some data \<longrightarrow>
        nonce_set_state (svm_nonces_of env) state (acc_data account) \<noteq> None)"

definition step_sane ::
  "nat \<Rightarrow> svm_env \<Rightarrow> runtime_env option \<Rightarrow> svm_transaction \<times> (transaction_error + checked_details) \<Rightarrow> bool" where
  "step_sane fuel env programs tx_check \<longleftrightarrow>
     (case tx_check of (tx, check_result) \<Rightarrow>
      transaction_sane env tx \<and> pred_option (runtime_agrees env) programs \<and>
      (\<forall>details. check_result = Inr details \<longrightarrow>
         eb_max_instruction_trace_length (cd_compute_budget details) < 2 ^ 16 \<and>
         eb_max_instruction_stack_depth (cd_compute_budget details) \<le> fuel))"

definition fee_charged :: "svm_env \<Rightarrow> processing_result \<Rightarrow> int" where
  "fee_charged env r = (case r of Inl _ \<Rightarrow> 0 | Inr processed \<Rightarrow> uint (svm_total_fee env (processed_fee_details processed)))"

text \<open>The accounts that are stored for a result, and their effect on the loader and on the lamports.\<close>

definition stored_effect ::
  "svm_env \<Rightarrow> svm_transaction \<Rightarrow> processing_result \<Rightarrow> account_loader \<Rightarrow> account_loader \<Rightarrow> keyed_account list \<Rightarrow> bool" where
  "stored_effect env tx r al al' stored \<longleftrightarrow>
     (\<forall>sofar. collect_accounts_of_result (r, tx) sofar = Some (sofar @ stored)) \<and>
     live env al' = store_accounts stored (live env al) \<and>
     (\<forall>K. set (tx_account_keys tx) \<subseteq> K \<longrightarrow>
        (\<Sum>k \<in> K. balance env al' k) + fee_charged env r = (\<Sum>k \<in> K. balance env al k))"

lemma stored_effect_view:
  assumes "live env al1 = live env al" "live env al2' = live env al'"
  shows "stored_effect env tx r al1 al2' = stored_effect env tx r al al'"
  by (intro ext) (simp add: stored_effect_def assms)

lemma unprocessed_effect: "stored_effect env tx (Inl e) al al []"
  by (simp add: stored_effect_def collect_accounts_of_result_def fee_charged_def)

lemma unprocessed_stores: "\<exists>stored. stored_effect env tx (Inl e) al al stored"
  using unprocessed_effect by blast

lemma failed_effect:
  assumes "charged env al tx details vd" "transaction_sane env tx"
    and "\<forall>sofar. collect_accounts_of_result (r, tx) sofar = Some (sofar @ rollback_iter (vd_rollback_accounts vd))"
    and "fee_charged env r = uint (svm_total_fee env (cd_fee_details details))"
  shows "stored_effect env tx r al (update_accounts_for_failed_tx (vd_rollback_accounts vd) slot al)
    (rollback_iter (vd_rollback_accounts vd))"
proof -
  have "tx_fee_payer tx \<in> set (tx_account_keys tx)"
    using assms(2) by (cases "tx_account_keys tx") (simp_all add: transaction_sane_def)
  then show ?thesis
    using assms(3,4) failed_total [OF assms(1)] by (auto simp: stored_effect_def live_failed)
qed

lemma executable_loaded:
  assumes "loading_result env al tx check_result (Loaded lt)" "step_sane fuel env (Some runtime) (tx, check_result)"
  shows "executable fuel env runtime tx lt"
  using assms by (auto simp: loading_result_def step_sane_def executable_def loaded_from_def)

lemma process_executed_effect:
  assumes "loading_result env al tx check_result (Loaded lt)" "step_sane fuel env (Some runtime) (tx, check_result)"
    and "execute_loaded_transaction fuel runtime env config tx lt = Some ex"
  shows "\<exists>r al' stored. process_executed env config tx ex al = Some (r, al') \<and> stored_effect env tx r al al' stored"
proof -
  note exec = executable_loaded [OF assms(1,2)]
  obtain details vd where load: "charged env al tx details vd" "lt_fee_details lt = cd_fee_details details"
    "lt_rollback_accounts lt = vd_rollback_accounts vd"
    "loaded_from env al tx (svm_total_fee env (cd_fee_details details)) (lt_accounts lt)"
    using assms(1) by (auto simp: loading_result_def)
  have sane: "transaction_sane env tx"
    using assms(2) by (simp add: step_sane_def)
  note same = executed_same [OF assms(3)]
  show ?thesis
  proof (cases "ex_status ex")
    case (Inl err)
    have "stored_effect env tx (Inr (Executed ex)) al (update_accounts_for_failed_tx (lt_rollback_accounts lt) (svm_slot env) al)
        (rollback_iter (lt_rollback_accounts lt))"
      using failed_effect [OF load(1) sane, of "Inr (Executed ex)"] Inl load(2,3) same
      by (simp add: collect_accounts_of_result_def collect_accounts_for_failed_tx_def fee_charged_def)
    then show ?thesis
      using Inl same by (auto simp: process_executed_def Let_def intro: unprocessed_stores)
  next
    case (Inr u)
    then have ok: "ex_status ex = Inr ()"
      by simp
    note success = success_accounts [OF exec assms(3) ok]
    let ?accounts = "lt_accounts (ex_loaded_transaction ex)" and ?flags = "lt_touched_flags (ex_loaded_transaction ex)"
    let ?xs = "zip [0..<length (tx_account_keys tx)] ?accounts"
    have flags: "\<forall>(i, _) \<in> set ?xs. is_written_back tx ?flags i \<noteq> None"
      using success(3) by (auto dest!: set_zip_leftD)
    obtain al' where al': "update_accounts_for_successful_tx tx ?accounts ?flags (svm_slot env) al = Some al'"
      "live env al' = store_accounts (written_back tx ?flags ?xs) (live env al)"
      using update_success [OF flags, of "svm_slot env" al env] by (auto simp: update_accounts_for_successful_tx_def)
    have "stored_effect env tx (Inr (Executed ex)) al al' (written_back tx ?flags ?xs)"
      using al'(2) collect_success [OF flags] success_total [OF exec assms(3) ok load(4)] same load(2) Inr
      by (simp add: stored_effect_def collect_accounts_of_result_def collect_accounts_for_successful_tx_def fee_charged_def Let_def)
    then show ?thesis
      using al'(1) Inr by (auto simp: process_executed_def Let_def)
  qed
qed

lemma process_load_result_effect:
  assumes "loading_result env al tx check_result lr" "step_sane fuel env programs (tx, check_result)" "svm_laws env"
  shows "(\<exists>al'. process_load_result fuel programs env config tx lr al = Some (CacheHitMaxLimit, al')) \<or>
    (\<exists>r al' stored. process_load_result fuel programs env config tx lr al = Some (Processed r, al') \<and>
       stored_effect env tx r al al' stored)"
proof (cases lr)
  case (Loaded lt)
  show ?thesis
  proof (cases programs)
    case (Some runtime)
    obtain ex where ex: "execute_loaded_transaction fuel runtime env config tx lt = Some ex"
      using execute_returns [OF executable_loaded] assms(1,2) Loaded Some by blast
    show ?thesis
      using process_executed_effect [OF _ _ ex] assms(1,2) Loaded Some ex by (fastforce simp: process_load_result_def)
  qed (simp add: process_load_result_def Loaded)
next
  case (LoadFeesOnly fo)
  then obtain details vd where "charged env al tx details vd" "fo_fee_details fo = cd_fee_details details"
    "fo_rollback_accounts fo = vd_rollback_accounts vd"
    using assms(1) by (auto simp: loading_result_def)
  then have "stored_effect env tx (Inr (FeesOnly fo)) al (update_accounts_for_failed_tx (fo_rollback_accounts fo) (svm_slot env) al)
      (rollback_iter (fo_rollback_accounts fo))"
    using failed_effect [of env al tx details vd "Inr (FeesOnly fo)"] assms(2)
    by (simp add: collect_accounts_of_result_def collect_accounts_for_failed_tx_def fee_charged_def step_sane_def)
  then show ?thesis
    by (auto simp: process_load_result_def LoadFeesOnly intro: unprocessed_stores)
next
  case (LoadNoOp no)
  have "stored_effect env tx (Inr (NoOp no)) al al []"
    using assms(3) by (simp add: stored_effect_def collect_accounts_of_result_def fee_charged_def svm_laws_def)
  then show ?thesis
    by (auto simp: process_load_result_def LoadNoOp intro: unprocessed_stores)
next
  case (LoadUnprocessable e)
  then show ?thesis
    by (auto simp: process_load_result_def intro: unprocessed_stores)
qed

subsection \<open>No panic before the execution\<close>

lemma those_total: "(\<And>x. x \<in> set xs \<Longrightarrow> f x \<noteq> None) \<Longrightarrow> those (map f xs) \<noteq> None"
  by (induction xs) (auto split: option.splits)

lemma construct_instructions_total:
  assumes "transaction_sane env tx"
  shows "construct_instructions_account env tx \<noteq> None"
proof -
  have "decompile_instruction tx ins \<noteq> None" if "ins \<in> set (msg_instructions (tx_message tx))" for ins
  proof -
    have range: "unat (ci_program_id_index ins) < length (tx_account_keys tx)"
      "\<forall>i \<in> set (ci_accounts ins). unat i < length (tx_account_keys tx)"
      using assms that by (simp_all add: transaction_sane_def sanitized_def)
    then have "those (map (decompile_account tx) (ci_accounts ins)) \<noteq> None"
      by (intro those_total) (simp add: decompile_account_def slice_get_def)
    then show ?thesis
      using range(1) by (auto simp: decompile_instruction_def slice_get_def)
  qed
  then show ?thesis
    using those_total [of "msg_instructions (tx_message tx)" "decompile_instruction tx"]
    by (simp add: construct_instructions_account_def del: not_None_eq)
qed

lemma load_transaction_account_total:
  "transaction_sane env tx \<Longrightarrow> load_transaction_account env tx key index al \<noteq> None"
  using construct_instructions_total by (auto simp: load_transaction_account_def split: prod.splits option.splits)

lemma load_remaining_total:
  assumes "transaction_sane env tx"
  shows "load_remaining_accounts env tx index keys st \<noteq> None"
proof (induction keys arbitrary: index st)
  case (Cons key keys)
  obtain l al where load: "load_transaction_account env tx key index (lo_loader st) = Some (l, al)"
    using load_transaction_account_total [OF assms] by fastforce
  show ?case
  proof (cases l)
    case (Inr x)
    obtain r st1 where "collect_loaded_account env (tx_account_keys tx) key x (st\<lparr>lo_loader := al\<rparr>) = (r, st1)"
      by (cases "collect_loaded_account env (tx_account_keys tx) key x (st\<lparr>lo_loader := al\<rparr>)")
    then show ?thesis
      using load Inr Cons.IH by (cases r) (simp_all del: not_None_eq)
  qed (simp add: load)
qed simp

lemma check_program_owners_total:
  assumes "\<forall>ins \<in> set instructions. unat (ci_program_id_index ins) < length (tx_account_keys tx)"
  shows "check_program_owners env tx instructions al \<noteq> None"
  using assms
proof (induction instructions arbitrary: al)
  case (Cons ins instructions)
  obtain account al1 where "load_account env (tx_account_keys tx ! unat (ci_program_id_index ins)) al = (account, al1)"
    by (cases "load_account env (tx_account_keys tx ! unat (ci_program_id_index ins)) al")
  then show ?case
    using Cons by (cases account) (simp_all add: slice_get_def del: not_None_eq)
qed simp

lemma load_transaction_accounts_total:
  assumes "transaction_sane env tx"
  shows "load_transaction_accounts env tx loaded ls al \<noteq> None"
proof -
  let ?st = "\<lparr>lo_loader = al, lo_size = ls, lo_additional = [], lo_accounts = []\<rparr>"
  obtain r1 st1 where inc: "increase_size (usize_saturating_mul (tx_num_lookup_tables tx) address_lookup_table_base_size) ?st
      = (r1, st1)"
    by (cases "increase_size (usize_saturating_mul (tx_num_lookup_tables tx) address_lookup_table_base_size) ?st")
  obtain r2 st2 where collect: "collect_loaded_account env (tx_account_keys tx) (tx_fee_payer tx) loaded st1 = (r2, st2)"
    by (cases "collect_loaded_account env (tx_account_keys tx) (tx_fee_payer tx) loaded st1")
  obtain r3 st3 where rest: "load_remaining_accounts env tx 1 (drop 1 (tx_account_keys tx)) st2 = Some (r3, st3)"
    using load_remaining_total [OF assms] by fastforce
  have "check_program_owners env tx (msg_instructions (tx_message tx)) (lo_loader st3) \<noteq> None"
    using assms by (intro check_program_owners_total) (simp add: transaction_sane_def sanitized_def)
  then show ?thesis
    using inc collect rest
    by (cases r1; cases r2; cases r3) (simp_all add: load_transaction_accounts_def del: not_None_eq)
qed

lemma validate_nonce_total:
  assumes "svm_laws env"
  shows "validate_transaction_nonce env strict tx address durable al \<noteq> None"
proof -
  obtain loaded al1 where "loader_load_transaction_account env address al = (loaded, al1)"
    by (cases "loader_load_transaction_account env address al")
  then show ?thesis
    using assms
    by (auto simp: validate_transaction_nonce_def Let_def svm_laws_def split: option.splits simp del: not_None_eq)
qed

lemma validate_and_load_total:
  assumes "svm_laws env" "transaction_sane env tx"
  shows "validate_and_load env config tx check_result al \<noteq> None"
proof -
  have "validate_transaction_nonce_and_fee_payer env strict tx details al \<noteq> None" for strict details
    using validate_nonce_total [OF assms(1)]
    by (cases "cd_nonce_address details") (simp_all add: validate_transaction_nonce_and_fee_payer_def del: not_None_eq)
  then have "(case check_result of
        Inr tx_details \<Rightarrow> validate_transaction_nonce_and_fee_payer env (cfg_strict_nonce_size_check config) tx tx_details al
      | Inl e \<Rightarrow> Some (ValidationUnprocessable e, al)) \<noteq> None"
    by (cases check_result) (simp_all del: not_None_eq)
  then obtain v al1 where v: "(case check_result of
        Inr tx_details \<Rightarrow> validate_transaction_nonce_and_fee_payer env (cfg_strict_nonce_size_check config) tx tx_details al
      | Inl e \<Rightarrow> Some (ValidationUnprocessable e, al)) = Some (v, al1)"
    by fastforce
  show ?thesis
    using v load_transaction_accounts_total [OF assms(2)]
    by (cases v) (simp_all add: validate_and_load_def load_transaction_def del: not_None_eq)
qed

text \<open>One transaction of a batch, from the check of the bank to the update of the loader.\<close>

lemma process_transaction_effect:
  assumes "step_sane fuel env programs (tx, check_result)" "svm_laws env"
  shows "(\<exists>st'. process_transaction fuel programs env config tx check_result (bc, al) = Some (CacheHitMaxLimit, st')) \<or>
    (\<exists>r bc' al' stored. process_transaction fuel programs env config tx check_result (bc, al) = Some (Processed r, bc', al') \<and>
       stored_effect env tx r al al' stored)"
proof -
  have sane: "transaction_sane env tx"
    using assms(1) by (simp add: step_sane_def)
  obtain lr al1 where load: "validate_and_load env config tx check_result al = Some (lr, al1)"
    using validate_and_load_total [OF assms(2) sane] by fastforce
  obtain bc2 al2 where pre: "collect_pre_balances env tx (bc, al1) = (bc2, al2)"
    by (cases "collect_pre_balances env tx (bc, al1)")
  note view = validate_and_load_result [OF load sane]
  have al2: "live env al2 = live env al"
    using view(1) pre_balances_live [OF pre] by simp
  have "loading_result env al2 tx check_result lr"
    using view(2) by (simp only: loading_result_view [OF al2])
  from process_load_result_effect [OF this assms, of config] show ?thesis
  proof (elim disjE exE conjE)
    fix r al3 stored
    assume step: "process_load_result fuel programs env config tx lr al2 = Some (Processed r, al3)"
      "stored_effect env tx r al2 al3 stored"
    obtain bc4 al4 where post: "collect_post_balances env tx (bc2, al3) = (bc4, al4)"
      by (cases "collect_post_balances env tx (bc2, al3)")
    have "stored_effect env tx r al al4 stored"
      using step(2) by (simp only: stored_effect_view [OF al2 refl] stored_effect_view [OF refl post_balances_live [OF post]])
    then show ?thesis
      using load pre step(1) post by (auto simp: process_transaction_def)
  qed (use load pre in \<open>auto simp: process_transaction_def\<close>)
qed

end
