(* ===== verification/Rent_Safety.thy ===== *)
theory Rent_Safety
  imports Execution
begin

section \<open>Rent after a transaction\<close>

text \<open>
  Which writable accounts a transaction that succeeds may leave below the rent-exempt minimum; and the
  last check of its lamports, which compares the sums before and after, never fails.
\<close>

subsection \<open>Rent states\<close>

text \<open>
  An account may be emptied, hold the minimum for its size, or else stay below it: with the relaxed check
  if it did not lose lamports, grow or change its owner, without it if it paid rent before
  and neither changed its size nor gained lamports.
\<close>

definition rent_kept :: "rent \<Rightarrow> bool \<Rightarrow> account_shared_data \<Rightarrow> account_shared_data \<Rightarrow> bool" where
  "rent_kept rent relax before after \<longleftrightarrow>
     acc_lamports after = 0 \<or>
     rent_min_balance rent (length (acc_data after)) \<le> acc_lamports after \<or>
     (relax \<and> acc_lamports before \<noteq> 0 \<and> acc_lamports before \<le> acc_lamports after \<and>
        length (acc_data after) \<le> length (acc_data before) \<and> acc_owner after = acc_owner before) \<or>
     (\<not> relax \<and> acc_lamports before \<noteq> 0 \<and> acc_lamports before < rent_min_balance rent (length (acc_data before)) \<and>
        length (acc_data after) = length (acc_data before) \<and> acc_lamports after \<le> acc_lamports before)"

lemma transition_kept:
  assumes "transition_allowed (si_rent_state (pre_exec_info rent relax before))
    (si_rent_state (post_exec_info rent relax after (pre_exec_info rent relax before)))"
  shows "rent_kept rent relax before after"
  using assms
  by (auto simp: rent_kept_def pre_exec_info_def post_exec_info_def get_pre_exec_account_rent_state_def
      get_post_exec_account_rent_state_def get_account_rent_state_def Let_def not_le split: if_splits)

lemma verify_changes_checked:
  assumes "verify_changes_from incinerator tc i infos = Some (Inr ())" "j < length infos" "infos ! j = (Some pre, Some post)"
  shows "check_rent_state incinerator (si_rent_state pre) (si_rent_state post) tc (of_nat (i + j)) = Some (Inr ())"
  using assms
proof (induction infos arbitrary: i j)
  case (Cons x infos)
  have rest: "verify_changes_from incinerator tc (Suc i) infos = Some (Inr ())"
    using Cons.prems(1)
    by (cases "(incinerator, tc, i, x # infos)" rule: verify_changes_from.cases) (auto split: option.splits sum.splits)
  show ?case
  proof (cases j)
    case 0
    then show ?thesis
      using Cons.prems(1,3) by (auto split: option.splits sum.splits)
  next
    case (Suc k)
    then show ?thesis
      using Cons.IH [OF rest, of k] Cons.prems(2,3) by simp
  qed
qed simp

lemma check_rent_state_kept:
  assumes "check_rent_state incinerator pre post tc (of_nat i) = Some (Inr ())" "i < length (ta_shared (tc_accounts tc))"
    and "length (ta_shared (tc_accounts tc)) \<le> 2 ^ 16" "sf_key (shared_at (tc_accounts tc) i) \<noteq> incinerator"
  shows "transition_allowed pre post"
proof -
  have "unat (of_nat i :: u16) = i"
    using assms(2,3) by (simp add: unat_of_nat)
  then have "get_key_of_account_at_index (tc_accounts tc) (of_nat i) = Inr (sf_key (shared_at (tc_accounts tc) i))"
    using assms(2) by (simp add: get_key_of_account_at_index_def account_key_def slice_get_def)
  then show ?thesis
    using assms(1,4) by (simp add: check_rent_state_def check_rent_state_with_account_def split: if_splits)
qed

subsection \<open>Examples\<close>

text \<open>
  The example message transfers 30 of 100 lamports. An example nonce account has the value of the nonce
  as the length of its data, and rent is one lamport per byte.
\<close>

definition example_nonces :: svm_nonces where
  "example_nonces = \<lparr>nonce_size = 7,
     verify_nonce_account = (\<lambda>account blockhash. if of_nat (length (acc_data account)) = blockhash
       then Some \<lparr>nd_authority = 11, nd_durable_nonce = blockhash, nd_lamports_per_signature = 0\<rparr> else None),
     nonce_current = NonceCurrent,
     nonce_set_state = (\<lambda>versions data. Some (case versions of
         NonceCurrent (NonceInitialized d) \<Rightarrow> replicate (unat (nd_durable_nonce d)) 0 | _ \<Rightarrow> [])),
     durable_nonce_of = (\<lambda>blockhash. blockhash)\<rparr>"

definition example_database :: "pubkey \<Rightarrow> (account_shared_data \<times> slot) option" where
  "example_database key =
     map_option (\<lambda>account. (account, 0)) (map_of [(11, example_account 0 105 []), (13, example_account 99 50 [7]),
       (14, example_account 0 20 [0, 0, 0, 0, 0, 0, 0]), (0, example_account 5 1 [])] key)"

definition example_svm :: svm_env where
  "example_svm = \<lparr>
     svm_ids = \<lparr>incinerator_id = 70, slot_history_id = 71, svm_native_loader_id = 5, bpf_loader_upgradeable_id = 72,
       bpf_loader_id = 73, bpf_loader_deprecated_id = 74, loader_v4_id = 75\<rparr>,
     svm_features_of = \<lparr>relax_post_exec_min_balance_check = False, define_ltds_fee_only_semantics = False,
       relax_fee_payer_constraint = False\<rparr>,
     svm_nonces_of = example_nonces,
     svm_tokens = \<lparr>is_known_spl_token_id = (\<lambda>_. False), token_account_unpack = (\<lambda>_ _. None), token_mint_unpack = (\<lambda>_ _. None)\<rparr>,
     svm_sysvar = example_sysvar,
     svm_rent = \<lparr>rent_is_exempt = (\<lambda>lamports size. of_nat size \<le> lamports), rent_min_balance = of_nat\<rparr>,
     svm_slot = 1, svm_blockhash = 9, svm_lamports_per_signature = 0,
     svm_total_fee = (\<lambda>details. saturating_add (fd_transaction_fee details) (fd_prioritization_fee details)),
     get_account_shared_data = example_database,
     get_system_account_kind = (\<lambda>_. Some SystemKind),
     programdata_address = (\<lambda>_. None), construct_instructions_data = (\<lambda>_. Some [])\<rparr>"

definition example_transaction :: svm_transaction where
  "example_transaction = \<lparr>tx_message = example_message, tx_fee_payer = 11, tx_recent_blockhash = 7, tx_num_lookup_tables = 0,
     tx_is_invoked = (\<lambda>i. i = 3), tx_is_instruction_account = (\<lambda>i. i = 0 \<or> i = 1 \<or> i = 3), tx_ix_signers = (\<lambda>_. [11])\<rparr>"

definition example_loaded_transaction :: loaded_transaction where
  "example_loaded_transaction = \<lparr>lt_accounts = example_loaded, lt_touched_flags = [],
     lt_fee_details = \<lparr>fd_transaction_fee = 5, fd_prioritization_fee = 0\<rparr>,
     lt_rollback_accounts = FeePayerOnly (11, example_account 0 100 []),
     lt_compute_budget = \<lparr>eb_compute_unit_limit = 1000, eb_max_instruction_stack_depth = 5, eb_max_instruction_trace_length = 64\<rparr>,
     lt_loaded_accounts_data_size = 0\<rparr>"

definition example_config :: processing_config where
  "example_config = \<lparr>cfg_account_overrides = None, cfg_drop_on_failure = False, cfg_all_or_nothing = False,
     cfg_strict_nonce_size_check = False, cfg_drop_noop_transactions = False, cfg_tip_accounts = None,
     cfg_record_return_data = False, cfg_record_balances = True\<rparr>"

lemma example_transaction_simps:
  "tx_message example_transaction = example_message" "tx_fee_payer example_transaction = 11"
  by (simp_all add: example_transaction_def)

lemma example_svm_simps:
  "rent_min_balance (svm_rent example_svm) = of_nat" "relax_post_exec_min_balance_check (svm_features_of example_svm) = False"
  "svm_sysvar example_svm = example_sysvar" "svm_nonces_of example_svm = example_nonces"
  "incinerator_id (svm_ids example_svm) = 70"
  by (simp_all add: example_svm_def)

lemma example_referenced: "referenced example_message i \<longleftrightarrow> i = 0 \<or> i = 1 \<or> i = 3"
  by (auto simp: referenced_def example_message_def)

lemma example_sysvar_id: "instructions_id example_sysvar = 77"
  by (simp add: example_sysvar_def)

lemma example_transaction_sane: "transaction_sane example_svm example_transaction"
proof -
  have "[11, 12, 13, 0 :: pubkey] ! i \<noteq> 77" if "i < 4" for i
    using that nth_mem [of i "[11, 12, 13, 0 :: pubkey]"] by auto
  then show ?thesis
    using example_sanitized
    by (simp add: transaction_sane_def example_transaction_def example_svm_def example_referenced example_sysvar_id)
      (simp add: example_message_def)
qed

lemma example_runtime_agrees: "runtime_agrees example_svm example_builtins"
  using example_builtins_lawful
  by (simp add: runtime_agrees_def example_svm_def) (simp add: example_builtins_def example_runtime_def)

lemma example_executable: "executable 5 example_svm example_builtins example_transaction example_loaded_transaction"
  using example_transaction_sane example_runtime_agrees
  by (simp add: executable_def example_loaded_transaction_def)
    (simp add: example_transaction_def example_message_def example_loaded_def)

lemma example_start_context: "start_context example_transaction example_loaded_transaction = example_start"
  by (simp add: start_context_def example_loaded_transaction_def example_transaction_def example_start_def example_context_def)
    (simp add: example_message_def)

lemma example_positions: "[0..<length (msg_account_keys example_message)] = [0, 1, 2, 3]"
  by (simp add: example_message_def upt_conv_Cons)

lemma example_writable: "msg_is_writable example_message = (\<lambda>i. i < 2)"
  by (simp add: example_message_def)

lemma example_before:
  "iter_writable_accounts example_context example_message =
     [Some (example_account 0 100 []), Some (example_account 0 0 []), None, None]"
  by (simp add: iter_writable_accounts_def example_positions writable_account_def example_writable example_context_simps
      example_accounts_simps try_borrow_def slice_get_def borrow_counter_defs result_ops create_from_existing_def example_account_def)

lemma example_after:
  assumes "tc_accounts tc = example_transferred"
  shows "iter_writable_accounts tc example_message =
     [Some (example_account 0 70 []), Some (example_account 0 30 []), None, None]"
  by (simp add: iter_writable_accounts_def example_positions writable_account_def example_writable assms example_transferred_def
      example_accounts_simps try_borrow_def slice_get_def borrow_counter_defs result_ops create_from_existing_def example_account_def)

lemma example_pre_infos:
  "pre_infos example_svm example_transaction example_loaded_transaction =
     [Some \<lparr>si_rent_state = RentExempt, si_balance = 100, si_data_size = 0, si_owner = 0\<rparr>,
      Some \<lparr>si_rent_state = Uninitialized, si_balance = 0, si_data_size = 0, si_owner = 0\<rparr>, None, None]"
proof -
  have "iter_writable_accounts (inv_transaction_context (start_context example_transaction example_loaded_transaction))
      (tx_message example_transaction) = [Some (example_account 0 100 []), Some (example_account 0 0 []), None, None]"
    by (simp add: example_start_context example_start_def example_transaction_simps example_before)
  then show ?thesis
    by (simp add: pre_infos_def new_pre_exec_def pre_exec_info_def example_svm_simps example_account_def
        get_pre_exec_account_rent_state_def get_account_rent_state_def)
qed

lemma example_verified:
  assumes "tc_accounts tc = example_transferred"
  shows "\<exists>post. post_account_state_info example_svm example_message
    (pre_infos example_svm example_transaction example_loaded_transaction) (Inr ()) tc = Some (Inr post)"
proof -
  have key: "\<exists>key. get_key_of_account_at_index (tc_accounts tc) i = Inr key" if "i = 0 \<or> i = 1" for i
    using that assms
    by (auto simp: get_key_of_account_at_index_def account_key_def slice_get_def example_transferred_def example_accounts_simps)
  have "check_rent_state incinerator pre RentExempt tc i = Some (Inr ())" if "i = 0 \<or> i = 1" for incinerator pre i
    using key [OF that] by (auto simp: check_rent_state_def check_rent_state_with_account_def)
  then show ?thesis
    by (simp add: post_account_state_info_def verify_changes_def example_pre_infos new_post_exec_def example_after [OF assms]
        post_exec_info_def example_account_def example_svm_simps get_post_exec_account_rent_state_def get_account_rent_state_def Let_def)
qed

lemma example_executed:
  obtains ex c units where
    "execute_loaded_transaction 5 example_builtins example_svm example_config example_transaction example_loaded_transaction = Some ex"
    "ex_status ex = Inr ()"
    "process_message 5 example_builtins (tx_message example_transaction)
       (start_context example_transaction example_loaded_transaction) 0 = Some (Inr (), c, units)"
    "tc_accounts (inv_transaction_context c) = example_transferred"
proof -
  obtain c where run: "process_message 5 example_builtins example_message example_start 0 = Some (Inr (), c, 150)"
    and c: "tc_accounts (inv_transaction_context c) = example_transferred"
    by (rule example_message_run)
  obtain post where post: "post_account_state_info example_svm example_message
      (pre_infos example_svm example_transaction example_loaded_transaction) (Inr ()) (inv_transaction_context c) = Some (Inr post)"
    using example_verified [OF c] by blast
  have message: "tx_message example_transaction = example_message"
    by (simp add: example_transaction_def)
  obtain ex where ex: "execute_loaded_transaction 5 example_builtins example_svm example_config example_transaction
      example_loaded_transaction = Some ex"
    and "ex = executed_from example_svm example_config example_loaded_transaction (Inr post)
      (execution_record_from (inv_transaction_context c)) 150"
    using run post by (simp add: execute_split message example_start_context)
  then have "ex_status ex = Inr ()"
    using executed_balanced [OF example_executable ex]
    by (auto simp: executed_from_def Let_def balanced_result_def split: if_splits)
  then show thesis
    using that ex run c by (simp add: message example_start_context)
qed

subsection \<open>Properties of an executed transaction\<close>

text \<open>
  C17. Which accounts a transaction that succeeds may leave below the rent-exempt minimum. A writable
  account that is not the incinerator, and that can be borrowed for reading when the message has
  ended, is then empty, or holds the minimum for its size, or is one of these: with
  the relaxed check, an account that was not empty before and neither lost lamports nor grew
  nor changed its owner; without it, an account that was not empty but below the minimum
  before, has kept its size and has not gained lamports, though it may have lost some.
\<close>

theorem rent_state_kept:
  assumes "executable fuel env runtime tx lt" and "execute_loaded_transaction fuel runtime env config tx lt = Some ex"
    and "ex_status ex = Inr ()" and "i < length (tx_account_keys tx)" and "tx_is_writable tx i"
    and "tx_account_keys tx ! i \<noteq> incinerator_id (svm_ids env)"
    and "process_message fuel runtime (tx_message tx) (start_context tx lt) 0 = Some (Inr (), c, units)"
    and "try_borrow (of_nat i) (tc_accounts (inv_transaction_context c)) = Inr ta"
  shows "rent_kept (svm_rent env) (relax_post_exec_min_balance_check (svm_features_of env))
    (snd (lt_accounts lt ! i)) (snd (lt_accounts (ex_loaded_transaction ex) ! i))"
proof -
  let ?tc = "inv_transaction_context c" and ?relax = "relax_post_exec_min_balance_check (svm_features_of env)"
  let ?before = "snd (lt_accounts lt ! i)" and ?after = "snd (lt_accounts (ex_loaded_transaction ex) ! i)"
  obtain post where post: "post_account_state_info env (tx_message tx) (pre_infos env tx lt) (Inr ()) ?tc = Some (Inr post)"
    and accounts: "lt_accounts (ex_loaded_transaction ex) = deconstruct_into_keyed_account_shared_data (tc_accounts ?tc)"
    by (rule executed_success [OF assms(1-3)]) (use assms(7) in auto)
  note final = executable_final [OF assms(1,7)]
  note len = executable_length [OF assms(1)]
  have shared: "length (ta_shared (tc_accounts ?tc)) = length (tx_account_keys tx)"
    using final(3) by (metis length_map)
  have "writable_account (transaction_accounts_new (lt_accounts lt)) (tx_message tx) i = Some ?before"
    using assms(4,5) len new_accounts_nth(2) [of i "lt_accounts lt"]
    by (simp add: writable_account_def try_borrow_def slice_get_def unat_of_nat)
      (simp add: transaction_accounts_new_def borrow_counter_defs)
  then have pre: "pre_infos env tx lt ! i = Some (pre_exec_info (svm_rent env) ?relax ?before)"
    using assms(4) by (simp add: pre_infos_def new_pre_exec_def iter_writable_accounts_def start_context_def
        transaction_context_new_def)
  have "writable_account (tc_accounts ?tc) (tx_message tx) i = Some ?after"
    using assms(4,5,8) shared by (simp add: writable_account_def accounts deconstruct_nth final(4))
  then have post_info: "zip (pre_infos env tx lt) (new_post_exec ?tc (tx_message tx) (pre_infos env tx lt) (svm_rent env) ?relax) ! i =
      (Some (pre_exec_info (svm_rent env) ?relax ?before),
       Some (post_exec_info (svm_rent env) ?relax ?after (pre_exec_info (svm_rent env) ?relax ?before)))"
    using assms(4) pre by (simp add: new_post_exec_def iter_writable_accounts_def)
  have "verify_changes_from (incinerator_id (svm_ids env)) ?tc 0
      (zip (pre_infos env tx lt) (new_post_exec ?tc (tx_message tx) (pre_infos env tx lt) (svm_rent env) ?relax)) = Some (Inr ())"
    using post by (auto simp: post_account_state_info_def Let_def and_then_Inr verify_changes_def)
  from verify_changes_checked [OF this _ post_info] have check: "check_rent_state (incinerator_id (svm_ids env))
      (si_rent_state (pre_exec_info (svm_rent env) ?relax ?before))
      (si_rent_state (post_exec_info (svm_rent env) ?relax ?after (pre_exec_info (svm_rent env) ?relax ?before))) ?tc (of_nat i) =
    Some (Inr ())"
    using assms(4) by (simp add: new_post_exec_def iter_writable_accounts_def)
  have "sf_key (shared_at (tc_accounts ?tc) i) = tx_account_keys tx ! i"
    using arg_cong [OF final(3), of "\<lambda>keys. keys ! i"] assms(4) shared by simp
  then show ?thesis
    using check_rent_state_kept [OF check] assms(4,6) len shared by (intro transition_kept) simp
qed

text \<open>
  The check that a transaction neither creates nor destroys lamports, which the processor makes after
  the execution as a last defence, never fails: programs that keep the rules for accounts cannot
  bring a transaction to the error that reports it.
\<close>

lemma balance_check_never_fails:
  assumes "executable fuel env runtime tx lt" and "execute_loaded_transaction fuel' runtime env config tx lt = Some ex"
  shows "ex_status ex \<noteq> Inl UnbalancedTransaction"
  using assms by (rule executed_balanced)

theorem rent_state_kept_witness:
  "\<exists>ex. execute_loaded_transaction 5 example_builtins example_svm example_config example_transaction example_loaded_transaction =
       Some ex \<and> rent_kept (svm_rent example_svm) False (example_account 0 100 []) (snd (lt_accounts (ex_loaded_transaction ex) ! 0))"
proof -
  obtain ex c units where ex: "execute_loaded_transaction 5 example_builtins example_svm example_config example_transaction
      example_loaded_transaction = Some ex" "ex_status ex = Inr ()"
    and run: "process_message 5 example_builtins (tx_message example_transaction)
       (start_context example_transaction example_loaded_transaction) 0 = Some (Inr (), c, units)"
    and c: "tc_accounts (inv_transaction_context c) = example_transferred"
    by (rule example_executed)
  have "\<exists>ta. try_borrow (of_nat 0) (tc_accounts (inv_transaction_context c)) = Inr ta"
    by (simp add: c example_transferred_def example_accounts_simps try_borrow_def slice_get_def borrow_counter_defs result_ops)
  then obtain ta where "try_borrow (of_nat 0) (tc_accounts (inv_transaction_context c)) = Inr ta"
    by blast
  note kept = rent_state_kept [OF example_executable ex _ _ _ run this]
  have "snd (lt_accounts example_loaded_transaction ! 0) = example_account 0 100 []"
    by (simp add: example_loaded_transaction_def example_loaded_def)
  moreover have "0 < length (tx_account_keys example_transaction)" "tx_is_writable example_transaction 0"
    "tx_account_keys example_transaction ! 0 \<noteq> incinerator_id (svm_ids example_svm)"
    "\<not> relax_post_exec_min_balance_check (svm_features_of example_svm)"
    by (simp_all add: example_transaction_def example_message_def example_svm_def)
  ultimately show ?thesis
    using kept ex(1) by auto
qed

end
