(* ===== verification/Batch_Safety.thy ===== *)
theory Batch_Safety
  imports Batch_Step Rent_Safety
begin

section \<open>What a batch does\<close>

text \<open>
  The properties of a batch of transactions. The accounts database is what the loader shows before
  the batch, and storing the accounts of the results is the commit of the batch.
\<close>

subsection \<open>The whole batch\<close>

definition database :: "svm_env \<Rightarrow> pubkey \<Rightarrow> account_shared_data option" where
  "database env key = Option.bind (get_account_shared_data env key) (\<lambda>(account, _). alive account)"

lemma empty_loader_live: "live env Map.empty = database env"
  by (intro ext) (simp add: live_def do_load_def database_def)

definition fees_charged :: "svm_env \<Rightarrow> processing_result list \<Rightarrow> int" where
  "fees_charged env results = (\<Sum>r \<leftarrow> results. fee_charged env r)"

definition commits ::
  "svm_env \<Rightarrow> svm_transaction list \<Rightarrow> processing_result list \<Rightarrow> keyed_account list \<Rightarrow> bool" where
  "commits env txs results stored \<longleftrightarrow>
     collect_accounts_to_store txs results = Some stored \<and>
     (\<forall>K. (\<forall>tx \<in> set txs. set (tx_account_keys tx) \<subseteq> K) \<longrightarrow>
        (\<Sum>k \<in> K. lamports_of (store_accounts stored (database env) k)) + fees_charged env results =
        (\<Sum>k \<in> K. lamports_of (database env k)))"

lemma commits_nothing: "commits env [] [] []"
  by (simp add: commits_def collect_accounts_to_store_def fees_charged_def)

lemma commits_step:
  assumes "commits env txs results stored" "length txs = length results" "live env al = store_accounts stored (database env)"
    and "stored_effect env tx r al al' stored'"
  shows "commits env (txs @ [tx]) (results @ [r]) (stored @ stored')"
    "live env al' = store_accounts (stored @ stored') (database env)"
proof -
  show al': "live env al' = store_accounts (stored @ stored') (database env)"
    using assms(3,4) by (simp add: stored_effect_def)
  have "(\<Sum>k \<in> K. lamports_of (store_accounts (stored @ stored') (database env) k)) + fees_charged env (results @ [r]) =
      (\<Sum>k \<in> K. lamports_of (database env k))"
    if K: "\<forall>x \<in> set (txs @ [tx]). set (tx_account_keys x) \<subseteq> K" for K
  proof -
    have "(\<Sum>k \<in> K. balance env al k) + fees_charged env results = (\<Sum>k \<in> K. lamports_of (database env k))"
      using assms(1,3) K by (simp add: commits_def)
    moreover have "(\<Sum>k \<in> K. balance env al' k) + fee_charged env r = (\<Sum>k \<in> K. balance env al k)"
      using assms(4) [unfolded stored_effect_def, THEN conjunct2, THEN conjunct2] K by auto
    ultimately show ?thesis
      unfolding al' [symmetric] by (simp add: fees_charged_def)
  qed
  moreover have "collect_accounts_to_store (txs @ [tx]) (results @ [r]) = Some (stored @ stored')"
    using assms(1,2,4) by (simp add: commits_def collect_accounts_to_store_def foldM_append stored_effect_def)
  ultimately show "commits env (txs @ [tx]) (results @ [r]) (stored @ stored')"
    by (simp add: commits_def)
qed

lemma collect_errors:
  assumes "\<forall>r \<in> set results. isl r"
  shows "foldM collect_accounts_of_result (zip results txs) sofar = Some sofar" "fees_charged env results = 0"
proof -
  show "foldM collect_accounts_of_result (zip results txs) sofar = Some sofar"
    using assms
  proof (induction results arbitrary: txs)
    case (Cons r results)
    then show ?case
      by (cases txs; cases r) (simp_all add: collect_accounts_of_result_def)
  qed simp
  show "fees_charged env results = 0"
    using assms by (induction results) (auto simp: fees_charged_def fee_charged_def split: sum.splits)
qed

lemma commits_errors:
  assumes "\<forall>r \<in> set results. isl r"
  shows "commits env txs results []"
  using collect_errors [OF assms] by (simp add: commits_def collect_accounts_to_store_def)

lemma process_transactions_commits:
  assumes "svm_laws env" "\<forall>j < length rest. step_sane fuel env (programs (length results + j)) (rest ! j)"
    and "commits env txs results stored" "length txs = length results" "live env al = store_accounts stored (database env)"
    and "n = length results + length rest"
  shows "\<exists>out al' stored'. process_transactions fuel programs env config n rest results (bc, al) = Some (out, al') \<and>
    length (out_processing_results out) = n \<and> commits env (txs @ map fst rest) (out_processing_results out) stored'"
  using assms(2-)
proof (induction rest arbitrary: results txs stored bc al)
  case Nil
  then show ?case
    by auto
next
  case (Cons x rest)
  obtain tx check_result where x: "x = (tx, check_result)"
    by (cases x)
  have sane: "step_sane fuel env (programs (length results)) (tx, check_result)"
    using Cons.prems(1) x by force
  have limit: "commits env (txs @ map fst (x # rest)) (out_processing_results (cache_limit_output n)) []"
    "length (out_processing_results (cache_limit_output n)) = n"
    using commits_errors [of "out_processing_results (cache_limit_output n)"] by (simp_all add: cache_limit_output_def)
  from process_transaction_effect [OF sane assms(1), of config bc al] show ?case
  proof (elim disjE exE conjE)
    fix st'
    assume "process_transaction fuel (programs (length results)) env config tx check_result (bc, al) = Some (CacheHitMaxLimit, st')"
    then show ?case
      using limit x by (cases st') auto
  next
    fix r bc' al' new
    assume step: "process_transaction fuel (programs (length results)) env config tx check_result (bc, al) =
        Some (Processed r, bc', al')"
      and effect: "stored_effect env tx r al al' new"
    note after = commits_step [OF Cons.prems(2-4) effect]
    show ?case
    proof (cases "cfg_all_or_nothing config \<and> isl r")
      case True
      let ?results = "map (\<lambda>_. Inl CommitCancelled) results @ [r] @
        replicate (n - Suc (length results)) (Inl CommitCancelled)"
      have "commits env (txs @ map fst (x # rest)) ?results []"
        using True by (intro commits_errors) auto
      moreover have "length ?results = n"
        using Cons.prems(5) by simp
      ultimately show ?thesis
        using step True x by (auto simp: Let_def)
    next
      case False
      have "\<forall>j < length rest. step_sane fuel env (programs (length (results @ [r]) + j)) (rest ! j)"
        using Cons.prems(1) by auto
      then show ?thesis
        using Cons.IH [of "results @ [r]" "txs @ [tx]" "stored @ new" al' bc'] after step False Cons.prems(3,5) x by auto
    qed
  qed
qed

text \<open>
  C1. A batch neither creates nor destroys lamports. Let the batch run without account overrides, its
  transactions be sanitized and its programs keep the rules for accounts. Then, whatever the
  transactions do, succeed or fail, and whatever else is configured, processing the batch ends
  with one result for each transaction, and when the accounts of the results are stored, all
  accounts together hold what they held before, less the fees of the processed transactions.
\<close>

theorem batch_conserves_lamports:
  assumes "svm_laws env" and "length check_results = length txs" and "cfg_account_overrides config = None"
    and "\<forall>i < length txs. step_sane fuel env (programs i) (txs ! i, check_results ! i)"
  shows "\<exists>out al stored.
    load_and_execute_sanitized_transactions fuel hit_max_limit programs env config txs check_results = Some (out, al) \<and>
    length (out_processing_results out) = length txs \<and>
    collect_accounts_to_store txs (out_processing_results out) = Some stored \<and>
    (\<forall>K. (\<forall>tx \<in> set txs. set (tx_account_keys tx) \<subseteq> K) \<longrightarrow>
       (\<Sum>k \<in> K. lamports_of (store_accounts stored (database env) k)) + fees_charged env (out_processing_results out) =
       (\<Sum>k \<in> K. lamports_of (database env k)))"
proof -
  have al: "account_loader_new env (cfg_account_overrides config) = Map.empty"
    by (simp add: account_loader_new_def assms(3))
  have "\<exists>out al stored.
      load_and_execute_sanitized_transactions fuel hit_max_limit programs env config txs check_results = Some (out, al) \<and>
      length (out_processing_results out) = length txs \<and> commits env txs (out_processing_results out) stored"
  proof (cases hit_max_limit)
    case True
    then show ?thesis
      using commits_errors [of "out_processing_results (cache_limit_output (length txs))" env txs]
      by (auto simp: load_and_execute_sanitized_transactions_def cache_limit_output_def)
  next
    case False
    have "\<exists>out al stored. process_transactions fuel programs env config (length txs) (zip txs check_results) [] (bc, Map.empty) =
        Some (out, al) \<and> length (out_processing_results out) = length txs \<and>
        commits env ([] @ map fst (zip txs check_results)) (out_processing_results out) stored" for bc
      by (rule process_transactions_commits [OF assms(1) _ commits_nothing])
        (use assms(2,4) in \<open>simp_all add: empty_loader_live\<close>)
    then show ?thesis
      using False assms(2) by (simp add: load_and_execute_sanitized_transactions_def al Let_def)
  qed
  then obtain out al stored where
    "load_and_execute_sanitized_transactions fuel hit_max_limit programs env config txs check_results = Some (out, al)"
    "length (out_processing_results out) = length txs" "commits env txs (out_processing_results out) stored"
    by blast
  then show ?thesis
    by (intro exI [of _ out] exI [of _ al] exI [of _ stored]) (simp add: commits_def)
qed

text \<open>
  C9. The transactions of a batch see what will be stored: the accounts that the bank stores for the result
  of a transaction are exactly those that the loader shows to the transactions after it, and
  every other account is as the loader showed it before.
\<close>

theorem loader_agrees_with_store:
  assumes "process_transaction fuel programs env config tx check_result (bc, al) = Some (Processed r, bc', al')"
    and "step_sane fuel env programs (tx, check_result)" and "svm_laws env"
  shows "\<exists>stored. (\<forall>sofar. collect_accounts_of_result (r, tx) sofar = Some (sofar @ stored)) \<and>
    live env al' = store_accounts stored (live env al)"
  using process_transaction_effect [OF assms(2,3), of config bc al] assms(1) by (auto simp: stored_effect_def)

subsection \<open>All or nothing\<close>

lemma process_transactions_atomic:
  assumes "process_transactions fuel programs env config n rest results st = Some (out, al)" "cfg_all_or_nothing config"
    and "\<forall>r \<in> set results. \<not> isl r"
  shows "(\<forall>r \<in> set (out_processing_results out). \<not> isl r) \<or> (\<forall>r \<in> set (out_processing_results out). isl r)"
  using assms(1,3)
proof (induction rest arbitrary: results st)
  case (Cons x rest)
  obtain tx check_result where x: "x = (tx, check_result)"
    by (cases x)
  obtain outcome st' where step: "process_transaction fuel (programs (length results)) env config tx check_result st = Some (outcome, st')"
    using Cons.prems(1) x by (auto split: option.splits)
  show ?case
  proof (cases outcome)
    case CacheHitMaxLimit
    then show ?thesis
      using Cons.prems(1) x step by (cases st') (auto simp: cache_limit_output_def)
  next
    case (Processed r)
    show ?thesis
    proof (cases "isl r")
      case True
      then have "out_processing_results out = map (\<lambda>_. Inl CommitCancelled) results @ [r] @
          replicate (n - Suc (length results)) (Inl CommitCancelled)"
        using Cons.prems(1) x step Processed assms(2) by (auto simp: Let_def)
      then show ?thesis
        using True by auto
    next
      case False
      then show ?thesis
        using Cons.IH [of "results @ [r]" st'] Cons.prems x step Processed by auto
    qed
  qed
qed auto

text \<open>
  C16. A batch that is to be committed as a whole is: if one of its transactions is not processed, none
  of them is, and no account is stored.
\<close>

theorem all_or_nothing_atomic:
  assumes "load_and_execute_sanitized_transactions fuel hit_max_limit programs env config txs check_results = Some (out, al)"
    and "cfg_all_or_nothing config" and "r \<in> set (out_processing_results out)" and "isl r"
  shows "(\<forall>r \<in> set (out_processing_results out). isl r) \<and>
    collect_accounts_to_store txs (out_processing_results out) = Some []"
proof -
  have "\<forall>r \<in> set (out_processing_results out). isl r"
  proof (cases hit_max_limit)
    case True
    then show ?thesis
      using assms(1) by (auto simp: load_and_execute_sanitized_transactions_def cache_limit_output_def Let_def)
  next
    case False
    then show ?thesis
      using process_transactions_atomic [of fuel programs env config "length txs" "zip txs check_results" "[]" _ out al] assms
      by (auto simp: load_and_execute_sanitized_transactions_def Let_def)
  qed
  then show ?thesis
    using collect_errors(1) by (simp add: collect_accounts_to_store_def)
qed

subsection \<open>Failed transactions\<close>

lemma process_transaction_split:
  assumes "process_transaction fuel programs env config tx check_result (bc, al) = Some (Processed r, bc', al')"
    and "transaction_sane env tx"
  obtains lr al2 al3 where "live env al2 = live env al" "loading_result env al tx check_result lr"
    "process_load_result fuel programs env config tx lr al2 = Some (Processed r, al3)" "live env al' = live env al3"
proof -
  obtain lr al1 where load: "validate_and_load env config tx check_result al = Some (lr, al1)"
    using assms(1) by (auto simp: process_transaction_def bind_eq_Some_conv)
  obtain bc2 al2 where pre: "collect_pre_balances env tx (bc, al1) = (bc2, al2)"
    by (cases "collect_pre_balances env tx (bc, al1)")
  obtain outcome al3 where step: "process_load_result fuel programs env config tx lr al2 = Some (outcome, al3)"
    using assms(1) load pre by (auto simp: process_transaction_def)
  have outcome: "outcome = Processed r" "collect_post_balances env tx (bc2, al3) = (bc', al')"
    using assms(1) load pre step by (auto simp: process_transaction_def split: step_outcome.splits)
  show thesis
    by (rule that [OF _ validate_and_load_result(2) [OF load assms(2)] step [unfolded outcome(1)]
          post_balances_live [OF outcome(2)]])
      (simp add: pre_balances_live [OF pre] validate_and_load_result(1) [OF load assms(2)])
qed

text \<open>A transaction that fails either changes nothing, or its rollback accounts are stored.\<close>

lemma failed_step:
  assumes "process_load_result fuel programs env config tx lr al = Some (Processed r, al')" "flattened_result r = Inl e"
    and "loading_result env al tx check_result lr" "svm_laws env"
  shows "(al' = al \<and> fee_charged env r = 0 \<and>
      (\<forall>p. r = Inr p \<longrightarrow> (\<exists>details. check_result = Inr details \<and> cd_nonce_address details = None))) \<or>
    (\<exists>details vd. check_result = Inr details \<and> charged env al tx details vd \<and>
       al' = update_accounts_for_failed_tx (vd_rollback_accounts vd) (svm_slot env) al \<and>
       fee_charged env r = uint (svm_total_fee env (cd_fee_details details)))"
proof (cases lr)
  case (Loaded lt)
  then obtain runtime ex where ex: "execute_loaded_transaction fuel runtime env config tx lt = Some ex"
    and process: "process_executed env config tx ex al = Some (r, al')"
    using assms(1) by (auto simp: process_load_result_def bind_eq_Some_conv split: option.splits)
  obtain err where status: "ex_status ex = Inl err"
    using assms(2) process
    by (cases "ex_status ex") (auto simp: process_executed_def flattened_result_def Let_def)
  obtain details vd where "check_result = Inr details" "charged env al tx details vd"
    "lt_fee_details lt = cd_fee_details details" "lt_rollback_accounts lt = vd_rollback_accounts vd"
    using assms(3) Loaded by (auto simp: loading_result_def)
  then show ?thesis
    using process status executed_same [OF ex]
    by (auto simp: process_executed_def Let_def fee_charged_def split: if_splits)
next
  case (LoadFeesOnly fo)
  then show ?thesis
    using assms(1,3) by (auto simp: process_load_result_def loading_result_def fee_charged_def split: if_splits)
next
  case (LoadNoOp no)
  then show ?thesis
    using assms(1,3,4) by (auto simp: process_load_result_def loading_result_def fee_charged_def svm_laws_def split: if_splits)
next
  case (LoadUnprocessable e)
  then show ?thesis
    using assms(1) by (auto simp: process_load_result_def fee_charged_def)
qed

lemma process_transaction_failed:
  assumes "process_transaction fuel programs env config tx check_result (bc, al) = Some (Processed r, bc', al')"
    and "flattened_result r = Inl e" "transaction_sane env tx" "svm_laws env"
  obtains (unchanged) "live env al' = live env al" "fee_charged env r = 0" 
      "\<And>p. r = Inr p \<Longrightarrow> \<exists>details. check_result = Inr details \<and> cd_nonce_address details = None"
  | (charged) details vd where "check_result = Inr details" "charged env al tx details vd"
      "live env al' = store_accounts (rollback_iter (vd_rollback_accounts vd)) (live env al)"
      "fee_charged env r = uint (svm_total_fee env (cd_fee_details details))"
proof -
  obtain lr al2 al3 where al2: "live env al2 = live env al" and lr: "loading_result env al tx check_result lr"
    and step: "process_load_result fuel programs env config tx lr al2 = Some (Processed r, al3)"
    and al': "live env al' = live env al3"
    by (rule process_transaction_split [OF assms(1,3)])
  have "loading_result env al2 tx check_result lr"
    using lr by (simp only: loading_result_view [OF al2])
  from failed_step [OF step assms(2) this assms(4)] show thesis
  proof (elim disjE exE conjE)
    fix details vd
    assume "check_result = Inr details" "charged env al2 tx details vd"
      "al3 = update_accounts_for_failed_tx (vd_rollback_accounts vd) (svm_slot env) al2"
      "fee_charged env r = uint (svm_total_fee env (cd_fee_details details))"
    then show thesis
      using that(2) [of details vd] al' al2 charged_view [OF al2] by (simp add: live_failed)
  qed (use that(1) al' al2 in simp)
qed

lemma charged_payer:
  assumes "charged env al tx details vd" "cd_nonce_address details = None"
  shows "store_accounts (rollback_iter (vd_rollback_accounts vd)) (live env al) (tx_fee_payer tx) =
    Option.bind (live env al (tx_fee_payer tx)) (\<lambda>payer. alive (payer\<lparr>acc_lamports :=
      word_of_int (uint (acc_lamports payer) - uint (svm_total_fee env (cd_fee_details details)))\<rparr>))"
proof -
  obtain payer account nonce where payer: "live env al (tx_fee_payer tx) = Some payer"
    and fee: "uint (acc_lamports account) + uint (svm_total_fee env (cd_fee_details details)) = uint (acc_lamports payer)"
    and account: "account = (update_rent_exempt_status_for_account (svm_rent env) payer)\<lparr>acc_lamports := acc_lamports account\<rparr>"
    and rollback: "vd_rollback_accounts vd = rollback_accounts_new nonce (tx_fee_payer tx) account (acc_rent_epoch payer)"
    and "map_option ni_address nonce = cd_nonce_address details"
    using assms(1) unfolding charged_def by blast
  then have "vd_rollback_accounts vd = FeePayerOnly (tx_fee_payer tx, account\<lparr>acc_rent_epoch := acc_rent_epoch payer\<rparr>)"
    using assms(2) by (simp add: rollback_accounts_new_def)
  moreover have "account\<lparr>acc_rent_epoch := acc_rent_epoch payer\<rparr> = payer\<lparr>acc_lamports := acc_lamports account\<rparr>"
    by (subst account) (simp add: update_rent_exempt_epoch)
  moreover have "acc_lamports account = word_of_int (uint (acc_lamports payer) - uint (svm_total_fee env (cd_fee_details details)))"
    using fee by (metis add_diff_cancel_right' word_of_int_uint)
  ultimately show ?thesis
    using payer by simp
qed

text \<open>
  C3. A transaction that fails, in whatever way and whatever its programs did before, costs its fee and
  nothing else: the balance of the fee payer sinks by the fee, no other balance changes, and no
  account but the fee payer and the nonce account of the transaction changes at all. Without
  a nonce, the fee payer changes in its balance only.
\<close>

theorem failed_transaction_isolated:
  assumes "process_transaction fuel programs env config tx check_result (bc, al) = Some (Processed r, bc', al')"
    and "flattened_result r = Inl e" and "transaction_sane env tx" and "svm_laws env"
  shows "(\<forall>k. balance env al' k = balance env al k - (if k = tx_fee_payer tx then fee_charged env r else 0)) \<and>
    (\<forall>k. k \<noteq> tx_fee_payer tx \<and> (\<forall>details. check_result = Inr details \<longrightarrow> cd_nonce_address details \<noteq> Some k) \<longrightarrow>
       live env al' k = live env al k) \<and>
    (\<forall>details. check_result = Inr details \<and> cd_nonce_address details = None \<longrightarrow>
       live env al' (tx_fee_payer tx) = Option.bind (live env al (tx_fee_payer tx)) (\<lambda>payer. alive (payer\<lparr>acc_lamports :=
         word_of_int (uint (acc_lamports payer) - fee_charged env r)\<rparr>)))"
  using assms
proof (cases rule: process_transaction_failed)
  case unchanged
  have "Option.bind (live env al k) alive = live env al k" for k
    by (auto simp: live_def alive_def split: bind_splits)
  then show ?thesis
    using unchanged by simp
next
  case (charged details vd)
  then show ?thesis
    using charged_rollback [OF charged(2)] charged_payer [OF charged(2)] by simp
qed

subsection \<open>Durable nonces\<close>

text \<open>
  A nonce that was written is read with its durable value, a nonce account verifies only for the
  blockhash that it stores, and the accounts database returns no account without lamports.
\<close>

definition nonce_format :: "svm_env \<Rightarrow> bool" where
  "nonce_format env \<longleftrightarrow>
     (\<forall>state old data account blockhash d.
        nonce_set_state (svm_nonces_of env) (nonce_current (svm_nonces_of env) (NonceInitialized state)) old = Some data \<longrightarrow>
        verify_nonce_account (svm_nonces_of env) (account\<lparr>acc_data := data\<rparr>) blockhash = Some d \<longrightarrow>
        nd_durable_nonce d = nd_durable_nonce state) \<and>
     (\<forall>account blockhash d. verify_nonce_account (svm_nonces_of env) account blockhash = Some d \<longrightarrow>
        nd_durable_nonce d = blockhash)"

lemma nonce_formatD:
  assumes "nonce_format env"
  shows "nonce_set_state (svm_nonces_of env) (nonce_current (svm_nonces_of env) (NonceInitialized state)) old = Some data \<Longrightarrow>
      verify_nonce_account (svm_nonces_of env) (account\<lparr>acc_data := data\<rparr>) blockhash = Some d \<Longrightarrow>
      nd_durable_nonce d = nd_durable_nonce state"
    and "verify_nonce_account (svm_nonces_of env) account blockhash = Some d \<Longrightarrow> nd_durable_nonce d = blockhash"
  using assms unfolding nonce_format_def by blast+

definition database_live :: "svm_env \<Rightarrow> bool" where
  "database_live env \<longleftrightarrow> (\<forall>key account slot. get_account_shared_data env key = Some (account, slot) \<longrightarrow> acc_lamports account \<noteq> 0)"

lemma loader_load_alive:
  assumes "database_live env" "loader_load_transaction_account env key al = (loaded, al')"
  shows "live env al key = map_option lta_account loaded"
proof -
  have "acc_lamports (lta_account x) \<noteq> 0" if "loaded = Some x" for x
    using assms that
    by (fastforce simp: database_live_def loader_load_transaction_account_def load_account_def do_load_def
        split: prod.splits option.splits if_splits)
  then show ?thesis
    using loader_load_live(2) [OF assms(2)] by (cases loaded) (auto simp: alive_def)
qed

lemma charged_nonce:
  assumes "charged env al tx details vd" "cd_nonce_address details = Some address" "nonce_format env"
  obtains account data old nonce_data where
    "store_accounts (rollback_iter (vd_rollback_accounts vd)) (live env al) address = alive (account\<lparr>acc_data := data\<rparr>)"
    "nonce_set_state (svm_nonces_of env) (nonce_current (svm_nonces_of env) (NonceInitialized nonce_data)) old = Some data"
    "nd_durable_nonce nonce_data = durable_nonce_of (svm_nonces_of env) (svm_blockhash env)"
    "tx_recent_blockhash tx \<noteq> durable_nonce_of (svm_nonces_of env) (svm_blockhash env)"
proof -
  obtain payer account nonce where "live env al (tx_fee_payer tx) = Some payer"
    and rollback: "vd_rollback_accounts vd = rollback_accounts_new nonce (tx_fee_payer tx) account (acc_rent_epoch payer)"
    and nonce: "map_option ni_address nonce = cd_nonce_address details" "pred_option (nonce_ready env al tx) nonce"
    using assms(1) unfolding charged_def by blast
  obtain n where n: "nonce = Some n" "ni_address n = address" "nonce_ready env al tx n"
    using nonce assms(2) by auto
  obtain a data and d :: nonce_data where ni: "ni_account n = a\<lparr>acc_data := data\<rparr>"
    and set: "nonce_set_state (svm_nonces_of env) (nonce_current (svm_nonces_of env) (NonceInitialized \<lparr>
           nd_authority = nd_authority d, nd_durable_nonce = durable_nonce_of (svm_nonces_of env) (svm_blockhash env),
           nd_lamports_per_signature = svm_lamports_per_signature env\<rparr>)) (acc_data a) = Some data"
    and old: "verify_nonce_account (svm_nonces_of env) a (tx_recent_blockhash tx) = Some d"
      "nd_durable_nonce d \<noteq> durable_nonce_of (svm_nonces_of env) (svm_blockhash env)"
    using n(3) unfolding nonce_ready_def by blast
  have "store_accounts (rollback_iter (vd_rollback_accounts vd)) (live env al) address =
      alive ((if tx_fee_payer tx = address then account else a)\<lparr>acc_data := data\<rparr>)"
    using n(1,2) ni by (simp add: rollback rollback_accounts_new_def)
  moreover have "tx_recent_blockhash tx \<noteq> durable_nonce_of (svm_nonces_of env) (svm_blockhash env)"
    using nonce_formatD(2) [OF assms(3) old(1)] old(2) by simp
  ultimately show thesis
    by (intro that [OF _ set]) simp_all
qed

text \<open>
  C18. A durable nonce pays for one transaction only. After a transaction with a nonce was processed and
  failed, and as long as the nonce account is what it left, the nonce is refused: to every transaction
  under the same blockhash, so in the rest of the batch, and in every later batch under any blockhash
  to a transaction with the recent blockhash of the failed one, so that it cannot be replayed
  to take its fee again.
\<close>

theorem failed_nonce_used_up:
  assumes "process_transaction fuel programs env config tx (Inr details) (bc, al) = Some (Processed (Inr p), bc', al')"
    and "processed_status p = Inl e" and "cd_nonce_address details = Some address"
    and "transaction_sane env tx" and "svm_laws env" and "nonce_format env"
    and "svm_nonces_of env' = svm_nonces_of env" and "database_live env'"
    and "live env' al2 address = live env al' address"
    and "svm_blockhash env' = svm_blockhash env \<or> tx_recent_blockhash tx' = tx_recent_blockhash tx"
  shows "\<exists>e' al3. validate_transaction_nonce env' strict tx' address
    (durable_nonce_of (svm_nonces_of env') (svm_blockhash env')) al2 = Some (Inl e', al3)"
proof -
  have failed: "flattened_result (Inr p) = Inl e"
    using assms(2) by (simp add: flattened_result_def)
  obtain vd where vd: "charged env al tx details vd"
    "live env al' = store_accounts (rollback_iter (vd_rollback_accounts vd)) (live env al)"
    using process_transaction_failed [OF assms(1) failed assms(4,5)] assms(3) by (metis Inr_inject option.distinct(1))
  obtain account data old nonce_data where live: "live env' al2 address = alive (account\<lparr>acc_data := data\<rparr>)"
    and set: "nonce_set_state (svm_nonces_of env) (nonce_current (svm_nonces_of env) (NonceInitialized nonce_data)) old = Some data"
    and durable: "nd_durable_nonce nonce_data = durable_nonce_of (svm_nonces_of env) (svm_blockhash env)"
    and used: "tx_recent_blockhash tx \<noteq> durable_nonce_of (svm_nonces_of env) (svm_blockhash env)"
    using charged_nonce [OF vd(1) assms(3,6)] vd(2) assms(9) by metis
  obtain loaded al3 where load: "loader_load_transaction_account env' address al2 = (loaded, al3)"
    by (cases "loader_load_transaction_account env' address al2")
  show ?thesis
  proof (cases loaded)
    case (Some x)
    then have "lta_account x = account\<lparr>acc_data := data\<rparr>"
      using loader_load_alive [OF assms(8) load] live by (auto simp: alive_def split: if_splits)
    then have "nd_durable_nonce d = durable_nonce_of (svm_nonces_of env) (svm_blockhash env) \<and>
        tx_recent_blockhash tx' = nd_durable_nonce d"
      if "verify_nonce_account (svm_nonces_of env) (lta_account x) (tx_recent_blockhash tx') = Some d" for d
      using nonce_formatD(1) [OF assms(6) set] nonce_formatD(2) [OF assms(6) that] that durable by simp
    then have "nd_durable_nonce d = durable_nonce_of (svm_nonces_of env') (svm_blockhash env')"
      if "verify_nonce_account (svm_nonces_of env') (lta_account x) (tx_recent_blockhash tx') = Some d" for d
      using that [unfolded assms(7)] assms(7,10) used by auto
    then show ?thesis
      using load Some by (auto simp: validate_transaction_nonce_def Let_def split: option.splits)
  qed (use load in \<open>auto simp: validate_transaction_nonce_def\<close>)
qed

subsection \<open>Examples\<close>

text \<open>
  A transaction with the nonce account 14 whose program, at address 15, does not exist: it pays its fee of 5
  lamports and fails to load.
\<close>

definition example_missing :: message where
  "example_missing = \<lparr>msg_account_keys = [11, 15], msg_is_signer = (\<lambda>i. i = 0), msg_is_writable = (\<lambda>i. i = 0),
     msg_instructions = [\<lparr>ci_program_id_index = 1, ci_accounts = [0], ci_data = []\<rparr>]\<rparr>"

definition example_failing :: svm_transaction where
  "example_failing = \<lparr>tx_message = example_missing, tx_fee_payer = 11, tx_recent_blockhash = 7, tx_num_lookup_tables = 0,
     tx_is_invoked = (\<lambda>i. i = 1), tx_is_instruction_account = (\<lambda>i. i = 0), tx_ix_signers = (\<lambda>_. [11])\<rparr>"

definition example_details :: "pubkey option \<Rightarrow> checked_details" where
  "example_details nonce = \<lparr>cd_nonce_address = nonce,
     cd_compute_budget = \<lparr>eb_compute_unit_limit = 1000, eb_max_instruction_stack_depth = 5, eb_max_instruction_trace_length = 64\<rparr>,
     cd_loaded_accounts_data_size_limit = 1000, cd_fee_details = \<lparr>fd_transaction_fee = 5, fd_prioritization_fee = 0\<rparr>\<rparr>"

lemma example_laws: "svm_laws example_svm" "nonce_format example_svm" "database_live example_svm"
  by (auto simp: svm_laws_def nonce_format_def database_live_def example_svm_def example_nonces_def saturating_add_def
      example_database_def example_account_def split: if_splits)

lemma example_failing_sane: "transaction_sane example_svm example_failing"
proof -
  have "sanitized example_missing" "referenced example_missing i \<longleftrightarrow> i = 0" for i
    by (auto simp: sanitized_def referenced_def example_missing_def)
  moreover have "[11, 15 :: pubkey] ! i \<noteq> 77" if "i < Suc (Suc 0)" for i
    using that nth_mem [of i "[11, 15 :: pubkey]"] by auto
  ultimately show ?thesis
    by (simp add: transaction_sane_def example_failing_def example_svm_simps example_sysvar_id) (simp add: example_missing_def)
qed

lemma example_load:
  assumes "al key = None"
  shows "load_account example_svm key al =
    (case example_database key of
       Some (account, slot) \<Rightarrow> (Some account, al(key \<mapsto> (account, slot)))
     | None \<Rightarrow> (None, al(key \<mapsto> (account_default, 0))))"
  using assms by (simp add: load_account_def do_load_def example_svm_def split: option.split)

lemma example_nonce_valid:
  "\<exists>nonce al. validate_transaction_nonce example_svm False example_failing 14 9 Map.empty = Some (Inr nonce, al) \<and>
     ni_address nonce = 14 \<and> al = [14 \<mapsto> (example_account 0 20 [0, 0, 0, 0, 0, 0, 0], 0)]"
  by (simp add: validate_transaction_nonce_def loader_load_transaction_account_def example_load example_database_def
      example_svm_simps example_nonces_def example_failing_def example_account_def)

lemma example_failing_simps:
  "tx_fee_payer example_failing = 11" "tx_account_keys example_failing = [11, 15]" "tx_num_lookup_tables example_failing = 0"
  "msg_instructions (tx_message example_failing) = [\<lparr>ci_program_id_index = 1, ci_accounts = [0], ci_data = []\<rparr>]"
  "tx_is_writable example_failing = (\<lambda>i. i = 0)"
  by (simp_all add: example_failing_def example_missing_def)

lemma example_fee_charged:
  "validate_fee_payer example_svm (update_rent_exempt_status_for_account (svm_rent example_svm) (example_account 0 105 [])) 0
     (svm_total_fee example_svm (cd_fee_details (example_details address))) =
   Inr (example_account 0 100 []\<lparr>acc_rent_epoch := - 1\<rparr>)"
  by (simp add: validate_fee_payer_def update_rent_exempt_status_for_account_def example_svm_def example_details_def
      example_account_def rent_exempt_rent_epoch_def saturating_add_def checked_sub_def
      check_static_account_rent_state_transition_def get_pre_exec_account_rent_state_def get_post_exec_account_rent_state_def
      get_account_rent_state_def Let_def)

lemma example_fee_payer_valid:
  assumes "al 11 = None"
  shows "\<exists>vd. validate_transaction_fee_payer example_svm example_failing nonce (example_details address) al =
      (Inr vd, al(11 \<mapsto> (example_account 0 105 [], 0))) \<and>
    vd_loaded_fee_payer_account vd = \<lparr>lta_account = example_account 0 100 []\<lparr>acc_rent_epoch := - 1\<rparr>, lta_loaded_size = 64\<rparr> \<and>
    vd_loaded_accounts_bytes_limit vd = 1000"
proof -
  have "loader_load_transaction_account example_svm 11 al =
      (Some \<lparr>lta_account = example_account 0 105 [], lta_loaded_size = 64\<rparr>, al(11 \<mapsto> (example_account 0 105 [], 0)))"
    by (simp add: loader_load_transaction_account_def example_load [of al 11, OF assms] example_database_def
        usize_saturating_add_def transaction_account_base_size_def) (simp add: example_account_def)
  then show ?thesis
    by (simp add: validate_transaction_fee_payer_def example_failing_simps example_fee_charged) (simp add: example_details_def)
qed

lemma example_load_failing:
  assumes "al 15 = None"
  shows "\<exists>ls al'. load_transaction_accounts example_svm example_failing
      \<lparr>lta_account = example_account 0 100 []\<lparr>acc_rent_epoch := - 1\<rparr>, lta_loaded_size = 64\<rparr> (with_max_size 1000) al =
    Some (Inl ProgramAccountNotFound, ls, al')"
proof -
  have "load_account example_svm 15 al = (None, al(15 \<mapsto> (account_default, 0)))"
    by (simp add: example_load [of al 15, OF assms] example_database_def)
  moreover have "load_account example_svm 15 (al(15 \<mapsto> (account_default, 0))) = (None, al(15 \<mapsto> (account_default, 0)))"
    by (simp add: load_account_def do_load_def) (simp add: account_default_def)
  moreover have "count_programdata example_svm [11, 15] account st = (Inr (), st)" for account st
    by (simp add: count_programdata_def example_svm_def)
  moreover have "saturating_add (0 :: u32) 64 = 64" "saturating_add (64 :: u32) 0 = 64" "saturating_add (0 :: u32) 0 = 0"
    by (simp_all add: saturating_add_def)
  ultimately show ?thesis
    by (simp add: load_transaction_accounts_def increase_size_def increase_calculated_data_size_def with_max_size_def Let_def
        usize_saturating_mul_def example_failing_simps collect_loaded_account_def load_transaction_account_def
        loader_load_transaction_account_def example_svm_simps example_sysvar_id slice_get_def)
      (simp add: account_default_def)
qed

lemma example_failing_processed:
  assumes "\<not> cfg_drop_on_failure config" "\<not> cfg_strict_nonce_size_check config"
  shows "\<exists>p bc al. process_transaction 5 None example_svm config example_failing (Inr (example_details (Some 14))) (None, Map.empty) =
     Some (Processed (Inr p), bc, al) \<and> processed_status p = Inl ProgramAccountNotFound"
proof -
  let ?details = "example_details (Some 14)"
  obtain nonce al where nonce: "validate_transaction_nonce example_svm False example_failing 14 9 Map.empty = Some (Inr nonce, al)"
    "al = [14 \<mapsto> (example_account 0 20 [0, 0, 0, 0, 0, 0, 0], 0)]"
    using example_nonce_valid by blast
  let ?al = "al(11 \<mapsto> (example_account 0 105 [], 0))"
  obtain vd where vd: "validate_transaction_fee_payer example_svm example_failing (Some nonce) ?details al = (Inr vd, ?al)"
    "vd_loaded_fee_payer_account vd = \<lparr>lta_account = example_account 0 100 []\<lparr>acc_rent_epoch := - 1\<rparr>, lta_loaded_size = 64\<rparr>"
    "vd_loaded_accounts_bytes_limit vd = 1000"
    using example_fee_payer_valid [of al "Some nonce" "Some 14"] nonce(2) by auto
  have "durable_nonce_of (svm_nonces_of example_svm) (svm_blockhash example_svm) = 9"
    by (simp add: example_svm_def example_nonces_def)
  then have valid: "validate_transaction_nonce_and_fee_payer example_svm False example_failing ?details Map.empty = Some (Loadable vd, ?al)"
    using nonce(1) vd(1)
    by (simp add: validate_transaction_nonce_and_fee_payer_def validate_fee_payer_or_no_op_def example_details_def)
  obtain ls al' where "load_transaction_accounts example_svm example_failing (vd_loaded_fee_payer_account vd) (with_max_size 1000) ?al =
      Some (Inl ProgramAccountNotFound, ls, al')"
    using example_load_failing [of ?al] nonce(2) vd(2) by auto
  then have "\<exists>fo. validate_and_load example_svm config example_failing (Inr ?details) Map.empty = Some (LoadFeesOnly fo, al') \<and>
      fo_load_error fo = ProgramAccountNotFound"
    using valid vd(3) assms(2) by (simp add: validate_and_load_def load_transaction_def)
  then show ?thesis
    using assms(1)
    by (auto simp: process_transaction_def collect_pre_balances_def collect_post_balances_def process_load_result_def)
qed

lemma example_config_simps: "\<not> cfg_drop_on_failure example_config" "\<not> cfg_strict_nonce_size_check example_config"
  by (simp_all add: example_config_def)

text \<open>A batch with a transaction that can run, one that fails to load and one that the bank has refused.\<close>

definition example_batch :: "svm_transaction list" where
  "example_batch = [example_transaction, example_failing, example_transaction]"

definition example_checks :: "(transaction_error + checked_details) list" where
  "example_checks = [Inr (example_details None), Inr (example_details (Some 14)), Inl AccountInUse]"

lemma example_step_sane:
  assumes "tx = example_transaction \<or> tx = example_failing"
    and "check_result \<in> {Inr (example_details None), Inr (example_details (Some 14)), Inl AccountInUse}"
  shows "step_sane 5 example_svm (Some example_builtins) (tx, check_result)" "step_sane 5 example_svm None (tx, check_result)"
  using assms example_transaction_sane example_failing_sane example_runtime_agrees
  by (auto simp: step_sane_def example_details_def)

lemma example_batch_sane:
  "\<forall>i < length example_batch. step_sane 5 example_svm (Some example_builtins) (example_batch ! i, example_checks ! i)"
  using example_step_sane(1)
  by (auto simp: example_batch_def example_checks_def less_Suc_eq nth_Cons')

theorem batch_conserves_lamports_witness:
  "\<exists>out al stored. load_and_execute_sanitized_transactions 5 False (\<lambda>_. Some example_builtins) example_svm example_config
       example_batch example_checks = Some (out, al) \<and>
     length (out_processing_results out) = 3 \<and>
     collect_accounts_to_store example_batch (out_processing_results out) = Some stored \<and>
     (\<Sum>k \<in> UNIV. lamports_of (store_accounts stored (database example_svm) k)) +
       fees_charged example_svm (out_processing_results out) = (\<Sum>k \<in> UNIV. lamports_of (database example_svm k))"
proof -
  have "length example_checks = length example_batch" "cfg_account_overrides example_config = None"
    "length example_batch = 3"
    by (simp_all add: example_batch_def example_checks_def example_config_def)
  then show ?thesis
    using batch_conserves_lamports [OF example_laws(1) _ _ example_batch_sane, of example_config False] by fastforce
qed

theorem loader_agrees_with_store_witness:
  "\<exists>r bc al stored. process_transaction 5 None example_svm example_config example_failing (Inr (example_details (Some 14)))
       (None, Map.empty) = Some (Processed r, bc, al) \<and>
     collect_accounts_of_result (r, example_failing) [] = Some stored \<and>
     live example_svm al = store_accounts stored (live example_svm Map.empty)"
proof -
  obtain p bc al where run: "process_transaction 5 None example_svm example_config example_failing
      (Inr (example_details (Some 14))) (None, Map.empty) = Some (Processed (Inr p), bc, al)"
    using example_failing_processed [OF example_config_simps] by blast
  obtain stored where "\<forall>sofar. collect_accounts_of_result (Inr p, example_failing) sofar = Some (sofar @ stored)"
    "live example_svm al = store_accounts stored (live example_svm Map.empty)"
    using loader_agrees_with_store [OF run example_step_sane(2) example_laws(1)] by auto
  then show ?thesis
    using run by fastforce
qed

theorem failed_transaction_isolated_witness:
  "\<exists>r bc al. process_transaction 5 None example_svm example_config example_failing (Inr (example_details (Some 14)))
       (None, Map.empty) = Some (Processed r, bc, al) \<and>
     balance example_svm al 11 = balance example_svm Map.empty 11 - fee_charged example_svm r \<and>
     live example_svm al 13 = live example_svm Map.empty 13"
proof -
  obtain p bc al where run: "process_transaction 5 None example_svm example_config example_failing
      (Inr (example_details (Some 14))) (None, Map.empty) = Some (Processed (Inr p), bc, al)"
    and status: "processed_status p = Inl ProgramAccountNotFound"
    using example_failing_processed [OF example_config_simps] by blast
  have "flattened_result (Inr p) = Inl ProgramAccountNotFound"
    using status by (simp add: flattened_result_def)
  note isolated = failed_transaction_isolated [OF run this example_failing_sane example_laws(1)]
  have "cd_nonce_address (example_details (Some 14)) \<noteq> Some 13"
    by (simp add: example_details_def)
  then show ?thesis
    using isolated run by (auto simp: example_failing_simps)
qed

theorem failed_nonce_used_up_witness:
  "\<exists>r bc al. process_transaction 5 None example_svm example_config example_failing (Inr (example_details (Some 14)))
       (None, Map.empty) = Some (Processed r, bc, al) \<and>
     (\<exists>e al'. validate_transaction_nonce (example_svm\<lparr>svm_blockhash := 8\<rparr>) False example_failing 14 8 al = Some (Inl e, al'))"
proof -
  obtain p bc al where run: "process_transaction 5 None example_svm example_config example_failing
      (Inr (example_details (Some 14))) (None, Map.empty) = Some (Processed (Inr p), bc, al)"
    and status: "processed_status p = Inl ProgramAccountNotFound"
    using example_failing_processed [OF example_config_simps] by blast
  let ?later = "example_svm\<lparr>svm_blockhash := 8\<rparr>"
  have "cd_nonce_address (example_details (Some 14)) = Some 14" "svm_nonces_of ?later = svm_nonces_of example_svm"
    "durable_nonce_of (svm_nonces_of ?later) (svm_blockhash ?later) = 8"
    by (simp_all add: example_details_def example_svm_simps example_nonces_def)
  moreover have "database_live ?later" "live ?later al 14 = live example_svm al 14"
    using example_laws(3) by (auto simp: database_live_def live_def do_load_def split: option.split)
  ultimately show ?thesis
    using failed_nonce_used_up [OF run status _ example_failing_sane example_laws(1,2), of 14 ?later al example_failing False] run
    by fastforce
qed

theorem all_or_nothing_atomic_witness:
  "\<exists>out al. load_and_execute_sanitized_transactions 5 False (\<lambda>_. None) example_svm
       (example_config\<lparr>cfg_all_or_nothing := True, cfg_record_balances := False\<rparr>)
       [example_failing, example_transaction] [Inr (example_details (Some 14)), Inl AccountInUse] = Some (out, al) \<and>
     collect_accounts_to_store [example_failing, example_transaction] (out_processing_results out) = Some []"
proof -
  let ?config = "example_config\<lparr>cfg_all_or_nothing := True, cfg_record_balances := False\<rparr>"
  let ?run = "load_and_execute_sanitized_transactions 5 False (\<lambda>_. None) example_svm ?config
      [example_failing, example_transaction] [Inr (example_details (Some 14)), Inl AccountInUse]"
  obtain p bc al where one: "process_transaction 5 None example_svm ?config example_failing (Inr (example_details (Some 14))) (None, Map.empty) =
      Some (Processed (Inr p), bc, al)"
    using example_failing_processed [of ?config] example_config_simps by auto
  have "\<exists>st. process_transaction 5 None example_svm ?config example_transaction (Inl AccountInUse) (bc, al) =
      Some (Processed (Inl AccountInUse), st)"
    by (cases "collect_pre_balances example_svm example_transaction (bc, al)")
      (simp add: process_transaction_def validate_and_load_def load_transaction_def process_load_result_def)
  then obtain st where two: "process_transaction 5 None example_svm ?config example_transaction (Inl AccountInUse) (bc, al) =
      Some (Processed (Inl AccountInUse), st)"
    by blast
  have "account_loader_new example_svm (cfg_account_overrides ?config) = Map.empty"
    by (simp add: account_loader_new_def example_config_def)
  then obtain out al2 where run: "?run = Some (out, al2)" "Inl AccountInUse \<in> set (out_processing_results out)"
    using one two by (auto simp: load_and_execute_sanitized_transactions_def Let_def)
  then show ?thesis
    using all_or_nothing_atomic [OF run(1) _ run(2)] by auto
qed

end
