(* ===== verification/Spec2Isabelle.thy ===== *)
theory Spec2Isabelle
  imports Account_Locks Thread_Locks In_Flight Fifo_Trace Vote_Safety Batch_Safety
begin

text \<open>
  \<^bold>\<open>A verification library for parts of the Rakurai validator.\<close>

  The validator (a fork of the Agave and Jito clients, sources under \<open>src/\<close>) receives transactions,
  schedules them so that conflicting ones never run together, executes them against accounts under
  the rules of the runtime, and votes on the resulting blocks. The library models groups of
  components, each from its source, and proves what the others rely on.

  \<^bold>\<open>Account locks and thread assignment\<close> (\<open>Lock_Table\<close>, \<open>Account_Locks\<close>, \<open>Thread_Set\<close>, \<open>Thread_Locks\<close>,
  \<open>In_Flight\<close>).
  \<^item> \<open>accounts-db/src/account_locks.rs\<close>: read and write counts per account. Locking a batch grants
    exactly what a specification on multisets of locks grants, unlocking restores the table, and
    the validation of the lock set of a transaction is equivalent to its specification.
  \<^item> \<open>scheduling-utils/src/thread_aware_account_locks.rs\<close>: locks that remember the thread. A
    transaction gets a thread only if no other thread holds a conflicting lock.
  \<^item> \<open>core/src/banking_stage/transaction_scheduler/in_flight_tracker.rs\<close>: after every sequence of
    operations the totals per thread are exactly those of the batches in flight.

  \<^bold>\<open>The unified scheduler\<close> (\<open>BTree_Map\<close>, \<open>Usage_Queue\<close>, \<open>Unified_Scheduler\<close>, \<open>Fifo_Queue\<close>,
  \<open>Fifo_Scheduler\<close>, \<open>Fifo_Invariant\<close>, \<open>Fifo_Trace\<close>).
  \<^item> \<open>unified-scheduler-logic/src/lib.rs\<close>: the usage queue of an address in both representations and
    all operations of the scheduling state machine. The token cells of the source are explicit
    stores. The theorems are about the first-in-first-out capability: on every reachable state
    scheduling and descheduling do not panic and a restart panics exactly when it is called too
    early, a task runs exactly when no earlier active task conflicts with it, running
    tasks are isolated, and draining the machine ends.

  \<^bold>\<open>Votes\<close> (\<open>Vote_Interface\<close>, \<open>Slice_Search\<close>, \<open>Vote_Handler\<close>, \<open>Vote_Tower\<close>, \<open>Vote_Check\<close>, \<open>Vote_Update\<close>).
  \<^item> \<open>programs/vote/src/vote_state/handler.rs\<close> and \<open>mod.rs\<close>: votes, vote state updates and tower syncs on
    a vote state. \<open>core/src/consensus/tower_vote_state.rs\<close>: the tower of the validator itself.
  \<^item> The crate \<open>solana-vote-interface\<close> is outside the repository. Its functions are the record
    \<open>vote_interface\<close>, its documented behaviour the predicate \<open>lockout_laws\<close>; the instance
    \<open>doubling_lockouts\<close> shows that the predicate can hold.
  \<^item> The on-chain state refines the tower, an accepted tower sync never breaks a lockout, a
    validator that follows its tower is accepted, and no tower sync panics.

  \<^bold>\<open>Accounts of a transaction\<close> (\<open>Transaction_Accounts\<close>, \<open>Borrowed_Account\<close>, \<open>Account_Rules\<close>,
  \<open>Transaction_Context\<close>, \<open>Instruction_Stack\<close>).
  \<^item> \<open>transaction-context/src/transaction_accounts.rs\<close>, \<open>instruction_accounts.rs\<close>, \<open>instruction.rs\<close> and
    \<open>transaction.rs\<close>: the accounts with their borrow counters, the operations of a program on a
    borrowed account, and the stack and trace of instructions.
  \<^item> \<open>account_step\<close> collects the operations a program has. Every sequence of them respects ownership
    and writability, keeps the recorded totals exact and bounds the growth of data.
    \<open>context_trace\<close> is the run of a transaction: its stack agrees with its trace, and an
    instruction that ends successfully has conserved the lamports.

  \<^bold>\<open>The system program\<close> (\<open>System_Program\<close>, \<open>Account_Contract\<close>, \<open>System_Safety\<close>, \<open>System_Accounts\<close>).
  \<^item> \<open>programs/system/src/system_processor.rs\<close> and \<open>system_instruction.rs\<close>: every instruction after
    decoding, with the durable nonces. Seeds, error codes, sysvars and the encoding of nonces are the
    record \<open>system_env\<close>, with the laws \<open>nonce_laws\<close> and the instance \<open>example_env\<close>.
  \<^item> The locale \<open>account_contract\<close> says what a relation between accounts must satisfy to be kept by
    every program made of operations on borrowed accounts. Its interpretation \<open>confined\<close> is the
    confinement of a program to its rights; the vote program uses the same locale.
  \<^item> Lamports are spent and owners assigned only with the required signatures, the program is
    confined and balanced, an account is created only from an empty one, and a nonce advances at
    most once per blockhash.

  \<^bold>\<open>Vote accounts\<close> (\<open>Vote_Account\<close>, \<open>Vote_Program\<close>, \<open>Vote_Safety\<close>).
  \<^item> \<open>programs/vote/src/vote_processor.rs\<close> and the functions of \<open>vote_state/mod.rs\<close> and \<open>handler.rs\<close> that
    read or write the vote account. Serialization, the map of authorized voters and the BLS
    signatures are the record \<open>vote_env\<close>, with the laws \<open>vote_state_laws\<close> and the instance
    \<open>example_vote_env\<close>. The call of the system program in a deposit is an argument.
  \<^item> Without the withdrawer no instruction changes who controls a vote account or empties it, a
    withdrawal leaves rent and pending rewards, and the program is confined to its rights.

  \<^bold>\<open>Running a message\<close> (\<open>Invoke_Context\<close>, \<open>Privileges\<close>, \<open>Call_Trace\<close>, \<open>Call_Safety\<close>, \<open>Message_Run\<close>,
  \<open>Message_Safety\<close>).
  \<^item> \<open>program-runtime/src/invoke_context.rs\<close>: \<open>process_message\<close> prepares the instructions of a message and
    runs them; \<open>native_invoke_signed\<close> prepares a call, enters it, runs the program and leaves it. A
    program is a tree of changes of the accounts and calls, and the program cache a function to such
    trees; loaders, program addresses and precompiles are the record \<open>runtime_env\<close>.
  \<^item> \<open>running\<close> is the relation of the states that a message can reach while its programs call each
    other. In all of them rights come from the message or from derived addresses, the levels of a
    program on the stack are adjacent, and read-only accounts are unchanged.
  \<^item> The functions follow this relation, return a result for every sanitized message, and after
    success the lamports are those before. The hypothesis on the programs, \<open>programs_lawful\<close>, is that
    each step is confined to the rights of the instruction; \<open>system_program_lawful\<close> proves it for
    the system program.

  \<^bold>\<open>Batches of transactions\<close> (\<open>Rent_State\<close>, \<open>Account_Loader\<close>, \<open>Batch_Processor\<close>, \<open>Loader_View\<close>, \<open>Execution\<close>,
  \<open>Batch_Step\<close>, \<open>Rent_Safety\<close>, \<open>Batch_Safety\<close>).
  \<^item> \<open>svm/src/transaction_processor.rs\<close>: a batch is processed transaction by transaction; the nonce and the
    fee payer are validated, the accounts loaded, the message run with the functions of the group
    before, and rent states and balances checked. \<open>svm/src/account_loader.rs\<close> keeps the accounts the batch
    has seen, \<open>rollback_accounts.rs\<close> those a failed transaction leaves, \<open>rent_calculator.rs\<close> and
    \<open>transaction_account_state_info.rs\<close> the rent states, \<open>transaction_balances.rs\<close> the recorded balances.
    \<open>runtime/src/account_saver.rs\<close> collects the accounts to store.
  \<^item> The accounts database and the formats of nonces, tokens and loaders are the record \<open>svm_env\<close>. Its laws
    are \<open>svm_laws\<close>, \<open>nonce_format\<close> and \<open>database_live\<close>, with the instance \<open>example_svm\<close>; what a sanitized
    transaction satisfies is \<open>transaction_sane\<close> and \<open>step_sane\<close>. The programs that a transaction finds in
    the program cache are an argument, one environment for each position in the batch.
  \<^item> \<open>live\<close> is what the loader shows to the next transaction. Each transaction changes it exactly by the
    accounts that are stored for it. So a batch loses its fees and no other lamports, a failed
    transaction costs its fee and nothing else, its nonce is used up, a batch to be committed as
    a whole stores all or nothing, and a successful transaction leaves an account below the
    rent-exempt minimum only if the rules on rent states allow it.

  \<^bold>\<open>Conventions.\<close> Machine integers are words of their width; plain operators wrap, the checked and
  saturating operations are those of \<open>Prelude\<close>; signed integers are \<open>int\<close> with their bounds written
  out. A panic is \<open>None\<close>, a \<open>Result\<close> is a sum with the error on the left. Loops are structural
  recursion or functions with a termination proof. Only \<open>native_invoke_signed\<close> has fuel, which bounds
  the depth of nested calls: fuel for the capacity of the instruction stack is enough, since a call
  beyond it fails when it is pushed, and more fuel does not change the result. Hash maps are
  partial functions and ordered maps sorted association lists.

  \<^bold>\<open>Bounds in the theorems.\<close> A vote state has fewer than \<open>2 ^ 32\<close> votes, which keeps the sum of credits
  within 64 bits; the accounts of a transaction start with less than \<open>2 ^ 62\<close> bytes of data and the
  trace holds fewer than \<open>2 ^ 16\<close> instructions, so that no counter saturates. A transaction has at most
  256 accounts and an instruction fewer than \<open>2 ^ 16\<close> account references, as the wire format ensures.

  \<^bold>\<open>Not modelled.\<close> The priority capability of the unified scheduler has its definitions but no
  invariant. What a program of the virtual machine does, its memory and its system calls are outside:
  such a program appears only as a tree of steps. The program cache, recorded inner instructions, the
  inspection of loaded accounts for the bank, the handler for access violations, logs and timings,
  and everything that is network, storage or process control are left out.
\<close>

end
